(* ===== verification/Machine.thy ===== *)
theory Machine
  imports "HOL-Library.Word" "HOL-Library.Monad_Syntax"
begin

text \<open>
  The prelude: the i386 machine as every component of the kernel sees it.
  Machine integers are words of their C width; memory is a total map from 32-bit
  addresses to bytes with little-endian accesses; port I/O is a log of events, with
  the answers of the devices given by a parameter. The generic lemmas on memory
  (a store is read back, disjoint accesses commute) are collected in \<open>mem_simps\<close>.
\<close>

unbundle bit_operations_syntax

named_theorems mem_simps \<open>reading memory after a store\<close>

section \<open>Machine integers\<close>

type_synonym u8 = "8 word"
type_synonym u16 = "16 word"
type_synonym u32 = "32 word"
type_synonym u64 = "64 word"

text \<open>A C \<open>int\<close>: the same 32 bits, read by \<open>sint\<close> and compared by \<open><s\<close>.\<close>

type_synonym i32 = "32 word"

text \<open>The bytes of a string literal.\<close>

definition ascii :: "string \<Rightarrow> u8 list" where
  "ascii cs = map (\<lambda>c. of_nat (of_char c)) cs"

text \<open>
  The arguments behind the dots of a variadic function: a promoted integer or a string,
  which the functions only read and which stands for its bytes.
\<close>

datatype va_arg = VaWord u32 | VaStr "u8 list"

section \<open>Memory\<close>

type_synonym memory = "u32 \<Rightarrow> u8"

definition load16 :: "memory \<Rightarrow> u32 \<Rightarrow> u16" where
  "load16 m a = ucast (m a) OR push_bit 8 (ucast (m (a + 1)))"

definition load32 :: "memory \<Rightarrow> u32 \<Rightarrow> u32" where
  "load32 m a = ucast (m a) OR push_bit 8 (ucast (m (a + 1)))
     OR push_bit 16 (ucast (m (a + 2))) OR push_bit 24 (ucast (m (a + 3)))"

definition load64 :: "memory \<Rightarrow> u32 \<Rightarrow> u64" where
  "load64 m a = ucast (load32 m a) OR push_bit 32 (ucast (load32 m (a + 4)))"

definition store16 :: "memory \<Rightarrow> u32 \<Rightarrow> u16 \<Rightarrow> memory" where
  "store16 m a v = m(a := ucast v, a + 1 := ucast (drop_bit 8 v))"

definition store32 :: "memory \<Rightarrow> u32 \<Rightarrow> u32 \<Rightarrow> memory" where
  "store32 m a v = m(a := ucast v, a + 1 := ucast (drop_bit 8 v),
     a + 2 := ucast (drop_bit 16 v), a + 3 := ucast (drop_bit 24 v))"

text \<open>
  An address \<open>x\<close> lies in the \<open>n\<close> bytes that start at \<open>a\<close>; the distance is taken
  on words, so a region that wraps around the address space is covered too.
\<close>

definition in_region :: "u32 \<Rightarrow> nat \<Rightarrow> u32 \<Rightarrow> bool" where
  "in_region a n x \<longleftrightarrow> unat (x - a) < n"

text \<open>Two memories agree outside a region.\<close>

definition same_outside :: "u32 \<Rightarrow> nat \<Rightarrow> memory \<Rightarrow> memory \<Rightarrow> bool" where
  "same_outside a n m m' \<longleftrightarrow> (\<forall>x. \<not> in_region a n x \<longrightarrow> m' x = m x)"

text \<open>The bytes \<open>xs\<close> are stored from address \<open>a\<close> on.\<close>

definition mem_at :: "memory \<Rightarrow> u32 \<Rightarrow> u8 list \<Rightarrow> bool" where
  "mem_at m a xs \<longleftrightarrow> (\<forall>i < length xs. m (a + of_nat i) = xs ! i)"

text \<open>A null-terminated C string with contents \<open>xs\<close> starts at \<open>a\<close>.\<close>

definition cstr :: "memory \<Rightarrow> u32 \<Rightarrow> u8 list \<Rightarrow> bool" where
  "cstr m a xs \<longleftrightarrow> 0 \<notin> set xs \<and> mem_at m a (xs @ [0])"

subsection \<open>Addresses\<close>

lemma unat_of_nat_u32 [simp]: "i < 2 ^ 32 \<Longrightarrow> unat (of_nat i :: u32) = i"
  by (simp add: unat_of_nat)

lemma word_of_nat_unat_u32: "of_nat (unat x) = x" for x :: u32
  by simp

lemma of_nat_u32_inj [simp]:
  assumes "i < 2 ^ 32" and "j < 2 ^ 32"
  shows "(of_nat i :: u32) = of_nat j \<longleftrightarrow> i = j"
  using assms by (metis unat_of_nat_u32)

lemma unat_u32_bound [simp]: "unat (x :: u32) < 4294967296"
  using unsigned_less [of x] by simp

lemma unat_minus_one_u32: "x \<noteq> 0 \<Longrightarrow> unat (x - 1) = unat x - 1" for x :: u32
  by (simp add: unat_minus_one)

text \<open>The measure of a loop that counts an index \<open>i\<close> up to \<open>count\<close>.\<close>

lemma index_measure: "i < count \<Longrightarrow> unat (count - (i + 1)) < unat (count - i)" for i :: u32
proof -
  assume "i < count"
  then have "count - i \<noteq> 0" by auto
  moreover have "count - (i + 1) = count - i - 1" by simp
  ultimately show ?thesis by (metis measure_unat)
qed

lemma in_region_Suc:
  "in_region a (Suc n) x \<longleftrightarrow> x = a \<or> in_region (a + 1) n x"
proof (cases "x = a")
  case False
  then have "x - a \<noteq> 0" by simp
  moreover from this have "unat (x - a) \<noteq> 0" by (simp add: unat_eq_zero)
  moreover have "x - (a + 1) = x - a - 1" by simp
  ultimately have "unat (x - (a + 1)) = unat (x - a) - 1"
    using unat_minus_one_u32 [of "x - a"] by metis
  with \<open>unat (x - a) \<noteq> 0\<close> False show ?thesis
    unfolding in_region_def by linarith
qed (simp add: in_region_def)

lemma of_nat_Suc_pos_u32: "Suc n < 2 ^ 32 \<Longrightarrow> (0 :: u32) < of_nat (Suc n)"
  by (simp add: word_less_nat_alt del: of_nat_Suc)

lemma sint_eq_iff: "sint x = sint y \<longleftrightarrow> x = y" for x y :: "'a :: len word"
  by (auto intro: signed_word_eqI)

lemma sint_0_iff: "sint x = 0 \<longleftrightarrow> x = 0" for x :: "'a :: len word"
  using sint_eq_iff [of x 0] by simp

lemma word_of_int_inj_u32:
  assumes "\<bar>a - b\<bar> < 2 ^ 32"
  shows "(word_of_int a :: u32) = word_of_int b \<longleftrightarrow> a = b"
proof
  assume "(word_of_int a :: u32) = word_of_int b"
  then have "a mod 2 ^ 32 = b mod 2 ^ 32" by (simp only: word_of_int_eq_iff take_bit_eq_mod len_bit0 len_num1) simp
  then have "2 ^ 32 dvd a - b" by (rule mod_eq_dvd_iff [THEN iffD1])
  then show "a = b" using assms dvd_imp_le_int [of "a - b" "2 ^ 32"] by fastforce
qed simp

lemma uint_sint_nonneg: "0 \<le> sint x \<Longrightarrow> uint x = sint x" for x :: u32
proof -
  assume "0 \<le> sint x"
  moreover have "sint x < 2 ^ 32" using sint_less [of x] by simp
  ultimately show ?thesis unfolding uint_sint by (simp add: take_bit_int_eq_self)
qed

lemma unat_sint_nonneg: "0 \<le> sint x \<Longrightarrow> int (unat x) = sint x" for x :: u32
  using uint_sint_nonneg [of x] by simp

lemma div_bounds: "0 < d \<Longrightarrow> d * (k div d) \<le> k \<and> k < d * (k div d) + d" for k d :: nat
  using mult_div_mod_eq [of d k] mod_less_divisor [of d k] by linarith

lemma and_not_0xfff: "x AND NOT 0xfff = x - x mod 4096" for x :: "u32"
proof -
  have m: "(0xfff :: u32) = mask 12" by (simp add: mask_eq_exp_minus_1)
  have "(x AND mask 12) + (x AND NOT (mask 12)) = x"
  proof -
    have "(x AND mask 12) AND (x AND NOT (mask 12)) = 0" by (rule bit_word_eqI) (auto simp: bit_simps)
    then have "(x AND mask 12) + (x AND NOT (mask 12)) = (x AND mask 12) OR (x AND NOT (mask 12))"
      by (rule disjunctive_add_eq_or)
    also have "\<dots> = x" by (rule bit_word_eqI) (auto simp: bit_simps)
    finally show ?thesis .
  qed
  moreover have "x AND mask 12 = x mod 4096"
    using take_bit_eq_mod [of 12 x] by (simp add: take_bit_eq_mask)
  ultimately show ?thesis unfolding m by (metis add_diff_cancel_left')
qed
lemma unat_page_down: "unat (x AND NOT 0xfff) = 4096 * (unat x div 4096)" for x :: "u32"
proof -
  have "unat (x - x mod 4096) = unat x - unat x mod 4096"
    by (subst unat_sub) (simp_all add: word_le_nat_alt unat_mod)
  also have "\<dots> = 4096 * (unat x div 4096)" by (simp add: minus_mod_eq_mult_div)
  finally show ?thesis by (simp only: and_not_0xfff)
qed
lemma in_region_0 [simp]: "\<not> in_region a 0 x"
  by (simp add: in_region_def)

lemma in_region_pos:
  "0 < n \<Longrightarrow> in_region a (unat n) x \<longleftrightarrow> x = a \<or> in_region (a + 1) (unat (n - 1)) x" for n :: u32
  using in_region_Suc [of a "unat (n - 1)" x] unat_minus_one_u32 [of n]
  by (simp add: unat_gt_0 word_gt_0)

lemma in_region_iff: "n \<le> 2 ^ 32 \<Longrightarrow> in_region a n x \<longleftrightarrow> (\<exists>i < n. x = a + of_nat i)"
proof
  assume "n \<le> 2 ^ 32" and r: "in_region a n x"
  have "x = a + of_nat (unat (x - a))" by simp
  with r show "\<exists>i < n. x = a + of_nat i" by (auto simp: in_region_def)
next
  assume "n \<le> 2 ^ 32" and "\<exists>i < n. x = a + of_nat i"
  then show "in_region a n x" by (auto simp: in_region_def)
qed

lemma in_regionI: "i < n \<Longrightarrow> n \<le> 2 ^ 32 \<Longrightarrow> in_region a n (a + of_nat i)"
  by (auto simp: in_region_iff)

lemma same_outside_refl [simp]: "same_outside a n m m"
  by (simp add: same_outside_def)

lemma same_outside_trans:
  "same_outside a n m1 m2 \<Longrightarrow> same_outside a n m2 m3 \<Longrightarrow> same_outside a n m1 m3"
  by (simp add: same_outside_def)

lemma same_outside_upd: "in_region a n x \<Longrightarrow> same_outside a n m (m(x := v))"
  by (auto simp: same_outside_def)

subsection \<open>Stores are read back\<close>

lemma word_add_neq [simp]:
  "(a + 1 = a) = False" "(a + 2 = a) = False" "(a + 3 = a) = False"
  "(a = a + 1) = False" "(a = a + 2) = False" "(a = a + 3) = False"
  for a :: u32
  by simp_all

lemma load16_store16_same [mem_simps]: "load16 (store16 m a v) a = v"
  unfolding load16_def store16_def
  by (rule bit_word_eqI) (auto simp: bit_simps)

lemma load32_store32_same [mem_simps]: "load32 (store32 m a v) a = v"
  unfolding load32_def store32_def
  apply (rule bit_word_eqI)
  subgoal for n
    by (cases "n < 8"; cases "n < 16"; cases "n < 24") (auto simp: bit_simps)
  done

subsection \<open>Disjoint accesses\<close>

text \<open>A word access at \<open>a\<close> and one at \<open>b\<close> share no byte.\<close>

definition apart :: "u32 \<Rightarrow> u32 \<Rightarrow> bool" where
  "apart a b \<longleftrightarrow> 4 \<le> unat (a - b) \<and> 4 \<le> unat (b - a)"

lemma apart_sym: "apart a b \<Longrightarrow> apart b a"
  by (simp add: apart_def)

lemma store32_other: "4 \<le> unat (x - a) \<Longrightarrow> store32 m a v x = m x"
  by (auto simp: store32_def)

lemma unat_add_small:
  fixes x :: u32
  assumes "unat x + i < 2 ^ 32"
  shows "unat (x + of_nat i) = unat x + i"
  using assms by (simp add: unat_plus_if' unat_of_nat)

lemma region_range:
  assumes "unat a + n \<le> 2 ^ 32"
  shows "in_region a n x \<longleftrightarrow> unat a \<le> unat x \<and> unat x < unat a + n"
proof -
  have u: "unat (a + of_nat i) = unat a + i" if "i < n" for i using that assms by (intro unat_add_small) linarith
  have "x = a + of_nat (unat x - unat a)" if "unat a \<le> unat x" "unat x < unat a + n"
    using u [of "unat x - unat a"] that by (simp add: word_unat_eq_iff)
  then show ?thesis using u assms by (subst in_region_iff) (auto intro: exI [of _ "unat x - unat a"])
qed

lemma apart_offset:
  assumes "apart a b" and "i < 4"
  shows "4 \<le> unat (b + of_nat i - a)"
proof -
  define x where "x = b - a"
  have "a - b = 0 - x" by (simp add: x_def)
  then have "x \<noteq> 0" and "4 \<le> 2 ^ 32 - unat x"
    using assms(1) unat_sub_if' [of 0 x] by (auto simp: apart_def x_def split: if_splits)
  then have "unat x \<le> 2 ^ 32 - 4" by linarith
  then have "unat (x + of_nat i) = unat x + i"
    using assms(2) by (intro unat_add_small) simp
  moreover have "b + of_nat i - a = x + of_nat i" by (simp add: x_def)
  moreover have "4 \<le> unat x" using assms(1) by (simp add: apart_def x_def)
  ultimately show ?thesis by (metis trans_le_add1)
qed

lemma load32_cong:
  "m a = m' a \<Longrightarrow> m (a + 1) = m' (a + 1) \<Longrightarrow> m (a + 2) = m' (a + 2) \<Longrightarrow> m (a + 3) = m' (a + 3)
   \<Longrightarrow> load32 m a = load32 m' a"
  by (simp add: load32_def)

lemma load32_store32_apart [mem_simps]:
  assumes "apart a b"
  shows "load32 (store32 m a v) b = load32 m b"
  using apart_offset [OF assms, of 0] apart_offset [OF assms, of 1]
    apart_offset [OF assms, of 2] apart_offset [OF assms, of 3]
  by (intro load32_cong) (simp_all add: store32_other)

lemma load16_cong: "m a = m' a \<Longrightarrow> m (a + 1) = m' (a + 1) \<Longrightarrow> load16 m a = load16 m' a"
  by (simp add: load16_def)

lemma load16_store16_apart [mem_simps]:
  "a \<noteq> b \<Longrightarrow> a + 1 \<noteq> b \<Longrightarrow> b + 1 \<noteq> a \<Longrightarrow> load16 (store16 m a v) b = load16 m b"
  by (intro load16_cong) (auto simp: store16_def)

text \<open>Two elements of an array of words are the same or share no byte.\<close>

definition elem :: "u32 \<Rightarrow> nat \<Rightarrow> u32" where
  "elem base i = base + 4 * of_nat i"

lemma elem_diff: "i < 2 ^ 30 \<Longrightarrow> j < i \<Longrightarrow> unat (elem b i - elem b j) = 4 * (i - j)"
proof -
  assume a: "i < 2 ^ 30" "j < i"
  then have "elem b i - elem b j = of_nat (4 * (i - j))"
    by (simp add: elem_def algebra_simps)
  moreover have "4 * (i - j) < 2 ^ 32" using a by simp
  ultimately show ?thesis using unat_of_nat_u32 by presburger
qed

lemma elem_apart:
  assumes "i < 2 ^ 30" "j < 2 ^ 30" "i \<noteq> j"
  shows "apart (elem b i) (elem b j)"
proof -
  have *: "apart (elem b i) (elem b j)" if "i < 2 ^ 30" "j < i" for i j
  proof -
    have d: "unat (elem b i - elem b j) = 4 * (i - j)" using that by (rule elem_diff)
    have "elem b j - elem b i = 0 - (elem b i - elem b j)" by simp
    then have e: "unat (elem b j - elem b i) = 4294967296 - 4 * (i - j)"
      using d that unat_sub_if' [of 0 "elem b i - elem b j"] by simp
    define n where "n = i - j"
    have "1 \<le> n" and "n < 1073741824" using that by (simp_all add: n_def)
    then show ?thesis unfolding apart_def d e n_def [symmetric] by linarith
  qed
  show ?thesis
  proof (cases "j < i")
    case True
    then show ?thesis using assms * by blast
  next
    case False
    then show ?thesis using assms * [of j i] apart_sym by auto
  qed
qed

lemma load32_store32_elem [mem_simps]:
  "i < 2 ^ 30 \<Longrightarrow> j < 2 ^ 30 \<Longrightarrow>
   load32 (store32 m (elem b i) v) (elem b j) = (if i = j then v else load32 m (elem b j))"
  by (simp add: load32_store32_same load32_store32_apart elem_apart)

lemma store32_same_outside:
  "i < n \<Longrightarrow> n \<le> 2 ^ 30 \<Longrightarrow> same_outside b (4 * n) m (store32 m (elem b i) v)"
proof (unfold same_outside_def, intro allI impI)
  fix x assume a: "i < n" "n \<le> 2 ^ 30" and out: "\<not> in_region b (4 * n) x"
  have "x \<noteq> elem b i + of_nat k" if "k < 4" for k
  proof
    assume "x = elem b i + of_nat k"
    then have "x = b + of_nat (4 * i + k)" by (simp add: elem_def)
    moreover have "in_region b (4 * n) (b + of_nat (4 * i + k))"
      using a that by (intro in_regionI) auto
    ultimately show False using out by simp
  qed
  from this [of 0] this [of 1] this [of 2] this [of 3]
  show "store32 m (elem b i) v x = m x" by (simp add: store32_def)
qed

lemma load32_same_outside:
  assumes "same_outside a n m m'" and "\<And>k. k < 4 \<Longrightarrow> \<not> in_region a n (b + of_nat k)"
  shows "load32 m' b = load32 m b"
  using assms(1) assms(2) [of 0] assms(2) [of 1] assms(2) [of 2] assms(2) [of 3]
  by (intro load32_cong) (auto simp: same_outside_def)

text \<open>A word inside a region that is the same, byte for byte, in another memory.\<close>

lemma load32_moved:
  assumes "\<forall>i < n. m' (q + of_nat i) = m (p + of_nat i)" "off + 4 \<le> n"
  shows "load32 m' (q + of_nat off) = load32 m (p + of_nat off)"
proof -
  have "m' (q + of_nat off + of_nat k) = m (p + of_nat off + of_nat k)" if "k < 4" for k
  proof -
    have "m' (q + of_nat (off + k)) = m (p + of_nat (off + k))"
      using assms(1) [rule_format, of "off + k"] assms(2) that by simp
    then show ?thesis by (simp add: add.assoc)
  qed
  from this [of 0] this [of 1] this [of 2] this [of 3] show ?thesis by (simp add: load32_def)
qed

subsection \<open>Bytes and strings in memory\<close>

lemma mem_at_Nil [simp]: "mem_at m a []"
  by (simp add: mem_at_def)

lemma mem_at_Cons [simp]: "mem_at m a (x # xs) \<longleftrightarrow> m a = x \<and> mem_at m (a + 1) xs"
proof -
  have "(\<forall>i < Suc (length xs). m (a + of_nat i) = (x # xs) ! i) \<longleftrightarrow>
        m a = x \<and> (\<forall>i < length xs. m (a + 1 + of_nat i) = xs ! i)"
    by (simp add: All_less_Suc2 add.assoc)
  then show ?thesis by (simp add: mem_at_def)
qed

lemma mem_at_append:
  "mem_at m a (xs @ ys) \<longleftrightarrow> mem_at m a xs \<and> mem_at m (a + of_nat (length xs)) ys"
  by (induction xs arbitrary: a) (auto simp: add.assoc)

lemma cstr_Nil [simp]: "cstr m a [] \<longleftrightarrow> m a = 0"
  by (simp add: cstr_def)

lemma cstr_Cons [simp]: "cstr m a (x # xs) \<longleftrightarrow> x \<noteq> 0 \<and> m a = x \<and> cstr m (a + 1) xs"
  by (auto simp: cstr_def)

lemma cstr_unique: "cstr m a xs \<Longrightarrow> cstr m a ys \<Longrightarrow> xs = ys"
proof (induction xs arbitrary: a ys)
  case Nil
  then show ?case by (cases ys) auto
next
  case (Cons x xs)
  then show ?case by (cases ys) auto
qed

lemma mem_at_outside:
  assumes "same_outside b n m m'" "mem_at m a xs"
    and "\<And>i. i < length xs \<Longrightarrow> \<not> in_region b n (a + of_nat i)"
  shows "mem_at m' a xs"
  using assms by (auto simp: mem_at_def same_outside_def)

text \<open>The memory after the bytes \<open>xs\<close> were written from \<open>a\<close> on.\<close>

definition write_bytes :: "memory \<Rightarrow> u32 \<Rightarrow> u8 list \<Rightarrow> memory" where
  "write_bytes m a xs = (\<lambda>x. if in_region a (length xs) x then xs ! unat (x - a) else m x)"

lemma write_bytes_Nil [simp]: "write_bytes m a [] = m"
  by (simp add: write_bytes_def)

lemma write_bytes_at: "i < length xs \<Longrightarrow> length xs \<le> 2 ^ 32 \<Longrightarrow> write_bytes m a xs (a + of_nat i) = xs ! i"
  by (simp add: write_bytes_def in_region_def)

lemma mem_at_write_bytes: "length xs \<le> 2 ^ 32 \<Longrightarrow> mem_at (write_bytes m a xs) a xs"
  by (simp add: mem_at_def write_bytes_at)

lemma same_outside_write_bytes: "same_outside a (length xs) m (write_bytes m a xs)"
  by (simp add: same_outside_def write_bytes_def)

lemma write_bytes_snoc:
  assumes "Suc (length xs) < 2 ^ 32"
  shows "write_bytes (m(a + of_nat (length xs) := y)) a xs = write_bytes m a (xs @ [y])"
proof
  fix x
  show "write_bytes (m(a + of_nat (length xs) := y)) a xs x = write_bytes m a (xs @ [y]) x"
  proof (cases "unat (x - a) = length xs")
    case True
    have "x = a + of_nat (unat (x - a))" by simp
    then have "x = a + of_nat (length xs)" unfolding True .
    then show ?thesis using assms by (simp add: write_bytes_def in_region_def)
  next
    case False
    then have "x \<noteq> a + of_nat (length xs)" using assms by auto
    then show ?thesis using False by (auto simp: write_bytes_def in_region_def nth_append)
  qed
qed

lemma write_bytes_Cons:
  assumes "Suc (length xs) < 2 ^ 32"
  shows "write_bytes (m(a := x)) (a + 1) xs = write_bytes m a (x # xs)"
proof
  fix y
  show "write_bytes (m(a := x)) (a + 1) xs y = write_bytes m a (x # xs) y"
  proof (cases "y = a")
    case True
    have "unat (a - (a + 1)) = 4294967295" by (simp add: unsigned_minus_1_eq_mask mask_eq_exp_minus_1)
    then show ?thesis using True assms by (simp add: write_bytes_def in_region_def)
  next
    case False
    then have "unat (y - (a + 1)) = unat (y - a) - 1" and "unat (y - a) \<noteq> 0"
      using unat_minus_one_u32 [of "y - a"] by (simp_all add: diff_diff_eq [symmetric] unat_eq_zero)
    then show ?thesis using False by (auto simp: write_bytes_def in_region_def nth_Cons split: nat.split)
  qed
qed

subsection \<open>Words in regions\<close>

lemma load32_region: "(\<And>x. in_region a 4 x \<Longrightarrow> m' x = m x) \<Longrightarrow> load32 m' a = load32 m a"
  by (intro load32_cong) (simp_all add: in_region_def)

lemma store32_region: "\<not> in_region a 4 x \<Longrightarrow> store32 m a v x = m x"
  by (intro store32_other) (simp add: in_region_def)

lemma sub_region:
  assumes "in_region (a + of_nat k) j x" "k + j \<le> n" "n \<le> 2 ^ 32"
  shows "in_region a n x"
proof -
  obtain i where i: "i < j" "x = a + of_nat k + of_nat i" using assms in_region_iff [of j] by auto
  then have "x = a + of_nat (k + i)" "k + i < n" using assms(2) by simp_all
  then show ?thesis using in_region_iff [OF assms(3)] by blast
qed

section \<open>Port I/O\<close>

text \<open>
  What the program does to the devices is a log of events, oldest first. The answer of a
  device to a read depends on everything done before: it is given by a function
  \<open>dev\<close> of the log and the port, a parameter of every operation that reads a port.
\<close>

datatype io_event = Out u16 u8 | In u16 u8

type_synonym device = "io_event list \<Rightarrow> u16 \<Rightarrow> u8"

record machine =
  mem :: memory
  io :: "io_event list"

text \<open>
  The two phases of the kernel have an error variable each: \<open>kinit_errno\<close> (bootstub.asm)
  before paging, \<open>_kerrno\<close>, which errno.h calls \<open>errno\<close>, after.
\<close>

record kinit = machine +
  kinit_errno :: u32

record kernel = machine +
  errno :: u32

text \<open>\<open>inportb\<close> and \<open>outportb\<close> of the kernel's ports.h; the early code's copies are in
  the theory of the early terminal.\<close>

definition inportb :: "device \<Rightarrow> u16 \<Rightarrow> 'a machine_scheme \<Rightarrow> u8 \<times> 'a machine_scheme" where
  "inportb dev port s = (let v = dev (io s) port in (v, s\<lparr>io := io s @ [In port v]\<rparr>))"

definition outportb :: "u16 \<Rightarrow> u8 \<Rightarrow> 'a machine_scheme \<Rightarrow> 'a machine_scheme" where
  "outportb port v s = s\<lparr>io := io s @ [Out port v]\<rparr>"

text \<open>The bytes written to one port, in order.\<close>

definition written_to :: "u16 \<Rightarrow> io_event list \<Rightarrow> u8 list" where
  "written_to port log = concat (map (\<lambda>e. case e of Out p v \<Rightarrow> if p = port then [v] else [] | In p v \<Rightarrow> []) log)"

lemma written_to_simps [simp]:
  "written_to port [] = []"
  "written_to port (Out p v # l) = (if p = port then v # written_to port l else written_to port l)"
  "written_to port (In p v # l) = written_to port l"
  "written_to port (l @ l') = written_to port l @ written_to port l'"
  by (simp_all add: written_to_def)

section \<open>Character sinks\<close>

text \<open>
  The interface between everything that prints and the two terminal drivers: a character that is
  safe to write keeps the driver's invariant and changes the state only as far as \<open>rel\<close> allows.
\<close>

locale character_sink =
  fixes put :: "'c \<Rightarrow> 's \<Rightarrow> 's" and ok :: "'s \<Rightarrow> bool" and safe :: "'c \<Rightarrow> bool" and rel :: "'s \<Rightarrow> 's \<Rightarrow> bool"
  assumes rel_refl: "ok s \<Longrightarrow> rel s s"
    and rel_trans: "rel s1 s2 \<Longrightarrow> rel s2 s3 \<Longrightarrow> rel s1 s3"
    and put_rel: "ok s \<Longrightarrow> safe c \<Longrightarrow> rel s (put c s)"
    and put_ok: "ok s \<Longrightarrow> safe c \<Longrightarrow> ok (put c s)"
begin

lemma fold_put: "ok s \<Longrightarrow> list_all safe cs \<Longrightarrow> ok (fold put cs s) \<and> rel s (fold put cs s)"
proof (induction cs arbitrary: s)
  case (Cons c cs)
  then have "ok (put c s)" "rel s (put c s)" using put_ok put_rel by auto
  then show ?case using Cons.IH [of "put c s"] Cons.prems rel_trans by auto
qed (simp add: rel_refl)

end

text \<open>
  A driver that implements a specification, character by character: \<open>view\<close> reads the
  abstract terminal off the state.
\<close>

locale terminal_driver =
  fixes put :: "'c \<Rightarrow> 's \<Rightarrow> 's" and ok :: "'s \<Rightarrow> bool" and view :: "'s \<Rightarrow> 'v" and spec :: "'c \<Rightarrow> 'v \<Rightarrow> 'v"
  assumes keeps: "ok s \<Longrightarrow> ok (put c s)"
    and implements: "ok s \<Longrightarrow> view (put c s) = spec c (view s)"
begin

lemma fold_spec: "ok s \<Longrightarrow> ok (fold put cs s) \<and> view (fold put cs s) = fold spec cs (view s)"
  by (induction cs arbitrary: s) (simp_all add: keeps implements)

end

end
