(* ===== verification/Video.thy ===== *)
theory Video
  imports Machine
begin

text \<open>
  The VGA text buffer at 0xB8000, as both terminals (init/kterm.c and arch/i386/display.c)
  address it: 16-bit cells, the cell of column \<open>x\<close> and row \<open>y\<close> being number
  \<open>80 * y + x\<close>. Cell numbers are integers because both drivers can step before the first
  cell. The lemmas say how writing one cell, filling cells and scrolling change all cells.
\<close>

definition VIDEO_MEMORY :: int where "VIDEO_MEMORY = 0xB8000"
definition VIDEO_COLS :: int where "VIDEO_COLS = 80"
definition VIDEO_ROWS :: int where "VIDEO_ROWS = 25"

definition cell_addr :: "int \<Rightarrow> u32" where
  "cell_addr i = word_of_int (VIDEO_MEMORY + 2 * i)"

definition cell :: "memory \<Rightarrow> int \<Rightarrow> u16" where
  "cell m i = load16 m (cell_addr i)"

definition set_cell :: "int \<Rightarrow> u16 \<Rightarrow> memory \<Rightarrow> memory" where
  "set_cell i v m = store16 m (cell_addr i) v"

text \<open>The cells that a cell number near the screen can be confused with are far away.\<close>

definition near :: "int \<Rightarrow> bool" where
  "near i \<longleftrightarrow> - 100000 < i \<and> i < 100000"

lemma cell_addr_eq: "near i \<Longrightarrow> near j \<Longrightarrow> cell_addr i = cell_addr j \<longleftrightarrow> i = j"
  unfolding cell_addr_def near_def by (subst word_of_int_inj_u32) auto

lemma cell_addr_odd: "near i \<Longrightarrow> near j \<Longrightarrow> cell_addr i + 1 \<noteq> cell_addr j"
proof -
  assume "near i" "near j"
  then have "word_of_int (VIDEO_MEMORY + 2 * i + 1) \<noteq> (word_of_int (VIDEO_MEMORY + 2 * j) :: u32)"
    unfolding near_def by (subst word_of_int_inj_u32) (auto, presburger)
  then show ?thesis by (simp add: cell_addr_def)
qed

lemma cell_set_cell [mem_simps]:
  "near i \<Longrightarrow> near j \<Longrightarrow> cell (set_cell i v m) j = (if i = j then v else cell m j)"
  by (simp add: cell_def set_cell_def load16_store16_same load16_store16_apart cell_addr_eq cell_addr_odd)

text \<open>Addresses outside the cells \<open>lo\<close> to \<open>hi - 1\<close>.\<close>

definition outside_cells :: "int \<Rightarrow> int \<Rightarrow> u32 \<Rightarrow> bool" where
  "outside_cells lo hi x \<longleftrightarrow> \<not> in_region (cell_addr lo) (nat (2 * (hi - lo))) x"

definition same_outside_cells :: "int \<Rightarrow> int \<Rightarrow> memory \<Rightarrow> memory \<Rightarrow> bool" where
  "same_outside_cells lo hi m m' \<longleftrightarrow> (\<forall>x. outside_cells lo hi x \<longrightarrow> m' x = m x)"

lemma same_outside_cells_refl [simp]: "same_outside_cells lo hi m m"
  by (simp add: same_outside_cells_def)

lemma same_outside_cells_trans [trans]:
  "same_outside_cells lo hi m1 m2 \<Longrightarrow> same_outside_cells lo hi m2 m3 \<Longrightarrow> same_outside_cells lo hi m1 m3"
  by (simp add: same_outside_cells_def)

lemma in_cells: "lo \<le> i \<Longrightarrow> i < hi \<Longrightarrow> near lo \<Longrightarrow> near hi \<Longrightarrow>
  \<not> outside_cells lo hi (cell_addr i) \<and> \<not> outside_cells lo hi (cell_addr i + 1)"
proof -
  assume a: "lo \<le> i" "i < hi" "near lo" "near hi"
  have "cell_addr i = cell_addr lo + of_nat (nat (2 * (i - lo)))"
    using a by (simp add: cell_addr_def algebra_simps)
  moreover from this have "cell_addr i + 1 = cell_addr lo + of_nat (Suc (nat (2 * (i - lo))))" by simp
  moreover have "Suc (nat (2 * (i - lo))) < nat (2 * (hi - lo))" "nat (2 * (hi - lo)) \<le> 2 ^ 32"
    using a by (auto simp: near_def)
  ultimately show ?thesis
    unfolding outside_cells_def by (metis Suc_lessD in_regionI)
qed

lemma set_cell_outside:
  "lo \<le> i \<Longrightarrow> i < hi \<Longrightarrow> near lo \<Longrightarrow> near hi \<Longrightarrow> same_outside_cells lo hi m (set_cell i v m)"
  using in_cells [of lo i hi] by (auto simp: same_outside_cells_def set_cell_def store16_def)

lemma same_outside_cells_mono:
  assumes "same_outside_cells lo hi m m'" "lo' \<le> lo" "hi \<le> hi'" "near lo'" "near hi'"
  shows "same_outside_cells lo' hi' m m'"
proof (unfold same_outside_cells_def, intro allI impI)
  fix x assume o: "outside_cells lo' hi' x"
  have "outside_cells lo hi x"
  proof (rule ccontr)
    assume "\<not> outside_cells lo hi x"
    moreover have "nat (2 * (hi - lo)) \<le> 2 ^ 32" using assms by (simp add: near_def nat_le_iff)
    ultimately obtain k where k: "k < nat (2 * (hi - lo))" "x = cell_addr lo + of_nat k"
      by (auto simp: outside_cells_def in_region_iff)
    then have "x = cell_addr lo' + of_nat (nat (2 * (lo - lo')) + k)"
      using assms(2) by (simp add: cell_addr_def algebra_simps)
    moreover have "nat (2 * (lo - lo')) + k < nat (2 * (hi' - lo'))" "nat (2 * (hi' - lo')) \<le> 2 ^ 32"
      using assms k(1) by (auto simp: near_def)
    ultimately have "in_region (cell_addr lo') (nat (2 * (hi' - lo'))) x" by (metis in_regionI)
    with o show False by (simp add: outside_cells_def)
  qed
  then show "m' x = m x" using assms(1) by (simp add: same_outside_cells_def)
qed

lemma off_screen: "unat x < 0xB8000 \<or> 0xB8FA0 \<le> unat x \<Longrightarrow> outside_cells 0 2000 x"
proof (rule ccontr)
  assume a: "unat x < 0xB8000 \<or> 0xB8FA0 \<le> unat x" and "\<not> outside_cells 0 2000 x"
  then obtain i where i: "i < 4000" "x = 0xB8000 + of_nat i"
    by (auto simp: outside_cells_def in_region_iff cell_addr_def VIDEO_MEMORY_def)
  then have "unat x = 0xB8000 + i" using unat_add_small [of "0xB8000" i] by simp
  with a i(1) show False by simp
qed

section \<open>Filling and scrolling\<close>

text \<open>The loop \<open>for (i = lo; i < hi; i++) dest[i] = v\<close>.\<close>

definition fill_cells :: "int \<Rightarrow> int \<Rightarrow> u16 \<Rightarrow> memory \<Rightarrow> memory" where
  "fill_cells lo hi v m = fold (\<lambda>i. set_cell i v) [lo..hi - 1] m"

text \<open>The loop \<open>for (i = 0; i < n; i++) dest[i] = dest[i + 80]\<close>.\<close>

definition copy_cells_up :: "int \<Rightarrow> memory \<Rightarrow> memory" where
  "copy_cells_up n m = fold (\<lambda>i m. set_cell i (cell m (i + VIDEO_COLS)) m) [0..n - 1] m"

lemma upto_snoc: "lo \<le> hi \<Longrightarrow> [lo..hi] = [lo..hi - 1] @ [hi]"
  by (rule upto_rec2)

lemma fill_cells_result:
  assumes "lo \<le> hi" "near lo" "near hi"
  shows "same_outside_cells lo hi m (fill_cells lo hi v m)
    \<and> (\<forall>j. near j \<longrightarrow> cell (fill_cells lo hi v m) j = (if lo \<le> j \<and> j < hi then v else cell m j))"
  using assms(1,3)
proof (induction hi rule: int_ge_induct)
  case base
  then show ?case by (auto simp: fill_cells_def)
next
  case (step k)
  have n: "near k" using step.prems step.hyps assms(2) by (auto simp: near_def)
  let ?m = "fill_cells lo k v m"
  have f: "fill_cells lo (k + 1) v m = set_cell k v ?m"
    using step.hyps by (simp add: fill_cells_def upto_snoc [of lo k])
  have IH: "same_outside_cells lo k m ?m"
    "\<And>j. near j \<Longrightarrow> cell ?m j = (if lo \<le> j \<and> j < k then v else cell m j)"
    using step.IH n by auto
  have "same_outside_cells lo (k + 1) m ?m"
    using IH(1) step.prems step.hyps assms(2) by (auto intro: same_outside_cells_mono)
  moreover have "same_outside_cells lo (k + 1) ?m (set_cell k v ?m)"
    using step.hyps step.prems assms(2) by (intro set_cell_outside) auto
  ultimately show ?case using IH(2) step.hyps n
    by (auto simp: f cell_set_cell intro: same_outside_cells_trans)
qed

lemma copy_cells_up_result:
  assumes "0 \<le> n" "near n" "near (n + VIDEO_COLS)"
  shows "same_outside_cells 0 n m (copy_cells_up n m)
    \<and> (\<forall>j. near j \<longrightarrow> cell (copy_cells_up n m) j = (if 0 \<le> j \<and> j < n then cell m (j + VIDEO_COLS) else cell m j))"
  using assms
proof (induction n rule: int_ge_induct)
  case base
  then show ?case by (auto simp: copy_cells_up_def)
next
  case (step k)
  have n: "near k" "near (k + VIDEO_COLS)" using step.prems step.hyps by (auto simp: near_def VIDEO_COLS_def)
  let ?m = "copy_cells_up k m"
  have f: "copy_cells_up (k + 1) m = set_cell k (cell ?m (k + VIDEO_COLS)) ?m"
    using step.hyps by (simp add: copy_cells_up_def upto_snoc [of 0 k])
  have IH: "same_outside_cells 0 k m ?m"
    "\<And>j. near j \<Longrightarrow> cell ?m j = (if 0 \<le> j \<and> j < k then cell m (j + VIDEO_COLS) else cell m j)"
    using step.IH n by auto
  have "near 0" by (simp add: near_def)
  then have "same_outside_cells 0 (k + 1) m ?m"
    using IH(1) step.prems step.hyps by (auto intro: same_outside_cells_mono)
  moreover have "same_outside_cells 0 (k + 1) ?m (set_cell k (cell ?m (k + VIDEO_COLS)) ?m)"
    using step.hyps step.prems \<open>near 0\<close> by (intro set_cell_outside) auto
  moreover have "cell ?m (k + VIDEO_COLS) = cell m (k + VIDEO_COLS)"
    using IH(2) n by (simp add: VIDEO_COLS_def)
  ultimately show ?case using IH(2) step.hyps n
    by (auto simp: f cell_set_cell intro: same_outside_cells_trans)
qed

end
