(* ===== verification/KString.thy ===== *)
theory KString
  imports Machine
begin

text \<open>
  The memory and string routines: libc/string/movecopy.c, compare.c and other.c, and
  the copies the early code has of three of them (kernel/init/init/kutils.c). Each works
  on the machine's memory through pointers, byte by byte, so overlaps and missing
  terminators behave as in C. A loop that reads until a byte it may never find is a
  \<open>partial_function\<close>: \<open>None\<close> is "does not return".
\<close>

section \<open>libc/string/movecopy.c\<close>

function memcpy_loop :: "u32 \<Rightarrow> u32 \<Rightarrow> u32 \<Rightarrow> memory \<Rightarrow> memory" where
  "memcpy_loop dst src len m =
     (if len > 0 then memcpy_loop (dst + 1) (src + 1) (len - 1) (m(dst := m src)) else m)"
  by pat_completeness auto
termination
  by (relation "measure (\<lambda>(dst, src, len, m). unat len)") (auto simp: unat_gt_0 measure_unat)

declare memcpy_loop.simps [simp del]

definition memcpy :: "u32 \<Rightarrow> u32 \<Rightarrow> u32 \<Rightarrow> memory \<Rightarrow> u32 \<times> memory" where
  "memcpy destination source len m = (destination, memcpy_loop destination source len m)"

partial_function (option) strcpy_loop :: "u32 \<Rightarrow> u32 \<Rightarrow> memory \<Rightarrow> memory option" where
  "strcpy_loop dst source m =
     (if m source \<noteq> 0 then strcpy_loop (dst + 1) (source + 1) (m(dst := m source)) else Some m)"

definition strcpy :: "u32 \<Rightarrow> u32 \<Rightarrow> memory \<Rightarrow> (u32 \<times> memory) option" where
  "strcpy destination source m =
     map_option (\<lambda>m'. (destination, m')) (strcpy_loop destination source m)"

function strncpy_loop :: "u32 \<Rightarrow> u32 \<Rightarrow> u32 \<Rightarrow> memory \<Rightarrow> memory" where
  "strncpy_loop dst source len m =
     (if len > 0 then strncpy_loop (dst + 1) (source + 1) (len - 1) (m(dst := m source)) else m)"
  by pat_completeness auto
termination
  by (relation "measure (\<lambda>(dst, src, len, m). unat len)") (auto simp: unat_gt_0 measure_unat)

declare strncpy_loop.simps [simp del]

definition strncpy :: "u32 \<Rightarrow> u32 \<Rightarrow> u32 \<Rightarrow> memory \<Rightarrow> u32 \<times> memory" where
  "strncpy destination source len m = (destination, strncpy_loop destination source len m)"

section \<open>libc/string/compare.c\<close>

text \<open>\<open>char\<close> is signed on this target: the difference is that of the \<open>sint\<close> values.\<close>

definition char_diff :: "memory \<Rightarrow> u32 \<Rightarrow> u32 \<Rightarrow> int" where
  "char_diff m p q = sint (m p) - sint (m q)"

partial_function (option) memcmp_loop :: "memory \<Rightarrow> u32 \<Rightarrow> u32 \<Rightarrow> u32 \<Rightarrow> (u32 \<times> u32) option" where
  "memcmp_loop m char1 char2 len =
     (if len > 0 then
        (if m char1 \<noteq> m char2 then Some (char1, char2)
         else memcmp_loop m (char1 + 1) (char2 + 1) len)
      else Some (char1, char2))"

definition memcmp :: "u32 \<Rightarrow> u32 \<Rightarrow> u32 \<Rightarrow> memory \<Rightarrow> int option" where
  "memcmp mem1 mem2 len m =
     map_option (\<lambda>(char1, char2). char_diff m char1 char2) (memcmp_loop m mem1 mem2 len)"

partial_function (option) strcmp_loop :: "memory \<Rightarrow> u32 \<Rightarrow> u32 \<Rightarrow> (u32 \<times> u32) option" where
  "strcmp_loop m str1 str2 =
     (if m str1 \<noteq> 0 \<and> m str2 \<noteq> 0 then
        (if m str1 \<noteq> m str2 then Some (str1, str2)
         else strcmp_loop m (str1 + 1) (str2 + 1))
      else Some (str1, str2))"

definition strcmp :: "u32 \<Rightarrow> u32 \<Rightarrow> memory \<Rightarrow> int option" where
  "strcmp str1 str2 m = map_option (\<lambda>(p, q). char_diff m p q) (strcmp_loop m str1 str2)"

function strncmp_loop :: "memory \<Rightarrow> u32 \<Rightarrow> u32 \<Rightarrow> u32 \<Rightarrow> u32 \<times> u32" where
  "strncmp_loop m str1 str2 len =
     (if m str1 \<noteq> 0 \<and> m str2 \<noteq> 0 \<and> len > 0 then
        (if m str1 \<noteq> m str2 then (str1, str2)
         else strncmp_loop m (str1 + 1) (str2 + 1) (len - 1))
      else (str1, str2))"
  by pat_completeness auto
termination
  by (relation "measure (\<lambda>(m, p, q, len). unat len)") (auto simp: unat_gt_0 measure_unat)

declare strncmp_loop.simps [simp del]

definition strncmp :: "u32 \<Rightarrow> u32 \<Rightarrow> u32 \<Rightarrow> memory \<Rightarrow> int" where
  "strncmp str1 str2 len m = (case strncmp_loop m str1 str2 len of (p, q) \<Rightarrow> char_diff m p q)"

section \<open>libc/string/other.c\<close>

function memset_loop :: "u32 \<Rightarrow> i32 \<Rightarrow> u32 \<Rightarrow> memory \<Rightarrow> memory" where
  "memset_loop dest initial count m =
     (if count > 0 then memset_loop (dest + 1) initial (count - 1) (m(dest := ucast initial)) else m)"
  by pat_completeness auto
termination
  by (relation "measure (\<lambda>(dst, c, count, m). unat count)") (auto simp: unat_gt_0 measure_unat)

declare memset_loop.simps [simp del]

definition memset :: "u32 \<Rightarrow> i32 \<Rightarrow> u32 \<Rightarrow> memory \<Rightarrow> u32 \<times> memory" where
  "memset destination initial count m = (destination, memset_loop destination initial count m)"

text \<open>\<open>while (*s2++) ;\<close> leaves the pointer one past the terminator.\<close>

partial_function (option) strlen_loop :: "memory \<Rightarrow> u32 \<Rightarrow> u32 option" where
  "strlen_loop m s2 = (if m s2 \<noteq> 0 then strlen_loop m (s2 + 1) else Some (s2 + 1))"

definition strlen :: "u32 \<Rightarrow> memory \<Rightarrow> u32 option" where
  "strlen str m = map_option (\<lambda>s2. s2 - str - 1) (strlen_loop m str)"

section \<open>kernel/init/init/kutils.c: the early copies\<close>

function ki_memset_loop :: "u32 \<Rightarrow> i32 \<Rightarrow> u32 \<Rightarrow> u32 \<Rightarrow> memory \<Rightarrow> memory" where
  "ki_memset_loop destination c i count m =
     (if i < count then ki_memset_loop destination c (i + 1) count (m(destination + i := ucast c)) else m)"
  by pat_completeness auto
termination
  by (relation "measure (\<lambda>(d, c, i, count, m). unat (count - i))") (auto simp: index_measure)

declare ki_memset_loop.simps [simp del]

definition ki_memset :: "u32 \<Rightarrow> i32 \<Rightarrow> u32 \<Rightarrow> memory \<Rightarrow> u32 \<times> memory" where
  "ki_memset dst c count m = (dst, ki_memset_loop dst c 0 count m)"

function ki_memcpy_loop :: "u32 \<Rightarrow> u32 \<Rightarrow> u32 \<Rightarrow> u32 \<Rightarrow> memory \<Rightarrow> memory" where
  "ki_memcpy_loop destination source i count m =
     (if i < count
      then ki_memcpy_loop destination source (i + 1) count (m(destination + i := m (source + i)))
      else m)"
  by pat_completeness auto
termination
  by (relation "measure (\<lambda>(d, s, i, count, m). unat (count - i))") (auto simp: index_measure)

declare ki_memcpy_loop.simps [simp del]

definition ki_memcpy :: "u32 \<Rightarrow> u32 \<Rightarrow> u32 \<Rightarrow> memory \<Rightarrow> u32 \<times> memory" where
  "ki_memcpy dst src count m = (dst, ki_memcpy_loop dst src 0 count m)"

partial_function (option) ki_strlen_loop :: "memory \<Rightarrow> u32 \<Rightarrow> u32 option" where
  "ki_strlen_loop m s = (if m s \<noteq> 0 then ki_strlen_loop m (s + 1) else Some (s + 1))"

definition ki_strlen :: "u32 \<Rightarrow> memory \<Rightarrow> u32 option" where
  "ki_strlen str m = map_option (\<lambda>s. s - str - 1) (ki_strlen_loop m str)"

section \<open>Closed forms of the loops\<close>

lemmas string_defs = memcpy_def strcpy_def strncpy_def memcmp_def strcmp_def strncmp_def
  memset_def strlen_def ki_memset_def ki_memcpy_def ki_strlen_def

lemma loop_0 [simp]:
  "memcpy_loop dst src 0 m = m" "memset_loop dst c 0 m = m" "strncpy_loop dst src 0 m = m"
  "ki_memcpy_loop dst src n n m = m" "ki_memset_loop dst c n n m = m" "strncmp_loop m p q 0 = (p, q)"
  by (simp_all add: memcpy_loop.simps memset_loop.simps strncpy_loop.simps
      ki_memcpy_loop.simps ki_memset_loop.simps strncmp_loop.simps)

text \<open>
  A forward copy is exact unless the destination starts strictly inside the source.
\<close>

definition copy_ok :: "u32 \<Rightarrow> u32 \<Rightarrow> nat \<Rightarrow> bool" where
  "copy_ok dst src n \<longleftrightarrow> dst = src \<or> n \<le> unat (dst - src)"

lemma copy_ok_shift:
  "0 < len \<Longrightarrow> copy_ok dst src (unat len) \<Longrightarrow> copy_ok (dst + 1) (src + 1) (unat (len - 1))" for len :: u32
  by (auto simp: copy_ok_def unat_minus_one_u32 word_gt_0)

lemma copy_ok_source:
  fixes len :: u32
  assumes "copy_ok dst src (unat len)" and "0 < len" and "in_region (dst + 1) (unat (len - 1)) x"
  shows "x - dst + src = dst \<Longrightarrow> dst = src \<and> False"
proof -
  assume e: "x - dst + src = dst"
  then have d: "x - dst = dst - src" by (simp add: algebra_simps)
  have l: "unat (len - 1) = unat len - 1" using assms(2) by (simp add: unat_minus_one_u32 word_gt_0)
  have r: "unat (x - dst - 1) < unat len - 1"
    using assms(3) l by (simp add: in_region_def diff_diff_eq)
  show ?thesis
  proof (cases "dst = src")
    case True
    with d have "x - dst - 1 = -1" by simp
    then have "unat (x - dst - 1) = 4294967295" by (simp add: unsigned_minus_1_eq_mask mask_eq_exp_minus_1)
    with r show ?thesis using unat_u32_bound [of len] by linarith
  next
    case False
    with d have "x - dst \<noteq> 0" by simp
    then have "unat (x - dst - 1) = unat (dst - src) - 1" using unat_minus_one_u32 d by metis
    with r assms(1) False show ?thesis by (auto simp: copy_ok_def)
  qed
qed

lemma memcpy_loop_byte:
  "copy_ok dst src (unat len) \<Longrightarrow>
   memcpy_loop dst src len m x = (if in_region dst (unat len) x then m (x - dst + src) else m x)"
proof (induction dst src len m arbitrary: x rule: memcpy_loop.induct)
  case (1 dst src len m)
  show ?case
  proof (cases "0 < len")
    case False
    then show ?thesis by (simp add: word_gt_0)
  next
    case True
    let ?m = "m(dst := m src)"
    have "memcpy_loop dst src len m x
        = (if in_region (dst + 1) (unat (len - 1)) x then ?m (x - dst + src) else ?m x)"
    proof -
      have "memcpy_loop dst src len m = memcpy_loop (dst + 1) (src + 1) (len - 1) ?m"
        using True by (simp add: memcpy_loop.simps [of dst src len m])
      moreover have "x - (dst + 1) + (src + 1) = x - dst + src" by simp
      ultimately show ?thesis
        using "1.IH" [OF True copy_ok_shift [OF True "1.prems"], of x] by (simp only: fun_upd_def)
    qed
    moreover have "in_region (dst + 1) (unat (len - 1)) x \<Longrightarrow> x - dst + src \<noteq> dst"
      using copy_ok_source [OF "1.prems" True] by blast
    ultimately show ?thesis using in_region_pos [OF True, of dst x] by auto
  qed
qed

lemma memcpy_loop_copies:
  assumes "copy_ok dst src (unat len)"
  shows "(\<forall>i < unat len. memcpy_loop dst src len m (dst + of_nat i) = m (src + of_nat i))
    \<and> same_outside dst (unat len) m (memcpy_loop dst src len m)"
proof -
  have "memcpy_loop dst src len m (dst + of_nat i) = m (src + of_nat i)" if "i < unat len" for i
    using that memcpy_loop_byte [OF assms, of m "dst + of_nat i"] unat_u32_bound [of len]
    by (simp add: in_regionI add.commute)
  moreover have "same_outside dst (unat len) m (memcpy_loop dst src len m)"
    using memcpy_loop_byte [OF assms, of m] by (simp add: same_outside_def)
  ultimately show ?thesis by blast
qed

lemma memset_loop_byte:
  "memset_loop dst c n m x = (if in_region dst (unat n) x then ucast c else m x)"
proof (induction dst c n m arbitrary: x rule: memset_loop.induct)
  case (1 dst c n m)
  show ?case
  proof (cases "0 < n")
    case True
    then show ?thesis using "1.IH" [OF True] in_region_pos [OF True, of dst x]
      by (auto simp: memset_loop.simps [of dst c n m] fun_upd_def)
  qed (simp add: word_gt_0)
qed

text \<open>The early copies are the same functions, written with an index.\<close>

lemma ki_memcpy_loop_eq:
  "i \<le> n \<Longrightarrow> ki_memcpy_loop dst src i n m = memcpy_loop (dst + i) (src + i) (n - i) m"
proof (induction dst src i n m rule: ki_memcpy_loop.induct)
  case (1 dst src i n m)
  show ?case
  proof (cases "i < n")
    case True
    then have "i + 1 \<le> n" by (simp add: inc_le)
    moreover have "0 < n - i" using True by (simp add: word_gt_0)
    ultimately show ?thesis using "1.IH" [OF True] True
      by (simp add: ki_memcpy_loop.simps [of dst src i n m] memcpy_loop.simps [of _ _ "n - i"] fun_upd_def algebra_simps)
  next
    case False
    with "1.prems" have "i = n" by simp
    then show ?thesis by simp
  qed
qed

lemma ki_memset_loop_eq:
  "i \<le> n \<Longrightarrow> ki_memset_loop dst c i n m = memset_loop (dst + i) c (n - i) m"
proof (induction dst c i n m rule: ki_memset_loop.induct)
  case (1 dst c i n m)
  show ?case
  proof (cases "i < n")
    case True
    then have "i + 1 \<le> n" by (simp add: inc_le)
    moreover have "0 < n - i" using True by (simp add: word_gt_0)
    ultimately show ?thesis using "1.IH" [OF True] True
      by (simp add: ki_memset_loop.simps [of dst c i n m] memset_loop.simps [of _ _ "n - i"] fun_upd_def algebra_simps)
  next
    case False
    with "1.prems" have "i = n" by simp
    then show ?thesis by simp
  qed
qed

lemma strncpy_loop_eq: "strncpy_loop dst src n m = memcpy_loop dst src n m"
proof (induction dst src n m rule: strncpy_loop.induct)
  case (1 dst src n m)
  then show ?case
    by (cases "0 < n") (simp_all add: strncpy_loop.simps [of dst src n m] memcpy_loop.simps [of dst src n m] fun_upd_def)
qed

lemma strlen_loop_cstr: "cstr m p xs \<Longrightarrow> strlen_loop m p = Some (p + of_nat (length xs) + 1)"
proof (induction xs arbitrary: p)
  case Nil
  then show ?case by (simp add: strlen_loop.simps)
next
  case (Cons x xs)
  then show ?case by (subst strlen_loop.simps) (simp add: algebra_simps)
qed

lemma ki_strlen_loop_cstr: "cstr m p xs \<Longrightarrow> ki_strlen_loop m p = Some (p + of_nat (length xs) + 1)"
proof (induction xs arbitrary: p)
  case Nil
  then show ?case by (simp add: ki_strlen_loop.simps)
next
  case (Cons x xs)
  then show ?case by (subst ki_strlen_loop.simps) (simp add: algebra_simps)
qed

section \<open>Comparing strings\<close>

text \<open>The reference: the signed difference of the first bytes that differ, 0 if none does.\<close>

fun first_diff :: "u8 list \<Rightarrow> u8 list \<Rightarrow> int" where
  "first_diff [] [] = 0"
| "first_diff [] (y # ys) = - sint y"
| "first_diff (x # xs) [] = sint x"
| "first_diff (x # xs) (y # ys) = (if x = y then first_diff xs ys else sint x - sint y)"

lemma first_diff_0: "0 \<notin> set xs \<Longrightarrow> 0 \<notin> set ys \<Longrightarrow> first_diff xs ys = 0 \<longleftrightarrow> xs = ys"
proof (induction xs ys rule: first_diff.induct)
  case (4 x xs y ys)
  then show ?case by (auto simp: sint_eq_iff)
qed (auto simp: sint_0_iff)

lemma strcmp_loop_cstr:
  "cstr m p xs \<Longrightarrow> cstr m q ys \<Longrightarrow>
   map_option (\<lambda>(p, q). char_diff m p q) (strcmp_loop m p q) = Some (first_diff xs ys)"
proof (induction xs ys arbitrary: p q rule: first_diff.induct)
  case (4 x xs y ys)
  then show ?case
    by (subst strcmp_loop.simps) (auto simp: char_diff_def)
qed (subst strcmp_loop.simps, auto simp: char_diff_def)+

text \<open>How far \<open>memcmp\<close> runs: to the first difference, whatever the length.\<close>

lemma memcmp_loop_finds:
  "\<lbrakk>\<And>i. i < k \<Longrightarrow> m (p + of_nat i) = m (q + of_nat i); m (p + of_nat k) \<noteq> m (q + of_nat k); 0 < len\<rbrakk>
   \<Longrightarrow> memcmp_loop m p q len = Some (p + of_nat k, q + of_nat k)"
proof (induction k arbitrary: p q)
  case 0
  then show ?case by (subst memcmp_loop.simps) simp
next
  case (Suc k)
  have "m p = m q" using Suc.prems(1) [of 0] by simp
  moreover have "memcmp_loop m (p + 1) (q + 1) len = Some (p + 1 + of_nat k, q + 1 + of_nat k)"
    using Suc.prems(1) [of "Suc i" for i] Suc.prems(2,3) by (intro Suc.IH) (auto simp: algebra_simps)
  ultimately show ?case using Suc.prems(3)
    by (subst memcmp_loop.simps) (simp add: algebra_simps)
qed

lemma strncmp_loop_prefix:
  "\<lbrakk>cstr m p xs; cstr m q ys; take n xs = take n ys; n < length xs; n < length ys; n < 2 ^ 32\<rbrakk>
   \<Longrightarrow> strncmp_loop m p q (of_nat n) = (p + of_nat n, q + of_nat n)"
proof (induction n arbitrary: p q xs ys)
  case (Suc n)
  then obtain x xs' y ys' where [simp]: "xs = x # xs'" "ys = y # ys'"
    by (cases xs; cases ys) auto
  have "(0 :: u32) < of_nat (Suc n)"
    using Suc.prems(6) by (rule of_nat_Suc_pos_u32)
  moreover have "strncmp_loop m (p + 1) (q + 1) (of_nat n) = (p + 1 + of_nat n, q + 1 + of_nat n)"
    using Suc.prems by (intro Suc.IH [of _ xs' _ ys']) auto
  ultimately show ?case using Suc.prems
    by (simp add: strncmp_loop.simps [of m p q "of_nat (Suc n)"] del: of_nat_Suc)
       (simp add: algebra_simps)
qed simp

section \<open>Copying strings\<close>

lemma strcpy_loop_cstr:
  assumes "cstr m src xs" and "dst = src \<or> Suc (length xs) \<le> unat (dst - src)" and "length xs < 2 ^ 32"
  shows "strcpy_loop dst src m = Some (memcpy_loop dst src (of_nat (length xs)) m)"
  using assms
proof (induction xs arbitrary: dst src m)
  case Nil
  then show ?case by (subst strcpy_loop.simps) simp
next
  case (Cons x xs)
  let ?m = "m(dst := x)"
  have src: "m src = x" "x \<noteq> 0" "cstr m (src + 1) xs" using Cons.prems(1) by auto
  have "cstr ?m (src + 1) xs"
  proof (cases "dst = src")
    case True
    then have "?m = m" using src by auto
    then show ?thesis using src by simp
  next
    case False
    have "dst \<noteq> src + 1 + of_nat i" if "i \<le> length xs" for i
    proof
      assume "dst = src + 1 + of_nat i"
      then have "unat (dst - src) = unat (of_nat (Suc i) :: u32)" by simp
      also have "\<dots> = Suc i" using that Cons.prems(3) by (intro unat_of_nat_u32) simp
      finally show False using Cons.prems(2) False that by simp
    qed
    with src(3) show ?thesis by (auto simp: cstr_def mem_at_def less_Suc_eq_le)
  qed
  then have "strcpy_loop (dst + 1) (src + 1) ?m = Some (memcpy_loop (dst + 1) (src + 1) (of_nat (length xs)) ?m)"
    using Cons.prems(2,3) by (intro Cons.IH) (auto simp: fun_upd_def)
  moreover have "memcpy_loop dst src (of_nat (length (x # xs))) m
      = memcpy_loop (dst + 1) (src + 1) (of_nat (length xs)) ?m"
    using of_nat_Suc_pos_u32 [of "length xs"] Cons.prems(3) src
    by (subst memcpy_loop.simps) (simp add: word_gt_0)
  ultimately show ?case using src by (subst strcpy_loop.simps) simp
qed

section \<open>Properties\<close>

text \<open>\<open>memcpy\<close> copies exactly the \<open>len\<close> bytes of the source and writes nothing
  outside the destination, whenever the destination does not start strictly inside the source.\<close>

theorem memcpy_correct:
  assumes "copy_ok dst src (unat len)" and "memcpy dst src len m = (r, m')"
  shows "r = dst \<and> (\<forall>i < unat len. m' (dst + of_nat i) = m (src + of_nat i))
    \<and> same_outside dst (unat len) m m'"
  using memcpy_loop_copies [OF assms(1), of m] assms(2) by (auto simp: memcpy_def)

theorem memcpy_correct_witness:
  "snd (memcpy 0x10 0x20 3 (\<lambda>a. ucast a)) 0x12 = 0x22"
proof -
  have "copy_ok 0x10 0x20 (unat (3 :: u32))" by (simp add: copy_ok_def)
  from memcpy_correct [OF this surjective_pairing, of "\<lambda>a. ucast a"]
  have "\<forall>i < 3. snd (memcpy 0x10 0x20 3 (\<lambda>a. ucast a)) (0x10 + of_nat i) = ucast (0x20 + of_nat i :: u32)"
    by simp
  from this [rule_format, of 2] show ?thesis by simp
qed

text \<open>the early \<open>ki_memcpy\<close> and \<open>ki_memset\<close>, written with an index, compute the
  same memory as libc's pointer loops on every input, overlapping or not.\<close>

theorem early_copies_equivalent:
  "ki_memcpy dst src n m = memcpy dst src n m \<and> ki_memset dst c n m = memset dst c n m"
  by (simp add: string_defs ki_memcpy_loop_eq [of 0] ki_memset_loop_eq [of 0])

text \<open>on a terminated string both \<open>strlen\<close>s return, and return its length.\<close>

theorem strlen_correct:
  assumes "cstr m str xs"
  shows "strlen str m = Some (of_nat (length xs)) \<and> ki_strlen str m = Some (of_nat (length xs))"
  using strlen_loop_cstr [OF assms] ki_strlen_loop_cstr [OF assms] by (simp add: string_defs)

theorem strlen_correct_witness:
  "strlen 5 ((\<lambda>_. 0)(5 := 0x41, 6 := 0x42)) = Some 2"
  using strlen_correct [of "(\<lambda>_. 0)(5 := 0x41, 6 := 0x42)" 5 "[0x41, 0x42]"] by simp

text \<open>on terminated strings \<open>strcmp\<close> returns, with the signed difference of the first
  bytes that differ; it is 0 exactly for equal strings.\<close>

theorem strcmp_correct:
  assumes "cstr m p xs" and "cstr m q ys"
  shows "strcmp p q m = Some (first_diff xs ys) \<and> (first_diff xs ys = 0 \<longleftrightarrow> xs = ys)"
proof
  show "strcmp p q m = Some (first_diff xs ys)"
    using strcmp_loop_cstr [OF assms] by (simp add: strcmp_def)
  show "first_diff xs ys = 0 \<longleftrightarrow> xs = ys"
    using assms by (intro first_diff_0) (auto simp: cstr_def)
qed

theorem strcmp_correct_witness:
  "strcmp 1 4 ((\<lambda>_. 0)(1 := 0x41, 2 := 0x42, 4 := 0x41)) = Some 0x42"
  using strcmp_correct [of "(\<lambda>_. 0)(1 := 0x41, 2 := 0x42, 4 := 0x41)" 1 "[0x41, 0x42]" 4 "[0x41]"]
  by simp

text \<open>\<open>memcmp\<close> never counts its length down: with any positive length it runs on to the
  first difference at offset \<open>k\<close> and returns it, even when \<open>k\<close> is past the length and
  the two blocks are therefore equal.\<close>

theorem memcmp_overruns_length:
  assumes "\<forall>i < k. m (p + of_nat i) = m (q + of_nat i)"
    and "m (p + of_nat k) \<noteq> m (q + of_nat k)" and "0 < len"
  shows "memcmp p q len m = Some (sint (m (p + of_nat k)) - sint (m (q + of_nat k)))"
  using memcmp_loop_finds [of k m p q len] assms by (simp add: memcmp_def char_diff_def)

theorem memcmp_overruns_length_witness:
  "memcmp 0x10 0x20 1 ((\<lambda>_. 0)(0x12 := 7)) = Some 7"
  using memcmp_overruns_length [where k = "Suc (Suc 0)" and m = "(\<lambda>_. 0)(0x12 := 7)" and p = "0x10" and q = "0x20" and len = 1]
  by (simp add: All_less_Suc)

text \<open>when the first \<open>n\<close> bytes of two longer strings agree, \<open>strncmp\<close> does not return 0
  but the difference of the bytes just past the limit.\<close>

theorem strncmp_reads_past_limit:
  assumes "cstr m p xs" "cstr m q ys" "take n xs = take n ys"
    and "n < length xs" "n < length ys" "n < 2 ^ 32"
  shows "strncmp p q (of_nat n) m = sint (xs ! n) - sint (ys ! n)"
proof -
  have "m (p + of_nat n) = xs ! n" and "m (q + of_nat n) = ys ! n"
    using assms by (auto simp: cstr_def mem_at_def nth_append)
  then show ?thesis
    using strncmp_loop_prefix [OF assms] by (simp add: strncmp_def char_diff_def)
qed

theorem strncmp_reads_past_limit_witness:
  "strncmp 1 4 1 ((\<lambda>_. 0)(1 := 0x41, 2 := 0x42, 4 := 0x41, 5 := 0x43)) = -1"
  using strncmp_reads_past_limit [of "(\<lambda>_. 0)(1 := 0x41, 2 := 0x42, 4 := 0x41, 5 := 0x43)" 1 "[0x41, 0x42]" 4 "[0x41, 0x43]" 1]
  by simp

text \<open>\<open>strcpy\<close> returns and stores the characters of the source, but not its terminator:
  the byte after them, and everything else, is left as it was.\<close>

theorem strcpy_omits_terminator:
  assumes "cstr m src xs" and "dst = src \<or> Suc (length xs) \<le> unat (dst - src)" and "length xs < 2 ^ 32"
  shows "\<exists>m'. strcpy dst src m = Some (dst, m') \<and> mem_at m' dst xs
    \<and> same_outside dst (length xs) m m' \<and> m' (dst + of_nat (length xs)) = m (dst + of_nat (length xs))"
proof -
  define m' where "m' = memcpy_loop dst src (of_nat (length xs)) m"
  have n: "unat (of_nat (length xs) :: u32) = length xs" using assms(3) by simp
  have ok: "copy_ok dst src (unat (of_nat (length xs) :: u32))"
    using assms(2) unfolding n copy_ok_def by auto
  have c: "\<forall>i < length xs. m' (dst + of_nat i) = m (src + of_nat i)" "same_outside dst (length xs) m m'"
    using memcpy_loop_copies [OF ok, of m] n by (simp_all add: m'_def)
  have "mem_at m' dst xs"
    using c(1) assms(1) by (auto simp: cstr_def mem_at_def nth_append)
  moreover have "m' (dst + of_nat (length xs)) = m (dst + of_nat (length xs))"
    using c(2) n by (simp add: same_outside_def in_region_def)
  ultimately show ?thesis
    using strcpy_loop_cstr [OF assms] c(2) by (simp add: strcpy_def m'_def)
qed

theorem strcpy_omits_terminator_witness:
  "\<exists>m'. strcpy 0x20 1 ((\<lambda>_. 9)(1 := 0x41, 2 := 0)) = Some (0x20, m') \<and> m' 0x20 = 0x41 \<and> m' 0x21 = 9"
  using strcpy_omits_terminator [where m = "(\<lambda>_. 9)(1 := 0x41, 2 := 0)" and src = 1 and xs = "[0x41]" and dst = "0x20"] by auto

text \<open>\<open>strncpy\<close> is \<open>memcpy\<close>: it neither stops at the terminator of the source nor pads.\<close>

theorem strncpy_is_memcpy: "strncpy dst src n m = memcpy dst src n m"
  by (simp add: string_defs strncpy_loop_eq)

end
