(* ===== verification/NumText.thy ===== *)
theory NumText
  imports KString
begin

text \<open>
  Numbers to text: \<open>itoa\<close> and \<open>itoa_s\<close> (kernel/kernel/itoa.c) and the early
  \<open>ki_make_ulong_string\<close> (kernel/init/init/kutils.c). All three write the digits backwards
  from the end of a buffer and then copy them to its front; the model does the same in the
  machine's memory. The reference is \<open>number_bytes\<close>, whose inverse is \<open>parse_bytes\<close>.
\<close>

section \<open>The text of a number\<close>

function number_bytes :: "u8 list \<Rightarrow> nat \<Rightarrow> nat \<Rightarrow> u8 list" where
  "number_bytes digits base n =
     (if base < 2 \<or> n < base then [digits ! n]
      else number_bytes digits base (n div base) @ [digits ! (n mod base)])"
  by pat_completeness auto
termination
  by (relation "measure (\<lambda>(d, b, n). n)") auto

declare number_bytes.simps [simp del]

fun index_of :: "'a list \<Rightarrow> 'a \<Rightarrow> nat" where
  "index_of [] x = 0"
| "index_of (y # ys) x = (if x = y then 0 else Suc (index_of ys x))"

definition parse_bytes :: "u8 list \<Rightarrow> nat \<Rightarrow> u8 list \<Rightarrow> nat" where
  "parse_bytes digits base xs = foldl (\<lambda>acc c. acc * base + index_of digits c) 0 xs"

lemma index_of_nth: "distinct xs \<Longrightarrow> i < length xs \<Longrightarrow> index_of xs (xs ! i) = i"
  by (induction xs arbitrary: i) (auto simp: nth_Cons split: nat.split)

lemma parse_number_bytes:
  assumes "distinct digits" "2 \<le> base" "base \<le> length digits"
  shows "parse_bytes digits base (number_bytes digits base n) = n"
proof (induction n rule: less_induct)
  case (less n)
  show ?case
  proof (cases "n < base")
    case True
    then show ?thesis using assms
      by (simp add: number_bytes.simps [of digits base n] parse_bytes_def index_of_nth)
  next
    case False
    then have "parse_bytes digits base (number_bytes digits base (n div base)) = n div base"
      using assms by (intro less.IH) auto
    moreover have "n mod base < length digits"
      using assms(2,3) by (metis gr0I less_le_trans mod_less_divisor not_numeral_le_zero)
    ultimately show ?thesis using False assms
      by (simp add: number_bytes.simps [of digits base n] parse_bytes_def index_of_nth)
  qed
qed

lemma number_bytes_nonempty [simp]: "number_bytes digits base n \<noteq> []"
  by (subst number_bytes.simps) simp

lemma length_number_bytes:
  "2 \<le> base \<Longrightarrow> n < base ^ Suc k \<Longrightarrow> length (number_bytes digits base n) \<le> Suc k"
proof (induction k arbitrary: n)
  case 0
  then show ?case by (subst number_bytes.simps) simp
next
  case (Suc k)
  show ?case
  proof (cases "n < base")
    case True
    then show ?thesis by (subst number_bytes.simps) simp
  next
    case False
    have "n div base < base ^ Suc k"
      using Suc.prems by (simp add: less_mult_imp_div_less mult.commute)
    then have "length (number_bytes digits base (n div base)) \<le> Suc k"
      using Suc.prems(1) by (intro Suc.IH)
    then show ?thesis using False Suc.prems(1) by (subst number_bytes.simps) simp
  qed
qed

lemma length_number_bytes_u32:
  "2 \<le> base \<Longrightarrow> length (number_bytes digits base (unat (n :: u32))) \<le> 32"
proof -
  assume b: "2 \<le> base"
  have "unat n < 2 ^ 32" by simp
  also have "(2 :: nat) ^ 32 \<le> base ^ 32" using b by (rule power_mono) simp
  finally have "unat n < base ^ Suc 31" by simp
  from length_number_bytes [OF b this] show ?thesis by simp
qed

lemma set_number_bytes:
  "2 \<le> base \<Longrightarrow> base \<le> length digits \<Longrightarrow> set (number_bytes digits base n) \<subseteq> set digits"
proof (induction n rule: less_induct)
  case (less n)
  show ?case
  proof (cases "n < base")
    case True
    then show ?thesis using less.prems by (subst number_bytes.simps) simp
  next
    case False
    then have "set (number_bytes digits base (n div base)) \<subseteq> set digits"
      using less.prems by (intro less.IH) auto
    moreover have "n mod base < length digits"
      using less.prems by (metis gr0I less_le_trans mod_less_divisor not_numeral_le_zero)
    ultimately show ?thesis using False less.prems by (subst number_bytes.simps) simp
  qed
qed

section \<open>kernel/kernel/itoa.c\<close>

definition ERANGE :: u32 where "ERANGE = 3"
definition EOVERFLOW :: u32 where "EOVERFLOW = 4"

definition ITOA_BUFFER_SIZE :: u32 where "ITOA_BUFFER_SIZE = 33"

definition lettermap :: "u8 list" where
  "lettermap = ascii ''0123456789ABCDEFGHIJKLMNOPQRSTUVWXYZ''"

text \<open>
  The digit loop: \<open>Inl\<close> is the early return with \<open>EOVERFLOW\<close>, \<open>Inr\<close> the normal exit
  with the write pointer and the number of digits.
\<close>

function itoa_loop :: "u32 \<Rightarrow> u32 \<Rightarrow> u32 \<Rightarrow> nat \<Rightarrow> memory \<Rightarrow> memory + (u32 \<times> nat \<times> memory)" where
  "itoa_loop num base writeptr written m =
     (if num > 0 then
        let m' = m(writeptr - 1 := lettermap ! unat (num mod base)) in
        if Suc written > 32 then Inl m'
        else itoa_loop (num div base) base (writeptr - 1) (Suc written) m'
      else Inr (writeptr, written, m))"
  by pat_completeness auto
termination
  by (relation "measure (\<lambda>(num, base, w, written, m). 33 - written)") auto

declare itoa_loop.simps [simp del]

text \<open>\<open>while ((*buffer++ = *writeptr++)) ;\<close>\<close>

partial_function (option) copy_to_front :: "u32 \<Rightarrow> u32 \<Rightarrow> memory \<Rightarrow> memory option" where
  "copy_to_front buffer writeptr m =
     (if m writeptr \<noteq> 0 then copy_to_front (buffer + 1) (writeptr + 1) (m(buffer := m writeptr))
      else Some (m(buffer := m writeptr)))"

definition itoa :: "u32 \<Rightarrow> u32 \<Rightarrow> i32 \<Rightarrow> 'a kernel_scheme \<Rightarrow> (int \<times> 'a kernel_scheme) option" where
  "itoa buffer num base s =
     (if 36 <s base \<or> base <s 2 then
        Some (0, s\<lparr>errno := ERANGE, mem := (mem s)(buffer := 0)\<rparr>)
      else if num = 0 then
        Some (1, s\<lparr>mem := (mem s)(buffer := 48, buffer + 1 := 0)\<rparr>)
      else
        (let m = snd (memset buffer 0 ITOA_BUFFER_SIZE (mem s)) in
         case itoa_loop num base (buffer + (ITOA_BUFFER_SIZE - 1)) 0 m of
           Inl m' \<Rightarrow> Some (-1, s\<lparr>errno := EOVERFLOW, mem := m'\<rparr>)
         | Inr (writeptr, written, m') \<Rightarrow>
             map_option (\<lambda>m''. (int written, s\<lparr>mem := m''\<rparr>)) (copy_to_front buffer writeptr m')))"

text \<open>
  The signed version. \<open>-num\<close> of the least \<open>int\<close> wraps to itself, as the compiled code does;
  on the positive numbers that reach the loop signed and unsigned division agree.
\<close>

function itoa_s_loop :: "i32 \<Rightarrow> i32 \<Rightarrow> u32 \<Rightarrow> nat \<Rightarrow> memory \<Rightarrow> memory + (u32 \<times> nat \<times> memory)" where
  "itoa_s_loop num base writeptr written m =
     (if 0 <s num then
        let m' = m(writeptr - 1 := lettermap ! unat (num mod base)) in
        if Suc written \<ge> 31 then Inl m'
        else itoa_s_loop (num div base) base (writeptr - 1) (Suc written) m'
      else Inr (writeptr, written, m))"
  by pat_completeness auto
termination
  by (relation "measure (\<lambda>(num, base, w, written, m). 33 - written)") auto

declare itoa_s_loop.simps [simp del]

definition itoa_s :: "u32 \<Rightarrow> i32 \<Rightarrow> i32 \<Rightarrow> 'a kernel_scheme \<Rightarrow> (int \<times> 'a kernel_scheme) option" where
  "itoa_s buffer num base s =
     (let num = (if num <s 0 then - num else num) in
      if 36 <s base \<or> base <s 2 then
        Some (0, s\<lparr>errno := ERANGE, mem := (mem s)(buffer := 0)\<rparr>)
      else if num = 0 then
        Some (1, s\<lparr>mem := (mem s)(buffer := 48, buffer + 1 := 0)\<rparr>)
      else
        (let m = snd (memset buffer 0 ITOA_BUFFER_SIZE (mem s)) in
         case itoa_s_loop num base (buffer + (ITOA_BUFFER_SIZE - 1)) 0 m of
           Inl m' \<Rightarrow> Some (-1, s\<lparr>errno := EOVERFLOW, mem := m'\<rparr>)
         | Inr (writeptr, written, m') \<Rightarrow>
             map_option (\<lambda>m''. (int written, s\<lparr>mem := m''\<rparr>))
               (copy_to_front (buffer + 1) writeptr (m'(buffer := 45)))))"

section \<open>kernel/init/init/kutils.c: ki_make_ulong_string\<close>

definition MAXCHARS :: u32 where "MAXCHARS = 65"

definition EINVAL :: u32 where "EINVAL = 1"

definition ki_lettermap :: "u8 list" where
  "ki_lettermap = ascii ''0123456789abcdef''"

definition zero_string :: "u32 \<Rightarrow> memory \<Rightarrow> memory" where
  "zero_string buf m = m(buf := 48, buf + 1 := 0)"

partial_function (option) ki_digits_loop :: "u32 \<Rightarrow> u32 \<Rightarrow> u32 \<Rightarrow> memory \<Rightarrow> (u32 \<times> memory) option" where
  "ki_digits_loop number base writeptr m =
     (if number > 0 then
        ki_digits_loop (number div base) base (writeptr - 1)
          (m(writeptr - 1 := ki_lettermap ! unat (number mod base)))
      else Some (writeptr, m))"

definition ki_make_ulong_string ::
  "u32 \<Rightarrow> u32 \<Rightarrow> i32 \<Rightarrow> 'a kinit_scheme \<Rightarrow> 'a kinit_scheme option" where
  "ki_make_ulong_string buffer number base s =
     (let m = snd (ki_memset buffer 0 MAXCHARS (mem s)) in
      if number = 0 then Some (s\<lparr>mem := zero_string buffer m\<rparr>)
      else if 16 <s base \<or> base <s 2 then Some (s\<lparr>mem := m, kinit_errno := EINVAL\<rparr>)
      else do {
        (writeptr, m') \<leftarrow> ki_digits_loop number base (buffer + (MAXCHARS - 1)) m;
        m'' \<leftarrow> copy_to_front buffer writeptr m';
        Some (s\<lparr>mem := m''\<rparr>)
      })"

section \<open>The loops\<close>

lemma digit_div: "2 \<le> unat base \<Longrightarrow> num > 0 \<Longrightarrow> unat num < unat base \<Longrightarrow> num div base = 0" for num base :: u32
  by (simp add: word_unat_eq_iff unat_div)

lemma lettermap_facts [simp]:
  "length lettermap = 36" "0 \<notin> set lettermap" "distinct lettermap"
  "length ki_lettermap = 16" "0 \<notin> set ki_lettermap" "distinct ki_lettermap"
  by (simp_all add: lettermap_def ki_lettermap_def ascii_def)

lemma base_range:
  fixes base :: i32
  assumes "\<not> of_nat k <s base" "\<not> base <s 2" "k \<le> 36"
  shows "2 \<le> unat base \<and> unat base \<le> k"
proof -
  have "sint (of_nat k :: i32) = int k"
    using assms(3) by (simp add: signed_of_nat signed_take_bit_int_eq_self)
  with assms(1,2) have "2 \<le> sint base" "sint base \<le> int k" by (auto simp: word_sless_alt)
  moreover from this have "int (unat base) = sint base" by (intro unat_sint_nonneg) simp
  ultimately show ?thesis by linarith
qed

lemma number_bytes_step:
  fixes num base :: u32
  assumes "2 \<le> unat base" "num > 0"
  shows "number_bytes digits (unat base) (unat num) =
    (if num div base = 0 then [] else number_bytes digits (unat base) (unat (num div base)))
      @ [digits ! unat (num mod base)]"
  using assms by (subst number_bytes.simps) (auto simp: word_unat_eq_iff unat_div unat_mod div_eq_0_iff)

text \<open>One digit more in front of what is already written.\<close>

lemma write_bytes_back:
  fixes w :: u32
  assumes "Suc (length ys) < 2 ^ 32"
  shows "write_bytes (m(w - 1 := d)) (w - 1 - of_nat (length ys)) ys
       = write_bytes m (w - of_nat (length (ys @ [d]))) (ys @ [d])"
  using write_bytes_snoc [OF assms, of m "w - 1 - of_nat (length ys)" d]
  by (simp add: algebra_simps)

text \<open>The loops write the text of the number just below the write pointer.\<close>

lemma itoa_loop_result:
  fixes num base w :: u32
  assumes "2 \<le> unat base" "num > 0"
    and "written + length (number_bytes lettermap (unat base) (unat num)) \<le> 32"
  shows "itoa_loop num base w written m =
    (let xs = number_bytes lettermap (unat base) (unat num); a = w - of_nat (length xs)
     in Inr (a, written + length xs, write_bytes m a xs))"
  using assms(2,3)
proof (induction "unat num" arbitrary: num w written m rule: less_induct)
  case less
  define q where "q = num div base"
  define ys where "ys = (if q = 0 then [] else number_bytes lettermap (unat base) (unat q))"
  define d where "d = lettermap ! unat (num mod base)"
  have xs: "number_bytes lettermap (unat base) (unat num) = ys @ [d]"
    using number_bytes_step [OF assms(1) less.prems(1)] by (simp add: ys_def q_def d_def)
  have len: "written + Suc (length ys) \<le> 32" using less.prems(2) xs by simp
  have step: "itoa_loop num base w written m = itoa_loop q base (w - 1) (Suc written) (m(w - 1 := d))"
    using less.prems(1) len by (simp add: itoa_loop.simps [of num] Let_def q_def d_def)
  have "itoa_loop q base (w - 1) (Suc written) (m(w - 1 := d)) =
    Inr (w - 1 - of_nat (length ys), Suc written + length ys,
         write_bytes (m(w - 1 := d)) (w - 1 - of_nat (length ys)) ys)"
  proof (cases "q = 0")
    case True
    then show ?thesis by (simp add: ys_def itoa_loop.simps)
  next
    case False
    have "unat q < unat num"
      using assms(1) less.prems(1) by (simp add: q_def unat_div word_less_nat_alt)
    moreover have "Suc written + length (number_bytes lettermap (unat base) (unat q)) \<le> 32"
      using len False by (simp add: ys_def)
    ultimately show ?thesis using less.hyps [of q] False by (simp add: ys_def word_gt_0 Let_def)
  qed
  moreover have "Suc (length ys) < 2 ^ 32" using len by simp
  ultimately show ?case
    using write_bytes_back [of ys m w d] by (simp add: step xs Let_def algebra_simps)
qed

lemma ki_digits_loop_result:
  fixes num base w :: u32
  assumes "2 \<le> unat base" "num > 0"
  shows "ki_digits_loop num base w m =
    (let xs = number_bytes ki_lettermap (unat base) (unat num); a = w - of_nat (length xs)
     in Some (a, write_bytes m a xs))"
  using assms(2)
proof (induction "unat num" arbitrary: num w m rule: less_induct)
  case less
  define q where "q = num div base"
  define ys where "ys = (if q = 0 then [] else number_bytes ki_lettermap (unat base) (unat q))"
  define d where "d = ki_lettermap ! unat (num mod base)"
  have xs: "number_bytes ki_lettermap (unat base) (unat num) = ys @ [d]"
    using number_bytes_step [OF assms(1) less.prems(1)] by (simp add: ys_def q_def d_def)
  have len: "Suc (length ys) < 2 ^ 32"
    using length_number_bytes_u32 [OF assms(1), of ki_lettermap num] xs by simp
  have step: "ki_digits_loop num base w m = ki_digits_loop q base (w - 1) (m(w - 1 := d))"
    using less.prems(1) by (subst ki_digits_loop.simps) (simp add: q_def d_def)
  have "ki_digits_loop q base (w - 1) (m(w - 1 := d)) =
    Some (w - 1 - of_nat (length ys), write_bytes (m(w - 1 := d)) (w - 1 - of_nat (length ys)) ys)"
  proof (cases "q = 0")
    case True
    then show ?thesis by (simp add: ys_def ki_digits_loop.simps)
  next
    case False
    have "unat q < unat num"
      using assms(1) less.prems(1) by (simp add: q_def unat_div word_less_nat_alt)
    then show ?thesis using less.hyps [of q] False by (simp add: ys_def word_gt_0 Let_def)
  qed
  then show ?case
    using write_bytes_back [OF len, of m w d] by (simp add: step xs Let_def algebra_simps)
qed

text \<open>Copying forward to an address at or below the source is exact.\<close>

lemma copy_to_front_cstr:
  assumes "cstr m (dst + of_nat k) xs" "Suc (k + length xs) < 2 ^ 32"
  shows "copy_to_front dst (dst + of_nat k) m = Some (write_bytes m dst (xs @ [0]))"
  using assms
proof (induction xs arbitrary: dst m)
  case Nil
  then show ?case
    by (subst copy_to_front.simps) (simp add: write_bytes_Cons [of "[]", symmetric, simplified])
next
  case (Cons x xs)
  have x: "m (dst + of_nat k) = x" "x \<noteq> 0" "cstr m (dst + 1 + of_nat k) xs"
    using Cons.prems(1) by (simp_all add: algebra_simps)
  let ?m = "m(dst := x)"
  have "cstr ?m (dst + 1 + of_nat k) xs"
  proof -
    have "dst \<noteq> dst + 1 + of_nat k + of_nat i" if "i \<le> length xs" for i
    proof
      assume "dst = dst + 1 + of_nat k + of_nat i"
      then have "(of_nat (Suc (k + i)) :: u32) = 0" by (simp add: algebra_simps)
      then show False using that Cons.prems(2) of_nat_Suc_pos_u32 [of "k + i"] by simp
    qed
    then show ?thesis using x(3) by (auto simp: cstr_def mem_at_def less_Suc_eq_le)
  qed
  then have "copy_to_front (dst + 1) (dst + 1 + of_nat k) ?m = Some (write_bytes ?m (dst + 1) (xs @ [0]))"
    using Cons.prems(2) Cons.IH [of ?m "dst + 1"] by (simp add: fun_upd_def)
  moreover have "write_bytes ?m (dst + 1) (xs @ [0]) = write_bytes m dst ((x # xs) @ [0])"
    using Cons.prems(2) by (simp add: write_bytes_Cons)
  ultimately show ?case using x
    by (subst copy_to_front.simps) (simp add: algebra_simps)
qed

text \<open>
  A buffer of \<open>Suc c\<close> bytes: zeroed, filled from the back with at most \<open>c\<close> bytes,
  copied to its front.
\<close>

definition text_in_buffer :: "u32 \<Rightarrow> nat \<Rightarrow> memory \<Rightarrow> u8 list \<Rightarrow> memory \<Rightarrow> bool" where
  "text_in_buffer buffer len m xs m' \<longleftrightarrow> cstr m' buffer xs \<and> same_outside buffer len m m'"

lemma buffer_filled:
  fixes buffer :: u32 and m :: memory
  assumes "0 \<notin> set xs" "length xs \<le> c" "Suc c \<le> 65"
  defines "m1 \<equiv> memset_loop buffer 0 (of_nat (Suc c)) m"
  defines "m2 \<equiv> write_bytes m1 (buffer + of_nat c - of_nat (length xs)) xs"
  shows "\<exists>m3. copy_to_front buffer (buffer + of_nat c - of_nat (length xs)) m2 = Some m3
    \<and> text_in_buffer buffer (Suc c) m xs m3"
proof -
  define k where "k = c - length xs"
  have a: "buffer + of_nat c - of_nat (length xs) = buffer + of_nat k"
    using assms(2) by (simp add: k_def)
  have m1: "m1 x = (if in_region buffer (Suc c) x then 0 else m x)" for x
    using assms(3) memset_loop_byte [of buffer 0 "of_nat (Suc c)" m x]
    by (simp add: m1_def del: of_nat_Suc)
  have z: "m2 (buffer + of_nat c) = 0"
  proof -
    have "buffer + of_nat c - (buffer + of_nat k) = of_nat (length xs)"
      using a by (simp add: algebra_simps)
    then have "unat (buffer + of_nat c - (buffer + of_nat k)) = length xs"
      using assms(2,3) by simp
    moreover have "in_region buffer (Suc c) (buffer + of_nat c)"
      using assms(3) by (intro in_regionI) auto
    ultimately show ?thesis by (simp add: m2_def a write_bytes_def in_region_def m1)
  qed
  have "mem_at m2 (buffer + of_nat k) (xs @ [0])"
  proof (unfold mem_at_append, intro conjI)
    show "mem_at m2 (buffer + of_nat k) xs"
      unfolding m2_def a using assms(2,3) by (intro mem_at_write_bytes) simp
    have "buffer + of_nat k + of_nat (length xs) = buffer + of_nat c"
      unfolding a [symmetric] by simp
    then show "mem_at m2 (buffer + of_nat k + of_nat (length xs)) [0]" using z by (simp only: mem_at_Cons mem_at_Nil simp_thms)
  qed
  then have "cstr m2 (buffer + of_nat k) xs" using assms(1) by (simp add: cstr_def)
  then have c: "copy_to_front buffer (buffer + of_nat k) m2 = Some (write_bytes m2 buffer (xs @ [0]))"
    using assms(2,3) by (intro copy_to_front_cstr) (simp_all add: k_def)
  have "cstr (write_bytes m2 buffer (xs @ [0])) buffer xs"
    unfolding cstr_def using assms(1,2,3) by (intro conjI mem_at_write_bytes) auto
  moreover have "same_outside buffer (Suc c) m (write_bytes m2 buffer (xs @ [0]))"
  proof (unfold same_outside_def, intro allI impI)
    fix x assume out: "\<not> in_region buffer (Suc c) x"
    then have "\<not> in_region buffer (length (xs @ [0])) x"
      using assms(2) by (simp add: in_region_def)
    moreover have "\<not> in_region (buffer + of_nat k) (length xs) x"
    proof
      assume "in_region (buffer + of_nat k) (length xs) x"
      then obtain i where i: "i < length xs" "x = buffer + of_nat k + of_nat i"
        using assms(2,3) by (auto simp: in_region_iff)
      then have "x = buffer + of_nat (k + i)" by simp
      moreover have "k + i < Suc c" using i(1) assms(2) by (simp add: k_def)
      ultimately show False using out assms(3) in_regionI [of "k + i" "Suc c" buffer] by simp
    qed
    ultimately show "write_bytes m2 buffer (xs @ [0]) x = m x"
      using out by (simp add: write_bytes_def m2_def a m1)
  qed
  ultimately show ?thesis using c by (auto simp: a text_in_buffer_def)
qed

lemma ki_make_ulong_string_text:
  assumes "2 \<le> sint base" "sint base \<le> 16"
  shows "\<exists>m'. ki_make_ulong_string buffer num base s = Some (s\<lparr>mem := m'\<rparr>)
    \<and> text_in_buffer buffer 65 (mem s) (number_bytes ki_lettermap (unat base) (unat num)) m'"
proof -
  define xs where "xs = number_bytes ki_lettermap (unat base) (unat num)"
  have nb: "\<not> (16 <s base \<or> base <s 2)" using assms by (simp add: word_sless_alt)
  then have b: "2 \<le> unat base" "unat base \<le> 16" using base_range [of 16 base] by simp_all
  have nz: "0 \<notin> set xs"
    using set_number_bytes [of "unat base" ki_lettermap "unat num"] b lettermap_facts(5) by (metis lettermap_facts(4) subsetD xs_def)
  have len: "length xs \<le> 64" using b length_number_bytes_u32 [of "unat base" ki_lettermap num] by (simp add: xs_def)
  define m1 where "m1 = memset_loop buffer 0 (of_nat (Suc 64)) (mem s)"
  have ms: "snd (ki_memset buffer 0 MAXCHARS (mem s)) = m1"
    by (simp add: ki_memset_def ki_memset_loop_eq MAXCHARS_def m1_def)
  show ?thesis
  proof (cases "num = 0")
    case True
    then have xs: "xs = [48]" using b by (simp add: xs_def number_bytes.simps ki_lettermap_def ascii_def)
    have "same_outside buffer 65 (mem s) (zero_string buffer m1)"
      using in_regionI [of 0 65 buffer] in_regionI [of 1 65 buffer]
      by (auto simp: same_outside_def zero_string_def m1_def memset_loop_byte)
    then show ?thesis using True nb xs ms unfolding xs_def [symmetric]
      by (intro exI [of _ "zero_string buffer m1"])
         (simp add: ki_make_ulong_string_def text_in_buffer_def zero_string_def)
  next
    case False
    have l: "ki_digits_loop num base (buffer + 64) m1 = Some (buffer + 64 - of_nat (length xs),
        write_bytes m1 (buffer + 64 - of_nat (length xs)) xs)"
      using ki_digits_loop_result [of base num "buffer + 64" m1] b False
      by (simp add: xs_def [symmetric] Let_def word_gt_0)
    obtain m3 where m3: "copy_to_front buffer (buffer + 64 - of_nat (length xs))
        (write_bytes m1 (buffer + 64 - of_nat (length xs)) xs) = Some m3"
      "text_in_buffer buffer (Suc 64) (mem s) xs m3"
      using buffer_filled [OF nz len, where buffer = buffer and m = "mem s"] unfolding m1_def by auto
    have "ki_make_ulong_string buffer num base s = Some (s\<lparr>mem := m3\<rparr>)"
      using nb False l m3(1) ms by (simp add: ki_make_ulong_string_def MAXCHARS_def)
    then show ?thesis using m3(2) unfolding xs_def [symmetric] by auto
  qed
qed

lemma itoa_text:
  assumes "2 \<le> sint base" "sint base \<le> 36"
  shows "\<exists>m'. let xs = number_bytes lettermap (unat base) (unat num) in
    itoa buffer num base s = Some (int (length xs), s\<lparr>mem := m'\<rparr>)
    \<and> text_in_buffer buffer 33 (mem s) xs m'
    \<and> parse_bytes lettermap (unat base) xs = unat num"
proof -
  define xs where "xs = number_bytes lettermap (unat base) (unat num)"
  have nb: "\<not> (36 <s base \<or> base <s 2)" using assms by (simp add: word_sless_alt)
  then have b: "2 \<le> unat base" "unat base \<le> 36" using base_range [of 36 base] by simp_all
  have p: "parse_bytes lettermap (unat base) xs = unat num"
    unfolding xs_def using b by (intro parse_number_bytes) simp_all
  have nz: "0 \<notin> set xs"
    using set_number_bytes [of "unat base" lettermap "unat num"] b lettermap_facts(2) by (metis lettermap_facts(1) subsetD xs_def)
  show ?thesis
  proof (cases "num = 0")
    case True
    then have xs: "xs = [48]" using b by (simp add: xs_def number_bytes.simps lettermap_def ascii_def)
    have "same_outside buffer 33 (mem s) ((mem s)(buffer := 48, buffer + 1 := 0))"
      using in_regionI [of 0 33 buffer] in_regionI [of 1 33 buffer] by (auto simp: same_outside_def)
    then show ?thesis using True nb p xs unfolding xs_def [symmetric]
      by (intro exI [of _ "(mem s)(buffer := 48, buffer + 1 := 0)"]) (simp add: itoa_def text_in_buffer_def)
  next
    case False
    have len: "length xs \<le> 32" using b length_number_bytes_u32 by (simp add: xs_def)
    define m1 where "m1 = memset_loop buffer 0 (of_nat (Suc 32)) (mem s)"
    have l: "itoa_loop num base (buffer + 32) 0 m1 = Inr (buffer + 32 - of_nat (length xs), length xs,
        write_bytes m1 (buffer + 32 - of_nat (length xs)) xs)"
      using itoa_loop_result [of base num 0 "buffer + 32" m1] b False len
      by (simp add: xs_def [symmetric] Let_def word_gt_0)
    obtain m3 where m3: "copy_to_front buffer (buffer + 32 - of_nat (length xs))
        (write_bytes m1 (buffer + 32 - of_nat (length xs)) xs) = Some m3"
      "text_in_buffer buffer (Suc 32) (mem s) xs m3"
      using buffer_filled [OF nz len, where buffer = buffer and m = "mem s"] unfolding m1_def by auto
    have "itoa buffer num base s = Some (int (length xs), s\<lparr>mem := m3\<rparr>)"
      using nb False l m3(1) by (simp add: itoa_def memset_def ITOA_BUFFER_SIZE_def m1_def)
    then show ?thesis using m3(2) p unfolding xs_def [symmetric] by auto
  qed
qed

section \<open>Properties\<close>

text \<open>C30: for every number and every base from 2 to 36 \<open>itoa\<close> returns the number of digits,
  leaves the number's text as a terminated string at the front of the buffer, and writes no byte
  outside the 33 bytes that the header calls the minimum safe size. The text parses back.\<close>

theorem itoa_correct:
  assumes "2 \<le> sint base" "sint base \<le> 36"
  shows "\<exists>m'. let xs = number_bytes lettermap (unat base) (unat num) in
    itoa buffer num base s = Some (int (length xs), s\<lparr>mem := m'\<rparr>)
    \<and> text_in_buffer buffer 33 (mem s) xs m'
    \<and> parse_bytes lettermap (unat base) xs = unat num"
  by (rule itoa_text [OF assms])

theorem itoa_correct_witness:
  "(2 :: int) \<le> sint (16 :: i32) \<and>
   (\<exists>m'. itoa 0x100 255 16 \<lparr>mem = (\<lambda>_. 1), io = [], errno = 0\<rparr> = Some (2, \<lparr>mem = m', io = [], errno = 0\<rparr>)
     \<and> cstr m' 0x100 [70, 70])"
proof -
  have "number_bytes lettermap 16 255 = [70, 70]"
    by (simp add: number_bytes.simps lettermap_def ascii_def)
  then show ?thesis
    using itoa_correct [where base = 16 and buffer = "0x100" and num = 255 and s = "\<lparr>mem = (\<lambda>_. 1), io = [], errno = 0\<rparr>"]
    by (auto simp: text_in_buffer_def Let_def)
qed

text \<open>the early \<open>ki_make_ulong_string\<close> terminates for every number and every base from 2 to
  16, leaves the text as a terminated string, stays in its 65 bytes and reports no error.\<close>

theorem ki_make_ulong_string_correct:
  assumes "2 \<le> sint base" "sint base \<le> 16"
  shows "\<exists>m'. let xs = number_bytes ki_lettermap (unat base) (unat num) in
    ki_make_ulong_string buffer num base s = Some (s\<lparr>mem := m'\<rparr>)
    \<and> text_in_buffer buffer 65 (mem s) xs m'
    \<and> parse_bytes ki_lettermap (unat base) xs = unat num"
proof -
  have "2 \<le> unat base" "unat base \<le> 16"
    using base_range [of 16 base] assms by (simp_all add: word_sless_alt)
  then have "parse_bytes ki_lettermap (unat base) (number_bytes ki_lettermap (unat base) (unat num)) = unat num"
    by (intro parse_number_bytes) simp_all
  then show ?thesis using ki_make_ulong_string_text [OF assms, of buffer num s] by (auto simp: Let_def)
qed

theorem ki_make_ulong_string_correct_witness:
  "(2 :: int) \<le> sint (10 :: i32) \<and>
   (\<exists>m'. ki_make_ulong_string 0x100 42 10 \<lparr>mem = (\<lambda>_. 1), io = [], kinit_errno = 0\<rparr>
      = Some \<lparr>mem = m', io = [], kinit_errno = 0\<rparr> \<and> cstr m' 0x100 [52, 50])"
proof -
  have "number_bytes ki_lettermap 10 42 = [52, 50]"
    by (simp add: number_bytes.simps ki_lettermap_def ascii_def)
  then show ?thesis
    using ki_make_ulong_string_correct [where base = 10 and buffer = "0x100" and num = 42
        and s = "\<lparr>mem = (\<lambda>_. 1), io = [], kinit_errno = 0\<rparr>"]
    by (auto simp: text_in_buffer_def Let_def)
qed

end
