(* ===== verification/EarlyTerm.thy ===== *)
theory EarlyTerm
  imports Video NumText
begin

text \<open>
  The early terminal, kernel/init/init/kterm.c: a cursor, a colour and the text buffer.
  The record extends the state of the early phase, so every later early component
  (multiboot, allocator, paging) prints by updating its own state. The cursor is kept as two
  integers, as the code's \<open>int\<close>s: a backspace in column 0 really moves it to -1.
  \<open>ki_printf\<close> takes its format as the list of its characters and its variable
  arguments as a list; reading an argument that is missing or of another kind, and reading past
  the terminator of the format, are undefined in C and \<open>None\<close> here.
\<close>

record kterm = kinit +
  cur_x :: int
  cur_y :: int
  color_attribute :: u8

definition TAB_SIZE :: nat where "TAB_SIZE = 4"
definition VIDEO_COLOR_ATTRIBUTE :: u16 where "VIDEO_COLOR_ATTRIBUTE = 0x0F"

definition inportb_low :: "device \<Rightarrow> u16 \<Rightarrow> 'a machine_scheme \<Rightarrow> u8 \<times> 'a machine_scheme" where
  "inportb_low dev port s = (let v = dev (io s) port in (v, s\<lparr>io := io s @ [In port v]\<rparr>))"

definition outportb_low :: "u16 \<Rightarrow> u8 \<Rightarrow> 'a machine_scheme \<Rightarrow> 'a machine_scheme" where
  "outportb_low port v s = s\<lparr>io := io s @ [Out port v]\<rparr>"

section \<open>Characters\<close>

definition kernel_early_scroll_display :: "'a kterm_scheme \<Rightarrow> 'a kterm_scheme" where
  "kernel_early_scroll_display s =
     (let copy_sz = VIDEO_COLS * (VIDEO_ROWS - 1);
          m = copy_cells_up copy_sz (mem s);
          m' = fill_cells copy_sz (copy_sz + VIDEO_COLS) (push_bit 8 VIDEO_COLOR_ATTRIBUTE OR 0x20) m
      in s\<lparr>mem := m', cur_y := VIDEO_ROWS - 1\<rparr>)"

text \<open>The check at the end of \<open>ki_putc\<close>.\<close>

definition scroll_if_below :: "'a kterm_scheme \<Rightarrow> 'a kterm_scheme" where
  "scroll_if_below s = (if cur_y s > VIDEO_ROWS - 1 then kernel_early_scroll_display s else s)"

text \<open>The branch of \<open>ki_putc\<close> for a character that is no control character, with the
  final check: what the recursive calls \<open>ki_putc(0x20)\<close> of the other branches run.\<close>

definition ki_putc_plain :: "i32 \<Rightarrow> 'a kterm_scheme \<Rightarrow> 'a kterm_scheme" where
  "ki_putc_plain c s =
     (let s1 = s\<lparr>mem := set_cell (cur_y s * VIDEO_COLS + cur_x s)
                   (push_bit 8 (ucast (color_attribute s)) OR ucast c) (mem s),
                 cur_x := cur_x s + 1\<rparr>;
          s2 = (if cur_x s1 \<ge> VIDEO_COLS then s1\<lparr>cur_x := 0, cur_y := cur_y s1 + 1\<rparr> else s1)
      in scroll_if_below s2)"

text \<open>\<open>ki_putc\<close> returns its argument, which no caller uses; the model returns the state.\<close>

definition ki_putc :: "i32 \<Rightarrow> 'a kterm_scheme \<Rightarrow> 'a kterm_scheme" where
  "ki_putc c s =
     (if c = 10 then scroll_if_below (s\<lparr>cur_x := 0, cur_y := cur_y s + 1\<rparr>)
      else if c = 9 then scroll_if_below ((ki_putc_plain 0x20 ^^ TAB_SIZE) s)
      else if c = 8 then
        (let s1 = ki_putc_plain 0x20 (s\<lparr>cur_x := cur_x s - 1\<rparr>)
         in scroll_if_below (s1\<lparr>cur_x := cur_x s1 - 1\<rparr>))
      else ki_putc_plain c s)"

definition ki_update_cursor :: "'a kterm_scheme \<Rightarrow> 'a kterm_scheme" where
  "ki_update_cursor s =
     (let pos = (word_of_int (cur_y s * VIDEO_COLS + cur_x s) :: u16)
      in outportb_low 0x3D5 (ucast (drop_bit 8 pos AND 0xff))
           (outportb_low 0x3D4 0x0E
             (outportb_low 0x3D5 (ucast (pos AND 0xff))
               (outportb_low 0x3D4 0x0F s))))"

definition kernel_early_enable_cursor :: "device \<Rightarrow> u8 \<Rightarrow> u8 \<Rightarrow> 'a kterm_scheme \<Rightarrow> 'a kterm_scheme" where
  "kernel_early_enable_cursor dev cursor_start cursor_end s =
     (let s1 = outportb_low 0x3D4 0x0A s;
          (v1, s2) = inportb_low dev (0x3D5 AND 0xC0) s1;
          s3 = outportb_low 0x3D5 (v1 OR cursor_start) s2;
          s4 = outportb_low 0x3D4 0x0B s3;
          (v2, s5) = inportb_low dev (0x3D5 AND 0xE0) s4
      in outportb_low 0x3D5 (v2 OR cursor_end) s5)"

definition kernel_early_set_color_attr :: "u8 \<Rightarrow> 'a kterm_scheme \<Rightarrow> u8 \<times> 'a kterm_scheme" where
  "kernel_early_set_color_attr color s = (color_attribute s, s\<lparr>color_attribute := color\<rparr>)"

section \<open>Strings\<close>

text \<open>\<open>while (*s) ki_putc(*s++)\<close>: the string is read from the memory it prints to.\<close>

partial_function (option) puts_loop :: "u32 \<Rightarrow> 'a kterm_scheme \<Rightarrow> (u32 \<times> 'a kterm_scheme) option" where
  "puts_loop p s =
     (if mem s p \<noteq> 0 then puts_loop (p + 1) (ki_putc (scast (mem s p)) s) else Some (p, s))"

definition kernel_early_puts :: "u32 \<Rightarrow> 'a kterm_scheme \<Rightarrow> (i32 \<times> 'a kterm_scheme) option" where
  "kernel_early_puts str s =
     map_option (\<lambda>(p, s'). (p - str + 1, ki_update_cursor (ki_putc 10 s'))) (puts_loop str s)"

definition kernel_early_putstr :: "u32 \<Rightarrow> 'a kterm_scheme \<Rightarrow> (i32 \<times> 'a kterm_scheme) option" where
  "kernel_early_putstr str s =
     map_option (\<lambda>(p, s'). (p - str + 1, ki_update_cursor s')) (puts_loop str s)"

section \<open>ki_printf\<close>

definition put_bytes :: "u8 list \<Rightarrow> 'a kterm_scheme \<Rightarrow> 'a kterm_scheme" where
  "put_bytes xs s = fold (\<lambda>c. ki_putc (scast c)) xs s"

text \<open>
  \<open>for (i = 0; i < ki_strlen(num_str); i++) ki_putc(num_str[i])\<close>: the local array
  \<open>num_str\<close> is a memory of its own, with the array at address 0.
\<close>

function put_local :: "memory \<Rightarrow> u32 \<Rightarrow> u32 \<Rightarrow> 'a kterm_scheme \<Rightarrow> 'a kterm_scheme" where
  "put_local num_str i n s =
     (if i < n then put_local num_str (i + 1) n (ki_putc (scast (num_str i)) s) else s)"
  by pat_completeness auto
termination
  by (relation "measure (\<lambda>(m, i, n, s). unat (n - i))") (auto simp: index_measure)

declare put_local.simps [simp del]

definition put_number :: "u32 \<Rightarrow> i32 \<Rightarrow> 'a kterm_scheme \<Rightarrow> 'a kterm_scheme option" where
  "put_number argument base s = do {
     s' \<leftarrow> ki_make_ulong_string 0 argument base (s\<lparr>mem := (\<lambda>_. 0)\<rparr>);
     n \<leftarrow> ki_strlen 0 (mem s');
     Some (put_local (mem s') 0 n (s'\<lparr>mem := mem s\<rparr>))
   }"

definition conversion_base :: "u8 \<Rightarrow> i32 option" where
  "conversion_base c =
     (if c \<in> set (ascii ''di'') then Some 10
      else if c \<in> set (ascii ''b'') then Some 2
      else if c \<in> set (ascii ''Xx'') then Some 16
      else None)"

fun ki_printf_loop :: "u8 list \<Rightarrow> va_arg list \<Rightarrow> 'a kterm_scheme \<Rightarrow> 'a kterm_scheme option" where
  "ki_printf_loop [] args s = Some s"
| "ki_printf_loop [c] args s = (if c = 37 then None else Some (ki_putc (scast c) s))"
| "ki_printf_loop (c # f # str) args s =
     (if c = 37 then
        (case conversion_base f of
           Some base \<Rightarrow>
             (case args of
                VaWord argument # args' \<Rightarrow> Option.bind (put_number argument base s) (ki_printf_loop str args')
              | _ \<Rightarrow> None)
         | None \<Rightarrow>
             (if f = 115 then
                (case args of VaStr argument # args' \<Rightarrow> ki_printf_loop str args' (put_bytes argument s)
                 | _ \<Rightarrow> None)
              else if f = 99 then
                (case args of
                   VaWord argument # args' \<Rightarrow>
                     ki_printf_loop str args' (ki_putc (ucast (ucast argument :: u8)) s)
                 | _ \<Rightarrow> None)
              else ki_printf_loop str args (ki_putc (scast f) s)))
      else ki_printf_loop (f # str) args (ki_putc (scast c) s))"

definition ki_printf :: "string \<Rightarrow> va_arg list \<Rightarrow> 'a kterm_scheme \<Rightarrow> 'a kterm_scheme option" where
  "ki_printf str args s = map_option ki_update_cursor (ki_printf_loop (ascii str) args s)"

section \<open>The cursor stays on the screen\<close>

definition term_ok :: "'a kterm_scheme \<Rightarrow> bool" where
  "term_ok s \<longleftrightarrow> 0 \<le> cur_x s \<and> cur_x s < 80 \<and> 0 \<le> cur_y s \<and> cur_y s < 25"

text \<open>
  A state change that only prints: it may change the cells of the screen, the log of
  port writes and the cursor, and leaves the cursor on the screen.
\<close>

definition prints :: "'a kterm_scheme \<Rightarrow> 'a kterm_scheme \<Rightarrow> bool" where
  "prints s s' \<longleftrightarrow>
     (\<exists>m l x y. s' = s\<lparr>mem := m, io := io s @ l, cur_x := x, cur_y := y\<rparr>
        \<and> same_outside_cells 0 2000 (mem s) m) \<and> term_ok s'"

lemma printsI:
  "s' = s\<lparr>mem := m, io := io s @ l, cur_x := x, cur_y := y\<rparr> \<Longrightarrow> same_outside_cells 0 2000 (mem s) m
   \<Longrightarrow> term_ok s' \<Longrightarrow> prints s s'"
  by (auto simp: prints_def)

lemma prints_refl: "term_ok s \<Longrightarrow> prints s s"
  by (rule printsI [where m = "mem s" and l = "[]" and x = "cur_x s" and y = "cur_y s"]) simp_all

lemma prints_trans: "prints s1 s2 \<Longrightarrow> prints s2 s3 \<Longrightarrow> prints s1 s3"
proof -
  assume "prints s1 s2" "prints s2 s3"
  then obtain m l x y m' l' x' y' where
    "s2 = s1\<lparr>mem := m, io := io s1 @ l, cur_x := x, cur_y := y\<rparr>" "same_outside_cells 0 2000 (mem s1) m"
    "s3 = s2\<lparr>mem := m', io := io s2 @ l', cur_x := x', cur_y := y'\<rparr>" "same_outside_cells 0 2000 (mem s2) m'"
    "term_ok s3"
    unfolding prints_def by blast
  then show ?thesis
    by (intro printsI [where m = m' and l = "l @ l'" and x = x' and y = y']) (auto elim: same_outside_cells_trans)
qed

lemma prints_ok: "prints s s' \<Longrightarrow> term_ok s'"
  by (simp add: prints_def)

lemma near_screen [simp]: "- 2000 \<le> i \<Longrightarrow> i \<le> 4000 \<Longrightarrow> near i"
  by (simp add: near_def)

text \<open>Scrolling: every row moves up by one, the last one is blanked.\<close>

lemma scroll_result:
  "same_outside_cells 0 2000 (mem s) (mem (kernel_early_scroll_display s)) \<and>
   (\<forall>j. 0 \<le> j \<longrightarrow> j < 2000 \<longrightarrow>
      cell (mem (kernel_early_scroll_display s)) j = (if j < 1920 then cell (mem s) (j + 80) else 0x0F20))"
proof -
  let ?m = "copy_cells_up 1920 (mem s)"
  have c: "same_outside_cells 0 1920 (mem s) ?m"
    "\<And>j. near j \<Longrightarrow> cell ?m j = (if 0 \<le> j \<and> j < 1920 then cell (mem s) (j + 80) else cell (mem s) j)"
    using copy_cells_up_result [of 1920 "mem s"] by (auto simp: VIDEO_COLS_def)
  let ?m' = "fill_cells 1920 2000 (0x0F20) ?m"
  have f: "same_outside_cells 1920 2000 ?m ?m'"
    "\<And>j. near j \<Longrightarrow> cell ?m' j = (if 1920 \<le> j \<and> j < 2000 then 0x0F20 else cell ?m j)"
    using fill_cells_result [of 1920 2000 ?m "0x0F20"] by auto
  have e: "mem (kernel_early_scroll_display s) = ?m'"
    by (simp add: kernel_early_scroll_display_def VIDEO_COLS_def VIDEO_ROWS_def VIDEO_COLOR_ATTRIBUTE_def)
  have "same_outside_cells 0 2000 (mem s) ?m'"
    using same_outside_cells_mono [OF c(1), of 0 2000] same_outside_cells_mono [OF f(1), of 0 2000]
    by (auto intro: same_outside_cells_trans)
  then show ?thesis using c(2) f(2) by (auto simp: e)
qed

lemma scroll_prints:
  "0 \<le> cur_x s \<Longrightarrow> cur_x s < 80 \<Longrightarrow> prints s (kernel_early_scroll_display s)"
  using scroll_result [of s]
  by (intro printsI [where m = "mem (kernel_early_scroll_display s)" and l = "[]" and x = "cur_x s" and y = 24])
     (auto simp: kernel_early_scroll_display_def Let_def term_ok_def VIDEO_ROWS_def)

lemma scroll_if_below_prints:
  "0 \<le> cur_x s \<Longrightarrow> cur_x s < 80 \<Longrightarrow> 0 \<le> cur_y s \<Longrightarrow> prints s (scroll_if_below s)"
  by (auto simp: scroll_if_below_def VIDEO_ROWS_def term_ok_def intro: scroll_prints prints_refl)

text \<open>Moving the cursor and writing one cell, before the final check of \<open>ki_putc\<close>.\<close>

lemma prints_move:
  assumes "prints (s\<lparr>mem := m, cur_x := x, cur_y := y\<rparr>) s'" "same_outside_cells 0 2000 (mem s) m"
  shows "prints s s'"
proof -
  obtain m' l x' y' where
    "s' = s\<lparr>mem := m, cur_x := x, cur_y := y\<rparr>\<lparr>mem := m', io := io s @ l, cur_x := x', cur_y := y'\<rparr>"
    "same_outside_cells 0 2000 m m'" "term_ok s'"
    using assms(1) unfolding prints_def by auto
  then show ?thesis using assms(2)
    by (intro printsI [where m = m' and l = l and x = x' and y = y']) (auto elim: same_outside_cells_trans)
qed

lemma write_cell_outside:
  "term_ok s \<Longrightarrow> same_outside_cells 0 2000 m (set_cell (cur_y s * 80 + cur_x s) v m)"
  by (intro set_cell_outside) (auto simp: term_ok_def)

lemma ki_putc_plain_prints:
  assumes "term_ok s"
  shows "prints s (ki_putc_plain c s)"
proof -
  define v where "v = push_bit 8 (ucast (color_attribute s)) OR (ucast c :: u16)"
  define m where "m = set_cell (cur_y s * 80 + cur_x s) v (mem s)"
  define x where "x = (if cur_x s + 1 \<ge> 80 then 0 else cur_x s + 1)"
  define y where "y = (if cur_x s + 1 \<ge> 80 then cur_y s + 1 else cur_y s)"
  have "ki_putc_plain c s = scroll_if_below (s\<lparr>mem := m, cur_x := x, cur_y := y\<rparr>)"
    by (simp add: ki_putc_plain_def Let_def VIDEO_COLS_def m_def v_def x_def y_def)
  moreover have "prints (s\<lparr>mem := m, cur_x := x, cur_y := y\<rparr>) (scroll_if_below (s\<lparr>mem := m, cur_x := x, cur_y := y\<rparr>))"
    using assms by (intro scroll_if_below_prints) (auto simp: x_def y_def term_ok_def)
  moreover have "same_outside_cells 0 2000 (mem s) m"
    unfolding m_def by (rule write_cell_outside [OF assms])
  ultimately show ?thesis using prints_move by metis
qed

lemma scroll_if_below_ok: "term_ok s \<Longrightarrow> scroll_if_below s = s"
  by (simp add: scroll_if_below_def VIDEO_ROWS_def term_ok_def)

lemma ki_putc_prints:
  assumes "term_ok s" and "c = 8 \<Longrightarrow> 0 < cur_x s"
  shows "prints s (ki_putc c s)"
proof -
  consider "c = 10" | "c = 9" | "c = 8" | "c \<noteq> 10" "c \<noteq> 9" "c \<noteq> 8" by blast
  then show ?thesis
  proof cases
    case 1
    have "prints (s\<lparr>mem := mem s, cur_x := 0, cur_y := cur_y s + 1\<rparr>) (ki_putc c s)"
      using assms(1) 1 scroll_if_below_prints [of "s\<lparr>mem := mem s, cur_x := 0, cur_y := cur_y s + 1\<rparr>"]
      by (simp add: ki_putc_def term_ok_def)
    then show ?thesis by (rule prints_move) simp
  next
    case 2
    have "prints s ((ki_putc_plain 0x20 ^^ n) s)" for n
    proof (induction n)
      case (Suc n)
      then show ?case using ki_putc_plain_prints prints_ok prints_trans by fastforce
    qed (simp add: prints_refl assms)
    from this [of TAB_SIZE] show ?thesis
      using 2 prints_ok [of s "(ki_putc_plain 0x20 ^^ TAB_SIZE) s"]
      by (simp add: ki_putc_def scroll_if_below_ok)
  next
    case 3
    then have x: "0 < cur_x s" using assms(2) by simp
    let ?m = "set_cell (cur_y s * 80 + (cur_x s - 1)) (push_bit 8 (ucast (color_attribute s)) OR 0x20) (mem s)"
    have "ki_putc_plain 0x20 (s\<lparr>cur_x := cur_x s - 1\<rparr>) = s\<lparr>mem := ?m, cur_x := cur_x s\<rparr>"
      using x assms(1) scroll_if_below_ok [of "s\<lparr>mem := ?m, cur_x := cur_x s\<rparr>"]
      by (simp add: ki_putc_plain_def Let_def VIDEO_COLS_def term_ok_def)
    then have "ki_putc c s = scroll_if_below (s\<lparr>mem := ?m, cur_x := cur_x s - 1\<rparr>)"
      using 3 by (simp add: ki_putc_def)
    also have "\<dots> = s\<lparr>mem := ?m, cur_x := cur_x s - 1\<rparr>"
      using x assms(1) by (intro scroll_if_below_ok) (simp add: term_ok_def)
    finally have "ki_putc c s = s\<lparr>mem := ?m, cur_x := cur_x s - 1\<rparr>" .
    moreover have "same_outside_cells 0 2000 (mem s) ?m"
      using x assms(1) by (intro set_cell_outside) (auto simp: term_ok_def)
    ultimately show ?thesis using x assms(1)
      by (intro printsI [where m = ?m and l = "[]" and x = "cur_x s - 1" and y = "cur_y s"]) (auto simp: term_ok_def)
  next
    case 4
    then show ?thesis using ki_putc_plain_prints [OF assms(1)] by (simp add: ki_putc_def)
  qed
qed

interpretation early: character_sink ki_putc term_ok "\<lambda>c. c \<noteq> 8" prints
  by unfold_locales (auto intro: prints_refl prints_trans ki_putc_prints prints_ok)

lemma fold_ki_putc_prints: "term_ok s \<Longrightarrow> 8 \<notin> set cs \<Longrightarrow> prints s (fold ki_putc cs s)"
  using early.fold_put [of s cs] by (auto simp: list_all_iff)

lemma ki_update_cursor_prints: "term_ok s \<Longrightarrow> prints s (ki_update_cursor s)"
  by (rule printsI [where m = "mem s" and l =
        "[Out 0x3D4 0x0F, Out 0x3D5 (ucast ((word_of_int (cur_y s * VIDEO_COLS + cur_x s) :: u16) AND 0xff)),
          Out 0x3D4 0x0E, Out 0x3D5 (ucast (drop_bit 8 (word_of_int (cur_y s * VIDEO_COLS + cur_x s) :: u16) AND 0xff))]"
        and x = "cur_x s" and y = "cur_y s"])
     (simp_all add: ki_update_cursor_def Let_def outportb_low_def term_ok_def)

section \<open>What a format prints\<close>

text \<open>The reference: a format is read as a list of directives, and the directives take the arguments in order. The characters
  that introduce a directive, their bases and the digits are listed here on their own, not taken from the code.\<close>

datatype directive = Literal u8 | Number nat | Text | Character

definition directive_of :: "u8 \<Rightarrow> directive" where
  "directive_of f = (case map_of
     (zip (ascii ''dibxXsc'') [Number 10, Number 10, Number 2, Number 16, Number 16, Text, Character]) f of
       Some d \<Rightarrow> d | None \<Rightarrow> Literal f)"

fun directives :: "u8 list \<Rightarrow> directive list option" where
  "directives [] = Some []"
| "directives (c # str) =
     (if c \<noteq> 37 then map_option (Cons (Literal c)) (directives str)
      else case str of [] \<Rightarrow> None | f # str' \<Rightarrow> map_option (Cons (directive_of f)) (directives str'))"

definition digits_text :: "nat \<Rightarrow> u32 \<Rightarrow> i32 list" where
  "digits_text b n = map scast (number_bytes (ascii ''0123456789abcdef'') b (unat n))"

fun render :: "directive list \<Rightarrow> va_arg list \<Rightarrow> i32 list option" where
  "render [] args = Some []"
| "render (Literal c # ds) args = map_option (Cons (scast c)) (render ds args)"
| "render (Number b # ds) (VaWord n # args) = map_option (append (digits_text b n)) (render ds args)"
| "render (Text # ds) (VaStr xs # args) = map_option (append (map scast xs)) (render ds args)"
| "render (Character # ds) (VaWord n # args) = map_option (Cons (ucast (ucast n :: u8))) (render ds args)"
| "render ds args = None"

definition ki_format :: "u8 list \<Rightarrow> va_arg list \<Rightarrow> i32 list option" where
  "ki_format str args = Option.bind (directives str) (\<lambda>ds. render ds args)"

text \<open>The digits the code writes are those of the reference, and so are the bases.\<close>

definition number_text :: "i32 \<Rightarrow> u32 \<Rightarrow> i32 list" where
  "number_text base n = map scast (number_bytes ki_lettermap (unat base) (unat n))"

lemma number_text_digits: "number_text base n = digits_text (unat base) n"
  by (simp add: number_text_def digits_text_def ki_lettermap_def)

lemma directive_of_base:
  "directive_of f = (case conversion_base f of Some base \<Rightarrow> Number (unat base)
     | None \<Rightarrow> if f = 115 then Text else if f = 99 then Character else Literal f)"
  by (simp add: directive_of_def conversion_base_def ascii_def)

lemma ki_format_simps:
  "ki_format [] args = Some []"
  "ki_format [c] args = (if c = 37 then None else Some [scast c])"
  "c \<noteq> 37 \<Longrightarrow> ki_format (c # str) args = map_option (Cons (scast c)) (ki_format str args)"
  "ki_format (37 # f # str) args = Option.bind (directives str) (\<lambda>ds. render (directive_of f # ds) args)"
  by (cases "directives str"; simp add: ki_format_def)+

lemmas ki_format_eval = ki_format_def directive_of_def ascii_def number_text_digits

lemma put_local_cstr:
  assumes "cstr m (of_nat k) xs" "k + length xs < 2 ^ 32"
  shows "put_local m (of_nat k) (of_nat (k + length xs)) s = put_bytes xs s"
  using assms
proof (induction xs arbitrary: k s)
  case Nil
  then show ?case by (subst put_local.simps) (simp add: put_bytes_def)
next
  case (Cons x xs)
  have "(of_nat k :: u32) < of_nat (k + length (x # xs))"
    using Cons.prems(2) by (simp only: word_less_nat_alt unat_of_nat_u32) simp
  moreover have "put_local m (of_nat (Suc k)) (of_nat (Suc k + length xs)) (ki_putc (scast x) s)
      = put_bytes xs (ki_putc (scast x) s)"
    using Cons.prems by (intro Cons.IH) (simp_all add: add.commute)
  ultimately show ?case using Cons.prems(1)
    by (subst put_local.simps) (simp add: put_bytes_def add.commute)
qed

lemma put_number_text:
  assumes "2 \<le> sint base" "sint base \<le> 16"
  shows "put_number n base s = Some (fold ki_putc (number_text base n) s)"
proof -
  define xs where "xs = number_bytes ki_lettermap (unat base) (unat n)"
  obtain m' where m': "ki_make_ulong_string 0 n base (s\<lparr>mem := (\<lambda>_. 0)\<rparr>) = Some (s\<lparr>mem := (\<lambda>_. 0)\<rparr>\<lparr>mem := m'\<rparr>)"
    "cstr m' 0 xs"
    using ki_make_ulong_string_text [OF assms, of 0 n "s\<lparr>mem := (\<lambda>_. 0)\<rparr>"]
    unfolding xs_def text_in_buffer_def by blast
  have "2 \<le> unat base" using base_range [of 16 base] assms by (simp add: word_sless_alt)
  then have "length xs < 2 ^ 32"
    using length_number_bytes_u32 [of "unat base" ki_lettermap n] by (simp add: xs_def)
  then have "put_local m' 0 (of_nat (length xs)) s = put_bytes xs s"
    using put_local_cstr [of m' 0 xs s] m'(2) by simp
  then show ?thesis
    using m' ki_strlen_loop_cstr [OF m'(2)]
    by (simp add: put_number_def ki_strlen_def put_bytes_def number_text_def xs_def fold_map o_def)
qed

lemma conversion_base_range: "conversion_base f = Some base \<Longrightarrow> 2 \<le> sint base \<and> sint base \<le> 16"
  by (auto simp: conversion_base_def split: if_splits)

lemma ki_printf_loop_format:
  "ki_printf_loop str args s = map_option (\<lambda>cs. fold ki_putc cs s) (ki_format str args)"
proof (induction str args s rule: ki_printf_loop.induct)
  case (3 c f str args s)
  show ?case
  proof (cases "c \<noteq> 37")
    case True
    then show ?thesis using "3.IH"(5) by (simp add: ki_format_simps option.map_comp o_def)
  next
    case c: False
    show ?thesis
    proof (cases "conversion_base f")
      case (Some base)
      have "put_number n base s = Some (fold ki_putc (digits_text (unat base) n) s)" for n
        using conversion_base_range [OF Some] put_number_text [of base n s] by (simp add: number_text_digits)
      then show ?thesis using "3.IH"(4) [OF _ Some] c Some
        by (cases "directives str")
           (auto simp: ki_format_def directive_of_base option.map_comp o_def split: list.split va_arg.split)
    next
      case None
      then show ?thesis using "3.IH"(1-3) c
        by (cases "directives str")
           (auto simp: ki_format_def directive_of_base put_bytes_def fold_map o_def option.map_comp
             split: list.split va_arg.split)
    qed
  qed
qed (simp_all add: ki_format_simps)

lemma ki_printf_prints:
  assumes "term_ok s" "ki_format (ascii str) args = Some cs" "8 \<notin> set cs"
  obtains s' where "ki_printf str args s = Some s'" "prints s s'"
proof
  have p: "prints s (fold ki_putc cs s)" using assms by (intro fold_ki_putc_prints)
  show "ki_printf str args s = Some (ki_update_cursor (fold ki_putc cs s))"
    using assms(2) by (simp add: ki_printf_def ki_printf_loop_format)
  show "prints s (ki_update_cursor (fold ki_putc cs s))"
    using p ki_update_cursor_prints [OF prints_ok [OF p]] by (rule prints_trans)
qed

section \<open>Properties\<close>

text \<open>C31: \<open>ki_printf\<close> prints exactly the characters its format stands for and then moves the
  hardware cursor. The format is read as a list of directives: \<open>%d\<close> and \<open>%i\<close> are numbers in base 10,
  \<open>%b\<close> in base 2, \<open>%x\<close> and \<open>%X\<close> in base 16 with lower case digits, \<open>%s\<close> a text, \<open>%c\<close> one character,
  and every other character stands for itself, after a percent sign too. Each directive takes the next argument, and the
  call returns whenever the arguments fit the directives.\<close>

theorem ki_printf_is_format:
  "ki_printf str args s = map_option (\<lambda>cs. ki_update_cursor (fold ki_putc cs s)) (ki_format (ascii str) args)"
  by (simp add: ki_printf_def ki_printf_loop_format option.map_comp o_def)

definition blank_kterm :: kterm where
  "blank_kterm = \<lparr>mem = (\<lambda>_. 0), io = [], kinit_errno = 0, cur_x = 0, cur_y = 0, color_attribute = 15\<rparr>"

theorem ki_printf_is_format_witness:
  "ki_printf ''%d=%b=%x=%X %c%s%%\<newline>'' [VaWord 10, VaWord 10, VaWord 30, VaWord 30, VaWord 65, VaStr (ascii ''bc'')] blank_kterm
    = Some (ki_update_cursor (fold ki_putc (map scast (ascii ''10=1010=1e=1e Abc%\<newline>'')) blank_kterm))
   \<and> ki_printf ''%d'' [VaStr (ascii ''10'')] blank_kterm = None"
  by (simp add: ki_printf_is_format ki_format_eval digits_text_def number_bytes.simps)

text \<open>with the cursor on the screen, no character but a backspace in column 0 takes the cursor
  off the screen or writes outside the 2000 cells; nothing but the cells and the cursor changes.\<close>

theorem ki_putc_stays_on_screen:
  assumes "term_ok s" and "c \<noteq> 8 \<or> 0 < cur_x s"
  shows "term_ok (ki_putc c s) \<and> same_outside_cells 0 2000 (mem s) (mem (ki_putc c s))
    \<and> kinit_errno (ki_putc c s) = kinit_errno s \<and> color_attribute (ki_putc c s) = color_attribute s"
proof -
  have "prints s (ki_putc c s)" using assms by (intro ki_putc_prints) auto
  then show ?thesis by (auto simp: prints_def)
qed

theorem ki_putc_stays_on_screen_witness:
  "term_ok (ki_putc 65 \<lparr>mem = (\<lambda>_. 0), io = [], kinit_errno = 0, cur_x = 79, cur_y = 24, color_attribute = 15\<rparr>)"
  using ki_putc_stays_on_screen [of "\<lparr>mem = (\<lambda>_. 0), io = [], kinit_errno = 0, cur_x = 79, cur_y = 24, color_attribute = 15\<rparr>" 65]
  by (simp add: term_ok_def)

text \<open>a printable character lands in the cell under the cursor with the current colour, every
  other cell of the screen keeps its value, and the cursor moves to the next cell; in the last cell the
  screen scrolls instead: all rows move up, the character is then at the end of the row above, the last
  row is blank and the cursor at its start.\<close>

theorem ki_putc_character:
  assumes "term_ok s" "c \<notin> {8, 9, 10}" "0 \<le> j" "j < 2000"
  defines "pos \<equiv> 80 * cur_y s + cur_x s" and "s' \<equiv> ki_putc c s"
    and "put \<equiv> (\<lambda>i. if i = 80 * cur_y s + cur_x s
      then push_bit 8 (ucast (color_attribute s)) OR ucast c else cell (mem s) i)"
  shows "80 * cur_y s' + cur_x s' = (if pos = 1999 then 1920 else pos + 1)
    \<and> cell (mem s') j = (if pos < 1999 then put j else if j < 1920 then put (j + 80) else 0x0F20)"
proof -
  define v where "v = push_bit 8 (ucast (color_attribute s)) OR (ucast c :: u16)"
  define m where "m = set_cell (cur_y s * 80 + cur_x s) v (mem s)"
  have mj: "cell m i = put i" if "0 \<le> i" "i < 2000" for i
    using assms(1) that by (simp add: m_def put_def v_def cell_set_cell term_ok_def mult.commute)
  have e: "s' = scroll_if_below (if cur_x s + 1 \<ge> 80 then s\<lparr>mem := m, cur_x := 0, cur_y := cur_y s + 1\<rparr>
      else s\<lparr>mem := m, cur_x := cur_x s + 1\<rparr>)"
    using assms(2) by (simp add: s'_def ki_putc_def ki_putc_plain_def Let_def VIDEO_COLS_def m_def v_def)
  show ?thesis
  proof (cases "pos = 1999")
    case False
    have "s' = (if cur_x s + 1 \<ge> 80 then s\<lparr>mem := m, cur_x := 0, cur_y := cur_y s + 1\<rparr>
      else s\<lparr>mem := m, cur_x := cur_x s + 1\<rparr>)"
      unfolding e using False assms(1) by (intro scroll_if_below_ok) (auto simp: term_ok_def pos_def)
    moreover have "pos < 1999" using False assms(1) by (auto simp: term_ok_def pos_def)
    ultimately show ?thesis using mj assms(1,3,4) by (auto simp: pos_def term_ok_def)
  next
    case True
    then have xy: "cur_x s = 79" "cur_y s = 24" using assms(1) by (auto simp: term_ok_def pos_def)
    let ?s = "s\<lparr>mem := m, cur_x := 0, cur_y := cur_y s + 1\<rparr>"
    have "s' = kernel_early_scroll_display ?s"
      unfolding e using xy by (simp add: scroll_if_below_def VIDEO_ROWS_def)
    then show ?thesis using scroll_result [of ?s] mj assms(3,4) True
      by (auto simp: kernel_early_scroll_display_def Let_def VIDEO_ROWS_def)
  qed
qed

theorem ki_putc_character_witness:
  "cell (mem (ki_putc 65 \<lparr>mem = (\<lambda>_. 0), io = [], kinit_errno = 0, cur_x = 3, cur_y = 1, color_attribute = 15\<rparr>)) 83 = 0x0F41"
  using ki_putc_character [where c = 65 and j = 83
    and s = "\<lparr>mem = (\<lambda>_. 0), io = [], kinit_errno = 0, cur_x = 3, cur_y = 1, color_attribute = 15\<rparr>"]
  by (simp add: term_ok_def)

text \<open>a backspace in the first cell is not refused: it blanks the cell before the screen and
  leaves the cursor at column -1.\<close>

theorem ki_putc_backspace_at_home:
  assumes "cur_x s = 0" "cur_y s = 0"
  shows "cur_x (ki_putc 8 s) = - 1 \<and> cur_y (ki_putc 8 s) = 0
    \<and> cell (mem (ki_putc 8 s)) (- 1) = push_bit 8 (ucast (color_attribute s)) OR 0x20"
  using assms
  by (simp add: ki_putc_def ki_putc_plain_def Let_def scroll_if_below_def VIDEO_COLS_def VIDEO_ROWS_def cell_set_cell)

theorem ki_putc_backspace_at_home_witness:
  "cur_x (ki_putc 8 \<lparr>mem = (\<lambda>_. 0), io = [], kinit_errno = 0, cur_x = 0, cur_y = 0, color_attribute = 15\<rparr>) = - 1"
  using ki_putc_backspace_at_home [of "\<lparr>mem = (\<lambda>_. 0), io = [], kinit_errno = 0, cur_x = 0, cur_y = 0, color_attribute = 15\<rparr>"]
  by simp

end
