(* ===== verification/Multiboot.thy ===== *)
theory Multiboot
  imports EarlyTerm
begin

text \<open>
  Reading the boot loader's information: the dispatching layer
  (init/init/multiboot/api.c) and the two drivers it selects, multiboot 1 (mboot.c) and
  multiboot 2 (mboot2.c). The structures are read from physical memory at their packed offsets.
  The three function pointers of \<open>api_struct\<close> are datatypes that name the functions they can
  hold; calling a null pointer is undefined (\<open>None\<close>), and so is a division by an entry size
  of 0. The prints under DEBUG_MULTIBOOT and DEBUG_MULTIBOOT2, which no build file defines, are left out.
\<close>

section \<open>State\<close>

record mmap_data =
  mbase :: u64
  mlength :: u64
  mtype :: u32

datatype memory_size_fn = Memory_size_null | Memory_size_unimplemented
  | Mboot_get_memory_size | Mboot2_get_memory_size

datatype next_mmap_fn = Next_mmap_null | Next_mmap_unimplemented
  | Mboot_get_next_mmap_entry | Mboot2_get_next_mmap

datatype relocate_fn = Relocate_null | Relocate_unimplemented | Mboot2_relocate_tags

record multiboot_api =
  get_memory_size :: memory_size_fn
  get_next_mmap_entry :: next_mmap_fn
  relocate_multiboot :: relocate_fn

record multiboot = kterm +
  boot_magic :: u32
  mboot_ptr :: u32
  api_struct :: multiboot_api
  mboot_current_entry :: u32
  mboot2_current_entry :: u32

definition MBOOT_ERROR_INVALID_MEMSIZE :: u32 where "MBOOT_ERROR_INVALID_MEMSIZE = 0x0001"
definition MBOOT_ERROR_INVALID_MEMORY_MAP :: u32 where "MBOOT_ERROR_INVALID_MEMORY_MAP = 0x0002"
definition MBOOT_ERROR_MISALIGNED_HEADER :: u32 where "MBOOT_ERROR_MISALIGNED_HEADER = 0x0004"
definition MBOOT_ERROR_INVALID_BOOTSTRUCT :: u32 where "MBOOT_ERROR_INVALID_BOOTSTRUCT = 0x0005"
definition MBOOT_ERROR_ENTRY_NOT_FOUND :: u32 where "MBOOT_ERROR_ENTRY_NOT_FOUND = 0x0006"
definition MBOOT_ERROR_UNSUPPORTED :: u32 where "MBOOT_ERROR_UNSUPPORTED = 0x0007"

definition MEMSZ_PRESENT :: u32 where "MEMSZ_PRESENT = 0x0001"
definition MMAP_PRESENT :: u32 where "MMAP_PRESENT = 0x0040"

definition MULTIBOOT_MAGIC :: u32 where "MULTIBOOT_MAGIC = 0x2badb002"
definition MULTIBOOT2_MAGIC :: u32 where "MULTIBOOT2_MAGIC = 0x36d76289"

lemmas mboot_consts = MBOOT_ERROR_INVALID_MEMSIZE_def MBOOT_ERROR_INVALID_MEMORY_MAP_def
  MBOOT_ERROR_MISALIGNED_HEADER_def MBOOT_ERROR_INVALID_BOOTSTRUCT_def
  MBOOT_ERROR_ENTRY_NOT_FOUND_def MBOOT_ERROR_UNSUPPORTED_def MEMSZ_PRESENT_def MMAP_PRESENT_def
  MULTIBOOT_MAGIC_def MULTIBOOT2_MAGIC_def

definition bootflag_check :: "u32 \<Rightarrow> u32 \<Rightarrow> bool" where
  "bootflag_check x y \<longleftrightarrow> x AND y \<noteq> 0"

section \<open>multiboot 1: mboot.c\<close>

text \<open>The packed \<open>struct MULTIBOOT_INFO\<close>: the fields the code reads.\<close>

definition mi_flags :: "memory \<Rightarrow> u32 \<Rightarrow> u32" where "mi_flags m p = load32 m p"
definition mi_memorySzLo :: "memory \<Rightarrow> u32 \<Rightarrow> u32" where "mi_memorySzLo m p = load32 m (p + 4)"
definition mi_memorySzHi :: "memory \<Rightarrow> u32 \<Rightarrow> u32" where "mi_memorySzHi m p = load32 m (p + 8)"
definition mi_mmap_length :: "memory \<Rightarrow> u32 \<Rightarrow> u32" where "mi_mmap_length m p = load32 m (p + 44)"
definition mi_mmap_addr :: "memory \<Rightarrow> u32 \<Rightarrow> u32" where "mi_mmap_addr m p = load32 m (p + 48)"

text \<open>The packed \<open>struct MEMORY_MAP_INF\<close>: size, base address, length and type; 24 bytes.\<close>

definition mm_sz :: "memory \<Rightarrow> u32 \<Rightarrow> u32" where "mm_sz m p = load32 m p"

definition mm_data :: "memory \<Rightarrow> u32 \<Rightarrow> mmap_data" where
  "mm_data m p = \<lparr>mbase = load64 m (p + 4), mlength = load64 m (p + 12), mtype = load32 m (p + 20)\<rparr>"

definition multiboot_required :: "(u32 \<times> u32) list" where
  "multiboot_required = [(MEMSZ_PRESENT, MBOOT_ERROR_INVALID_MEMSIZE), (MMAP_PRESENT, MBOOT_ERROR_INVALID_MEMORY_MAP)]"

fun check_flags_loop :: "(u32 \<times> u32) list \<Rightarrow> u32 \<Rightarrow> 'a multiboot_scheme \<Rightarrow> int \<times> 'a multiboot_scheme" where
  "check_flags_loop [] flags s = (0, s)"
| "check_flags_loop ((flag, err) # req) flags s =
     (if \<not> bootflag_check flags flag then (-1, s\<lparr>kinit_errno := err\<rparr>) else check_flags_loop req flags s)"

definition check_multiboot_flags :: "u32 \<Rightarrow> 'a multiboot_scheme \<Rightarrow> int \<times> 'a multiboot_scheme" where
  "check_multiboot_flags flags s = check_flags_loop multiboot_required flags s"

definition multiboot_install_api_fns :: "'a multiboot_scheme \<Rightarrow> 'a multiboot_scheme" where
  "multiboot_install_api_fns s = s\<lparr>api_struct := (api_struct s)
     \<lparr>get_memory_size := Mboot_get_memory_size, get_next_mmap_entry := Mboot_get_next_mmap_entry\<rparr>\<rparr>"

definition init_multiboot :: "'a multiboot_scheme \<Rightarrow> int \<times> 'a multiboot_scheme" where
  "init_multiboot s =
     (let s1 = multiboot_install_api_fns s
      in check_multiboot_flags (mi_flags (mem s1) (mboot_ptr s1)) s1)"

text \<open>The functions behind the pointers take the old contents of their buffer and return the new.\<close>

definition mboot_get_memory_size :: "u32 \<Rightarrow> 'a multiboot_scheme \<Rightarrow> int \<times> u32 \<times> 'a multiboot_scheme" where
  "mboot_get_memory_size buffer s =
     (if \<not> bootflag_check (mi_flags (mem s) (mboot_ptr s)) MEMSZ_PRESENT
      then (-1, buffer, s\<lparr>kinit_errno := MBOOT_ERROR_ENTRY_NOT_FOUND\<rparr>)
      else (0, mi_memorySzLo (mem s) (mboot_ptr s) + mi_memorySzHi (mem s) (mboot_ptr s), s))"

definition multiboot_next_mmap :: "'a multiboot_scheme \<Rightarrow> u32 \<times> 'a multiboot_scheme" where
  "multiboot_next_mmap s =
     (let mb_memory_map = mi_mmap_addr (mem s) (mboot_ptr s);
          mmap_entries = mi_mmap_length (mem s) (mboot_ptr s) div 24
      in if mboot_current_entry s < mmap_entries then
           (mb_memory_map + mm_sz (mem s) mb_memory_map + 4 + mboot_current_entry s * 24,
            s\<lparr>mboot_current_entry := mboot_current_entry s + 1\<rparr>)
         else (0, s))"

definition mboot_get_next_mmap_entry ::
  "mmap_data \<Rightarrow> 'a multiboot_scheme \<Rightarrow> int \<times> mmap_data \<times> 'a multiboot_scheme" where
  "mboot_get_next_mmap_entry buffer s =
     (if \<not> bootflag_check (mi_flags (mem s) (mboot_ptr s)) MMAP_PRESENT
      then (-1, buffer, s\<lparr>kinit_errno := MBOOT_ERROR_ENTRY_NOT_FOUND\<rparr>)
      else (case multiboot_next_mmap s of (nxt, s') \<Rightarrow>
        if nxt = 0 then (-1, buffer, s') else (0, mm_data (mem s') nxt, s')))"

section \<open>multiboot 2: mboot2.c\<close>

definition MBOOT2_TYPETAG_END :: u32 where "MBOOT2_TYPETAG_END = 0x00"
definition MBOOT2_TYPETAG_MEMSZ :: u32 where "MBOOT2_TYPETAG_MEMSZ = 0x04"
definition MBOOT2_TYPETAG_MMAP :: u32 where "MBOOT2_TYPETAG_MMAP = 0x06"

lemmas mboot2_consts = MBOOT2_TYPETAG_END_def MBOOT2_TYPETAG_MEMSZ_def MBOOT2_TYPETAG_MMAP_def

text \<open>The packed structures: every tag starts with its type and size.\<close>

definition tag_type :: "memory \<Rightarrow> u32 \<Rightarrow> u32" where "tag_type m p = load32 m p"
definition tag_size :: "memory \<Rightarrow> u32 \<Rightarrow> u32" where "tag_size m p = load32 m (p + 4)"
definition mt_mem_lower :: "memory \<Rightarrow> u32 \<Rightarrow> u32" where "mt_mem_lower m p = load32 m (p + 8)"
definition mt_mem_upper :: "memory \<Rightarrow> u32 \<Rightarrow> u32" where "mt_mem_upper m p = load32 m (p + 12)"
definition mmap_entry_sz :: "memory \<Rightarrow> u32 \<Rightarrow> u32" where "mmap_entry_sz m p = load32 m (p + 8)"

definition mboot2_entry :: "memory \<Rightarrow> u32 \<Rightarrow> mmap_data" where
  "mboot2_entry m p = \<lparr>mbase = load64 m p, mlength = load64 m (p + 8), mtype = load32 m (p + 16)\<rparr>"

text \<open>The tag loop: \<open>None\<close> is "never ends", \<open>Some None\<close> is "no such tag".\<close>

definition next_tag :: "memory \<Rightarrow> u32 \<Rightarrow> u32" where
  "next_tag m tag = tag + ((tag_size m tag + 7) AND NOT 7)"

partial_function (option) find_tag_loop :: "memory \<Rightarrow> u32 \<Rightarrow> u32 \<Rightarrow> u32 option option" where
  "find_tag_loop m ty tag =
     (if tag_type m tag \<noteq> MBOOT2_TYPETAG_END then
        (if tag_type m tag = ty then Some (Some tag) else find_tag_loop m ty (next_tag m tag))
      else Some None)"

definition mboot2_find_tag :: "u32 \<Rightarrow> 'a multiboot_scheme \<Rightarrow> (u32 \<times> 'a multiboot_scheme) option" where
  "mboot2_find_tag ty s =
     (if mboot_ptr s = 0 then Some (0, s\<lparr>kinit_errno := MBOOT_ERROR_INVALID_BOOTSTRUCT\<rparr>)
      else do {
        found \<leftarrow> find_tag_loop (mem s) ty (mboot_ptr s + 8);
        Some (case found of Some tag \<Rightarrow> (tag, s)
              | None \<Rightarrow> (0, s\<lparr>kinit_errno := MBOOT_ERROR_ENTRY_NOT_FOUND\<rparr>))
      })"

definition multiboot2_required :: "(u32 \<times> u32) list" where
  "multiboot2_required =
     [(MBOOT2_TYPETAG_MEMSZ, MBOOT_ERROR_INVALID_MEMSIZE), (MBOOT2_TYPETAG_MMAP, MBOOT_ERROR_INVALID_MEMORY_MAP)]"

fun check_tags_loop :: "(u32 \<times> u32) list \<Rightarrow> 'a multiboot_scheme \<Rightarrow> (int \<times> 'a multiboot_scheme) option" where
  "check_tags_loop [] s = Some (0, s)"
| "check_tags_loop ((ty, err) # req) s = do {
     (current_tag, s') \<leftarrow> mboot2_find_tag ty s;
     if current_tag = 0 then
       Some (-1, if kinit_errno s' \<noteq> MBOOT_ERROR_INVALID_BOOTSTRUCT then s'\<lparr>kinit_errno := err\<rparr> else s')
     else check_tags_loop req s'
   }"

definition check_multiboot2_tags :: "'a multiboot_scheme \<Rightarrow> (int \<times> 'a multiboot_scheme) option" where
  "check_multiboot2_tags s = check_tags_loop multiboot2_required s"

definition multiboot2_install_api_fns :: "'a multiboot_scheme \<Rightarrow> 'a multiboot_scheme" where
  "multiboot2_install_api_fns s = s\<lparr>api_struct := \<lparr>get_memory_size = Mboot2_get_memory_size,
     get_next_mmap_entry = Mboot2_get_next_mmap, relocate_multiboot = Mboot2_relocate_tags\<rparr>\<rparr>"

definition init_multiboot2 :: "'a multiboot_scheme \<Rightarrow> (int \<times> 'a multiboot_scheme) option" where
  "init_multiboot2 s = check_multiboot2_tags (multiboot2_install_api_fns s)"

definition mboot2_get_memory_size ::
  "u32 \<Rightarrow> 'a multiboot_scheme \<Rightarrow> (int \<times> u32 \<times> 'a multiboot_scheme) option" where
  "mboot2_get_memory_size buffer s = do {
     (memsz_tag, s') \<leftarrow> mboot2_find_tag MBOOT2_TYPETAG_MEMSZ s;
     if memsz_tag = 0 then Some (-1, buffer, s'\<lparr>kinit_errno := MBOOT_ERROR_ENTRY_NOT_FOUND\<rparr>)
     else Some (0, mt_mem_lower (mem s') memsz_tag + mt_mem_upper (mem s') memsz_tag, s')
   }"

definition mboot2_next_mmap :: "'a multiboot_scheme \<Rightarrow> (u32 \<times> 'a multiboot_scheme) option" where
  "mboot2_next_mmap s = do {
     (memory_map_ptr, s') \<leftarrow> mboot2_find_tag MBOOT2_TYPETAG_MMAP s;
     if memory_map_ptr = 0 then Some (0, s'\<lparr>kinit_errno := MBOOT_ERROR_ENTRY_NOT_FOUND\<rparr>)
     else if mmap_entry_sz (mem s') memory_map_ptr = 0 then None
     else
       (let mmap_entries = (tag_size (mem s') memory_map_ptr - 16) div mmap_entry_sz (mem s') memory_map_ptr
        in if mboot2_current_entry s' < mmap_entries then
             Some (memory_map_ptr + 16 + 24 * mboot2_current_entry s',
                   s'\<lparr>mboot2_current_entry := mboot2_current_entry s' + 1\<rparr>)
           else Some (0, s'))
   }"

definition mboot2_get_next_mmap ::
  "mmap_data \<Rightarrow> 'a multiboot_scheme \<Rightarrow> (int \<times> mmap_data \<times> 'a multiboot_scheme) option" where
  "mboot2_get_next_mmap buffer s = do {
     (nxt, s') \<leftarrow> mboot2_next_mmap s;
     if nxt = 0 then Some (-1, buffer, s') else Some (0, mboot2_entry (mem s') nxt, s')
   }"

definition mboot2_get_structure_length :: "'a multiboot_scheme \<Rightarrow> u32 \<times> 'a multiboot_scheme" where
  "mboot2_get_structure_length s =
     (if mboot_ptr s = 0 then (0, s\<lparr>kinit_errno := MBOOT_ERROR_INVALID_BOOTSTRUCT\<rparr>)
      else (load32 (mem s) (mboot_ptr s), s))"

definition mboot2_relocate_tags :: "u32 \<Rightarrow> 'a multiboot_scheme \<Rightarrow> int \<times> 'a multiboot_scheme" where
  "mboot2_relocate_tags kernel_end s =
     (case mboot2_get_structure_length s of (mboot_struct_size, s1) \<Rightarrow>
        let kernel_end = kernel_end + mboot_struct_size;
            m = snd (ki_memcpy kernel_end (mboot_ptr s1) mboot_struct_size (mem s1))
        in (0, s1\<lparr>mem := m, mboot_ptr := kernel_end\<rparr>))"

section \<open>The dispatching layer: api.c\<close>

definition init_api_struct :: "'a multiboot_scheme \<Rightarrow> 'a multiboot_scheme" where
  "init_api_struct s = s\<lparr>api_struct := \<lparr>get_memory_size = Memory_size_unimplemented,
     get_next_mmap_entry = Next_mmap_unimplemented, relocate_multiboot = Relocate_unimplemented\<rparr>\<rparr>"

definition multiboot_init :: "u32 \<Rightarrow> u32 \<Rightarrow> 'a multiboot_scheme \<Rightarrow> (int \<times> 'a multiboot_scheme) option" where
  "multiboot_init multiboot_ptr header_magic s =
     (if multiboot_ptr AND 7 \<noteq> 0 then Some (-1, s\<lparr>kinit_errno := MBOOT_ERROR_MISALIGNED_HEADER\<rparr>)
      else
        (let s1 = init_api_struct (s\<lparr>boot_magic := header_magic, mboot_ptr := multiboot_ptr\<rparr>) in
         if boot_magic s1 = MULTIBOOT_MAGIC then Some (init_multiboot s1)
         else if boot_magic s1 = MULTIBOOT2_MAGIC then init_multiboot2 s1
         else Some (-1, s1\<lparr>kinit_errno := MBOOT_ERROR_UNSUPPORTED\<rparr>)))"

text \<open>\<open>multiboot_unimplemented\<close> ignores its argument and returns 0.\<close>

definition call_get_memory_size ::
  "u32 \<Rightarrow> 'a multiboot_scheme \<Rightarrow> (int \<times> u32 \<times> 'a multiboot_scheme) option" where
  "call_get_memory_size buffer s =
     (case get_memory_size (api_struct s) of
        Memory_size_null \<Rightarrow> None
      | Memory_size_unimplemented \<Rightarrow> Some (0, buffer, s)
      | Mboot_get_memory_size \<Rightarrow> Some (mboot_get_memory_size buffer s)
      | Mboot2_get_memory_size \<Rightarrow> mboot2_get_memory_size buffer s)"

definition multiboot_get_memsz :: "'a multiboot_scheme \<Rightarrow> (u32 \<times> 'a multiboot_scheme) option" where
  "multiboot_get_memsz s = map_option (\<lambda>(r, memsize, s'). (memsize, s')) (call_get_memory_size 0 s)"

definition multiboot_get_mmap_next ::
  "mmap_data \<Rightarrow> 'a multiboot_scheme \<Rightarrow> (int \<times> mmap_data \<times> 'a multiboot_scheme) option" where
  "multiboot_get_mmap_next buf s = do {
     (r, buf', s') \<leftarrow>
       (case get_next_mmap_entry (api_struct s) of
          Next_mmap_null \<Rightarrow> None
        | Next_mmap_unimplemented \<Rightarrow> Some (0, buf, s)
        | Mboot_get_next_mmap_entry \<Rightarrow> Some (mboot_get_next_mmap_entry buf s)
        | Mboot2_get_next_mmap \<Rightarrow> mboot2_get_next_mmap buf s);
     Some (if r \<noteq> -1 then 0 else -1, buf', s')
   }"

definition multiboot_relocate :: "u32 \<Rightarrow> 'a multiboot_scheme \<Rightarrow> 'a multiboot_scheme option" where
  "multiboot_relocate kernel_end_ptr s =
     (case relocate_multiboot (api_struct s) of
        Relocate_null \<Rightarrow> None
      | Relocate_unimplemented \<Rightarrow> Some s
      | Mboot2_relocate_tags \<Rightarrow> Some (snd (mboot2_relocate_tags kernel_end_ptr s)))"

section \<open>The tag list\<close>

text \<open>
  The abstract boot information: the list of the (type, size) headers that start at offset
  \<open>off\<close> of a structure of \<open>n\<close> bytes at \<open>p\<close>, up to the end tag.
\<close>

definition round8 :: "u32 \<Rightarrow> nat" where "round8 z = unat ((z + 7) AND NOT 7)"

fun tags_at :: "memory \<Rightarrow> u32 \<Rightarrow> nat \<Rightarrow> nat \<Rightarrow> (u32 \<times> u32) list \<Rightarrow> bool" where
  "tags_at m p n off [] \<longleftrightarrow> off + 8 \<le> n \<and> tag_type m (p + of_nat off) = MBOOT2_TYPETAG_END"
| "tags_at m p n off ((ty, z) # ts) \<longleftrightarrow> off + 8 \<le> n \<and> ty \<noteq> MBOOT2_TYPETAG_END
     \<and> tag_type m (p + of_nat off) = ty \<and> tag_size m (p + of_nat off) = z
     \<and> tags_at m p n (off + round8 z) ts"

fun tag_offset :: "u32 \<Rightarrow> nat \<Rightarrow> (u32 \<times> u32) list \<Rightarrow> nat option" where
  "tag_offset ty off [] = None"
| "tag_offset ty off ((t, z) # ts) = (if t = ty then Some off else tag_offset ty (off + round8 z) ts)"

definition boot_info :: "memory \<Rightarrow> u32 \<Rightarrow> (u32 \<times> u32) list \<Rightarrow> bool" where
  "boot_info m p ts \<longleftrightarrow> p \<noteq> 0 \<and> unat p + unat (load32 m p) < 2 ^ 32 \<and> tags_at m p (unat (load32 m p)) 8 ts"

lemma find_tag_loop_tags:
  "tags_at m p n off ts \<Longrightarrow> ty \<noteq> MBOOT2_TYPETAG_END \<Longrightarrow>
   find_tag_loop m ty (p + of_nat off) = Some (map_option (\<lambda>i. p + of_nat i) (tag_offset ty off ts))"
proof (induction m p n off ts rule: tags_at.induct)
  case (1 m p n off)
  then show ?case by (subst find_tag_loop.simps) simp
next
  case (2 m p n off t z ts)
  have "next_tag m (p + of_nat off) = p + of_nat (off + round8 z)"
    using "2.prems" by (simp add: next_tag_def round8_def)
  then show ?case using 2 by (subst find_tag_loop.simps) auto
qed

lemma tag_offset_bound: "tags_at m p n off ts \<Longrightarrow> tag_offset ty off ts = Some i \<Longrightarrow> i + 8 \<le> n"
  by (induction m p n off ts rule: tags_at.induct) (auto split: if_splits)

lemma tag_address_nonzero:
  assumes "boot_info m p ts" "tag_offset ty 8 ts = Some i"
  shows "p + of_nat i \<noteq> 0"
proof -
  have b: "p \<noteq> 0" "unat p + unat (load32 m p) < 2 ^ 32" "i + 8 \<le> unat (load32 m p)"
    using assms tag_offset_bound by (auto simp: boot_info_def)
  then have "unat (p + of_nat i) = unat p + i" by (intro unat_add_small) simp
  moreover have "unat p \<noteq> 0" using b(1) by (simp add: unat_eq_zero)
  ultimately show ?thesis by auto
qed

lemma mboot2_find_tag_info:
  assumes "boot_info (mem s) (mboot_ptr s) ts" "ty \<noteq> MBOOT2_TYPETAG_END"
  shows "mboot2_find_tag ty s = Some (case tag_offset ty 8 ts of
      Some i \<Rightarrow> (mboot_ptr s + of_nat i, s) | None \<Rightarrow> (0, s\<lparr>kinit_errno := MBOOT_ERROR_ENTRY_NOT_FOUND\<rparr>))"
proof -
  have "tags_at (mem s) (mboot_ptr s) (unat (load32 (mem s) (mboot_ptr s))) 8 ts" "mboot_ptr s \<noteq> 0"
    using assms(1) by (auto simp: boot_info_def)
  then show ?thesis
    using find_tag_loop_tags [OF _ assms(2), of "mem s" "mboot_ptr s" _ 8 ts]
    by (simp add: mboot2_find_tag_def split: option.split)
qed

lemma tags_at_moved:
  assumes "\<forall>i < n. m' (q + of_nat i) = m (p + of_nat i)"
  shows "tags_at m p n off ts \<Longrightarrow> tags_at m' q n off ts"
proof (induction ts arbitrary: off)
  case Nil
  then show ?case using load32_moved [OF assms, of off] by (simp add: tag_type_def)
next
  case (Cons tz ts)
  obtain t z where "tz = (t, z)" by fastforce
  moreover have "off + 4 + 4 \<le> n" using Cons.prems calculation by simp
  moreover from this have "load32 m' (q + of_nat (off + 4)) = load32 m (p + of_nat (off + 4))"
    by (rule load32_moved [OF assms])
  ultimately show ?case using Cons load32_moved [OF assms, of off]
    by (simp add: tag_type_def tag_size_def add.assoc)
qed

lemma mboot2_next_entry:
  assumes "boot_info (mem s) (mboot_ptr s) ts" "tag_offset MBOOT2_TYPETAG_MMAP 8 ts = Some i"
    and "get_next_mmap_entry (api_struct s) = Mboot2_get_next_mmap"
    and "mmap_entry_sz (mem s) (mboot_ptr s + of_nat i) \<noteq> 0"
    and "mboot_ptr s + of_nat i + 16 + 24 * mboot2_current_entry s \<noteq> 0"
  shows "multiboot_get_mmap_next buf s = Some
     (if mboot2_current_entry s
          < (tag_size (mem s) (mboot_ptr s + of_nat i) - 16) div mmap_entry_sz (mem s) (mboot_ptr s + of_nat i)
      then (0, mboot2_entry (mem s) (mboot_ptr s + of_nat i + 16 + 24 * mboot2_current_entry s),
            s\<lparr>mboot2_current_entry := mboot2_current_entry s + 1\<rparr>)
      else (-1, buf, s))"
  using mboot2_find_tag_info [OF assms(1), of MBOOT2_TYPETAG_MMAP] tag_address_nonzero [OF assms(1,2)] assms(2-5)
  by (simp add: multiboot_get_mmap_next_def mboot2_get_next_mmap_def mboot2_next_mmap_def mboot2_consts Let_def)

section \<open>The memory size and the memory map of a structure\<close>

text \<open>
  The abstract contents of a multiboot 2 structure: the memory size in KB and the list of the
  entries of its memory map, whose entries have the size of the code's packed struct.
\<close>

definition boot_map :: "memory \<Rightarrow> u32 \<Rightarrow> u32 \<Rightarrow> mmap_data list \<Rightarrow> bool" where
  "boot_map m p kb es \<longleftrightarrow> (\<exists>ts i j. boot_info m p ts
     \<and> tag_offset MBOOT2_TYPETAG_MEMSZ 8 ts = Some i \<and> i + 16 \<le> unat (load32 m p)
     \<and> kb = mt_mem_lower m (p + of_nat i) + mt_mem_upper m (p + of_nat i)
     \<and> tag_offset MBOOT2_TYPETAG_MMAP 8 ts = Some j \<and> j + 16 + 24 * length es \<le> unat (load32 m p)
     \<and> tag_size m (p + of_nat j) = of_nat (16 + 24 * length es) \<and> mmap_entry_sz m (p + of_nat j) = 24
     \<and> (\<forall>k < length es. mboot2_entry m (p + of_nat (j + 16 + 24 * k)) = es ! k))"

lemma boot_info_moved:
  assumes "\<forall>i < unat (load32 m p). m' (q + of_nat i) = m (p + of_nat i)" "boot_info m p ts"
    and "q \<noteq> 0" "unat q + unat (load32 m p) < 2 ^ 32"
  shows "boot_info m' q ts" "load32 m' q = load32 m p"
proof -
  have t: "tags_at m p (unat (load32 m p)) 8 ts" using assms(2) by (simp add: boot_info_def)
  then have "8 \<le> unat (load32 m p)" by (cases ts) auto
  then show l: "load32 m' q = load32 m p" using load32_moved [OF assms(1), of 0] by simp
  show "boot_info m' q ts" using tags_at_moved [OF assms(1) t] assms(3,4) by (simp add: boot_info_def l)
qed

lemma load64_moved:
  assumes "\<forall>i < n. m' (q + of_nat i) = m (p + of_nat i)" "off + 8 \<le> n"
  shows "load64 m' (q + of_nat off) = load64 m (p + of_nat off)"
  using load32_moved [OF assms(1), of off] load32_moved [OF assms(1), of "off + 4"] assms(2)
  by (simp add: load64_def add.assoc)

lemma mboot2_entry_moved:
  assumes "\<forall>i < n. m' (q + of_nat i) = m (p + of_nat i)" "off + 24 \<le> n"
  shows "mboot2_entry m' (q + of_nat off) = mboot2_entry m (p + of_nat off)"
  using load64_moved [OF assms(1), of off] load64_moved [OF assms(1), of "off + 8"]
    load32_moved [OF assms(1), of "off + 16"] assms(2)
  by (simp add: mboot2_entry_def add.assoc)

lemma boot_map_moved:
  assumes c: "\<forall>i < unat (load32 m p). m' (q + of_nat i) = m (p + of_nat i)" and "boot_map m p kb es"
    and q: "q \<noteq> 0" "unat q + unat (load32 m p) < 2 ^ 32"
  shows "boot_map m' q kb es"
proof -
  obtain ts i j where b: "boot_info m p ts"
     "tag_offset MBOOT2_TYPETAG_MEMSZ 8 ts = Some i" "i + 16 \<le> unat (load32 m p)"
     "kb = mt_mem_lower m (p + of_nat i) + mt_mem_upper m (p + of_nat i)"
     "tag_offset MBOOT2_TYPETAG_MMAP 8 ts = Some j" "j + 16 + 24 * length es \<le> unat (load32 m p)"
     "tag_size m (p + of_nat j) = of_nat (16 + 24 * length es)" "mmap_entry_sz m (p + of_nat j) = 24"
     "\<forall>k < length es. mboot2_entry m (p + of_nat (j + 16 + 24 * k)) = es ! k"
    using assms(2) unfolding boot_map_def by blast
  have w: "load32 m' (q + of_nat x + of_nat d) = load32 m (p + of_nat x + of_nat d)"
    if "x + d + 4 \<le> unat (load32 m p)" for x d
    using load32_moved [OF c, of "x + d"] that by (simp add: add.assoc)
  have "mt_mem_lower m' (q + of_nat i) = mt_mem_lower m (p + of_nat i)"
    "mt_mem_upper m' (q + of_nat i) = mt_mem_upper m (p + of_nat i)"
    using w [of i 8] w [of i 12] b(3) by (simp_all add: mt_mem_lower_def mt_mem_upper_def)
  moreover have "tag_size m' (q + of_nat j) = of_nat (16 + 24 * length es)" "mmap_entry_sz m' (q + of_nat j) = 24"
    using w [of j 4] w [of j 8] b(6,7,8) by (simp_all add: tag_size_def mmap_entry_sz_def)
  moreover have "mboot2_entry m' (q + of_nat (j + 16 + 24 * k)) = es ! k" if "k < length es" for k
    using mboot2_entry_moved [OF c, of "j + 16 + 24 * k"] b(6) b(9) that by simp
  ultimately show ?thesis
    using b boot_info_moved [OF c b(1) q] unfolding boot_map_def by metis
qed

lemma boot_map_memsz:
  assumes "boot_map (mem s) (mboot_ptr s) kb es" "get_memory_size (api_struct s) = Mboot2_get_memory_size"
  shows "multiboot_get_memsz s = Some (kb, s)"
proof -
  obtain ts i where b: "boot_info (mem s) (mboot_ptr s) ts" "tag_offset MBOOT2_TYPETAG_MEMSZ 8 ts = Some i"
     "kb = mt_mem_lower (mem s) (mboot_ptr s + of_nat i) + mt_mem_upper (mem s) (mboot_ptr s + of_nat i)"
    using assms(1) unfolding boot_map_def by blast
  then show ?thesis
    using mboot2_find_tag_info [OF b(1), of MBOOT2_TYPETAG_MEMSZ] tag_address_nonzero [OF b(1,2)] assms(2)
    by (simp add: multiboot_get_memsz_def call_get_memory_size_def mboot2_get_memory_size_def mboot2_consts)
qed

lemma boot_map_next:
  assumes "boot_map (mem s) (mboot_ptr s) kb es" "get_next_mmap_entry (api_struct s) = Mboot2_get_next_mmap"
  shows "multiboot_get_mmap_next buf s = Some
     (if unat (mboot2_current_entry s) < length es
      then (0, es ! unat (mboot2_current_entry s), s\<lparr>mboot2_current_entry := mboot2_current_entry s + 1\<rparr>)
      else (-1, buf, s))"
proof -
  let ?p = "mboot_ptr s" and ?c = "mboot2_current_entry s"
  obtain ts j where b: "boot_info (mem s) ?p ts" "tag_offset MBOOT2_TYPETAG_MMAP 8 ts = Some j"
     "j + 16 + 24 * length es \<le> unat (load32 (mem s) ?p)"
     "tag_size (mem s) (?p + of_nat j) = of_nat (16 + 24 * length es)" "mmap_entry_sz (mem s) (?p + of_nat j) = 24"
     "\<forall>k < length es. mboot2_entry (mem s) (?p + of_nat (j + 16 + 24 * k)) = es ! k"
    using assms(1) unfolding boot_map_def by blast
  have n: "unat ?p + unat (load32 (mem s) ?p) < 2 ^ 32" "?p \<noteq> 0" using b(1) by (simp_all add: boot_info_def)
  have "unat (of_nat (24 * length es) :: u32) = 24 * length es" using n b(3) by (intro unat_of_nat_u32) linarith
  then have e: "unat ((tag_size (mem s) (?p + of_nat j) - 16) div mmap_entry_sz (mem s) (?p + of_nat j)) = length es"
    unfolding b(4,5) by (simp add: unat_div)
  have a: "?p + of_nat j + 16 + 24 * ?c = ?p + of_nat (j + 16 + 24 * unat ?c)" by simp
  show ?thesis
  proof (cases "unat ?c < length es")
    case True
    then have "unat (?p + of_nat (j + 16 + 24 * unat ?c)) = unat ?p + (j + 16 + 24 * unat ?c)"
      using n(1) b(3) by (intro unat_add_small) linarith
    then have nz: "?p + of_nat j + 16 + 24 * ?c \<noteq> 0" unfolding a by (metis add_eq_0_iff_both_eq_0 n(2) unat_eq_zero unsigned_0)
    have "mboot2_entry (mem s) (?p + of_nat j + 16 + 24 * ?c) = es ! unat ?c"
      using b(6) True unfolding a by blast
    then show ?thesis
      using mboot2_next_entry [OF b(1,2) assms(2) _ nz] b(5) True e by (simp add: word_less_nat_alt)
  next
    case False
    then show ?thesis
      using mboot2_find_tag_info [OF b(1), of MBOOT2_TYPETAG_MMAP] tag_address_nonzero [OF b(1,2)] assms(2) b(2,5) e
      by (simp add: multiboot_get_mmap_next_def mboot2_get_next_mmap_def mboot2_next_mmap_def mboot2_consts Let_def
          word_less_nat_alt)
  qed
qed

lemma boot_map_size: "boot_map m p kb es \<Longrightarrow> p \<noteq> 0 \<and> unat p + unat (load32 m p) < 2 ^ 32 \<and> length es < 2 ^ 28"
  unfolding boot_map_def boot_info_def by fastforce

lemma mboot2_relocate_copies:
  assumes "boot_info (mem s) (mboot_ptr s) ts"
  defines "n \<equiv> load32 (mem s) (mboot_ptr s)"
  assumes "copy_ok (kernel_end + n) (mboot_ptr s) (unat n)"
    and "kernel_end + n \<noteq> 0" "unat (kernel_end + n) + unat n < 2 ^ 32"
  shows "\<exists>m'. mboot2_relocate_tags kernel_end s = (0, s\<lparr>mem := m', mboot_ptr := kernel_end + n\<rparr>)
    \<and> (\<forall>i < unat n. m' (kernel_end + n + of_nat i) = mem s (mboot_ptr s + of_nat i))
    \<and> same_outside (kernel_end + n) (unat n) (mem s) m' \<and> boot_info m' (kernel_end + n) ts"
proof -
  define m' where "m' = memcpy_loop (kernel_end + n) (mboot_ptr s) n (mem s)"
  have p: "mboot_ptr s \<noteq> 0" and t: "tags_at (mem s) (mboot_ptr s) (unat n) 8 ts"
    using assms(1) by (auto simp: boot_info_def n_def)
  have "mboot2_relocate_tags kernel_end s = (0, s\<lparr>mem := m', mboot_ptr := kernel_end + n\<rparr>)"
    using p by (simp add: mboot2_relocate_tags_def mboot2_get_structure_length_def Let_def
        ki_memcpy_def ki_memcpy_loop_eq m'_def n_def)
  moreover have c: "\<forall>i < unat n. m' (kernel_end + n + of_nat i) = mem s (mboot_ptr s + of_nat i)"
    "same_outside (kernel_end + n) (unat n) (mem s) m'"
    using memcpy_loop_copies [OF assms(3), of "mem s"] by (simp_all add: m'_def)
  moreover have "8 \<le> unat n" using t by (cases ts) auto
  moreover from this have "load32 m' (kernel_end + n) = n"
    using load32_moved [OF c(1), of 0] by (simp add: n_def)
  ultimately show ?thesis
    using tags_at_moved [OF c(1) t] assms(4,5) by (auto simp: boot_info_def)
qed

section \<open>The verdict of the initialisation\<close>

text \<open>
  The error code \<open>multiboot_init\<close> refuses with, or \<open>None\<close>: the pointer must be aligned, multiboot 1 needs the flags of the
  memory size (bit 0) and of the memory map (bit 6), multiboot 2 needs a structure with a memory size tag (type 4) and a
  memory map tag (type 6).
\<close>

definition boot_verdict :: "memory \<Rightarrow> u32 \<Rightarrow> u32 \<Rightarrow> (u32 \<times> u32) list \<Rightarrow> u32 option" where
  "boot_verdict m p magic ts =
     (if p AND 7 \<noteq> 0 then Some MBOOT_ERROR_MISALIGNED_HEADER
      else if magic = MULTIBOOT_MAGIC then
        (if \<not> bit (mi_flags m p) 0 then Some MBOOT_ERROR_INVALID_MEMSIZE
         else if \<not> bit (mi_flags m p) 6 then Some MBOOT_ERROR_INVALID_MEMORY_MAP else None)
      else if magic = MULTIBOOT2_MAGIC then
        (if p = 0 then Some MBOOT_ERROR_INVALID_BOOTSTRUCT
         else if 4 \<notin> fst ` set ts then Some MBOOT_ERROR_INVALID_MEMSIZE
         else if 6 \<notin> fst ` set ts then Some MBOOT_ERROR_INVALID_MEMORY_MAP else None)
      else Some MBOOT_ERROR_UNSUPPORTED)"

text \<open>What must be known of the boot information: an aligned multiboot 2 structure is a list of tags.\<close>

definition boot_readable :: "memory \<Rightarrow> u32 \<Rightarrow> u32 \<Rightarrow> (u32 \<times> u32) list \<Rightarrow> bool" where
  "boot_readable m p magic ts \<longleftrightarrow> (p AND 7 = 0 \<and> magic = MULTIBOOT2_MAGIC \<and> p \<noteq> 0 \<longrightarrow> boot_info m p ts)"

text \<open>The functions each magic number selects.\<close>

definition full_api :: multiboot_api where
  "full_api = \<lparr>get_memory_size = Mboot2_get_memory_size, get_next_mmap_entry = Mboot2_get_next_mmap,
     relocate_multiboot = Mboot2_relocate_tags\<rparr>"

definition api1 :: multiboot_api where
  "api1 = \<lparr>get_memory_size = Mboot_get_memory_size, get_next_mmap_entry = Mboot_get_next_mmap_entry,
     relocate_multiboot = Relocate_unimplemented\<rparr>"

definition null_api :: multiboot_api where
  "null_api = \<lparr>get_memory_size = Memory_size_unimplemented, get_next_mmap_entry = Next_mmap_unimplemented,
     relocate_multiboot = Relocate_unimplemented\<rparr>"

definition api_of :: "u32 \<Rightarrow> multiboot_api" where
  "api_of magic = (if magic = MULTIBOOT_MAGIC then api1 else if magic = MULTIBOOT2_MAGIC then full_api else null_api)"

definition boot_fields :: "u32 \<Rightarrow> u32 \<Rightarrow> 'a multiboot_scheme \<Rightarrow> 'a multiboot_scheme" where
  "boot_fields p magic s = (if p AND 7 = 0 then s\<lparr>boot_magic := magic, mboot_ptr := p, api_struct := api_of magic\<rparr> else s)"

lemmas api_defs = api_of_def api1_def full_api_def null_api_def

lemma bootflag_bits:
  "bootflag_check f MEMSZ_PRESENT \<longleftrightarrow> bit f 0" "bootflag_check f MMAP_PRESENT \<longleftrightarrow> bit f 6"
  using and_exp_eq_0_iff_not_bit [of f 0] and_exp_eq_0_iff_not_bit [of f 6]
  by (simp_all add: bootflag_check_def MEMSZ_PRESENT_def MMAP_PRESENT_def)

lemma tag_offset_None: "tag_offset ty off ts = None \<longleftrightarrow> ty \<notin> fst ` set ts"
  by (induction ty off ts rule: tag_offset.induct) auto

lemma check_multiboot_flags_verdict:
  "check_multiboot_flags flags s =
     (if \<not> bit flags 0 then (-1, s\<lparr>kinit_errno := MBOOT_ERROR_INVALID_MEMSIZE\<rparr>)
      else if \<not> bit flags 6 then (-1, s\<lparr>kinit_errno := MBOOT_ERROR_INVALID_MEMORY_MAP\<rparr>) else (0, s))"
  by (simp add: check_multiboot_flags_def multiboot_required_def bootflag_bits)

lemma check_multiboot2_tags_verdict:
  assumes "mboot_ptr s \<noteq> 0 \<Longrightarrow> boot_info (mem s) (mboot_ptr s) ts"
  shows "check_multiboot2_tags s = Some
     (if mboot_ptr s = 0 then (-1, s\<lparr>kinit_errno := MBOOT_ERROR_INVALID_BOOTSTRUCT\<rparr>)
      else if 4 \<notin> fst ` set ts then (-1, s\<lparr>kinit_errno := MBOOT_ERROR_INVALID_MEMSIZE\<rparr>)
      else if 6 \<notin> fst ` set ts then (-1, s\<lparr>kinit_errno := MBOOT_ERROR_INVALID_MEMORY_MAP\<rparr>)
      else (0, s))"
proof (cases "mboot_ptr s = 0")
  case True
  then show ?thesis
    by (simp add: check_multiboot2_tags_def multiboot2_required_def mboot2_find_tag_def)
next
  case False
  note b = assms [OF False]
  have "mboot2_find_tag ty s = Some (if ty \<in> fst ` set ts then (mboot_ptr s + of_nat (the (tag_offset ty 8 ts)), s)
      else (0, s\<lparr>kinit_errno := MBOOT_ERROR_ENTRY_NOT_FOUND\<rparr>))" if "ty \<noteq> MBOOT2_TYPETAG_END" for ty
    using mboot2_find_tag_info [OF b that] tag_offset_None [of ty 8 ts] by (auto split: option.splits)
  moreover have "ty \<in> fst ` set ts \<Longrightarrow> mboot_ptr s + of_nat (the (tag_offset ty 8 ts)) \<noteq> 0" for ty
    using tag_address_nonzero [OF b, of ty] tag_offset_None [of ty 8 ts] by fastforce
  ultimately show ?thesis using False
    by (simp add: check_multiboot2_tags_def multiboot2_required_def mboot2_consts
        MBOOT_ERROR_ENTRY_NOT_FOUND_def MBOOT_ERROR_INVALID_BOOTSTRUCT_def)
qed

lemma multiboot_init_result:
  assumes "boot_readable (mem s) p magic ts"
  shows "multiboot_init p magic s = Some (case boot_verdict (mem s) p magic ts of
      None \<Rightarrow> (0, boot_fields p magic s) | Some e \<Rightarrow> (-1, (boot_fields p magic s)\<lparr>kinit_errno := e\<rparr>))"
proof (cases "p AND 7 = 0")
  case False
  then show ?thesis by (simp add: multiboot_init_def boot_verdict_def boot_fields_def)
next
  case True
  consider (mb1) "magic = MULTIBOOT_MAGIC" | (mb2) "magic = MULTIBOOT2_MAGIC" "magic \<noteq> MULTIBOOT_MAGIC"
    | (other) "magic \<noteq> MULTIBOOT_MAGIC" "magic \<noteq> MULTIBOOT2_MAGIC" by blast
  then show ?thesis
  proof cases
    case mb1
    then show ?thesis using True
      by (simp add: multiboot_init_def boot_verdict_def boot_fields_def init_api_struct_def api_defs init_multiboot_def
          multiboot_install_api_fns_def check_multiboot_flags_verdict)
  next
    case mb2
    let ?s = "s\<lparr>boot_magic := magic, mboot_ptr := p, api_struct := full_api\<rparr>"
    have "multiboot_init p magic s = check_multiboot2_tags ?s"
      using True mb2 by (simp add: multiboot_init_def init_api_struct_def init_multiboot2_def multiboot2_install_api_fns_def full_api_def)
    moreover have "p \<noteq> 0 \<Longrightarrow> boot_info (mem ?s) (mboot_ptr ?s) ts" using assms True mb2 by (simp add: boot_readable_def)
    ultimately show ?thesis using True mb2 check_multiboot2_tags_verdict [of ?s ts]
      by (simp add: boot_verdict_def boot_fields_def api_of_def)
  next
    case other
    then show ?thesis using True
      by (simp add: multiboot_init_def boot_verdict_def boot_fields_def init_api_struct_def api_defs)
  qed
qed

section \<open>Properties\<close>

text \<open>on a well-formed multiboot 2 structure the tag search terminates for every type, returns
  the address of the first tag of that type and changes nothing, or returns NULL with
  \<open>MBOOT_ERROR_ENTRY_NOT_FOUND\<close> when there is none.\<close>

theorem mboot2_find_tag_first:
  assumes "boot_info (mem s) (mboot_ptr s) ts" "ty \<noteq> MBOOT2_TYPETAG_END"
  shows "mboot2_find_tag ty s = Some (case tag_offset ty 8 ts of
      Some i \<Rightarrow> (mboot_ptr s + of_nat i, s) | None \<Rightarrow> (0, s\<lparr>kinit_errno := MBOOT_ERROR_ENTRY_NOT_FOUND\<rparr>))"
  using assms by (rule mboot2_find_tag_info)

text \<open>relocation keeps the boot information: the structure is copied, byte for byte, behind the
  end of the kernel, the pointer follows it, and the tag list at the new place is the same, when the new
  place does not start inside the old structure.\<close>

theorem mboot2_relocate_keeps_info:
  assumes "boot_info (mem s) (mboot_ptr s) ts"
  defines "n \<equiv> load32 (mem s) (mboot_ptr s)"
  assumes "copy_ok (kernel_end + n) (mboot_ptr s) (unat n)"
    and "kernel_end + n \<noteq> 0" "unat (kernel_end + n) + unat n < 2 ^ 32"
  shows "\<exists>m'. mboot2_relocate_tags kernel_end s = (0, s\<lparr>mem := m', mboot_ptr := kernel_end + n\<rparr>)
    \<and> (\<forall>i < unat n. m' (kernel_end + n + of_nat i) = mem s (mboot_ptr s + of_nat i))
    \<and> same_outside (kernel_end + n) (unat n) (mem s) m' \<and> boot_info m' (kernel_end + n) ts"
  using assms(1,3,4,5) unfolding n_def by (rule mboot2_relocate_copies)

text \<open>the memory map of multiboot 1 is read one entry late: with entries of the usual size field 20
  the call that finds \<open>current_mmap_entry = k\<close> returns entry \<open>k + 1\<close>, so entry 0 is never seen
  and the last call reads behind the map.\<close>

theorem mboot_mmap_off_by_one:
  assumes "bootflag_check (mi_flags (mem s) (mboot_ptr s)) MMAP_PRESENT"
    and "mm_sz (mem s) (mi_mmap_addr (mem s) (mboot_ptr s)) = 20"
    and "mboot_current_entry s < mi_mmap_length (mem s) (mboot_ptr s) div 24"
  defines "entry \<equiv> mi_mmap_addr (mem s) (mboot_ptr s) + 24 * (mboot_current_entry s + 1)"
  assumes "entry \<noteq> 0"
  shows "mboot_get_next_mmap_entry buf s =
    (0, mm_data (mem s) entry, s\<lparr>mboot_current_entry := mboot_current_entry s + 1\<rparr>)"
proof -
  have "mi_mmap_addr (mem s) (mboot_ptr s) + 20 + 4 + mboot_current_entry s * 24 = entry"
    by (simp add: entry_def algebra_simps)
  then show ?thesis
    using assms(1,2,3,5) by (simp add: mboot_get_next_mmap_entry_def multiboot_next_mmap_def Let_def)
qed

text \<open>C32: what \<open>multiboot_init\<close> decides, for every pointer and magic number. It succeeds exactly for an 8-byte
  aligned structure of one of the two loaders that has both the memory size and the memory map; then it records the magic
  number, the structure and the functions of the loader's driver and changes nothing else. Every refusal returns -1 with
  its own error code, in the order the code checks: a misaligned pointer, which leaves all fields alone, an unknown magic
  number, a null multiboot 2 structure, no memory size, no memory map. Only an aligned multiboot 2 structure has to be a
  list of tags; a multiboot 1 structure is any memory with its flags.\<close>

theorem multiboot_init_verdict:
  assumes "p AND 7 = 0 \<and> magic = MULTIBOOT2_MAGIC \<and> p \<noteq> 0 \<longrightarrow> boot_info (mem s) p ts"
  shows "multiboot_init p magic s = Some (case boot_verdict (mem s) p magic ts of
      None \<Rightarrow> (0, boot_fields p magic s) | Some e \<Rightarrow> (-1, (boot_fields p magic s)\<lparr>kinit_errno := e\<rparr>))"
  using assms by (intro multiboot_init_result) (simp add: boot_readable_def)

text \<open>the memory map of multiboot 2 is enumerated entry by entry: as long as the counter is below
  the number of entries the call returns the entry with that number and counts up, without changing
  anything else; from then on it returns -1 and changes nothing.\<close>

theorem mboot2_mmap_step:
  assumes "boot_info (mem s) (mboot_ptr s) ts" "tag_offset MBOOT2_TYPETAG_MMAP 8 ts = Some i"
    and "get_next_mmap_entry (api_struct s) = Mboot2_get_next_mmap"
  defines "tag \<equiv> mboot_ptr s + of_nat i"
  assumes "mmap_entry_sz (mem s) tag \<noteq> 0"
    and "tag + 16 + 24 * mboot2_current_entry s \<noteq> 0"
  shows "multiboot_get_mmap_next buf s = Some
     (if mboot2_current_entry s < (tag_size (mem s) tag - 16) div mmap_entry_sz (mem s) tag
      then (0, mboot2_entry (mem s) (tag + 16 + 24 * mboot2_current_entry s),
            s\<lparr>mboot2_current_entry := mboot2_current_entry s + 1\<rparr>)
      else (-1, buf, s))"
  by (rule mboot2_next_entry [OF assms(1,2,3), folded tag_def, OF assms(5,6)])

text \<open>A structure with a memory size tag and a memory map of one entry, for the witnesses.\<close>

definition sample_boot :: memory where
  "sample_boot = store32 (store32 (store32 (store32 (store32 (store32 (store32 (store32 (\<lambda>_. 0)
     0x1000 0x48) 0x1008 4) 0x100C 16) 0x1018 6) 0x101C 40) 0x1020 24) 0x1028 0x100000) 0x1038 1"

definition sample_state :: multiboot where
  "sample_state = \<lparr>mem = sample_boot, io = [], kinit_errno = 0, cur_x = 0, cur_y = 0, color_attribute = 15,
     boot_magic = MULTIBOOT2_MAGIC, mboot_ptr = 0x1000,
     api_struct = \<lparr>get_memory_size = Mboot2_get_memory_size, get_next_mmap_entry = Mboot2_get_next_mmap,
       relocate_multiboot = Mboot2_relocate_tags\<rparr>,
     mboot_current_entry = 0, mboot2_current_entry = 0\<rparr>"

lemma sample_loads:
  "load32 sample_boot 0x1000 = 0x48" "load32 sample_boot 0x1008 = 4" "load32 sample_boot 0x100C = 16"
  "load32 sample_boot 0x1018 = 6" "load32 sample_boot 0x101C = 40" "load32 sample_boot 0x1020 = 24"
  "load32 sample_boot 0x1040 = 0"
  by (simp_all add: sample_boot_def load32_def store32_def)

lemma sample_info: "boot_info sample_boot 0x1000 [(4, 16), (6, 40)]"
  using sample_loads by (simp add: boot_info_def tag_type_def tag_size_def round8_def mboot2_consts)

theorem mboot2_find_tag_first_witness: "mboot2_find_tag 6 sample_state = Some (0x1018, sample_state)"
  using mboot2_find_tag_first [of sample_state "[(4, 16), (6, 40)]" 6] sample_info
  by (simp add: sample_state_def round8_def mboot2_consts)

theorem mboot2_relocate_keeps_info_witness:
  "\<exists>m'. mboot2_relocate_tags 0x200000 sample_state = (0, sample_state\<lparr>mem := m', mboot_ptr := 0x200048\<rparr>)
    \<and> boot_info m' 0x200048 [(4, 16), (6, 40)]"
  using mboot2_relocate_keeps_info [of sample_state "[(4, 16), (6, 40)]" "0x200000"] sample_info sample_loads(1)
  by (auto simp: sample_state_def copy_ok_def)

theorem mboot_mmap_off_by_one_witness:
  "fst (snd (mboot_get_next_mmap_entry (mm_data sample_boot 0) (sample_state\<lparr>mem :=
      store32 (store32 (store32 (store32 (store32 (\<lambda>_. 0) 0x1000 0x40) 0x102C 48) 0x1030 0x2000) 0x2000 20) 0x202C 7\<rparr>)))
    = \<lparr>mbase = 0, mlength = 0, mtype = 7\<rparr>"
proof -
  define m where "m = store32 (store32 (store32 (store32 (store32 (\<lambda>_. 0) 0x1000 0x40) 0x102C 48) 0x1030 0x2000) 0x2000 20) 0x202C 7"
  have l: "load32 m 0x1000 = 0x40" "load32 m 0x102C = 48" "load32 m 0x1030 = 0x2000" "load32 m 0x2000 = 20"
    "mm_data m 0x2018 = \<lparr>mbase = 0, mlength = 0, mtype = 7\<rparr>"
    by (simp_all add: m_def mm_data_def load64_def load32_def store32_def)
  show ?thesis
    using mboot_mmap_off_by_one [of "sample_state\<lparr>mem := m\<rparr>" "mm_data sample_boot 0"] l
    unfolding m_def [symmetric]
    by (simp add: sample_state_def bootflag_check_def MMAP_PRESENT_def mi_flags_def mi_mmap_addr_def
        mi_mmap_length_def mm_sz_def)
qed

text \<open>Every outcome occurs: the loaders accepted, each check refused.\<close>

definition flags_state :: "u32 \<Rightarrow> multiboot" where
  "flags_state flags = sample_state\<lparr>mem := store32 (\<lambda>_. 0) 0x2000 flags\<rparr>"

definition memsz_boot :: memory where
  "memsz_boot = store32 (store32 (store32 (\<lambda>_. 0) 0x1000 0x20) 0x1008 4) 0x100C 16"

lemma flags_state_flags: "mi_flags (mem (flags_state f)) 0x2000 = f"
  by (simp add: flags_state_def mi_flags_def mem_simps)

lemma memsz_info: "boot_info memsz_boot 0x1000 [(4, 16)]"
proof -
  have "load32 memsz_boot 0x1000 = 0x20" "load32 memsz_boot 0x1008 = 4" "load32 memsz_boot 0x100C = 16" "load32 memsz_boot 0x1018 = 0"
    by (simp_all add: memsz_boot_def load32_def store32_def)
  then show ?thesis by (simp add: boot_info_def tag_type_def tag_size_def round8_def mboot2_consts)
qed

theorem multiboot_init_verdict_witness:
  "multiboot_init 0x2000 MULTIBOOT_MAGIC (flags_state 0x41)
       = Some (0, (flags_state 0x41)\<lparr>boot_magic := MULTIBOOT_MAGIC, mboot_ptr := 0x2000, api_struct := api1\<rparr>)
   \<and> multiboot_init 0x2000 MULTIBOOT_MAGIC (flags_state 0x40)
       = Some (-1, (flags_state 0x40)\<lparr>boot_magic := MULTIBOOT_MAGIC, mboot_ptr := 0x2000, api_struct := api1, kinit_errno := 1\<rparr>)
   \<and> multiboot_init 0x2000 MULTIBOOT_MAGIC (flags_state 1)
       = Some (-1, (flags_state 1)\<lparr>boot_magic := MULTIBOOT_MAGIC, mboot_ptr := 0x2000, api_struct := api1, kinit_errno := 2\<rparr>)
   \<and> multiboot_init 0x2004 MULTIBOOT_MAGIC (flags_state 0) = Some (-1, (flags_state 0)\<lparr>kinit_errno := 4\<rparr>)
   \<and> multiboot_init 0x2000 7 (flags_state 0)
       = Some (-1, (flags_state 0)\<lparr>boot_magic := 7, mboot_ptr := 0x2000, api_struct := null_api, kinit_errno := 7\<rparr>)
   \<and> multiboot_init 0 MULTIBOOT2_MAGIC (flags_state 0)
       = Some (-1, (flags_state 0)\<lparr>boot_magic := MULTIBOOT2_MAGIC, mboot_ptr := 0, api_struct := full_api, kinit_errno := 5\<rparr>)
   \<and> multiboot_init 0x1000 MULTIBOOT2_MAGIC sample_state
       = Some (0, sample_state\<lparr>boot_magic := MULTIBOOT2_MAGIC, mboot_ptr := 0x1000, api_struct := full_api\<rparr>)
   \<and> multiboot_init 0x1000 MULTIBOOT2_MAGIC (sample_state\<lparr>mem := memsz_boot\<rparr>)
       = Some (-1, sample_state\<lparr>mem := memsz_boot, boot_magic := MULTIBOOT2_MAGIC, mboot_ptr := 0x1000, api_struct := full_api,
           kinit_errno := 2\<rparr>)"
proof (intro conjI)
  note v = boot_verdict_def boot_fields_def api_of_def mboot_consts
  have f: "multiboot_init p magic (flags_state x) = Some (case boot_verdict (mem (flags_state x)) p magic [] of
      None \<Rightarrow> (0, boot_fields p magic (flags_state x)) | Some e \<Rightarrow> (-1, (boot_fields p magic (flags_state x))\<lparr>kinit_errno := e\<rparr>))"
    if "p = 0 \<or> magic \<noteq> MULTIBOOT2_MAGIC" for p magic x
    using that by (intro multiboot_init_verdict) auto
  have bits: "bit (0x41 :: u32) 0" "bit (0x41 :: u32) 6" "bit (0x40 :: u32) 6" "\<not> bit (0x40 :: u32) 0" "bit (1 :: u32) 0" "\<not> bit (1 :: u32) 6"
    by (simp_all add: bit_iff_odd_drop_bit)
  show "multiboot_init 0x2000 MULTIBOOT_MAGIC (flags_state 0x41)
     = Some (0, (flags_state 0x41)\<lparr>boot_magic := MULTIBOOT_MAGIC, mboot_ptr := 0x2000, api_struct := api1\<rparr>)"
    using f [of "0x2000" MULTIBOOT_MAGIC] bits by (simp add: v flags_state_flags)
  show "multiboot_init 0x2000 MULTIBOOT_MAGIC (flags_state 0x40)
     = Some (-1, (flags_state 0x40)\<lparr>boot_magic := MULTIBOOT_MAGIC, mboot_ptr := 0x2000, api_struct := api1, kinit_errno := 1\<rparr>)"
    using f [of "0x2000" MULTIBOOT_MAGIC] bits by (simp add: v flags_state_flags)
  show "multiboot_init 0x2000 MULTIBOOT_MAGIC (flags_state 1)
     = Some (-1, (flags_state 1)\<lparr>boot_magic := MULTIBOOT_MAGIC, mboot_ptr := 0x2000, api_struct := api1, kinit_errno := 2\<rparr>)"
    using f [of "0x2000" MULTIBOOT_MAGIC] bits by (simp add: v flags_state_flags)
  show "multiboot_init 0x2004 MULTIBOOT_MAGIC (flags_state 0) = Some (-1, (flags_state 0)\<lparr>kinit_errno := 4\<rparr>)"
    using f [of "0x2004" MULTIBOOT_MAGIC] by (simp add: v)
  show "multiboot_init 0x2000 7 (flags_state 0)
     = Some (-1, (flags_state 0)\<lparr>boot_magic := 7, mboot_ptr := 0x2000, api_struct := null_api, kinit_errno := 7\<rparr>)"
    using f [of "0x2000" 7] by (simp add: v)
  show "multiboot_init 0 MULTIBOOT2_MAGIC (flags_state 0)
     = Some (-1, (flags_state 0)\<lparr>boot_magic := MULTIBOOT2_MAGIC, mboot_ptr := 0, api_struct := full_api, kinit_errno := 5\<rparr>)"
    using f [of 0 MULTIBOOT2_MAGIC] by (simp add: v)
  show "multiboot_init 0x1000 MULTIBOOT2_MAGIC sample_state
     = Some (0, sample_state\<lparr>boot_magic := MULTIBOOT2_MAGIC, mboot_ptr := 0x1000, api_struct := full_api\<rparr>)"
    using multiboot_init_verdict [of "0x1000" MULTIBOOT2_MAGIC sample_state "[(4, 16), (6, 40)]"] sample_info
    by (simp add: sample_state_def v)
  show "multiboot_init 0x1000 MULTIBOOT2_MAGIC (sample_state\<lparr>mem := memsz_boot\<rparr>)
     = Some (-1, sample_state\<lparr>mem := memsz_boot, boot_magic := MULTIBOOT2_MAGIC, mboot_ptr := 0x1000, api_struct := full_api,
         kinit_errno := 2\<rparr>)"
    using multiboot_init_verdict [of "0x1000" MULTIBOOT2_MAGIC "sample_state\<lparr>mem := memsz_boot\<rparr>" "[(4, 16)]"] memsz_info
    by (simp add: v)
qed

theorem mboot2_mmap_step_witness:
  "multiboot_get_mmap_next (mm_data sample_boot 0) sample_state = Some (0, mboot2_entry sample_boot 0x1028, sample_state\<lparr>mboot2_current_entry := 1\<rparr>)"
  using mboot2_mmap_step [of sample_state "[(4, 16), (6, 40)]" 24 "mm_data sample_boot 0"] sample_info sample_loads
  by (simp add: sample_state_def round8_def mboot2_consts mmap_entry_sz_def tag_size_def)

end
