(* ===== verification/Bitmap.thy ===== *)
theory Bitmap
  imports Machine
begin

text \<open>
  The bitmap of physical blocks that both block allocators keep (init/memory/kmemlow.c and
  arch/i386/balloc.c have the same code for it): one bit per 4 KB block, 32 blocks to a
  word of memory. The first part translates the bit operations and the two nested loops
  of \<open>first_free\<close>; the second relates them to the set of used blocks. At its end stands
  the interface that both allocators promise, with what a client can conclude from it.
\<close>

definition PAGE_SIZE :: u32 where "PAGE_SIZE = 4096"
definition BLOCKS_PER_UNIT :: u32 where "BLOCKS_PER_UNIT = 32"
definition FULL_BITMAP_UNIT :: u32 where "FULL_BITMAP_UNIT = 0xffffffff"

section \<open>Operations\<close>

text \<open>The address of \<open>_mbitmap_physical[i]\<close>.\<close>

definition unit_addr :: "u32 \<Rightarrow> u32 \<Rightarrow> u32" where
  "unit_addr b i = b + 4 * i"

definition bm_allocate :: "u32 \<Rightarrow> u32 \<Rightarrow> memory \<Rightarrow> memory" where
  "bm_allocate b block m =
     (let i = block div BLOCKS_PER_UNIT; j = block mod BLOCKS_PER_UNIT
      in store32 m (unit_addr b i) (load32 m (unit_addr b i) OR push_bit (unat j) 1))"

definition bm_deallocate :: "u32 \<Rightarrow> u32 \<Rightarrow> memory \<Rightarrow> memory" where
  "bm_deallocate b block m =
     (let i = block div BLOCKS_PER_UNIT; j = block mod BLOCKS_PER_UNIT
      in store32 m (unit_addr b i) (load32 m (unit_addr b i) AND NOT (push_bit (unat j) 1)))"

text \<open>The inner and the outer loop of \<open>first_free\<close>; \<open>None\<close> is falling out of the loop.\<close>

function scan_bits :: "u32 \<Rightarrow> u32 \<Rightarrow> u32 option" where
  "scan_bits w j =
     (if j < BLOCKS_PER_UNIT then
        (if drop_bit (unat j) w AND 1 = 0 then Some j else scan_bits w (j + 1))
      else None)"
  by pat_completeness auto
termination
  by (relation "measure (\<lambda>(w, j). unat (BLOCKS_PER_UNIT - j))") (auto simp: index_measure)

function scan_units :: "memory \<Rightarrow> u32 \<Rightarrow> u32 \<Rightarrow> u32 \<Rightarrow> u32 option" where
  "scan_units m b i n =
     (if i < n then
        (case (if load32 m (unit_addr b i) \<noteq> FULL_BITMAP_UNIT then scan_bits (load32 m (unit_addr b i)) 0 else None) of
           Some j \<Rightarrow> Some (i * BLOCKS_PER_UNIT + j)
         | None \<Rightarrow> scan_units m b (i + 1) n)
      else None)"
  by pat_completeness auto
termination
  by (relation "measure (\<lambda>(m, b, i, n). unat (n - i))") (auto simp: index_measure)

declare scan_bits.simps [simp del] scan_units.simps [simp del]

section \<open>The set of used blocks\<close>

definition block_used :: "memory \<Rightarrow> u32 \<Rightarrow> nat \<Rightarrow> bool" where
  "block_used m b k \<longleftrightarrow> bit (load32 m (elem b (k div 32))) (k mod 32)"

lemma unat_div_mod_32 [simp]:
  "unat (block div BLOCKS_PER_UNIT) = unat block div 32" "unat (block mod BLOCKS_PER_UNIT) = unat block mod 32"
  by (simp_all add: BLOCKS_PER_UNIT_def unat_div unat_mod)

lemma unit_addr_elem: "unit_addr b i = elem b (unat i)"
  by (simp add: unit_addr_def elem_def)

lemma unit_addr_block: "unit_addr b (block div BLOCKS_PER_UNIT) = elem b (unat block div 32)"
  by (simp add: unit_addr_elem)

lemma same_block: "k div 32 = l div 32 \<Longrightarrow> k mod 32 = l mod 32 \<Longrightarrow> k = l" for k l :: nat
  by (metis div_mult_mod_eq)

lemma bit_one_shifted: "bit (2 ^ n :: u32) i \<longleftrightarrow> i = n \<and> n < 32"
  by (auto simp: bit_exp_iff)

lemma unit_index_bound: "k < 2 ^ 32 \<Longrightarrow> k div 32 < 2 ^ 30" for k :: nat
  by (simp add: div_less_iff_less_mult)

lemma block_used_allocate [simp]:
  assumes "k < 2 ^ 32"
  shows "block_used (bm_allocate b block m) b k \<longleftrightarrow> k = unat block \<or> block_used m b k"
proof (cases "k div 32 = unat block div 32")
  case True
  then have "k = unat block \<longleftrightarrow> k mod 32 = unat block mod 32" using same_block by metis
  then show ?thesis using True
    by (auto simp: block_used_def bm_allocate_def Let_def unit_addr_block load32_store32_same bit_or_iff bit_one_shifted)
next
  case False
  then show ?thesis using assms
    using unit_index_bound [of k] unit_index_bound [of "unat block"]
    by (auto simp: block_used_def bm_allocate_def Let_def unit_addr_block load32_store32_elem)
qed

lemma block_used_deallocate [simp]:
  assumes "k < 2 ^ 32"
  shows "block_used (bm_deallocate b block m) b k \<longleftrightarrow> k \<noteq> unat block \<and> block_used m b k"
proof (cases "k div 32 = unat block div 32")
  case True
  then have "k = unat block \<longleftrightarrow> k mod 32 = unat block mod 32" using same_block by metis
  then show ?thesis using True
    by (auto simp: block_used_def bm_deallocate_def Let_def unit_addr_block load32_store32_same bit_and_iff
        bit_not_iff bit_one_shifted)
next
  case False
  then show ?thesis using assms
    using unit_index_bound [of k] unit_index_bound [of "unat block"]
    by (auto simp: block_used_def bm_deallocate_def Let_def unit_addr_block load32_store32_elem)
qed

text \<open>Both write inside the bitmap when the block is one of its bits.\<close>

lemma bm_same_outside:
  assumes "unat block < 32 * n" "n \<le> 2 ^ 30"
  shows "same_outside b (4 * n) m (bm_allocate b block m)" "same_outside b (4 * n) m (bm_deallocate b block m)"
proof -
  have "unat block div 32 < n" using assms(1) by (simp add: less_mult_imp_div_less mult.commute)
  then show "same_outside b (4 * n) m (bm_allocate b block m)" "same_outside b (4 * n) m (bm_deallocate b block m)"
    using assms(2) by (auto simp: bm_allocate_def bm_deallocate_def Let_def unit_addr_block intro: store32_same_outside)
qed

subsection \<open>The search\<close>

lemma all_from: "j < n \<Longrightarrow> (\<forall>l. j \<le> l \<and> l < n \<longrightarrow> P l) \<longleftrightarrow> P j \<and> (\<forall>l. Suc j \<le> l \<and> l < n \<longrightarrow> P l)" for j :: nat
  by (auto simp: Suc_le_eq) (metis le_neq_implies_less)

lemma scan_bits_result:
  assumes "unat j \<le> 32"
  shows "case scan_bits w j of
      Some i \<Rightarrow> unat j \<le> unat i \<and> unat i < 32 \<and> \<not> bit w (unat i) \<and> (\<forall>l. unat j \<le> l \<and> l < unat i \<longrightarrow> bit w l)
    | None \<Rightarrow> \<forall>l. unat j \<le> l \<and> l < 32 \<longrightarrow> bit w l"
  using assms
proof (induction w j rule: scan_bits.induct)
  case (1 w j)
  have lt: "j < BLOCKS_PER_UNIT \<longleftrightarrow> unat j < 32" by (simp add: BLOCKS_PER_UNIT_def word_less_nat_alt)
  have b: "drop_bit (unat j) w AND 1 = 0 \<longleftrightarrow> \<not> bit w (unat j)"
    by (simp add: and_one_eq bit_iff_odd_drop_bit odd_iff_mod_2_eq_one even_iff_mod_2_eq_zero)
  show ?case
  proof (cases "unat j < 32 \<and> bit w (unat j)")
    case True
    have s: "unat (j + 1) = Suc (unat j)"
      using True unat_add_small [of j 1] by simp
    have e: "scan_bits w j = scan_bits w (j + 1)" using True lt b by (simp add: scan_bits.simps [of w j])
    have IH: "case scan_bits w (j + 1) of
      Some i \<Rightarrow> Suc (unat j) \<le> unat i \<and> unat i < 32 \<and> \<not> bit w (unat i) \<and> (\<forall>l. Suc (unat j) \<le> l \<and> l < unat i \<longrightarrow> bit w l)
    | None \<Rightarrow> \<forall>l. Suc (unat j) \<le> l \<and> l < 32 \<longrightarrow> bit w l"
      using "1.IH" True lt b s unfolding s by simp
    show ?thesis using IH True all_from [of "unat j" _ "bit w"] unfolding e
      by (cases "scan_bits w (j + 1)") (simp_all add: Suc_le_eq less_imp_le)
  next
    case False
    then show ?thesis using lt b "1.prems" by (auto simp: scan_bits.simps [of w j])
  qed
qed

lemma full_unit: "bit FULL_BITMAP_UNIT i \<longleftrightarrow> i < 32"
proof -
  have m: "FULL_BITMAP_UNIT = mask 32" by (simp add: FULL_BITMAP_UNIT_def mask_eq_exp_minus_1)
  show ?thesis unfolding m bit_mask_iff by auto
qed

lemma scan_units_result:
  assumes "unat i \<le> unat n" "unat n \<le> 2 ^ 27"
  shows "case scan_units m b i n of
      Some f \<Rightarrow> 32 * unat i \<le> unat f \<and> unat f < 32 * unat n \<and> \<not> block_used m b (unat f)
        \<and> (\<forall>k. 32 * unat i \<le> k \<and> k < unat f \<longrightarrow> block_used m b k)
    | None \<Rightarrow> \<forall>k. 32 * unat i \<le> k \<and> k < 32 * unat n \<longrightarrow> block_used m b k"
  using assms
proof (induction m b i n rule: scan_units.induct)
  case (1 m b i n)
  show ?case
  proof (cases "i < n")
    case False
    then show ?thesis using "1.prems" by (auto simp: scan_units.simps [of m b i n] word_less_nat_alt)
  next
    case True
    then have lt: "unat i < unat n" by (simp add: word_less_nat_alt)
    define w where "w = load32 m (unit_addr b i)"
    have u: "block_used m b (32 * unat i + l) \<longleftrightarrow> bit w l" if "l < 32" for l
      using that by (simp add: block_used_def w_def unit_addr_elem)
    have s: "unat (i + 1) = Suc (unat i)"
      using lt "1.prems" unat_add_small [of i 1] by simp
    define r where "r = (if w \<noteq> FULL_BITMAP_UNIT then scan_bits w 0 else None)"
    have e: "scan_units m b i n = (case r of Some j \<Rightarrow> Some (i * BLOCKS_PER_UNIT + j) | None \<Rightarrow> scan_units m b (i + 1) n)"
      using True by (simp add: scan_units.simps [of m b i n] w_def r_def)
    show ?thesis
    proof (cases r)
      case None
      have full: "bit w l" if "l < 32" for l
        using None scan_bits_result [of 0 w] that full_unit [of l] by (auto simp: r_def split: if_splits)
      have blk: "block_used m b k" if "32 * unat i \<le> k" "k < 32 * Suc (unat i)" for k
        using u [of "k - 32 * unat i"] full [of "k - 32 * unat i"] that by simp
      have IH: "case scan_units m b (i + 1) n of
          Some f \<Rightarrow> 32 * Suc (unat i) \<le> unat f \<and> unat f < 32 * unat n \<and> \<not> block_used m b (unat f)
            \<and> (\<forall>k. 32 * Suc (unat i) \<le> k \<and> k < unat f \<longrightarrow> block_used m b k)
        | None \<Rightarrow> \<forall>k. 32 * Suc (unat i) \<le> k \<and> k < 32 * unat n \<longrightarrow> block_used m b k"
        using "1.IH" [OF True None [unfolded r_def w_def]] "1.prems" lt unfolding s by simp
      show ?thesis
        using IH blk unfolding e None
        by (cases "scan_units m b (i + 1) n") (auto, (metis not_le_imp_less mult_Suc_right)+)
    next
      case (Some j)
      then have j: "unat j < 32" "\<not> bit w (unat j)" "\<And>l. l < unat j \<Longrightarrow> bit w l"
        using scan_bits_result [of 0 w] by (auto simp: r_def split: if_splits)
      have "unat (i * BLOCKS_PER_UNIT + j) = (unat i * 32 + unat j) mod 2 ^ 32"
        by (simp add: BLOCKS_PER_UNIT_def unat_word_ariths mod_simps)
      then have f: "unat (i * BLOCKS_PER_UNIT + j) = 32 * unat i + unat j"
        using lt "1.prems" j(1) by simp
      have "block_used m b k" if "32 * unat i \<le> k" "k < 32 * unat i + unat j" for k
        using u [of "k - 32 * unat i"] j(1) j(3) [of "k - 32 * unat i"] that by simp
      then show ?thesis
        using u [OF j(1)] j lt f unfolding e Some by auto
    qed
  qed
qed

section \<open>The interface of a block allocator\<close>

text \<open>The number of the 4 KB block that holds an address, and a run of \<open>n\<close> allocations.\<close>

definition frame :: "u32 \<Rightarrow> nat" where
  "frame p = unat p div 4096"

fun take_blocks :: "('s \<Rightarrow> u32 \<times> 's) \<Rightarrow> nat \<Rightarrow> 's \<Rightarrow> u32 list \<times> 's" where
  "take_blocks alloc 0 s = ([], s)"
| "take_blocks alloc (Suc n) s =
     (case alloc s of (p, s1) \<Rightarrow> case take_blocks alloc n s1 of (ps, s2) \<Rightarrow> (p # ps, s2))"

text \<open>
  What an allocator promises about the set of used blocks: a non-null answer is the start of a
  block that was free and is used from now on, a null answer changes nothing, and freeing a
  used block gives back exactly that block.
\<close>

locale block_allocator =
  fixes alloc :: "'s \<Rightarrow> u32 \<times> 's"
    and free :: "u32 \<Rightarrow> 's \<Rightarrow> 's"
    and used :: "'s \<Rightarrow> nat set"
    and ok :: "'s \<Rightarrow> bool"
  assumes alloc_ok: "ok s \<Longrightarrow> alloc s = (p, s') \<Longrightarrow> ok s'"
    and alloc_block: "ok s \<Longrightarrow> alloc s = (p, s') \<Longrightarrow> p \<noteq> 0 \<Longrightarrow>
      unat p = 4096 * frame p \<and> frame p \<notin> used s \<and> used s' = insert (frame p) (used s)"
    and alloc_null: "ok s \<Longrightarrow> alloc s = (0, s') \<Longrightarrow> used s' = used s"
    and free_ok: "ok s \<Longrightarrow> frame p \<in> used s \<Longrightarrow> frame p \<noteq> 0 \<Longrightarrow> ok (free p s)"
    and free_block: "ok s \<Longrightarrow> frame p \<in> used s \<Longrightarrow> frame p \<noteq> 0 \<Longrightarrow> used (free p s) = used s - {frame p}"
begin

lemma take_blocks_fresh:
  "ok s \<Longrightarrow> take_blocks alloc n s = (ps, s') \<Longrightarrow> 0 \<notin> set ps \<Longrightarrow>
   ok s' \<and> distinct (map frame ps) \<and> frame ` set ps \<inter> used s = {} \<and> used s' = used s \<union> frame ` set ps"
proof (induction n arbitrary: s ps)
  case 0
  then show ?case by auto
next
  case (Suc n)
  obtain p s1 where a: "alloc s = (p, s1)" by (cases "alloc s")
  obtain qs where t: "take_blocks alloc n s1 = (qs, s')" and ps: "ps = p # qs"
    using Suc.prems(2) a by (auto split: prod.splits)
  have p: "frame p \<notin> used s" "used s1 = insert (frame p) (used s)"
    using alloc_block [OF Suc.prems(1) a] Suc.prems(3) ps by auto
  have "ok s' \<and> distinct (map frame qs) \<and> frame ` set qs \<inter> used s1 = {} \<and> used s' = used s1 \<union> frame ` set qs"
    using Suc.IH [OF alloc_ok [OF Suc.prems(1) a] t] Suc.prems(3) ps by simp
  then show ?case using p ps by auto
qed

lemma alloc_free:
  assumes "ok s" "alloc s = (p, s')" "p \<noteq> 0"
  shows "ok (free p s')" "used (free p s') = used s"
proof -
  have p: "unat p = 4096 * frame p" "frame p \<notin> used s" "used s' = insert (frame p) (used s)"
    using alloc_block [OF assms] by auto
  then have "frame p \<noteq> 0" using assms(3) by (metis mult_0_right unat_eq_zero)
  then show "ok (free p s')" "used (free p s') = used s"
    using free_ok [OF alloc_ok [OF assms(1,2)], of p] free_block [OF alloc_ok [OF assms(1,2)], of p] p by auto
qed

end

text \<open>What both allocators' searches mean for the set of used blocks below \<open>nblocks\<close>.\<close>

definition used_set :: "memory \<Rightarrow> u32 \<Rightarrow> u32 \<Rightarrow> nat set" where
  "used_set m b nblocks = {k. k < unat nblocks \<and> block_used m b k}"

lemma below_u32: "k < unat n \<Longrightarrow> k < 4294967296" for n :: u32
  using unat_u32_bound [of n] by linarith

lemma used_set_allocate: "unat block < unat nblocks \<Longrightarrow>
  used_set (bm_allocate b block m) b nblocks = insert (unat block) (used_set m b nblocks)"
  by (auto simp: used_set_def below_u32)

lemma used_set_deallocate:
  "used_set (bm_deallocate b block m) b nblocks = used_set m b nblocks - {unat block}"
  by (auto simp: used_set_def below_u32)

lemma frame_of_block:
  assumes "unat block < 2 ^ 20"
  shows "frame (block * 4096) = unat block" "unat (block * 4096) = 4096 * unat block" "block * 4096 = 0 \<longleftrightarrow> block = 0"
proof -
  show u: "unat (block * 4096) = 4096 * unat block"
    using assms by (simp add: unat_word_ariths)
  show "frame (block * 4096) = unat block" unfolding frame_def u by simp
  show "block * 4096 = 0 \<longleftrightarrow> block = 0" using u by (metis mult_eq_0_iff unat_eq_zero zero_neq_numeral)
qed

lemma frame_div: "unat (p div PAGE_SIZE) = frame p"
  by (simp add: frame_def PAGE_SIZE_def unat_div)

text \<open>The whole search over the full words of the bitmap.\<close>

lemma first_free_result:
  assumes "unat nblocks \<le> 2 ^ 20"
  shows "case scan_units m b 0 (nblocks div BLOCKS_PER_UNIT) of
      Some f \<Rightarrow> unat f < 32 * (unat nblocks div 32) \<and> unat f < unat nblocks \<and> unat f < 2 ^ 20 \<and> unat f \<notin> used_set m b nblocks \<and> (\<forall>k < unat f. k \<in> used_set m b nblocks)
    | None \<Rightarrow> \<forall>k < 32 * (unat nblocks div 32). k \<in> used_set m b nblocks"
proof -
  have n: "k < unat nblocks" if "k < 32 * (unat nblocks div 32)" for k
    using that by (rule less_le_trans) simp
  have d: "unat nblocks div 32 \<le> 2 ^ 27" using assms by simp
  show ?thesis
    using scan_units_result [of 0 "nblocks div BLOCKS_PER_UNIT" m b] d assms
    by (cases "scan_units m b 0 (nblocks div BLOCKS_PER_UNIT)")
       (auto simp: used_set_def dest: n intro: less_trans dest: order_less_le_trans [OF _ assms])
qed

end
