(* ===== verification/Kmemlow.thy ===== *)
theory Kmemlow
  imports Multiboot Bitmap
begin

text \<open>
  The block allocator of the early phase, init/init/memory/kmemlow.c: physical memory in blocks
  of 4 KB, one bit each in the bitmap behind the kernel image. The address of the linker symbol
  \<open>_mbitmap\<close> and the contents of the uninitialised local \<open>memory_map_block\<close> are
  parameters of the initialisation. The prints under DEBUG_KMEMLOW, which no build file defines, are
  left out. The abstraction of the bitmap is the set of the used blocks. What the initialisation leaves is proved in Kmeminit.
\<close>

record kmemlow = multiboot +
  mbitmap_physical :: u32
  total_blocks :: u32
  used_blocks :: u32
  bitmap_size :: u32
  kernel_end_physical :: u32

definition KILOBYTES :: u32 where "KILOBYTES = 1024"
definition KMEMLOW_ERROR_ENOMEM :: u32 where "KMEMLOW_ERROR_ENOMEM = 0x01"

section \<open>Operations\<close>

definition kmemlow_allocate :: "u32 \<Rightarrow> 'a kmemlow_scheme \<Rightarrow> 'a kmemlow_scheme" where
  "kmemlow_allocate block s = s\<lparr>mem := bm_allocate (mbitmap_physical s) block (mem s)\<rparr>"

definition kmemlow_deallocate :: "u32 \<Rightarrow> 'a kmemlow_scheme \<Rightarrow> 'a kmemlow_scheme" where
  "kmemlow_deallocate block s = s\<lparr>mem := bm_deallocate (mbitmap_physical s) block (mem s)\<rparr>"

function reserve_loop :: "u32 \<Rightarrow> u32 \<Rightarrow> 'a kmemlow_scheme \<Rightarrow> 'a kmemlow_scheme" where
  "reserve_loop align blocks s =
     (if blocks > 0 then
        (let s' = kmemlow_allocate align s
         in reserve_loop (align + 1) (blocks - 1) (s'\<lparr>used_blocks := used_blocks s' + 1\<rparr>))
      else s)"
  by pat_completeness auto
termination
  by (relation "measure (\<lambda>(align, blocks, s). unat blocks)") (auto simp: unat_minus_one_u32 unat_gt_0 word_gt_0)

function free_loop :: "u32 \<Rightarrow> u32 \<Rightarrow> 'a kmemlow_scheme \<Rightarrow> 'a kmemlow_scheme" where
  "free_loop align blocks s =
     (if blocks > 0 then
        (let s' = kmemlow_deallocate align s
         in free_loop (align + 1) (blocks - 1) (s'\<lparr>used_blocks := used_blocks s' - 1\<rparr>))
      else s)"
  by pat_completeness auto
termination
  by (relation "measure (\<lambda>(align, blocks, s). unat blocks)") (auto simp: unat_minus_one_u32 unat_gt_0 word_gt_0)

declare reserve_loop.simps [simp del] free_loop.simps [simp del]

definition reserve_region :: "u32 \<Rightarrow> u32 \<Rightarrow> 'a kmemlow_scheme \<Rightarrow> 'a kmemlow_scheme" where
  "reserve_region base len s = reserve_loop (base div PAGE_SIZE) (len div PAGE_SIZE) s"

definition free_region :: "u32 \<Rightarrow> u32 \<Rightarrow> 'a kmemlow_scheme \<Rightarrow> 'a kmemlow_scheme" where
  "free_region base len s = free_loop (base div PAGE_SIZE) (len div PAGE_SIZE) s"

definition kmemlow_first_free :: "'a kmemlow_scheme \<Rightarrow> u32 \<times> 'a kmemlow_scheme" where
  "kmemlow_first_free s =
     (case scan_units (mem s) (mbitmap_physical s) 0 (total_blocks s div BLOCKS_PER_UNIT) of
        Some block \<Rightarrow> (block, s)
      | None \<Rightarrow> (0, s\<lparr>kinit_errno := KMEMLOW_ERROR_ENOMEM\<rparr>))"

definition kmemlow_alloc :: "'a kmemlow_scheme \<Rightarrow> u32 \<times> 'a kmemlow_scheme" where
  "kmemlow_alloc s =
     (case kmemlow_first_free s of (free_block, s1) \<Rightarrow>
        if free_block = 0 \<and> kinit_errno s1 = KMEMLOW_ERROR_ENOMEM then (0, s1)
        else (free_block * PAGE_SIZE, kmemlow_allocate free_block s1))"

definition kmemlow_free :: "u32 \<Rightarrow> 'a kmemlow_scheme \<Rightarrow> 'a kmemlow_scheme" where
  "kmemlow_free block s =
     (let allocated_block = block div PAGE_SIZE
      in if allocated_block < total_blocks s then kmemlow_deallocate allocated_block s else s)"

definition kmemlow_get_kernel_endptr :: "'a kmemlow_scheme \<Rightarrow> u32" where
  "kmemlow_get_kernel_endptr s = kernel_end_physical s"

definition kmemlow_get_bitmap_ptr :: "'a kmemlow_scheme \<Rightarrow> u32" where
  "kmemlow_get_bitmap_ptr s = mbitmap_physical s"

definition kmemlow_get_bitmap_size :: "'a kmemlow_scheme \<Rightarrow> u32" where
  "kmemlow_get_bitmap_size s = bitmap_size s"

definition kmemlow_get_total_blocks :: "'a kmemlow_scheme \<Rightarrow> u32" where
  "kmemlow_get_total_blocks s = total_blocks s"

definition kmemlow_get_used_blocks :: "'a kmemlow_scheme \<Rightarrow> u32" where
  "kmemlow_get_used_blocks s = used_blocks s"

subsection \<open>Initialisation\<close>

text \<open>\<open>for (i = 0; i < bitmap_size; i++) _mbitmap_physical[i] = 0xffffffff\<close>\<close>

function fill_units :: "u32 \<Rightarrow> u32 \<Rightarrow> u32 \<Rightarrow> memory \<Rightarrow> memory" where
  "fill_units b i n m = (if i < n then fill_units b (i + 1) n (store32 m (unit_addr b i) 0xffffffff) else m)"
  by pat_completeness auto
termination
  by (relation "measure (\<lambda>(b, i, n, m). unat (n - i))") (auto simp: index_measure)

declare fill_units.simps [simp del]

partial_function (option) mmap_loop :: "mmap_data \<Rightarrow> 'a kmemlow_scheme \<Rightarrow> 'a kmemlow_scheme option" where
  "mmap_loop memory_map_block s = do {
     (r, memory_map_block', s') \<leftarrow> multiboot_get_mmap_next memory_map_block s;
     if r \<noteq> -1 then
       mmap_loop memory_map_block'
         (if mtype memory_map_block' = 1
          then free_region (ucast (mbase memory_map_block')) (ucast (mlength memory_map_block')) s' else s')
     else Some s'
   }"

definition kend_phys :: "u32 \<Rightarrow> u32 \<Rightarrow> u32" where
  "kend_phys start_address units = ((start_address + units * 4) AND NOT 0xfff) + PAGE_SIZE"

definition memsz_text :: string where
  "memsz_text = ''Total system memory: %d kilobytes'' @ [CHR 0x0A]"

definition kmemlow_init_allocator ::
  "u32 \<Rightarrow> mmap_data \<Rightarrow> 'a kmemlow_scheme \<Rightarrow> (int \<times> 'a kmemlow_scheme) option" where
  "kmemlow_init_allocator mbitmap memory_map_block s = do {
     let start_address = mbitmap - 0xc0000000;
     let s = s\<lparr>mbitmap_physical := start_address\<rparr>;
     (memsz, s) \<leftarrow> multiboot_get_memsz s;
     s \<leftarrow> ki_printf memsz_text [VaWord memsz] s;
     let blocks = (memsz * KILOBYTES) div PAGE_SIZE;
     let units = blocks div BLOCKS_PER_UNIT;
     let units = (if blocks mod BLOCKS_PER_UNIT > 0 then units + 1 else units);
     let kend = kend_phys start_address units;
     let s = s\<lparr>total_blocks := blocks, used_blocks := blocks, bitmap_size := units, kernel_end_physical := kend\<rparr>;
     s \<leftarrow> multiboot_relocate kend s;
     let s = s\<lparr>mem := fill_units start_address 0 units (mem s)\<rparr>;
     s \<leftarrow> mmap_loop memory_map_block s;
     let kernel_length = kend - 0x00100000;
     let s = reserve_region 0x0 0x100000 s;
     let s = reserve_region 0x100000 kernel_length s;
     Some (0, s)
   }"

section \<open>Marking regions\<close>

lemma reserve_loop_result:
  assumes "unat align + unat blocks \<le> 32 * n" "n < 2 ^ 27"
  shows "\<exists>m'. reserve_loop align blocks s = s\<lparr>mem := m', used_blocks := used_blocks s + blocks\<rparr>
    \<and> same_outside (mbitmap_physical s) (4 * n) (mem s) m'
    \<and> (\<forall>k < 2 ^ 32. block_used m' (mbitmap_physical s) k \<longleftrightarrow>
          block_used (mem s) (mbitmap_physical s) k \<or> (unat align \<le> k \<and> k < unat align + unat blocks))"
  using assms(1)
proof (induction align blocks s rule: reserve_loop.induct)
  case (1 align blocks s)
  show ?case
  proof (cases "blocks = 0")
    case True
    then show ?thesis by (intro exI [of _ "mem s"]) (auto simp: reserve_loop.simps [of align 0 s])
  next
    case False
    then have pos: "0 < unat blocks" by (simp add: unat_gt_0)
    define m1 where "m1 = bm_allocate (mbitmap_physical s) align (mem s)"
    define s1 where "s1 = s\<lparr>mem := m1, used_blocks := used_blocks s + 1\<rparr>"
    have e: "reserve_loop align blocks s = reserve_loop (align + 1) (blocks - 1) s1"
      using False by (simp add: reserve_loop.simps [of align blocks s] word_gt_0 kmemlow_allocate_def s1_def m1_def)
    have b: "unat (blocks - 1) = unat blocks - 1" by (rule unat_minus_one_u32 [OF False])
    have a: "unat (align + 1) = Suc (unat align)"
      using pos "1.prems" assms(2) unat_add_small [of align 1] by simp
    have "unat (align + 1) + unat (blocks - 1) \<le> 32 * n" using a b pos "1.prems" by simp
      moreover have "(kmemlow_allocate align s)\<lparr>used_blocks := used_blocks (kmemlow_allocate align s) + 1\<rparr> = s1"
      by (simp add: s1_def m1_def kmemlow_allocate_def)
    ultimately obtain m' where m': "reserve_loop (align + 1) (blocks - 1) s1
          = s1\<lparr>mem := m', used_blocks := used_blocks s1 + (blocks - 1)\<rparr>"
        "same_outside (mbitmap_physical s1) (4 * n) (mem s1) m'"
        and u: "\<forall>k < 2 ^ 32. block_used m' (mbitmap_physical s1) k \<longleftrightarrow>
           block_used (mem s1) (mbitmap_physical s1) k
           \<or> (unat (align + 1) \<le> k \<and> k < unat (align + 1) + unat (blocks - 1))"
      using "1.IH" [OF _ refl] False by (auto simp: word_gt_0)
    have "same_outside (mbitmap_physical s) (4 * n) (mem s) m1"
      unfolding m1_def using "1.prems" pos assms(2) by (intro bm_same_outside) auto
    then have o: "same_outside (mbitmap_physical s) (4 * n) (mem s) m'"
      using m'(2) by (auto simp: s1_def intro: same_outside_trans)
    have r: "(unat align \<le> k \<and> k < unat align + unat blocks) \<longleftrightarrow>
        k = unat align \<or> (unat (align + 1) \<le> k \<and> k < unat (align + 1) + unat (blocks - 1))" for k
      using a b pos by linarith
    have v: "block_used m' (mbitmap_physical s) k \<longleftrightarrow> block_used (mem s) (mbitmap_physical s) k
        \<or> (unat align \<le> k \<and> k < unat align + unat blocks)" if "k < 2 ^ 32" for k
      using u [rule_format, OF that] block_used_allocate [OF that, of "mbitmap_physical s" align "mem s"]
      unfolding r by (simp add: s1_def m1_def) blast
    show ?thesis using m'(1) o v unfolding e by (intro exI [of _ m']) (simp add: s1_def)
  qed
qed

lemma free_loop_result:
  assumes "unat align + unat blocks \<le> 32 * n" "n < 2 ^ 27"
  shows "\<exists>m'. free_loop align blocks s = s\<lparr>mem := m', used_blocks := used_blocks s - blocks\<rparr>
    \<and> same_outside (mbitmap_physical s) (4 * n) (mem s) m'
    \<and> (\<forall>k < 2 ^ 32. block_used m' (mbitmap_physical s) k \<longleftrightarrow>
          block_used (mem s) (mbitmap_physical s) k \<and> \<not> (unat align \<le> k \<and> k < unat align + unat blocks))"
  using assms(1)
proof (induction align blocks s rule: free_loop.induct)
  case (1 align blocks s)
  show ?case
  proof (cases "blocks = 0")
    case True
    then show ?thesis by (intro exI [of _ "mem s"]) (auto simp: free_loop.simps [of align 0 s])
  next
    case False
    then have pos: "0 < unat blocks" by (simp add: unat_gt_0)
    define m1 where "m1 = bm_deallocate (mbitmap_physical s) align (mem s)"
    define s1 where "s1 = s\<lparr>mem := m1, used_blocks := used_blocks s - 1\<rparr>"
    have e: "free_loop align blocks s = free_loop (align + 1) (blocks - 1) s1"
      using False by (simp add: free_loop.simps [of align blocks s] word_gt_0 kmemlow_deallocate_def s1_def m1_def)
    have b: "unat (blocks - 1) = unat blocks - 1" by (rule unat_minus_one_u32 [OF False])
    have a: "unat (align + 1) = Suc (unat align)"
      using pos "1.prems" assms(2) unat_add_small [of align 1] by simp
    have "unat (align + 1) + unat (blocks - 1) \<le> 32 * n" using a b pos "1.prems" by simp
    moreover have "(kmemlow_deallocate align s)\<lparr>used_blocks := used_blocks (kmemlow_deallocate align s) - 1\<rparr> = s1"
      by (simp add: s1_def m1_def kmemlow_deallocate_def)
    ultimately obtain m' where m': "free_loop (align + 1) (blocks - 1) s1
          = s1\<lparr>mem := m', used_blocks := used_blocks s1 - (blocks - 1)\<rparr>"
        "same_outside (mbitmap_physical s1) (4 * n) (mem s1) m'"
        and u: "\<forall>k < 2 ^ 32. block_used m' (mbitmap_physical s1) k \<longleftrightarrow>
           block_used (mem s1) (mbitmap_physical s1) k
           \<and> \<not> (unat (align + 1) \<le> k \<and> k < unat (align + 1) + unat (blocks - 1))"
      using "1.IH" [OF _ refl] False by (auto simp: word_gt_0)
    have "same_outside (mbitmap_physical s) (4 * n) (mem s) m1"
      unfolding m1_def using "1.prems" pos assms(2) by (intro bm_same_outside) auto
    then have o: "same_outside (mbitmap_physical s) (4 * n) (mem s) m'"
      using m'(2) by (auto simp: s1_def intro: same_outside_trans)
    have r: "(unat align \<le> k \<and> k < unat align + unat blocks) \<longleftrightarrow>
        k = unat align \<or> (unat (align + 1) \<le> k \<and> k < unat (align + 1) + unat (blocks - 1))" for k
      using a b pos by linarith
    have v: "block_used m' (mbitmap_physical s) k \<longleftrightarrow> block_used (mem s) (mbitmap_physical s) k
        \<and> \<not> (unat align \<le> k \<and> k < unat align + unat blocks)" if "k < 2 ^ 32" for k
      using u [rule_format, OF that] block_used_deallocate [OF that, of "mbitmap_physical s" align "mem s"]
      unfolding r by (simp add: s1_def m1_def) blast
    show ?thesis using m'(1) o v unfolding e by (intro exI [of _ m']) (simp add: s1_def)
  qed
qed

lemma div_eq_iff_32: "k div 32 = i \<longleftrightarrow> 32 * i \<le> k \<and> k < 32 * Suc i" for k i :: nat
proof
  assume "32 * i \<le> k \<and> k < 32 * Suc i"
  then show "k div 32 = i" by (intro div_nat_eqI) (simp_all add: mult.commute)
next
  assume "k div 32 = i"
  then show "32 * i \<le> k \<and> k < 32 * Suc i"
    using div_mult_mod_eq [of k 32] mod_less_divisor [of 32 k] by simp
qed

lemma fill_units_result:
  assumes "unat i \<le> unat n" "unat n < 2 ^ 27"
  shows "same_outside b (4 * unat n) m (fill_units b i n m)
    \<and> (\<forall>k < 2 ^ 32. block_used (fill_units b i n m) b k \<longleftrightarrow>
         (32 * unat i \<le> k \<and> k < 32 * unat n) \<or> block_used m b k)"
  using assms
proof (induction b i n m rule: fill_units.induct)
  case (1 b i n m)
  show ?case
  proof (cases "i < n")
    case False
    then show ?thesis using "1.prems" by (auto simp: fill_units.simps [of b i n m] word_less_nat_alt)
  next
    case True
    then have lt: "unat i < unat n" by (simp add: word_less_nat_alt)
    have s: "unat (i + 1) = Suc (unat i)" using lt "1.prems" unat_add_small [of i 1] by simp
    define m1 where "m1 = store32 m (unit_addr b i) 0xffffffff"
    have IH: "same_outside b (4 * unat n) m1 (fill_units b (i + 1) n m1)"
      "\<And>k. k < 2 ^ 32 \<Longrightarrow> block_used (fill_units b (i + 1) n m1) b k \<longleftrightarrow>
         (32 * Suc (unat i) \<le> k \<and> k < 32 * unat n) \<or> block_used m1 b k"
      using "1.IH" [OF True] "1.prems" lt s by (auto simp: m1_def)
    have "block_used m1 b k \<longleftrightarrow> k div 32 = unat i \<or> block_used m b k" if "k < 2 ^ 32" for k
      using unit_index_bound [OF that] lt "1.prems" full_unit [of "k mod 32"]
      by (auto simp: block_used_def m1_def unit_addr_elem load32_store32_elem FULL_BITMAP_UNIT_def)
    moreover have "k div 32 = unat i \<longleftrightarrow> 32 * unat i \<le> k \<and> k < 32 * Suc (unat i)" for k
      by (auto simp: div_eq_iff_32)
    moreover have "same_outside b (4 * unat n) m m1"
      using store32_same_outside [OF lt] "1.prems" by (auto simp: m1_def unit_addr_elem)
    ultimately show ?thesis using IH True lt
      by (auto simp: fill_units.simps [of b i n m] m1_def [symmetric] intro: same_outside_trans)
  qed
qed

section \<open>Allocating and freeing\<close>

definition kused :: "'a kmemlow_scheme \<Rightarrow> nat set" where
  "kused s = used_set (mem s) (mbitmap_physical s) (total_blocks s)"

text \<open>The states the initialisation leads to: block 0 is reserved, and the block count comes from a
  32-bit number of bytes.\<close>

definition kmemlow_ok :: "'a kmemlow_scheme \<Rightarrow> bool" where
  "kmemlow_ok s \<longleftrightarrow> unat (total_blocks s) \<le> 2 ^ 20 \<and> 0 \<in> kused s"

lemma kused_errno [simp]: "kused (s\<lparr>kinit_errno := e\<rparr>) = kused s"
  by (simp add: kused_def)

lemma kmemlow_alloc_result:
  assumes "kmemlow_ok s"
  shows "(\<exists>f. kmemlow_alloc s = (f * PAGE_SIZE, kmemlow_allocate f s) \<and> unat f < unat (total_blocks s)
       \<and> unat f < 32 * (unat (total_blocks s) div 32)
       \<and> unat f < 2 ^ 20 \<and> f \<noteq> 0 \<and> unat f \<notin> kused s \<and> (\<forall>k < unat f. k \<in> kused s))
     \<or> (kmemlow_alloc s = (0, s\<lparr>kinit_errno := KMEMLOW_ERROR_ENOMEM\<rparr>)
       \<and> (\<forall>k < 32 * (unat (total_blocks s) div 32). k \<in> kused s))"
proof -
  have t: "unat (total_blocks s) \<le> 2 ^ 20" and z: "0 \<in> kused s" using assms by (simp_all add: kmemlow_ok_def)
  note f = first_free_result [OF t, of "mem s" "mbitmap_physical s", folded kused_def]
  show ?thesis
  proof (cases "scan_units (mem s) (mbitmap_physical s) 0 (total_blocks s div BLOCKS_PER_UNIT)")
    case None
    then show ?thesis using f by (simp add: kmemlow_alloc_def kmemlow_first_free_def)
  next
    case (Some b)
    then have "unat b \<notin> kused s" using f by simp
    then have "b \<noteq> 0" using z by auto
    then show ?thesis using f Some by (auto simp: kmemlow_alloc_def kmemlow_first_free_def)
  qed
qed

lemma kused_allocate: "unat f < unat (total_blocks s) \<Longrightarrow> kused (kmemlow_allocate f s) = insert (unat f) (kused s)"
  by (simp add: kused_def kmemlow_allocate_def used_set_allocate)

lemma kused_free:
  "frame p < unat (total_blocks s) \<Longrightarrow> kused (kmemlow_free p s) = kused s - {frame p}"
  by (simp add: kused_def kmemlow_free_def kmemlow_deallocate_def used_set_deallocate frame_div Let_def word_less_nat_alt)

lemma kused_bound: "k \<in> kused s \<Longrightarrow> k < unat (total_blocks s)"
  by (simp add: kused_def used_set_def)

lemma total_blocks_same [simp]:
  "total_blocks (kmemlow_allocate f s) = total_blocks s" "total_blocks (kmemlow_free p s) = total_blocks s"
  by (simp_all add: kmemlow_allocate_def kmemlow_free_def kmemlow_deallocate_def Let_def)

interpretation low: block_allocator kmemlow_alloc kmemlow_free kused kmemlow_ok
proof
  fix s :: "'a kmemlow_scheme" and p s'
  assume ok: "kmemlow_ok s"
  note r = kmemlow_alloc_result [OF ok]
  {
    assume a: "kmemlow_alloc s = (p, s')"
    show "kmemlow_ok s'" using r a ok by (auto simp: kmemlow_ok_def kused_allocate)
  next
    assume a: "kmemlow_alloc s = (p, s')" "p \<noteq> 0"
    show "unat p = 4096 * frame p \<and> frame p \<notin> kused s \<and> kused s' = insert (frame p) (kused s)"
      using r a by (auto simp: kused_allocate PAGE_SIZE_def frame_of_block)
  next
    assume a: "kmemlow_alloc s = (0, s')"
    show "kused s' = kused s" using r a by (auto simp: PAGE_SIZE_def frame_of_block(3))
  next
    assume f: "frame p \<in> kused s" "frame p \<noteq> 0"
    show "kmemlow_ok (kmemlow_free p s)" "kused (kmemlow_free p s) = kused s - {frame p}"
      using f ok kused_bound [OF f(1)] by (auto simp: kmemlow_ok_def kused_free)
  }
qed

section \<open>Properties\<close>

text \<open>C22: \<open>kmemlow_alloc\<close> is first fit over the full words of the bitmap: it returns the address of
  the lowest free block and marks exactly that block, or, when all of them are used, returns NULL with
  \<open>KMEMLOW_ERROR_ENOMEM\<close> and marks nothing (the blocks of a last, partial word are never
  handed out).\<close>

theorem kmemlow_alloc_first_fit:
  assumes "kmemlow_ok s"
  shows "if \<exists>k < 32 * (unat (total_blocks s) div 32). k \<notin> kused s
    then \<exists>f. kmemlow_alloc s = (f * 4096, s\<lparr>mem := bm_allocate (mbitmap_physical s) f (mem s)\<rparr>)
      \<and> unat f = (LEAST k. k \<notin> kused s) \<and> kused (snd (kmemlow_alloc s)) = insert (unat f) (kused s)
    else kmemlow_alloc s = (0, s\<lparr>kinit_errno := KMEMLOW_ERROR_ENOMEM\<rparr>)"
proof (cases "\<exists>k < 32 * (unat (total_blocks s) div 32). k \<notin> kused s")
  case True
  then obtain f where f: "kmemlow_alloc s = (f * PAGE_SIZE, kmemlow_allocate f s)" "unat f < unat (total_blocks s)"
    "unat f \<notin> kused s" "\<forall>k < unat f. k \<in> kused s"
    using kmemlow_alloc_result [OF assms] by auto
  then have "(LEAST k. k \<notin> kused s) = unat f" by (intro Least_equality) (auto simp: not_less [symmetric])
  then show ?thesis using f True kused_allocate [OF f(2)]
    by (auto simp: PAGE_SIZE_def kmemlow_allocate_def)
next
  case False
  then show ?thesis using kmemlow_alloc_result [OF assms] by auto
qed

text \<open>C21: any run of successful allocations hands out pairwise different blocks, none of which was used
  before, and afterwards exactly the old and the new blocks are used.\<close>

theorem kmemlow_allocs_distinct:
  assumes "kmemlow_ok s" "take_blocks kmemlow_alloc n s = (ps, s')" "0 \<notin> set ps"
  shows "distinct (map frame ps) \<and> frame ` set ps \<inter> kused s = {} \<and> kused s' = kused s \<union> frame ` set ps"
  using low.take_blocks_fresh [OF assms] by blast

text \<open>freeing what was just allocated gives the old set of used blocks back, and freeing an
  address beyond the last block changes nothing.\<close>

theorem kmemlow_free_undoes_alloc:
  assumes "kmemlow_ok s" "kmemlow_alloc s = (p, s')" "p \<noteq> 0" "unat (total_blocks s) \<le> frame q"
  shows "kused (kmemlow_free p s') = kused s \<and> kmemlow_free q s = s"
  using low.alloc_free(2) [OF assms(1-3)] assms(4)
  by (simp add: kmemlow_free_def frame_div word_less_nat_alt)

text \<open>\<open>free_region\<close> does not look at the size of the bitmap: a region that ends behind the
  last block clears bits behind the bitmap. The block count comes from the memory size without the hole
  below 1 MB, so the last region of an ordinary map does end behind it.\<close>

theorem free_region_overruns:
  assumes "unat (bitmap_size s) * 32 \<le> k" "frame base \<le> k" "k < frame base + frame len"
    and "frame base + frame len < 2 ^ 31"
  shows "\<not> block_used (mem (free_region base len s)) (mbitmap_physical s) k
    \<and> 4 * unat (bitmap_size s) \<le> 4 * (k div 32)"
proof -
  have "unat (base div PAGE_SIZE) + unat (len div PAGE_SIZE) \<le> 32 * 2 ^ 26"
    using assms(4) by (simp add: frame_div)
  from free_loop_result [OF this, of s] show ?thesis
    using assms by (auto simp: free_region_def frame_div less_eq_div_iff_mult_less_eq)
qed

text \<open>A machine with 32 MB: the bitmap at 2 MB, one region of a given type; \<open>r\<close> are the fields
  of later components.\<close>

definition low_boot :: "u32 \<Rightarrow> memory" where
  "low_boot ty = store32 (store32 (store32 (store32 (store32 (store32 (store32 (store32 (store32 (\<lambda>_. 0)
     0x1000 0x48) 0x1008 4) 0x100C 16) 0x1014 0x8000) 0x1018 6) 0x101C 40) 0x1020 24) 0x1030 0x2000000) 0x1038 ty"

definition low_state_with :: "u32 \<Rightarrow> 'a \<Rightarrow> 'a kmemlow_scheme" where
  "low_state_with ty r = \<lparr>mem = low_boot ty, io = [], kinit_errno = 0, cur_x = 0, cur_y = 0, color_attribute = 15,
     boot_magic = MULTIBOOT2_MAGIC, mboot_ptr = 0x1000,
     api_struct = \<lparr>get_memory_size = Mboot2_get_memory_size, get_next_mmap_entry = Mboot2_get_next_mmap,
       relocate_multiboot = Mboot2_relocate_tags\<rparr>,
     mboot_current_entry = 0, mboot2_current_entry = 0, mbitmap_physical = 0x200000, total_blocks = 32,
     used_blocks = 0, bitmap_size = 1, kernel_end_physical = 0, \<dots> = r\<rparr>"

definition low_state :: kmemlow where
  "low_state = low_state_with 1 ()"

definition low_entry :: "u32 \<Rightarrow> mmap_data" where
  "low_entry ty = \<lparr>mbase = 0, mlength = 0x2000000, mtype = ty\<rparr>"

lemma low_loads:
  "load32 (low_boot ty) 0x1000 = 0x48" "load32 (low_boot ty) 0x1008 = 4" "load32 (low_boot ty) 0x100C = 16"
  "load32 (low_boot ty) 0x1010 = 0" "load32 (low_boot ty) 0x1014 = 0x8000"
  "load32 (low_boot ty) 0x1018 = 6" "load32 (low_boot ty) 0x101C = 40" "load32 (low_boot ty) 0x1020 = 24"
  "load32 (low_boot ty) 0x1028 = 0" "load32 (low_boot ty) 0x102C = 0" "load32 (low_boot ty) 0x1030 = 0x2000000"
  "load32 (low_boot ty) 0x1034 = 0" "load32 (low_boot ty) 0x1038 = ty" "load32 (low_boot ty) 0x1040 = 0"
  using load32_store32_same [of _ "0x1038" ty]
  by (simp_all add: low_boot_def load32_def store32_def)

text \<open>A bitmap of one word with the two lowest blocks used.\<close>

definition low_ready :: kmemlow where
  "low_ready = low_state\<lparr>mem := store32 (\<lambda>_. 0) 0x200000 3\<rparr>"

lemma low_ready_used: "kused low_ready = {0, 1}"
proof -
  have "k < 32 \<Longrightarrow> bit (3 :: u32) k \<longleftrightarrow> k = 0 \<or> k = 1" for k :: nat
    by (auto simp: bit_numeral_rec bit_1_iff numeral_3_eq_3 split: nat.splits)
  then show ?thesis
    by (auto simp: kused_def used_set_def block_used_def low_ready_def low_state_def low_state_with_def elem_def load32_store32_same)
qed

lemma low_ready_ok: "kmemlow_ok low_ready"
  unfolding kmemlow_ok_def low_ready_used by (simp add: low_ready_def low_state_def low_state_with_def)

lemma low_ready_scan: "scan_units (store32 (\<lambda>_. 0) 0x200000 3) 0x200000 0 1 = Some 2"
  by (simp add: scan_units.simps [of _ _ 0 1] scan_bits.simps BLOCKS_PER_UNIT_def FULL_BITMAP_UNIT_def unit_addr_def
      load32_store32_same)

lemma low_ready_alloc: "kmemlow_alloc low_ready = (0x2000, kmemlow_allocate 2 low_ready)"
  by (simp add: kmemlow_alloc_def kmemlow_first_free_def low_ready_def low_state_def low_state_with_def low_ready_scan
      BLOCKS_PER_UNIT_def PAGE_SIZE_def)

theorem kmemlow_alloc_first_fit_witness: "kused (snd (kmemlow_alloc low_ready)) = insert 2 {0, 1}"
proof -
  have "\<exists>k < 32 * (unat (total_blocks low_ready) div 32). k \<notin> kused low_ready"
    by (rule exI [of _ 2]) (simp add: low_ready_used, simp add: low_ready_def low_state_def low_state_with_def)
  from kmemlow_alloc_first_fit [OF low_ready_ok, unfolded if_P [OF this]]
  obtain f :: u32 where "unat f = (LEAST k. k \<notin> kused low_ready)"
    "kused (snd (kmemlow_alloc low_ready)) = insert (unat f) (kused low_ready)"
    by (elim exE conjE)
  moreover have "(LEAST k. k \<notin> kused low_ready) = 2"
    unfolding low_ready_used by (rule Least_equality) (auto simp: not_less_eq_eq)
  ultimately show ?thesis unfolding low_ready_used by simp
qed

theorem kmemlow_allocs_distinct_witness:
  "kused (snd (take_blocks kmemlow_alloc 1 low_ready)) = {0, 1, 2}"
  using kmemlow_allocs_distinct [OF low_ready_ok, of 1 "[0x2000]" "kmemlow_allocate 2 low_ready"]
  by (simp add: low_ready_alloc low_ready_used frame_def insert_commute)

theorem kmemlow_free_undoes_alloc_witness:
  "kused (kmemlow_free 0x2000 (kmemlow_allocate 2 low_ready)) = {0, 1} \<and> kmemlow_free 0x100000 low_ready = low_ready"
  using kmemlow_free_undoes_alloc [OF low_ready_ok low_ready_alloc, of "0x100000"]
  by (simp add: low_ready_used frame_def) (simp add: low_ready_def low_state_def low_state_with_def)

theorem free_region_overruns_witness:
  "\<not> block_used (mem (free_region 0 0x21000 low_ready)) 0x200000 32"
  using free_region_overruns [of low_ready 32 0 "0x21000"]
  by (simp add: low_ready_def low_state_def low_state_with_def frame_def)

end
