(* ===== verification/Kmeminit.thy ===== *)
theory Kmeminit
  imports Kmemlow
begin

text \<open>
  The initialisation of the early block allocator, \<open>kmemlow_init_allocator\<close> of init/init/memory/kmemlow.c, against the
  contract the allocator has with the boot loader's drivers behind api.c: the locale \<open>boot_source\<close> names what it
  calls (the memory size, the next entry of the memory map, the relocation) and what these promise. Its lemmas are proved once
  and interpreted for both drivers: the multiboot 2 driver, which moves its structure behind the kernel, and the multiboot 1
  driver, which leaves it where the boot loader put it.
\<close>

section \<open>The blocks of the memory map\<close>

text \<open>The blocks an entry of the memory map makes available, as the code computes them from the low
  32 bits of the base and of the length.\<close>

definition first_block :: "mmap_data \<Rightarrow> nat" where
  "first_block e = frame (ucast (mbase e))"

definition block_count :: "mmap_data \<Rightarrow> nat" where
  "block_count e = frame (ucast (mlength e))"

definition available :: "mmap_data list \<Rightarrow> nat \<Rightarrow> bool" where
  "available es k \<longleftrightarrow> (\<exists>e \<in> set es. mtype e = 1 \<and> first_block e \<le> k \<and> k < first_block e + block_count e)"

definition maps_inside :: "mmap_data list \<Rightarrow> nat \<Rightarrow> bool" where
  "maps_inside es n \<longleftrightarrow> (\<forall>e \<in> set es. mtype e = 1 \<longrightarrow> first_block e + block_count e \<le> n)"

lemma free_region_result:
  fixes s :: "'a kmemlow_scheme"
  assumes "n < 2 ^ 27" "mtype e = 1 \<longrightarrow> first_block e + block_count e \<le> 32 * n"
  defines "s' \<equiv> (if mtype e = 1 then free_region (ucast (mbase e)) (ucast (mlength e)) s else s)"
  shows "\<exists>m' u. s' = s\<lparr>mem := m', used_blocks := u\<rparr>
    \<and> same_outside (mbitmap_physical s) (4 * n) (mem s) m'
    \<and> (\<forall>k < 2 ^ 32. block_used m' (mbitmap_physical s) k \<longleftrightarrow> block_used (mem s) (mbitmap_physical s) k
         \<and> \<not> (mtype e = 1 \<and> first_block e \<le> k \<and> k < first_block e + block_count e))"
proof (cases "mtype e = 1")
  case False
  then show ?thesis by (intro exI [of _ "mem s"] exI [of _ "used_blocks s"]) (simp add: s'_def)
next
  case True
  then have "unat ((ucast (mbase e) :: u32) div PAGE_SIZE) + unat ((ucast (mlength e) :: u32) div PAGE_SIZE) \<le> 32 * n"
    using assms(2) by (simp add: first_block_def block_count_def frame_div)
  from free_loop_result [OF this assms(1), of s] show ?thesis
    using True by (simp add: s'_def free_region_def first_block_def block_count_def frame_div) blast
qed

lemma available_Cons:
  "available (e # es) k \<longleftrightarrow> (mtype e = 1 \<and> first_block e \<le> k \<and> k < first_block e + block_count e) \<or> available es k"
  by (auto simp: available_def)

lemma available_Nil [simp]: "\<not> available [] k"
  by (simp add: available_def)

lemma drop_Cons_nth:
  assumes "x # xs = drop i ys"
  shows "i < length ys" "x = ys ! i" "xs = drop (Suc i) ys"
proof -
  show i: "i < length ys" using assms by (metis drop_all list.distinct(1) not_less)
  show "x = ys ! i" "xs = drop (Suc i) ys" using assms Cons_nth_drop_Suc [OF i] by (metis list.inject)+
qed

section \<open>Sizes and addresses\<close>

lemma unat_diff_u32: "unat a \<le> unat x \<Longrightarrow> unat (x - a) = unat x - unat a" for a x :: u32
  by (intro unat_sub) (simp add: word_le_nat_alt)

lemma not_in_region_above: "unat a + n \<le> unat x \<Longrightarrow> \<not> in_region a n x"
  by (simp add: in_region_def unat_diff_u32)

text \<open>The end of the kernel is the next page boundary behind the bitmap.\<close>

lemma kend_phys_bounds:
  assumes "unat start + 4 * unat units + 4096 < 2 ^ 32"
  shows "unat start + 4 * unat units < unat (kend_phys start units)"
    and "unat (kend_phys start units) \<le> unat start + 4 * unat units + 4096"
    and "unat (kend_phys start units) mod 4096 = 0"
proof -
  let ?x = "start + units * 4"
  have "start + units * 4 = start + of_nat (4 * unat units)" by simp
  moreover have "unat (start + of_nat (4 * unat units)) = unat start + 4 * unat units"
    using assms by (intro unat_add_small) simp
  ultimately have x: "unat ?x = unat start + 4 * unat units" by metis
  have d: "unat (?x AND NOT 0xfff) = 4096 * (unat ?x div 4096)" by (rule unat_page_down)
  have "unat ((?x AND NOT 0xfff) + of_nat 4096) = unat (?x AND NOT 0xfff) + 4096"
    using assms x d div_bounds [of 4096 "unat ?x"] by (intro unat_add_small) linarith
  then have k: "unat (kend_phys start units) = 4096 * (unat ?x div 4096) + 4096"
    using d by (simp add: kend_phys_def PAGE_SIZE_def)
  show "unat start + 4 * unat units < unat (kend_phys start units)"
    and "unat (kend_phys start units) \<le> unat start + 4 * unat units + 4096"
    and "unat (kend_phys start units) mod 4096 = 0"
    unfolding k x using div_bounds [of 4096 "unat start + 4 * unat units"] by (linarith, linarith, simp)
qed

lemma lettermap_no_backspace: "x \<in> set ki_lettermap \<Longrightarrow> scast x \<noteq> (8 :: i32)"
  by (auto simp: ki_lettermap_def ascii_def)

lemma number_text_printable: "2 \<le> unat base \<Longrightarrow> unat base \<le> 16 \<Longrightarrow> 8 \<notin> set (number_text base n)"
  using set_number_bytes [of "unat base" ki_lettermap "unat n"] lettermap_no_backspace
  by (auto simp: number_text_def)

lemma memsz_text_prints:
  assumes "term_ok s"
  obtains s' where "ki_printf memsz_text [VaWord n] s = Some s'" "prints s s'"
proof -
  define cs where "cs = the (ki_format (ascii memsz_text) [VaWord n])"
  have f: "ki_format (ascii memsz_text) [VaWord n] = Some cs"
    by (simp add: cs_def memsz_text_def ki_format_eval)
  have "8 \<notin> set (number_text 10 n)" by (rule number_text_printable) simp_all
  then have "8 \<notin> set cs"
    by (simp add: cs_def memsz_text_def ki_format_eval)
  then show thesis using ki_printf_prints [OF assms f] that by blast
qed

text \<open>The sizes the initialisation computes from the memory size.\<close>

definition blocks_of_memsz :: "u32 \<Rightarrow> u32" where
  "blocks_of_memsz kb = (kb * KILOBYTES) div PAGE_SIZE"

definition units_of_blocks :: "u32 \<Rightarrow> u32" where
  "units_of_blocks n = (if n mod BLOCKS_PER_UNIT > 0 then n div BLOCKS_PER_UNIT + 1 else n div BLOCKS_PER_UNIT)"

lemma unat_blocks_of_memsz: "unat (blocks_of_memsz kb) < 2 ^ 20"
proof -
  have "unat (kb * KILOBYTES) < 4096 * 2 ^ 20" using unat_u32_bound [of "kb * KILOBYTES"] by simp
  then show ?thesis
    unfolding blocks_of_memsz_def frame_div frame_def by (simp add: less_mult_imp_div_less)
qed

lemma ceil_32: "k = 32 * q + r \<Longrightarrow> r < 32 \<Longrightarrow> (k + 31) div 32 = (if r = 0 then q else q + 1)" for k q r :: nat
  by (auto simp: div_eq_iff_32)

lemma unat_units_of_blocks:
  "unat (units_of_blocks n) = (unat n + 31) div 32"
proof -
  have m: "n mod BLOCKS_PER_UNIT > 0 \<longleftrightarrow> unat n mod 32 > 0"
    by (metis unat_div_mod_32(2) unat_gt_0 word_gt_0)
  have "unat n div 32 < 2 ^ 27" using unat_u32_bound [of n] by (simp add: div_less_iff_less_mult)
  then have a: "unat (n div BLOCKS_PER_UNIT + 1) = unat n div 32 + 1"
    using unat_add_small [of "n div BLOCKS_PER_UNIT" 1] by simp
  have "(unat n + 31) div 32 = (if unat n mod 32 = 0 then unat n div 32 else unat n div 32 + 1)"
    by (rule ceil_32) simp_all
  then show ?thesis by (simp add: units_of_blocks_def m a)
qed

lemma reserve_region_result:
  assumes "frame base + frame len \<le> 32 * n" "n < 2 ^ 27"
  shows "\<exists>m'. reserve_region base len s = s\<lparr>mem := m', used_blocks := used_blocks s + len div PAGE_SIZE\<rparr>
    \<and> same_outside (mbitmap_physical s) (4 * n) (mem s) m'
    \<and> (\<forall>k < 2 ^ 32. block_used m' (mbitmap_physical s) k \<longleftrightarrow>
          block_used (mem s) (mbitmap_physical s) k \<or> (frame base \<le> k \<and> k < frame base + frame len))"
  using reserve_loop_result [of "base div PAGE_SIZE" "len div PAGE_SIZE" n s] assms
  by (simp add: reserve_region_def frame_div)

text \<open>The two reservations at the end: the first megabyte and the kernel.\<close>

lemma reserve_kernel:
  assumes "unat kend mod 4096 = 0" "0x100000 \<le> unat kend" "frame kend \<le> 32 * n" "n < 2 ^ 27"
  obtains m u where "reserve_region 0x100000 (kend - 0x100000) (reserve_region 0 0x100000 s) = s\<lparr>mem := m, used_blocks := u\<rparr>"
    "same_outside (mbitmap_physical s) (4 * n) (mem s) m"
    "\<And>k. k < 2 ^ 32 \<Longrightarrow> block_used m (mbitmap_physical s) k \<longleftrightarrow> block_used (mem s) (mbitmap_physical s) k \<or> k < frame kend"
proof -
  let ?b = "mbitmap_physical s"
  have f0: "frame 0x100000 = 256" "frame 0 = 0" by (simp_all add: frame_def)
  have kk: "4096 * frame kend = unat kend" using assms(1) by (auto simp: frame_def)
  have fk: "256 + frame (kend - 0x100000) = frame kend"
  proof -
    have "unat (kend - 0x100000) = unat kend - 0x100000" using assms(2) unat_diff_u32 [of "0x100000" kend] by simp
    then have "frame (kend - 0x100000) = (4096 * frame kend - 4096 * 256) div 4096"
      unfolding frame_def [of "kend - 0x100000"] kk by simp
    also have "\<dots> = frame kend - 256" by (simp flip: diff_mult_distrib2)
    finally show ?thesis using kk assms(2) by linarith
  qed
  obtain m1 where m1: "reserve_region 0 0x100000 s = s\<lparr>mem := m1, used_blocks := used_blocks s + 0x100000 div PAGE_SIZE\<rparr>"
      "same_outside ?b (4 * n) (mem s) m1" "\<And>k. k < 2 ^ 32 \<Longrightarrow> block_used m1 ?b k \<longleftrightarrow> block_used (mem s) ?b k \<or> k < 256"
    using reserve_region_result [of 0 "0x100000" n s] assms(3,4) fk f0 by auto
  define s1 where "s1 = s\<lparr>mem := m1, used_blocks := used_blocks s + 0x100000 div PAGE_SIZE\<rparr>"
  obtain m where m: "reserve_region 0x100000 (kend - 0x100000) s1
        = s1\<lparr>mem := m, used_blocks := used_blocks s1 + (kend - 0x100000) div PAGE_SIZE\<rparr>"
      "same_outside ?b (4 * n) m1 m" "\<And>k. k < 2 ^ 32 \<Longrightarrow> block_used m ?b k \<longleftrightarrow> block_used m1 ?b k \<or> (256 \<le> k \<and> k < frame kend)"
    using reserve_region_result [of "0x100000" "kend - 0x100000" n s1] assms(3,4) fk f0 by (auto simp: s1_def)
  show thesis
  proof (rule that)
    show "reserve_region 0x100000 (kend - 0x100000) (reserve_region 0 0x100000 s)
        = s\<lparr>mem := m, used_blocks := used_blocks s1 + (kend - 0x100000) div PAGE_SIZE\<rparr>"
      using m1(1) m(1) by (simp add: s1_def)
    show "same_outside ?b (4 * n) (mem s) m" using m1(2) m(2) by (rule same_outside_trans)
    show "block_used m ?b k \<longleftrightarrow> block_used (mem s) ?b k \<or> k < frame kend" if "k < 2 ^ 32" for k
      using m1(3) [OF that] m(3) [OF that] fk by auto
  qed
qed

text \<open>The kernel, its bitmap and the map fit together: the bitmap lies above the first megabyte, no
  available region ends behind the bitmap's last word, and the kernel ends inside the counted memory.\<close>

definition kernel_fits :: "u32 \<Rightarrow> u32 \<Rightarrow> mmap_data list \<Rightarrow> bool" where
  "kernel_fits start kb es \<longleftrightarrow> (let units = units_of_blocks (blocks_of_memsz kb) in
     0x100000 \<le> unat start \<and> unat start + 4 * unat units + 4096 < 2 ^ 32
     \<and> maps_inside es (32 * unat units) \<and> frame (kend_phys start units) \<le> unat (blocks_of_memsz kb))"

text \<open>What the initialisation leaves: exactly the available blocks above the end of the kernel are free,
  and memory behind the kernel is as before, except on the addresses \<open>M\<close>.\<close>

definition init_done :: "u32 \<Rightarrow> u32 \<Rightarrow> mmap_data list \<Rightarrow> u32 set \<Rightarrow> 'a kmemlow_scheme \<Rightarrow> 'a kmemlow_scheme \<Rightarrow> bool" where
  "init_done start kb es M s s' \<longleftrightarrow>
     (let blocks = blocks_of_memsz kb; units = units_of_blocks blocks; kend = kend_phys start units
      in mbitmap_physical s' = start \<and> total_blocks s' = blocks \<and> bitmap_size s' = units
       \<and> kernel_end_physical s' = kend \<and> term_ok s'
       \<and> (\<forall>k < 32 * unat units. block_used (mem s') start k \<longleftrightarrow> k < frame kend \<or> \<not> available es k)
       \<and> (\<forall>x. unat kend \<le> unat x \<longrightarrow> x \<notin> M \<longrightarrow> mem s' x = mem s x))"

section \<open>The contract with the boot loader's drivers\<close>

definition same_source :: "'a multiboot_scheme \<Rightarrow> 'a multiboot_scheme \<Rightarrow> bool" where
  "same_source s s' \<longleftrightarrow> mboot_ptr s' = mboot_ptr s \<and> api_struct s' = api_struct s
     \<and> mboot_current_entry s' = mboot_current_entry s \<and> mboot2_current_entry s' = mboot2_current_entry s"

text \<open>The driver can start: what it reads is not on the screen, and there is room for it.\<close>

definition loader_ready :: "(u32 \<Rightarrow> mmap_data list \<Rightarrow> 'a kmemlow_scheme \<Rightarrow> bool) \<Rightarrow> ('a kmemlow_scheme \<Rightarrow> u32 set) \<Rightarrow>
    (u32 \<Rightarrow> u32 \<Rightarrow> 'a kmemlow_scheme \<Rightarrow> bool) \<Rightarrow> u32 \<Rightarrow> u32 \<Rightarrow> mmap_data list \<Rightarrow> 'a kmemlow_scheme \<Rightarrow> bool" where
  "loader_ready view footprint room start kb es s \<longleftrightarrow> view kb es s \<and> term_ok s \<and> (\<forall>x \<in> footprint s. outside_cells 0 2000 x)
     \<and> kernel_fits start kb es \<and> room start (kend_phys start (units_of_blocks (blocks_of_memsz kb))) s"

text \<open>\<open>view kb es s\<close>: the driver reports \<open>kb\<close> kilobytes and has still to return the entries \<open>es\<close>;
  \<open>footprint\<close>: the addresses it reads; \<open>room start kend\<close>: it can stay, or be moved, outside of the memory from
  \<open>start\<close> to \<open>kend\<close>; \<open>moved kend\<close>: the addresses the relocation writes.\<close>

locale boot_source =
  fixes view :: "u32 \<Rightarrow> mmap_data list \<Rightarrow> 'a kmemlow_scheme \<Rightarrow> bool"
    and footprint :: "'a kmemlow_scheme \<Rightarrow> u32 set"
    and room :: "u32 \<Rightarrow> u32 \<Rightarrow> 'a kmemlow_scheme \<Rightarrow> bool"
    and moved :: "u32 \<Rightarrow> 'a kmemlow_scheme \<Rightarrow> u32 set"
  assumes memsz: "view kb es s \<Longrightarrow> multiboot_get_memsz s = Some (kb, s)"
    and next_entry: "view kb (e # es) s \<Longrightarrow> \<exists>i j.
        multiboot_get_mmap_next buf s = Some (0, e, s\<lparr>mboot_current_entry := i, mboot2_current_entry := j\<rparr>)
        \<and> view kb es (s\<lparr>mboot_current_entry := i, mboot2_current_entry := j\<rparr>)
        \<and> footprint (s\<lparr>mboot_current_entry := i, mboot2_current_entry := j\<rparr>) = footprint s"
    and next_end: "view kb [] s \<Longrightarrow> multiboot_get_mmap_next buf s = Some (-1, buf, s)"
    and kept: "view kb es s \<Longrightarrow> same_source s s' \<Longrightarrow> (\<And>x. x \<in> footprint s \<Longrightarrow> mem s' x = mem s x) \<Longrightarrow>
        view kb es s' \<and> footprint s' = footprint s \<and> room start kend s' = room start kend s \<and> moved kend s' = moved kend s"
    and relocated: "view kb es s \<Longrightarrow> room start kend s \<Longrightarrow> \<exists>m q.
        multiboot_relocate kend s = Some (s\<lparr>mem := m, mboot_ptr := q\<rparr>) \<and> view kb es (s\<lparr>mem := m, mboot_ptr := q\<rparr>)
        \<and> (\<forall>x. x \<notin> moved kend s \<longrightarrow> m x = mem s x)
        \<and> (\<forall>x \<in> footprint (s\<lparr>mem := m, mboot_ptr := q\<rparr>). unat x < unat start \<or> unat kend \<le> unat x)"
begin

lemma ready_kept:
  assumes "loader_ready view footprint room start kb es s" "same_source s s'" "term_ok s'"
    and "same_outside_cells 0 2000 (mem s) (mem s')"
  shows "loader_ready view footprint room start kb es s'" "moved kend s' = moved kend s"
proof -
  have v: "view kb es s" "\<forall>x \<in> footprint s. outside_cells 0 2000 x" using assms(1) by (simp_all add: loader_ready_def)
  then have "x \<in> footprint s \<Longrightarrow> mem s' x = mem s x" for x using assms(4) by (simp add: same_outside_cells_def)
  note k = kept [OF v(1) assms(2) this]
  show "loader_ready view footprint room start kb es s'" "moved kend s' = moved kend s"
    using assms(1,3) k by (simp_all add: loader_ready_def)
qed

text \<open>The loop over the memory map: what the driver reads must not overlap the bitmap, which changes meanwhile.\<close>

lemma mmap_loop_view:
  assumes "view kb es s" "\<And>x. x \<in> footprint s \<Longrightarrow> \<not> in_region (mbitmap_physical s) (4 * n) x"
    and "maps_inside es (32 * n)" "n < 2 ^ 27"
  shows "\<exists>m' u i j. mmap_loop buf s
      = Some (s\<lparr>mem := m', used_blocks := u, mboot_current_entry := i, mboot2_current_entry := j\<rparr>)
    \<and> same_outside (mbitmap_physical s) (4 * n) (mem s) m'
    \<and> (\<forall>k < 2 ^ 32. block_used m' (mbitmap_physical s) k \<longleftrightarrow> block_used (mem s) (mbitmap_physical s) k \<and> \<not> available es k)"
  using assms(1-3)
proof (induction es arbitrary: s buf)
  case Nil
  then have "mmap_loop buf s = Some s" by (subst mmap_loop.simps) (simp add: next_end)
  then show ?case
    by (intro exI [of _ "mem s"] exI [of _ "used_blocks s"] exI [of _ "mboot_current_entry s"] exI [of _ "mboot2_current_entry s"]) simp
next
  case (Cons e es)
  obtain i j where n: "multiboot_get_mmap_next buf s = Some (0, e, s\<lparr>mboot_current_entry := i, mboot2_current_entry := j\<rparr>)"
      "view kb es (s\<lparr>mboot_current_entry := i, mboot2_current_entry := j\<rparr>)"
      "footprint (s\<lparr>mboot_current_entry := i, mboot2_current_entry := j\<rparr>) = footprint s"
    using next_entry [OF Cons.prems(1)] by blast
  define s1 where "s1 = s\<lparr>mboot_current_entry := i, mboot2_current_entry := j\<rparr>"
  define s2 where "s2 = (if mtype e = 1 then free_region (ucast (mbase e)) (ucast (mlength e)) s1 else s1)"
  have fits: "mtype e = 1 \<longrightarrow> first_block e + block_count e \<le> 32 * n" "maps_inside es (32 * n)"
    using Cons.prems(3) by (simp_all add: maps_inside_def)
  obtain m2 u2 where s2: "s2 = s1\<lparr>mem := m2, used_blocks := u2\<rparr>"
    "same_outside (mbitmap_physical s) (4 * n) (mem s) m2"
    "\<And>k. k < 2 ^ 32 \<Longrightarrow> block_used m2 (mbitmap_physical s) k \<longleftrightarrow> block_used (mem s) (mbitmap_physical s) k
         \<and> \<not> (mtype e = 1 \<and> first_block e \<le> k \<and> k < first_block e + block_count e)"
    using free_region_result [OF assms(4) fits(1), of s1] by (auto simp: s2_def [symmetric] s1_def)
  have e: "mmap_loop buf s = mmap_loop e s2"
    using n(1) by (subst mmap_loop.simps) (simp add: s2_def s1_def)
  have "mem s2 x = mem s1 x" if "x \<in> footprint s1" for x
    using s2(1,2) Cons.prems(2) that n(3) by (simp add: same_outside_def s1_def)
  moreover have "same_source s1 s2" by (simp add: same_source_def s2(1))
  ultimately have v: "view kb es s2" "footprint s2 = footprint s"
    using kept [OF n(2) [folded s1_def]] n(3) by (simp_all add: s1_def)
  have bm: "mbitmap_physical s2 = mbitmap_physical s" by (simp add: s2(1) s1_def)
  from Cons.IH [OF v(1) _ fits(2), of e, unfolded v(2) bm] Cons.prems(2)
  obtain m' u i' j' where IH: "mmap_loop e s2 = Some (s2\<lparr>mem := m', used_blocks := u, mboot_current_entry := i', mboot2_current_entry := j'\<rparr>)"
    "same_outside (mbitmap_physical s) (4 * n) m2 m'"
    "\<And>k. k < 2 ^ 32 \<Longrightarrow> block_used m' (mbitmap_physical s) k \<longleftrightarrow> block_used m2 (mbitmap_physical s) k \<and> \<not> available es k"
    by (auto simp: s2(1) s1_def)
  have "same_outside (mbitmap_physical s) (4 * n) (mem s) m'"
    using s2(2) IH(2) by (rule same_outside_trans)
  then show ?case
    using IH(1,3) s2(3) e
    by (intro exI [of _ m'] exI [of _ u] exI [of _ i'] exI [of _ j']) (auto simp: s2(1) s1_def available_Cons)
qed

text \<open>The marking: all blocks are used, then those of the map are freed, then the kernel is reserved.\<close>

lemma mark_result:
  assumes "view kb es s" "mbitmap_physical s = start" "\<And>x. x \<in> footprint s \<Longrightarrow> unat x < unat start \<or> unat kend \<le> unat x"
    and "kernel_fits start kb es" and units_def: "units = units_of_blocks (blocks_of_memsz kb)" and kend_def: "kend = kend_phys start units"
  obtains s6 m u i j where "mmap_loop buf (s\<lparr>mem := fill_units start 0 units (mem s)\<rparr>) = Some s6"
    "reserve_region 0x100000 (kend - 0x100000) (reserve_region 0 0x100000 s6)
       = s\<lparr>mem := m, used_blocks := u, mboot_current_entry := i, mboot2_current_entry := j\<rparr>"
    "same_outside start (4 * unat units) (mem s) m"
    "\<And>k. k < 32 * unat units \<Longrightarrow> block_used m start k \<longleftrightarrow> k < frame kend \<or> \<not> available es k"
proof -
  define blocks where "blocks = blocks_of_memsz kb"
  have L: "0x100000 \<le> unat start" "unat start + 4 * unat units + 4096 < 2 ^ 32" "maps_inside es (32 * unat units)" "frame kend \<le> unat blocks"
    using assms(4) by (simp_all add: kernel_fits_def Let_def blocks_def units_def kend_def)
  have ub: "unat blocks < 2 ^ 20" "unat units = (unat blocks + 31) div 32"
    unfolding blocks_def units_def by (rule unat_blocks_of_memsz, rule unat_units_of_blocks)
  then have u27: "unat units < 2 ^ 27" by simp
  have "unat blocks \<le> 32 * ((unat blocks + 31) div 32)" using div_bounds [of 32 "unat blocks + 31"] by linarith
  then have fku: "frame kend \<le> 32 * unat units" using L(4) ub(2) by linarith
  note kend = kend_phys_bounds [OF L(2), folded kend_def]
  define s5 where "s5 = s\<lparr>mem := fill_units start 0 units (mem s)\<rparr>"
  have m5: "same_outside start (4 * unat units) (mem s) (mem s5)" "\<And>k. k < 32 * unat units \<Longrightarrow> block_used (mem s5) start k"
    using fill_units_result [of 0 units start "mem s"] u27 by (auto simp: s5_def)
  have apart: "\<not> in_region start (4 * unat units) x" if "x \<in> footprint s" for x
    using assms(3) [OF that] region_range [of start "4 * unat units" x] kend(1) L(2) by auto
  have same: "mem s5 x = mem s x" if "x \<in> footprint s" for x
    using m5(1) apart [OF that] by (simp add: same_outside_def)
  have "same_source s s5" by (simp add: same_source_def s5_def)
  note v5 = kept [OF assms(1) this same]
  obtain m6 u6 i j where s6: "mmap_loop buf s5 = Some (s5\<lparr>mem := m6, used_blocks := u6, mboot_current_entry := i, mboot2_current_entry := j\<rparr>)"
    and m6: "\<And>k. k < 2 ^ 32 \<Longrightarrow> block_used m6 start k \<longleftrightarrow> block_used (mem s5) start k \<and> \<not> available es k"
      "same_outside start (4 * unat units) (mem s5) m6"
    using mmap_loop_view [of kb es s5 "unat units" buf] v5 apart L(3) u27 assms(2) by (auto simp: s5_def)
  define s6 where "s6 = s5\<lparr>mem := m6, used_blocks := u6, mboot_current_entry := i, mboot2_current_entry := j\<rparr>"
  have bm6: "mbitmap_physical s6 = start" "mem s6 = m6" by (simp_all add: s6_def s5_def assms(2))
  have above: "0x100000 \<le> unat kend" using L(1) kend(1) by linarith
  obtain m8 u8 where s8: "reserve_region 0x100000 (kend - 0x100000) (reserve_region 0 0x100000 s6) = s6\<lparr>mem := m8, used_blocks := u8\<rparr>"
    and m8: "same_outside start (4 * unat units) m6 m8"
      "\<And>k. k < 2 ^ 32 \<Longrightarrow> block_used m8 start k \<longleftrightarrow> block_used m6 start k \<or> k < frame kend"
    by (rule reserve_kernel [of kend "unat units" s6, unfolded bm6, OF kend(3) above fku u27]) (rule that)
  show thesis
  proof (rule that [where m = m8 and u = u8 and i = i and j = j])
    show "mmap_loop buf (s\<lparr>mem := fill_units start 0 units (mem s)\<rparr>) = Some s6" using s6 by (simp add: s5_def s6_def)
    show "reserve_region 0x100000 (kend - 0x100000) (reserve_region 0 0x100000 s6)
       = s\<lparr>mem := m8, used_blocks := u8, mboot_current_entry := i, mboot2_current_entry := j\<rparr>" unfolding s8 by (simp add: s6_def s5_def)
    show "same_outside start (4 * unat units) (mem s) m8" using m5(1) m6(2) m8(1) by (blast intro: same_outside_trans)
    show "block_used m8 start k \<longleftrightarrow> k < frame kend \<or> \<not> available es k" if "k < 32 * unat units" for k
      using m8(2) m6(1) m5(2) that u27 by auto
  qed
qed

lemma init_result:
  assumes "loader_ready view footprint room (mbitmap - 0xc0000000) kb es s"
  shows "\<exists>s'. kmemlow_init_allocator mbitmap buf s = Some (0, s')
    \<and> init_done (mbitmap - 0xc0000000) kb es
        (moved (kend_phys (mbitmap - 0xc0000000) (units_of_blocks (blocks_of_memsz kb))) s) s s'"
proof -
  define start where "start = mbitmap - 0xc0000000"
  define blocks where "blocks = blocks_of_memsz kb"
  define units where "units = units_of_blocks blocks"
  define kend where "kend = kend_phys start units"
  have V: "view kb es s" "term_ok s" "\<And>x. x \<in> footprint s \<Longrightarrow> outside_cells 0 2000 x" and R: "room start kend s"
    and F: "kernel_fits start kb es" "0x100000 \<le> unat start" "unat start + 4 * unat units + 4096 < 2 ^ 32"
    using assms by (simp_all add: loader_ready_def kernel_fits_def Let_def start_def blocks_def units_def kend_def)
  note kend = kend_phys_bounds [OF F(3), folded kend_def]
  define s1 where "s1 = s\<lparr>mbitmap_physical := start\<rparr>"
  have v1: "view kb es s1" "footprint s1 = footprint s" "room start kend s1" "moved kend s1 = moved kend s"
    using kept [OF V(1), of s1 start kend] R by (simp_all add: s1_def same_source_def)
  obtain s2 where s2: "ki_printf memsz_text [VaWord kb] s1 = Some s2" "prints s1 s2"
    using memsz_text_prints [of s1 kb] V(2) by (auto simp: s1_def term_ok_def)
  then obtain m2 l x y where s2e: "s2 = s1\<lparr>mem := m2, io := io s1 @ l, cur_x := x, cur_y := y\<rparr>"
    and m2: "same_outside_cells 0 2000 (mem s) m2" by (auto simp: prints_def s1_def)
  define s3 where "s3 = s2\<lparr>total_blocks := blocks, used_blocks := blocks, bitmap_size := units, kernel_end_physical := kend\<rparr>"
  have s3: "mem s3 = m2" "mbitmap_physical s3 = start" "total_blocks s3 = blocks" "bitmap_size s3 = units" "kernel_end_physical s3 = kend"
    by (simp_all add: s3_def s2e s1_def)
  have same3: "mem s3 x = mem s1 x" if "x \<in> footprint s1" for x
    using m2 V(3) that by (simp add: s3(1) v1(2) same_outside_cells_def) (simp add: s1_def)
  have "same_source s1 s3" by (simp add: same_source_def s3_def s2e)
  note v3 = kept [OF v1(1) this same3, of start kend]
  obtain m4 q where m4: "multiboot_relocate kend s3 = Some (s3\<lparr>mem := m4, mboot_ptr := q\<rparr>)" "view kb es (s3\<lparr>mem := m4, mboot_ptr := q\<rparr>)"
    "\<And>x. x \<notin> moved kend s \<Longrightarrow> m4 x = m2 x"
    "\<And>x. x \<in> footprint (s3\<lparr>mem := m4, mboot_ptr := q\<rparr>) \<Longrightarrow> unat x < unat start \<or> unat kend \<le> unat x"
    using relocated [of kb es s3 start kend] v3 v1 by (auto simp: s3(1))
  define s4 where "s4 = s3\<lparr>mem := m4, mboot_ptr := q\<rparr>"
  have s4: "mbitmap_physical s4 = start" "mem s4 = m4" by (simp_all add: s4_def s3(2))
  obtain s6 m u i j where s6: "mmap_loop buf (s4\<lparr>mem := fill_units start 0 units m4\<rparr>) = Some s6"
      "reserve_region 0x100000 (kend - 0x100000) (reserve_region 0 0x100000 s6)
         = s4\<lparr>mem := m, used_blocks := u, mboot_current_entry := i, mboot2_current_entry := j\<rparr>"
    and m: "same_outside start (4 * unat units) m4 m"
      "\<And>k. k < 32 * unat units \<Longrightarrow> block_used m start k \<longleftrightarrow> k < frame kend \<or> \<not> available es k"
    by (rule mark_result [where buf = buf, OF m4(2) [folded s4_def] s4(1) _ F(1) units_def [unfolded blocks_def] kend_def, unfolded s4(2)])
      (erule m4(4) [folded s4_def], rule that)
  have run: "kmemlow_init_allocator mbitmap buf s
      = Some (0, s4\<lparr>mem := m, used_blocks := u, mboot_current_entry := i, mboot2_current_entry := j\<rparr>)"
    using memsz [OF v1(1)] s2(1) m4(1) s6
    unfolding kmemlow_init_allocator_def Let_def start_def [symmetric] s1_def [symmetric]
      blocks_of_memsz_def [symmetric] units_of_blocks_def [symmetric]
    by (simp add: blocks_def [symmetric] units_def [symmetric] kend_def [symmetric] s3_def [symmetric] s4_def)
  have "m x = mem s x" if "unat kend \<le> unat x" "x \<notin> moved kend s" for x
  proof -
    have "\<not> in_region start (4 * unat units) x" using that(1) kend(1) by (intro not_in_region_above) simp
    then have "m x = m2 x" using m(1) m4(3) that(2) by (simp add: same_outside_def)
    moreover have "0x100000 \<le> unat x" using that(1) kend(1) F(2) by linarith
    ultimately show ?thesis using m2 off_screen [of x] by (simp add: same_outside_cells_def)
  qed
  moreover have "term_ok s3" using prints_ok [OF s2(2)] by (simp add: s3_def term_ok_def)
  ultimately show ?thesis using run m(2)
    by (simp add: init_done_def Let_def s4_def s3 term_ok_def start_def [symmetric] blocks_def [symmetric] units_def [symmetric] kend_def [symmetric])
qed

end

section \<open>The multiboot 2 driver\<close>

definition view2 :: "u32 \<Rightarrow> mmap_data list \<Rightarrow> 'a multiboot_scheme \<Rightarrow> bool" where
  "view2 kb es s \<longleftrightarrow> api_struct s = full_api \<and> (\<exists>all. boot_map (mem s) (mboot_ptr s) kb all
     \<and> unat (mboot2_current_entry s) \<le> length all \<and> es = drop (unat (mboot2_current_entry s)) all)"

definition footprint2 :: "'a multiboot_scheme \<Rightarrow> u32 set" where
  "footprint2 s = {x. in_region (mboot_ptr s) (unat (load32 (mem s) (mboot_ptr s))) x}"

definition room2 :: "u32 \<Rightarrow> u32 \<Rightarrow> 'a multiboot_scheme \<Rightarrow> bool" where
  "room2 start kend s \<longleftrightarrow> (let n = load32 (mem s) (mboot_ptr s) in
     copy_ok (kend + n) (mboot_ptr s) (unat n) \<and> unat kend + 2 * unat n < 2 ^ 32)"

definition moved2 :: "u32 \<Rightarrow> 'a multiboot_scheme \<Rightarrow> u32 set" where
  "moved2 kend s = (let n = load32 (mem s) (mboot_ptr s) in {x. in_region (kend + n) (unat n) x})"

lemma boot_map_length: "boot_map m p kb es \<Longrightarrow> 8 \<le> unat (load32 m p)"
  by (auto simp: boot_map_def boot_info_def elim: tags_at.elims)

lemma in_region_word: "in_region a (unat n) x \<longleftrightarrow> (\<exists>i < unat n. x = a + of_nat i)" for n :: u32
proof (rule in_region_iff)
  show "unat n \<le> 2 ^ 32" using unat_u32_bound [of n] by (simp del: unat_u32_bound)
qed

lemma footprint2_bytes: "(\<And>x. x \<in> footprint2 s \<Longrightarrow> P x) \<Longrightarrow> i < unat (load32 (mem s) (mboot_ptr s)) \<Longrightarrow> P (mboot_ptr s + of_nat i)"
  using in_region_word [of "mboot_ptr s" "load32 (mem s) (mboot_ptr s)"] by (auto simp: footprint2_def)

lemma relocate_result:
  assumes "boot_map (mem s) (mboot_ptr s) kb es" "relocate_multiboot (api_struct s) = Mboot2_relocate_tags"
  defines "n \<equiv> load32 (mem s) (mboot_ptr s)"
  assumes "copy_ok (kend + n) (mboot_ptr s) (unat n)" "kend + n \<noteq> 0" "unat (kend + n) + unat n < 2 ^ 32"
  shows "\<exists>m'. multiboot_relocate kend s = Some (s\<lparr>mem := m', mboot_ptr := kend + n\<rparr>)
    \<and> boot_map m' (kend + n) kb es \<and> load32 m' (kend + n) = n \<and> same_outside (kend + n) (unat n) (mem s) m'"
proof -
  obtain ts where b: "boot_info (mem s) (mboot_ptr s) ts" using assms(1) by (auto simp: boot_map_def)
  obtain m' where m': "mboot2_relocate_tags kend s = (0, s\<lparr>mem := m', mboot_ptr := kend + n\<rparr>)"
    "\<forall>i < unat n. m' (kend + n + of_nat i) = mem s (mboot_ptr s + of_nat i)"
    "same_outside (kend + n) (unat n) (mem s) m'"
    using mboot2_relocate_copies [OF b, of kend] assms(4-6) unfolding n_def by blast
  show ?thesis
    using m' boot_map_moved [OF m'(2) [unfolded n_def] assms(1) assms(5,6) [unfolded n_def]]
      boot_info_moved(2) [OF m'(2) [unfolded n_def] b assms(5,6) [unfolded n_def]] assms(2)
    by (auto simp: multiboot_relocate_def n_def)
qed

interpretation mb2: boot_source view2 footprint2 room2 moved2
proof
  fix s s' :: "'a kmemlow_scheme" and kb es e buf start kend
  {
    assume "view2 kb es s"
    then show "multiboot_get_memsz s = Some (kb, s)" using boot_map_memsz by (fastforce simp: view2_def full_api_def)
  next
    assume "view2 kb (e # es) s"
    then obtain all where v: "api_struct s = full_api" "boot_map (mem s) (mboot_ptr s) kb all" "unat (mboot2_current_entry s) \<le> length all"
        "e # es = drop (unat (mboot2_current_entry s)) all"
      by (auto simp: view2_def)
    let ?c = "mboot2_current_entry s"
    note c = drop_Cons_nth [OF v(4)]
    have "unat (?c + 1) = Suc (unat ?c)"
      using c(1) boot_map_size [OF v(2)] unat_add_small [of ?c 1] by simp
    moreover have "s\<lparr>mboot2_current_entry := ?c + 1\<rparr> = s\<lparr>mboot_current_entry := mboot_current_entry s, mboot2_current_entry := ?c + 1\<rparr>" by simp
    ultimately show "\<exists>i j. multiboot_get_mmap_next buf s = Some (0, e, s\<lparr>mboot_current_entry := i, mboot2_current_entry := j\<rparr>)
        \<and> view2 kb es (s\<lparr>mboot_current_entry := i, mboot2_current_entry := j\<rparr>)
        \<and> footprint2 (s\<lparr>mboot_current_entry := i, mboot2_current_entry := j\<rparr>) = footprint2 s"
      using boot_map_next [OF v(2), of buf] v(1,2) c
      by (intro exI [of _ "mboot_current_entry s"] exI [of _ "?c + 1"]) (auto simp: full_api_def view2_def footprint2_def)
  next
    assume "view2 kb [] s"
    then show "multiboot_get_mmap_next buf s = Some (-1, buf, s)"
      using boot_map_next [of s kb _ buf] by (fastforce simp: view2_def full_api_def)
  next
    assume v: "view2 kb es s" "same_source s s'" "\<And>x. x \<in> footprint2 s \<Longrightarrow> mem s' x = mem s x"
    obtain all where m: "boot_map (mem s) (mboot_ptr s) kb all" using v(1) by (auto simp: view2_def)
    obtain ts where i: "boot_info (mem s) (mboot_ptr s) ts" using m by (auto simp: boot_map_def)
    have same: "\<forall>i < unat (load32 (mem s) (mboot_ptr s)). mem s' (mboot_ptr s + of_nat i) = mem s (mboot_ptr s + of_nat i)"
      using footprint2_bytes [of s "\<lambda>x. mem s' x = mem s x"] v(3) by blast
    have q: "mboot_ptr s \<noteq> 0" "unat (mboot_ptr s) + unat (load32 (mem s) (mboot_ptr s)) < 2 ^ 32" using boot_map_size [OF m] by simp_all
    show "view2 kb es s' \<and> footprint2 s' = footprint2 s \<and> room2 start kend s' = room2 start kend s \<and> moved2 kend s' = moved2 kend s"
      using v(1,2) boot_map_moved [OF same _ q] boot_info_moved(2) [OF same i q]
      by (auto simp: view2_def same_source_def footprint2_def room2_def moved2_def)
  next
    assume v: "view2 kb es s" "room2 start kend s"
    define n where "n = load32 (mem s) (mboot_ptr s)"
    obtain all where m: "boot_map (mem s) (mboot_ptr s) kb all" "unat (mboot2_current_entry s) \<le> length all"
        "es = drop (unat (mboot2_current_entry s)) all" "api_struct s = full_api"
      using v(1) by (auto simp: view2_def)
    have r: "copy_ok (kend + n) (mboot_ptr s) (unat n)" "unat kend + 2 * unat n < 2 ^ 32" using v(2) by (simp_all add: room2_def Let_def n_def)
    have u: "unat (kend + n) = unat kend + unat n" using r(2) unat_add_small [of kend "unat n"] by simp
    have nz: "kend + n \<noteq> 0" using u boot_map_length [OF m(1)] by (auto simp: n_def)
    have b: "unat (kend + n) + unat n < 2 ^ 32" using u r(2) by simp
    obtain m' where m': "multiboot_relocate kend s = Some (s\<lparr>mem := m', mboot_ptr := kend + n\<rparr>)"
      "boot_map m' (kend + n) kb all" "load32 m' (kend + n) = n"
      "same_outside (kend + n) (unat n) (mem s) m'"
      using relocate_result [of s kb all kend] m(1,4) r(1) nz b unfolding n_def full_api_def by auto
    have "unat kend \<le> unat x" if "in_region (kend + n) (unat n) x" for x
      using that region_range [of "kend + n" "unat n" x] u b by simp
    then show "\<exists>m q. multiboot_relocate kend s = Some (s\<lparr>mem := m, mboot_ptr := q\<rparr>) \<and> view2 kb es (s\<lparr>mem := m, mboot_ptr := q\<rparr>)
        \<and> (\<forall>x. x \<notin> moved2 kend s \<longrightarrow> m x = mem s x)
        \<and> (\<forall>x \<in> footprint2 (s\<lparr>mem := m, mboot_ptr := q\<rparr>). unat x < unat start \<or> unat kend \<le> unat x)"
      using m' m by (intro exI [of _ m'] exI [of _ "kend + n"])
        (auto simp: view2_def moved2_def footprint2_def n_def [symmetric] same_outside_def Let_def)
  }
qed

text \<open>What the boot state must look like: the layout of the kernel, the bitmap, the
  boot structure and its new place.\<close>

definition init_layout :: "u32 \<Rightarrow> u32 \<Rightarrow> mmap_data list \<Rightarrow> 'a kmemlow_scheme \<Rightarrow> bool" where
  "init_layout start kb es s \<longleftrightarrow>
     (let p = mboot_ptr s; n = load32 (mem s) p; units = units_of_blocks (blocks_of_memsz kb);
          kend = kend_phys start units
      in term_ok s \<and> boot_map (mem s) p kb es \<and> mboot2_current_entry s = 0
       \<and> api_struct s = \<lparr>get_memory_size = Mboot2_get_memory_size, get_next_mmap_entry = Mboot2_get_next_mmap,
            relocate_multiboot = Mboot2_relocate_tags\<rparr>
       \<and> (\<forall>i < unat n. outside_cells 0 2000 (p + of_nat i))
       \<and> 0x100000 \<le> unat start \<and> unat start + 4 * unat units + 4096 + 2 * unat n < 2 ^ 32
       \<and> copy_ok (kend + n) p (unat n)
       \<and> maps_inside es (32 * unat units) \<and> frame kend \<le> unat (blocks_of_memsz kb))"

lemma init_layout_ready:
  assumes "init_layout start kb es s"
  shows "loader_ready view2 footprint2 room2 start kb es s"
proof -
  define n where "n = load32 (mem s) (mboot_ptr s)"
  define units where "units = units_of_blocks (blocks_of_memsz kb)"
  have L: "term_ok s" "boot_map (mem s) (mboot_ptr s) kb es" "mboot2_current_entry s = 0" "api_struct s = full_api"
    "\<forall>i < unat n. outside_cells 0 2000 (mboot_ptr s + of_nat i)" "0x100000 \<le> unat start"
    "unat start + 4 * unat units + 4096 + 2 * unat n < 2 ^ 32" "copy_ok (kend_phys start units + n) (mboot_ptr s) (unat n)"
    "maps_inside es (32 * unat units)" "frame (kend_phys start units) \<le> unat (blocks_of_memsz kb)"
    using assms by (simp_all add: init_layout_def Let_def full_api_def n_def units_def)
  have "view2 kb es s" using L(2-4) by (auto simp: view2_def)
  moreover have "kernel_fits start kb es" using L(6,7,9,10) by (simp add: kernel_fits_def Let_def units_def)
  moreover have "room2 start (kend_phys start (units_of_blocks (blocks_of_memsz kb))) s"
    using L(7,8) kend_phys_bounds(2) [of start units] by (simp add: room2_def Let_def n_def units_def)
  moreover have "\<forall>x \<in> footprint2 s. outside_cells 0 2000 x"
    using L(5) in_region_word [of "mboot_ptr s" n] by (auto simp: footprint2_def n_def)
  ultimately show ?thesis using L(1) by (simp add: loader_ready_def)
qed

lemma kmemlow_init_result:
  assumes "init_layout (mbitmap - 0xc0000000) kb es s"
  shows "\<exists>s'. kmemlow_init_allocator mbitmap buf s = Some (0, s')
    \<and> init_done (mbitmap - 0xc0000000) kb es
        (moved2 (kend_phys (mbitmap - 0xc0000000) (units_of_blocks (blocks_of_memsz kb))) s) s s'"
  by (rule mb2.init_result [OF init_layout_ready [OF assms]])

section \<open>The multiboot 1 driver\<close>

text \<open>
  What the multiboot 1 structure at \<open>p\<close> says to the driver: \<open>kb\<close> kilobytes and the entries \<open>es\<close>. The driver adds the size field
  of the first record to the address of the map, so its entry \<open>k\<close> is not the record \<open>k\<close>: with the usual size of 20 it is record
  \<open>k + 1\<close>, and the last one is read behind the map (\<open>mboot_mmap_off_by_one\<close>).
\<close>

definition first_entry :: "memory \<Rightarrow> u32 \<Rightarrow> u32" where
  "first_entry m p = mi_mmap_addr m p + mm_sz m (mi_mmap_addr m p) + 4"

definition boot1_map :: "memory \<Rightarrow> u32 \<Rightarrow> u32 \<Rightarrow> mmap_data list \<Rightarrow> bool" where
  "boot1_map m p kb es \<longleftrightarrow> bit (mi_flags m p) 0 \<and> bit (mi_flags m p) 6 \<and> kb = mi_memorySzLo m p + mi_memorySzHi m p
     \<and> length es = unat (mi_mmap_length m p) div 24
     \<and> (\<forall>k < length es. first_entry m p + of_nat (24 * k) \<noteq> 0 \<and> mm_data m (first_entry m p + of_nat (24 * k)) = es ! k)"

definition view1 :: "u32 \<Rightarrow> mmap_data list \<Rightarrow> 'a multiboot_scheme \<Rightarrow> bool" where
  "view1 kb es s \<longleftrightarrow> api_struct s = api1 \<and> (\<exists>all. boot1_map (mem s) (mboot_ptr s) kb all
     \<and> unat (mboot_current_entry s) \<le> length all \<and> es = drop (unat (mboot_current_entry s)) all)"

text \<open>The driver reads the structure, the size field of the first record, and the entries.\<close>

definition footprint1 :: "'a multiboot_scheme \<Rightarrow> u32 set" where
  "footprint1 s = {x. in_region (mboot_ptr s) 52 x \<or> in_region (mi_mmap_addr (mem s) (mboot_ptr s)) 4 x
     \<or> in_region (first_entry (mem s) (mboot_ptr s)) (24 * (unat (mi_mmap_length (mem s) (mboot_ptr s)) div 24)) x}"

definition room1 :: "u32 \<Rightarrow> u32 \<Rightarrow> 'a multiboot_scheme \<Rightarrow> bool" where
  "room1 start kend s \<longleftrightarrow> (\<forall>x \<in> footprint1 s. unat x < unat start \<or> unat kend \<le> unat x)"

lemma mm_data_region:
  assumes "\<And>x. in_region a 24 x \<Longrightarrow> m' x = m x"
  shows "mm_data m' a = mm_data m a"
proof -
  have l: "load32 m' (a + of_nat k) = load32 m (a + of_nat k)" if "k + 4 \<le> 24" for k
    using assms sub_region [of a k 4 _ 24] that by (intro load32_region) simp
  show ?thesis using l [of 4] l [of 8] l [of 12] l [of 16] l [of 20] by (simp add: mm_data_def load64_def add.assoc)
qed

lemma boot1_kept:
  assumes "\<And>x. x \<in> footprint1 s \<Longrightarrow> mem s' x = mem s x" "mboot_ptr s' = mboot_ptr s"
  shows "boot1_map (mem s') (mboot_ptr s) kb es = boot1_map (mem s) (mboot_ptr s) kb es" "footprint1 s' = footprint1 s"
proof -
  let ?p = "mboot_ptr s"
  have w: "load32 (mem s') (?p + of_nat k) = load32 (mem s) (?p + of_nat k)" if "k + 4 \<le> 52" for k
    using assms(1) sub_region [of ?p k 4 _ 52] that by (intro load32_region) (simp add: footprint1_def)
  have f: "mi_flags (mem s') ?p = mi_flags (mem s) ?p" "mi_memorySzLo (mem s') ?p = mi_memorySzLo (mem s) ?p"
    "mi_memorySzHi (mem s') ?p = mi_memorySzHi (mem s) ?p" "mi_mmap_length (mem s') ?p = mi_mmap_length (mem s) ?p"
    "mi_mmap_addr (mem s') ?p = mi_mmap_addr (mem s) ?p"
    using w [of 0] w [of 4] w [of 8] w [of 44] w [of 48]
    by (simp_all add: mi_flags_def mi_memorySzLo_def mi_memorySzHi_def mi_mmap_length_def mi_mmap_addr_def)
  have "mm_sz (mem s') (mi_mmap_addr (mem s) ?p) = mm_sz (mem s) (mi_mmap_addr (mem s) ?p)"
    unfolding mm_sz_def by (rule load32_region) (rule assms(1), simp add: footprint1_def)
  then have e: "first_entry (mem s') ?p = first_entry (mem s) ?p" by (simp add: first_entry_def f)
  show "footprint1 s' = footprint1 s" by (simp add: footprint1_def assms(2) f e)
  have "mm_data (mem s') (first_entry (mem s) ?p + of_nat (24 * k)) = mm_data (mem s) (first_entry (mem s) ?p + of_nat (24 * k))"
    if "k < unat (mi_mmap_length (mem s) ?p) div 24" for k
  proof (rule mm_data_region)
    fix x assume x: "in_region (first_entry (mem s) ?p + of_nat (24 * k)) 24 x"
    have "24 * (unat (mi_mmap_length (mem s) ?p) div 24) \<le> unat (mi_mmap_length (mem s) ?p)" by simp
    also have "\<dots> \<le> 2 ^ 32" using unat_u32_bound [of "mi_mmap_length (mem s) ?p"] by (simp del: unat_u32_bound)
    finally have "in_region (first_entry (mem s) ?p) (24 * (unat (mi_mmap_length (mem s) ?p) div 24)) x"
      using sub_region [OF x] that by simp
    then show "mem s' x = mem s x" by (intro assms(1)) (simp add: footprint1_def)
  qed
  then show "boot1_map (mem s') ?p kb es = boot1_map (mem s) ?p kb es"
    by (auto simp: boot1_map_def f e)
qed

lemma boot1_map_next:
  assumes "boot1_map (mem s) (mboot_ptr s) kb es" "get_next_mmap_entry (api_struct s) = Mboot_get_next_mmap_entry"
  shows "multiboot_get_mmap_next buf s = Some
     (if unat (mboot_current_entry s) < length es
      then (0, es ! unat (mboot_current_entry s), s\<lparr>mboot_current_entry := mboot_current_entry s + 1\<rparr>)
      else (-1, buf, s))"
proof -
  let ?c = "mboot_current_entry s" and ?m = "mem s" and ?p = "mboot_ptr s"
  have n: "?c < mi_mmap_length ?m ?p div 24 \<longleftrightarrow> unat ?c < length es"
    using assms(1) by (simp add: boot1_map_def word_less_nat_alt unat_div)
  have a: "mi_mmap_addr ?m ?p + mm_sz ?m (mi_mmap_addr ?m ?p) + 4 + ?c * 24 = first_entry ?m ?p + of_nat (24 * unat ?c)"
    by (simp add: first_entry_def)
  have nx: "multiboot_next_mmap s = (if unat ?c < length es
      then (first_entry ?m ?p + of_nat (24 * unat ?c), s\<lparr>mboot_current_entry := ?c + 1\<rparr>) else (0, s))"
    unfolding multiboot_next_mmap_def Let_def a n ..
  have "first_entry ?m ?p + of_nat (24 * unat ?c) \<noteq> 0 \<and> mm_data ?m (first_entry ?m ?p + of_nat (24 * unat ?c)) = es ! unat ?c"
    if "unat ?c < length es" using assms(1) that unfolding boot1_map_def by blast
  moreover have "bootflag_check (mi_flags ?m ?p) MMAP_PRESENT" using assms(1) by (simp add: boot1_map_def bootflag_bits)
  ultimately show ?thesis
    using assms(2) nx by (simp add: multiboot_get_mmap_next_def mboot_get_next_mmap_entry_def del: of_nat_mult)
qed

interpretation mb1: boot_source view1 footprint1 room1 "\<lambda>_ _. {}"
proof
  fix s s' :: "'a kmemlow_scheme" and kb es e buf start kend
  {
    assume "view1 kb es s"
    then show "multiboot_get_memsz s = Some (kb, s)"
      by (auto simp: view1_def api1_def multiboot_get_memsz_def call_get_memory_size_def mboot_get_memory_size_def boot1_map_def bootflag_bits)
  next
    assume "view1 kb (e # es) s"
    then obtain all where v: "api_struct s = api1" "boot1_map (mem s) (mboot_ptr s) kb all" "unat (mboot_current_entry s) \<le> length all"
        "e # es = drop (unat (mboot_current_entry s)) all"
      by (auto simp: view1_def)
    note c = drop_Cons_nth [OF v(4)]
    have "length all < 2 ^ 28" using v(2) unat_u32_bound [of "mi_mmap_length (mem s) (mboot_ptr s)"]
      by (simp add: boot1_map_def div_less_iff_less_mult del: unat_u32_bound)
    then have "unat (mboot_current_entry s + 1) = Suc (unat (mboot_current_entry s))"
      using c(1) unat_add_small [of "mboot_current_entry s" 1] by simp
    then show "\<exists>i j. multiboot_get_mmap_next buf s = Some (0, e, s\<lparr>mboot_current_entry := i, mboot2_current_entry := j\<rparr>)
        \<and> view1 kb es (s\<lparr>mboot_current_entry := i, mboot2_current_entry := j\<rparr>)
        \<and> footprint1 (s\<lparr>mboot_current_entry := i, mboot2_current_entry := j\<rparr>) = footprint1 s"
      using boot1_map_next [OF v(2), of buf] v(1,2) c
      by (intro exI [of _ "mboot_current_entry s + 1"] exI [of _ "mboot2_current_entry s"]) (auto simp: api1_def view1_def footprint1_def)
  next
    assume "view1 kb [] s"
    then show "multiboot_get_mmap_next buf s = Some (-1, buf, s)"
      using boot1_map_next [of s kb _ buf] by (fastforce simp: view1_def api1_def)
  next
    assume v: "view1 kb es s" "same_source s s'" "\<And>x. x \<in> footprint1 s \<Longrightarrow> mem s' x = mem s x"
    have p: "mboot_ptr s' = mboot_ptr s" using v(2) by (simp add: same_source_def)
    show "view1 kb es s' \<and> footprint1 s' = footprint1 s \<and> room1 start kend s' = room1 start kend s \<and> {} = {}"
      using boot1_kept [OF v(3) p] v(1,2) by (simp add: view1_def same_source_def room1_def)
  next
    assume v: "view1 kb es s" "room1 start kend s"
    then show "\<exists>m q. multiboot_relocate kend s = Some (s\<lparr>mem := m, mboot_ptr := q\<rparr>) \<and> view1 kb es (s\<lparr>mem := m, mboot_ptr := q\<rparr>)
        \<and> (\<forall>x. x \<notin> {} \<longrightarrow> m x = mem s x)
        \<and> (\<forall>x \<in> footprint1 (s\<lparr>mem := m, mboot_ptr := q\<rparr>). unat x < unat start \<or> unat kend \<le> unat x)"
      by (intro exI [of _ "mem s"] exI [of _ "mboot_ptr s"]) (simp add: view1_def api1_def multiboot_relocate_def room1_def)
  }
qed

text \<open>The layout on a multiboot 1 machine: nothing is moved, so what the driver reads must lie outside of the screen and of the memory
  between the start of the bitmap and the end of the kernel.\<close>

definition init_layout1 :: "u32 \<Rightarrow> u32 \<Rightarrow> mmap_data list \<Rightarrow> 'a kmemlow_scheme \<Rightarrow> bool" where
  "init_layout1 start kb es s \<longleftrightarrow> term_ok s \<and> api_struct s = api1 \<and> boot1_map (mem s) (mboot_ptr s) kb es \<and> mboot_current_entry s = 0
     \<and> kernel_fits start kb es
     \<and> (\<forall>x \<in> footprint1 s. outside_cells 0 2000 x
          \<and> (unat x < unat start \<or> unat (kend_phys start (units_of_blocks (blocks_of_memsz kb))) \<le> unat x))"

lemma init_layout1_ready: "init_layout1 start kb es s \<Longrightarrow> loader_ready view1 footprint1 room1 start kb es s"
  by (simp add: init_layout1_def loader_ready_def view1_def room1_def)

section \<open>Properties\<close>

text \<open>C20: the initialisation of the block allocator. On a multiboot 2 structure whose map fits the
  bitmap it returns 0 and leaves exactly these blocks free: the blocks of the available regions of the
  memory map that lie above the end of the kernel. The structure is first moved out of the way of
  the bitmap, so the map is still the boot loader's when it is read.\<close>

theorem kmemlow_init_correct:
  assumes "init_layout (mbitmap - 0xc0000000) kb es s"
  shows "\<exists>s'. kmemlow_init_allocator mbitmap buf s = Some (0, s')
    \<and> mbitmap_physical s' = mbitmap - 0xc0000000 \<and> total_blocks s' = blocks_of_memsz kb
    \<and> bitmap_size s' = units_of_blocks (total_blocks s')
    \<and> kernel_end_physical s' = kend_phys (mbitmap_physical s') (bitmap_size s')
    \<and> (\<forall>k < 32 * unat (bitmap_size s'). block_used (mem s') (mbitmap_physical s') k
          \<longleftrightarrow> k < frame (kernel_end_physical s') \<or> \<not> available es k)"
  using kmemlow_init_result [OF assms, of buf] by (auto simp: init_done_def Let_def)

lemma low_map: "boot_map (low_boot ty) 0x1000 0x8000 [low_entry ty]"
  unfolding boot_map_def
  by (rule exI [of _ "[(4, 16), (6, 40)]"], rule exI [of _ 8], rule exI [of _ 24])
     (simp add: low_loads boot_info_def tag_type_def tag_size_def round8_def mboot2_consts mt_mem_lower_def
        mt_mem_upper_def mmap_entry_sz_def mboot2_entry_def load64_def low_entry_def)

lemma low_layout: "init_layout (0xc0200000 - 0xc0000000) 0x8000 [low_entry ty] (low_state_with ty r)"
proof -
  have "outside_cells 0 2000 (0x1000 + of_nat i)" if "i < 72" for i
    using that unat_add_small [of "0x1000" i] by (intro off_screen) simp
  then show ?thesis
    by (simp add: init_layout_def Let_def low_state_with_def low_map [unfolded low_entry_def] low_loads term_ok_def
        blocks_of_memsz_def KILOBYTES_def PAGE_SIZE_def units_of_blocks_def BLOCKS_PER_UNIT_def kend_phys_def copy_ok_def
        maps_inside_def low_entry_def first_block_def block_count_def frame_def)
qed


text \<open>The machine of 32 MB under a multiboot 1 loader: the structure at 4 KB, a map of two records at 8 KB, whose second one is the
  region of the given type; behind the map there are zeros.\<close>

definition low_boot1 :: "u32 \<Rightarrow> memory" where
  "low_boot1 ty = store32 (store32 (store32 (store32 (store32 (store32 (store32 (store32 (\<lambda>_. 0)
     0x1000 0x41) 0x1008 0x8000) 0x102C 48) 0x1030 0x2000) 0x2000 20) 0x2018 20) 0x2024 0x2000000) 0x202C ty"

definition low_state1_with :: "u32 \<Rightarrow> 'a \<Rightarrow> 'a kmemlow_scheme" where
  "low_state1_with ty r = (low_state_with ty r)\<lparr>mem := low_boot1 ty, boot_magic := MULTIBOOT_MAGIC, api_struct := api1\<rparr>"

definition low_entries1 :: "u32 \<Rightarrow> mmap_data list" where
  "low_entries1 ty = [low_entry ty, \<lparr>mbase = 0, mlength = 0, mtype = 0\<rparr>]"

lemma low_loads1:
  "load32 (low_boot1 ty) 0x1000 = 0x41" "load32 (low_boot1 ty) 0x1004 = 0" "load32 (low_boot1 ty) 0x1008 = 0x8000"
  "load32 (low_boot1 ty) 0x102C = 48" "load32 (low_boot1 ty) 0x1030 = 0x2000" "load32 (low_boot1 ty) 0x2000 = 20"
  "load32 (low_boot1 ty) 0x201C = 0" "load32 (low_boot1 ty) 0x2020 = 0" "load32 (low_boot1 ty) 0x2024 = 0x2000000"
  "load32 (low_boot1 ty) 0x2028 = 0" "load32 (low_boot1 ty) 0x202C = ty"
  "load32 (low_boot1 ty) 0x2034 = 0" "load32 (low_boot1 ty) 0x2038 = 0" "load32 (low_boot1 ty) 0x203C = 0"
  "load32 (low_boot1 ty) 0x2040 = 0" "load32 (low_boot1 ty) 0x2044 = 0"
  using load32_store32_same [of _ "0x202C" ty]
  by (simp_all add: low_boot1_def load32_def store32_def)

lemma low_map1: "first_entry (low_boot1 ty) 0x1000 = 0x2018" "boot1_map (low_boot1 ty) 0x1000 0x8000 (low_entries1 ty)"
proof -
  show e: "first_entry (low_boot1 ty) 0x1000 = 0x2018" by (simp add: first_entry_def mi_mmap_addr_def mm_sz_def low_loads1)
  have "bit (0x41 :: u32) 0" "bit (0x41 :: u32) 6" by (simp_all add: bootflag_bits [symmetric] bootflag_check_def mboot_consts)
  moreover have "mm_data (low_boot1 ty) 0x2018 = low_entries1 ty ! 0" "mm_data (low_boot1 ty) 0x2030 = low_entries1 ty ! 1"
    by (simp_all add: mm_data_def load64_def low_loads1 low_entries1_def low_entry_def)
  moreover have "k < 2 \<longleftrightarrow> k = 0 \<or> k = 1" for k :: nat by linarith
  moreover have "length (low_entries1 ty) = 2" by (simp add: low_entries1_def)
  ultimately show "boot1_map (low_boot1 ty) 0x1000 0x8000 (low_entries1 ty)"
    by (auto simp: boot1_map_def mi_flags_def mi_memorySzLo_def mi_memorySzHi_def mi_mmap_length_def low_loads1 e)
qed

lemma low_layout1: "init_layout1 (0xc0200000 - 0xc0000000) 0x8000 (low_entries1 ty) (low_state1_with ty r)"
proof -
  have m: "term_ok (low_state1_with ty r)" "api_struct (low_state1_with ty r) = api1" "mboot_current_entry (low_state1_with ty r) = 0"
    "mem (low_state1_with ty r) = low_boot1 ty" "mboot_ptr (low_state1_with ty r) = 0x1000"
    by (simp_all add: low_state1_with_def low_state_with_def term_ok_def)
  have "footprint1 (low_state1_with ty r) = {x. in_region 0x1000 52 x \<or> in_region 0x2000 4 x \<or> in_region 0x2018 48 x}"
    by (simp add: footprint1_def m low_map1(1) mi_mmap_addr_def mi_mmap_length_def low_loads1)
  moreover have "unat x < 0x10000" if "in_region a n x" "unat a + n < 0x10000" for a x n
    using that region_range [of a n x] by simp
  ultimately have f: "unat x < 0x10000" if "x \<in> footprint1 (low_state1_with ty r)" for x
    using that by fastforce
  have o: "outside_cells 0 2000 x \<and> (unat x < unat (0xc0200000 - 0xc0000000 :: u32) \<or> q \<le> unat x)"
    if "x \<in> footprint1 (low_state1_with ty r)" for x q
    using f [OF that] off_screen [of x] by simp
  have k: "kernel_fits (0xc0200000 - 0xc0000000) 0x8000 (low_entries1 ty)"
    by (simp add: kernel_fits_def Let_def blocks_of_memsz_def KILOBYTES_def PAGE_SIZE_def units_of_blocks_def BLOCKS_PER_UNIT_def
        kend_phys_def maps_inside_def low_entries1_def low_entry_def first_block_def block_count_def frame_def)
  show ?thesis unfolding init_layout1_def m by (intro conjI refl ballI k low_map1(2) o m(1))
qed


theorem kmemlow_init_correct_witness:
  "\<exists>s'. kmemlow_init_allocator 0xc0200000 (low_entry 1) low_state = Some (0, s') \<and> total_blocks s' = 8192
    \<and> \<not> block_used (mem s') 0x200000 513 \<and> block_used (mem s') 0x200000 512"
proof -
  have l: "init_layout (0xc0200000 - 0xc0000000) 0x8000 [low_entry 1] low_state"
    unfolding low_state_def by (rule low_layout)
  obtain s' where s': "kmemlow_init_allocator 0xc0200000 (low_entry 1) low_state = Some (0, s')"
    "mbitmap_physical s' = 0xc0200000 - 0xc0000000" "total_blocks s' = blocks_of_memsz 0x8000"
    "bitmap_size s' = units_of_blocks (total_blocks s')"
    "kernel_end_physical s' = kend_phys (mbitmap_physical s') (bitmap_size s')"
    and u: "\<forall>k < 32 * unat (bitmap_size s'). block_used (mem s') (mbitmap_physical s') k
          \<longleftrightarrow> k < frame (kernel_end_physical s') \<or> \<not> available [low_entry 1] k"
    using kmemlow_init_correct [OF l] by blast
  have e: "total_blocks s' = 8192" "bitmap_size s' = 256" "kernel_end_physical s' = 0x201000" "mbitmap_physical s' = 0x200000"
    using s' by (simp_all add: blocks_of_memsz_def KILOBYTES_def PAGE_SIZE_def units_of_blocks_def
        BLOCKS_PER_UNIT_def kend_phys_def)
  then show ?thesis using s'(1) u [rule_format, of 513] u [rule_format, of 512]
    by (auto simp: available_def low_entry_def first_block_def block_count_def frame_def)
qed

end
