(* ===== verification/Mmu.thy ===== *)
theory Mmu
  imports Machine
begin

text \<open>
  Two-level i386 paging. The macros and flags that init/memory/paging.c and
  arch/i386/pagemngr.c share, the page walk of the processor (the documented behaviour of the
  i386, against which both are verified), and the contents of a table as a function of its
  1024 entries.
\<close>

definition PTABLE_FLAG_PRESENT :: u32 where "PTABLE_FLAG_PRESENT = 0x0001"
definition PTABLE_FLAG_USER :: u32 where "PTABLE_FLAG_USER = 0x0004"

definition pdir_entry :: "u32 \<Rightarrow> u32" where
  "pdir_entry x = drop_bit 22 x"

definition ptable_entry :: "u32 \<Rightarrow> u32" where
  "ptable_entry x = drop_bit 12 (x AND NOT 0xffc00000)"

text \<open>The page walk: the physical address of a virtual one, \<open>None\<close> for a page fault.\<close>

definition walk_step :: "memory \<Rightarrow> u32 \<Rightarrow> nat \<Rightarrow> u32 option" where
  "walk_step m table i =
     (let e = load32 m (elem table i) in if bit e 0 then Some (e AND NOT 0xfff) else None)"

definition translate :: "memory \<Rightarrow> u32 \<Rightarrow> u32 \<Rightarrow> u32 option" where
  "translate m pd va = do {
     table \<leftarrow> walk_step m pd (unat va div 2 ^ 22);
     page \<leftarrow> walk_step m table (unat va div 2 ^ 12 mod 1024);
     Some (page + (va AND 0xfff))
   }"

section \<open>Indices\<close>

lemma unat_pdir_entry: "unat (pdir_entry va) = unat va div 2 ^ 22"
  by (simp add: pdir_entry_def drop_bit_eq_div unat_div)

lemma unat_ptable_entry: "unat (ptable_entry va) = unat va div 2 ^ 12 mod 1024"
proof -
  have "NOT 0xffc00000 = (mask 22 :: u32)" by (simp add: mask_eq_exp_minus_1)
  then have "va AND NOT 0xffc00000 = take_bit 22 va" by (simp only: take_bit_eq_mask)
  then have "unat (ptable_entry va) = drop_bit 12 (take_bit 22 (unat va))"
    by (simp add: ptable_entry_def unat_drop_bit_eq unsigned_take_bit_eq)
  also have "\<dots> = take_bit 10 (drop_bit 12 (unat va))" by (simp add: drop_bit_take_bit)
  finally show ?thesis by (simp add: take_bit_eq_mod drop_bit_eq_div)
qed

lemma pdir_bound: "unat va div 2 ^ 22 < 1024" for va :: u32
  using unat_u32_bound [of va] by (simp add: div_less_iff_less_mult)

lemma ptable_entry_bound: "unat (ptable_entry va) < 1024"
  by (simp add: unat_ptable_entry)

lemma unat_page_offset: "unat (va AND 0xfff) = unat va mod 4096" for va :: u32
proof -
  have "0xfff = (mask 12 :: u32)" by (simp add: mask_eq_exp_minus_1)
  then have "va AND 0xfff = take_bit 12 va" by (simp only: take_bit_eq_mask)
  then have "unat (va AND 0xfff) = take_bit 12 (unat va)" by (simp only: unsigned_take_bit_eq)
  then show ?thesis by (simp add: take_bit_eq_mod)
qed

text \<open>A virtual address is its two indices and its offset.\<close>

lemma va_split: "unat va = 2 ^ 22 * (unat va div 2 ^ 22) + 2 ^ 12 * (unat va div 2 ^ 12 mod 1024) + unat (va AND 0xfff)"
  for va :: u32
proof -
  define q where "q = unat va div 4096"
  have "unat va = 4096 * q + unat va mod 4096" unfolding q_def by (rule mult_div_mod_eq [symmetric])
  moreover have "q = 1024 * (q div 1024) + q mod 1024" by (rule mult_div_mod_eq [symmetric])
  moreover have "unat va div 4194304 = q div 1024" by (simp add: q_def div_mult2_eq [symmetric])
  ultimately have "unat va = 4194304 * (unat va div 4194304) + 4096 * (q mod 1024) + unat va mod 4096"
    by linarith
  then show ?thesis by (simp add: unat_page_offset q_def)
qed

section \<open>Pages and tables\<close>

definition aligned :: "u32 \<Rightarrow> bool" where
  "aligned p \<longleftrightarrow> unat p mod 4096 = 0"

lemma aligned_mask: "aligned p \<Longrightarrow> p AND NOT 0xfff = p"
  by (metis aligned_def word_unat_eq_iff unat_page_down mult_div_mod_eq add.right_neutral)

lemma aligned_flags:
  assumes "aligned p" "f AND NOT 0xfff = 0"
  shows "(p OR f) AND NOT 0xfff = p"
  using aligned_mask [OF assms(1)] assms(2) by (simp add: bit.conj_disj_distrib2)

definition table :: "memory \<Rightarrow> u32 \<Rightarrow> (nat \<Rightarrow> u32) \<Rightarrow> bool" where
  "table m t f \<longleftrightarrow> (\<forall>i < 1024. load32 m (elem t i) = f i)"

lemma tableD: "table m t f \<Longrightarrow> i < 1024 \<Longrightarrow> load32 m (elem t i) = f i"
  by (simp add: table_def)

lemma table_store: "table m t f \<Longrightarrow> i < 1024 \<Longrightarrow> table (store32 m (elem t i) v) t (f(i := v))"
  by (simp add: table_def load32_store32_elem)

lemma elem_offset: "elem t i = t + of_nat (4 * i)"
  by (simp add: elem_def)

lemma table_moved:
  assumes "\<forall>k < 4096. m' (t + of_nat k) = m (t + of_nat k)"
  shows "table m' t f \<longleftrightarrow> table m t f"
proof -
  have "load32 m' (elem t i) = load32 m (elem t i)" if "i < 1024" for i
    unfolding elem_offset using load32_moved [OF assms, of "4 * i"] that by simp
  then show ?thesis by (simp add: table_def)
qed

lemma pages_apart:
  assumes "aligned s" "aligned t" "s \<noteq> t" "k < 4096"
  shows "\<not> in_region s 4096 (t + of_nat k)"
proof
  assume "in_region s 4096 (t + of_nat k)"
  then obtain i where i: "i < 4096" "t + of_nat k = s + of_nat i" by (auto simp: in_region_iff)
  have u: "unat (p + of_nat j) = unat p + j \<and> unat p = 4096 * (unat p div 4096)" if "aligned p" "j < 4096" for p :: u32 and j
  proof -
    have "4096 dvd unat p" using that(1) by (simp add: aligned_def dvd_eq_mod_eq_0)
    then obtain q where q: "unat p = 4096 * q" by (elim dvdE)
    then have "q < 2 ^ 20" using unat_u32_bound [of p] by simp
    then have "unat p + j < 2 ^ 32" using that(2) q by simp
    then show ?thesis using q unat_add_small [of p j] by simp
  qed
  have "(unat t + k) div 4096 = (unat s + i) div 4096"
    using u [OF assms(2,4)] u [OF assms(1) i(1)] i(2) by metis
  moreover have "(4096 * q + j) div 4096 = q" if "j < 4096" for q j :: nat using that by simp
  ultimately have "unat t = unat s" using u [OF assms(2,4)] u [OF assms(1) i(1)] assms(4) i(1) by metis
  then show False using assms(3) by (simp add: word_unat_eq_iff)
qed

lemma table_same_outside:
  "same_outside s 4096 m m' \<Longrightarrow> aligned s \<Longrightarrow> aligned t \<Longrightarrow> s \<noteq> t \<Longrightarrow> table m t f \<Longrightarrow> table m' t f"
  using table_moved [of m' t m f] pages_apart [of s t] by (simp add: same_outside_def)

lemma table_zero:
  assumes "\<forall>k < 4096. m (t + of_nat k) = 0"
  shows "table m t (\<lambda>_. 0)"
proof -
  have "table (\<lambda>_. 0) t (\<lambda>_. 0)" by (simp add: table_def load32_def)
  then show ?thesis using table_moved [of m t "\<lambda>_. 0" "\<lambda>_. 0"] assms by simp
qed

lemma walk_step_table:
  "table m t f \<Longrightarrow> i < 1024 \<Longrightarrow> walk_step m t i = (if bit (f i) 0 then Some (f i AND NOT 0xfff) else None)"
  by (simp add: walk_step_def table_def Let_def)

end
