(* ===== verification/EarlyPaging.thy ===== *)
theory EarlyPaging
  imports Kmeminit Mmu
begin

text \<open>
  Building the page tables of the kernel, init/init/memory/paging.c, before paging is
  switched on: the page directory with its recursive entry, the identity map of the first megabyte,
  the kernel's map and the kernel stack. The build defines DEBUG_BUILD, so its prints are part
  of the model. The tables are verified against the page walk of the processor.
\<close>

record paging = kmemlow +
  page_directory :: u32
  first_pagetable :: u32
  kernel_pagetable :: u32
  kernel_stack_map :: u32
  kernel_end_virtual :: u32

definition PAGE_DIRECTORY_MAPPING :: u32 where "PAGE_DIRECTORY_MAPPING = 0xffc00000"
definition KERNEL_STACK_MAPPING :: u32 where "KERNEL_STACK_MAPPING = PAGE_DIRECTORY_MAPPING - PAGE_SIZE"
definition ERROR_PAGING_ENOMEM :: u32 where "ERROR_PAGING_ENOMEM = 0x0001"

text \<open>A string literal that ends in a newline.\<close>

definition ln :: "string \<Rightarrow> string" where "ln str = str @ [CHR 0x0A]"

section \<open>Operations\<close>

definition set_entry :: "u32 \<Rightarrow> u32 \<Rightarrow> u32 \<Rightarrow> 'a machine_scheme \<Rightarrow> 'a machine_scheme" where
  "set_entry table_ptr i v s = s\<lparr>mem := store32 (mem s) (table_ptr + 4 * i) v\<rparr>"

definition clear_page :: "u32 \<Rightarrow> 'a machine_scheme \<Rightarrow> 'a machine_scheme" where
  "clear_page page s = s\<lparr>mem := snd (ki_memset page 0 PAGE_SIZE (mem s))\<rparr>"

definition ki_get_kernel_end_virtual :: "'a paging_scheme \<Rightarrow> u32" where
  "ki_get_kernel_end_virtual s = kernel_end_virtual s"

definition ki_get_kernel_stack_top :: u32 where
  "ki_get_kernel_stack_top = (KERNEL_STACK_MAPPING + PAGE_SIZE) - 4"

definition create_page_directory :: "'a paging_scheme \<Rightarrow> (int \<times> 'a paging_scheme) option" where
  "create_page_directory s = do {
     s \<leftarrow> ki_printf (ln ''creating page directory...'') [] s;
     let (p, s) = kmemlow_alloc s;
     let s = s\<lparr>page_directory := p\<rparr>;
     if page_directory s = 0 then Some (-1, s\<lparr>kinit_errno := ERROR_PAGING_ENOMEM\<rparr>)
     else do {
       s \<leftarrow> ki_printf (ln ''page directory address: 0x%x'') [VaWord (page_directory s)] s;
       let s = clear_page (page_directory s) s;
       let s = set_entry (page_directory s) (pdir_entry 0xffc00000)
                 (page_directory s OR PTABLE_FLAG_PRESENT OR PTABLE_FLAG_USER) s;
       Some (0, s)
     }
   }"

function identity_loop :: "u32 \<Rightarrow> 'a paging_scheme \<Rightarrow> 'a paging_scheme" where
  "identity_loop i s =
     (if i < 0x100000 then
        identity_loop (i + PAGE_SIZE)
          (set_entry (first_pagetable s) (ptable_entry i) (i OR PTABLE_FLAG_PRESENT OR PTABLE_FLAG_USER) s)
      else s)"
  by pat_completeness auto
termination
proof (relation "measure (\<lambda>(i, s). 0x200000 - unat i)", simp, simp only: in_measure prod.case)
  fix i :: u32
  assume "i < 0x100000"
  then have "unat i < 0x100000" by (simp add: word_less_nat_alt)
  moreover from this have "unat (i + PAGE_SIZE) = unat i + 4096"
    using unat_add_small [of i 4096] by (simp add: PAGE_SIZE_def)
  ultimately show "0x200000 - unat (i + PAGE_SIZE) < 0x200000 - unat i" by linarith
qed

declare identity_loop.simps [simp del]

definition map_first_megabyte :: "'a paging_scheme \<Rightarrow> (int \<times> 'a paging_scheme) option" where
  "map_first_megabyte s = do {
     s \<leftarrow> ki_printf (ln ''mapping first megabyte...'') [] s;
     let (p, s) = kmemlow_alloc s;
     let s = s\<lparr>first_pagetable := p\<rparr>;
     if first_pagetable s = 0 then Some (-1, s\<lparr>kinit_errno := ERROR_PAGING_ENOMEM\<rparr>)
     else do {
       s \<leftarrow> ki_printf (ln ''page table address: 0x%x'') [VaWord (first_pagetable s)] s;
       let s = clear_page (first_pagetable s) s;
       let s = set_entry (page_directory s) (pdir_entry 0)
                 (first_pagetable s OR PTABLE_FLAG_PRESENT OR PTABLE_FLAG_USER) s;
       Some (0, identity_loop 0 s)
     }
   }"

text \<open>The loop over the kernel's pages does not end when its limit lies in the last page of the address
  space: \<open>i += PAGE_SIZE\<close> wraps around then.\<close>

partial_function (option) kernel_loop :: "u32 \<Rightarrow> 'a paging_scheme \<Rightarrow> 'a paging_scheme option" where
  "kernel_loop i s =
     (if i < kernel_end_virtual s then
        kernel_loop (i + PAGE_SIZE)
          (set_entry (kernel_pagetable s) (ptable_entry i)
             ((i - 0xc0000000) OR PTABLE_FLAG_PRESENT OR PTABLE_FLAG_USER) s)
      else Some s)"

definition map_kernel :: "'a paging_scheme \<Rightarrow> (int \<times> 'a paging_scheme) option" where
  "map_kernel s = do {
     s \<leftarrow> ki_printf ''mapping kernel...'' [] s;
     let (p, s) = kmemlow_alloc s;
     let s = s\<lparr>kernel_pagetable := p\<rparr>;
     if kernel_pagetable s = 0 then Some (-1, s\<lparr>kinit_errno := ERROR_PAGING_ENOMEM\<rparr>)
     else do {
       s \<leftarrow> ki_printf (ln ''kernel page table address: 0x%x'') [VaWord (kernel_pagetable s)] s;
       let s = clear_page (kernel_pagetable s) s;
       let s = set_entry (page_directory s) (pdir_entry 0xc0100000)
                 (kernel_pagetable s OR PTABLE_FLAG_PRESENT OR PTABLE_FLAG_USER) s;
       let s = s\<lparr>kernel_end_virtual := kmemlow_get_kernel_endptr s + 0xc0000000\<rparr>;
       s \<leftarrow> ki_printf (ln ''kernel end virtual = 0x%x'') [VaWord (kernel_end_virtual s)] s;
       s \<leftarrow> kernel_loop 0xc0100000 s;
       Some (0, s)
     }
   }"

definition create_new_kernel_stack :: "'a paging_scheme \<Rightarrow> int \<times> 'a paging_scheme" where
  "create_new_kernel_stack s =
     (let (p, s) = kmemlow_alloc s;
          s = s\<lparr>kernel_stack_map := p\<rparr>
      in if kernel_stack_map s = 0 then (-1, s\<lparr>kinit_errno := ERROR_PAGING_ENOMEM\<rparr>)
         else
           (let (kernel_stack_first_block, s) = kmemlow_alloc s
            in if kernel_stack_first_block = 0 then (-1, s\<lparr>kinit_errno := ERROR_PAGING_ENOMEM\<rparr>)
               else
                 (let s = clear_page (kernel_stack_map s) s;
                      s = clear_page kernel_stack_first_block s;
                      s = set_entry (page_directory s) (pdir_entry KERNEL_STACK_MAPPING)
                            (kernel_stack_map s OR PTABLE_FLAG_PRESENT OR PTABLE_FLAG_USER) s;
                      s = set_entry (kernel_stack_map s) (ptable_entry KERNEL_STACK_MAPPING)
                            (kernel_stack_first_block OR PTABLE_FLAG_PRESENT OR PTABLE_FLAG_USER) s
                  in (0, s))))"

definition ki_setup_paging :: "'a paging_scheme \<Rightarrow> (int \<times> 'a paging_scheme) option" where
  "ki_setup_paging s = do {
     (result, s) \<leftarrow> create_page_directory s;
     if result \<noteq> 0 then Some (result, s)
     else do {
       (result, s) \<leftarrow> map_first_megabyte s;
       if result \<noteq> 0 then Some (result, s)
       else do {
         (result, s) \<leftarrow> map_kernel s;
         if result \<noteq> 0 then Some (result, s)
         else
           (let (result, s) = create_new_kernel_stack s
            in if result \<noteq> 0 then Some (result, s) else Some (0, s))
       }
     }
   }"

section \<open>Pages of the kernel\<close>

text \<open>
  What holds from the end of the allocator's initialisation on: all blocks up to the end of the
  kernel are used, the bitmap and video memory lie below it, and the bitmap has a bit for every block.
\<close>

definition low_memory_ok :: "'a kmemlow_scheme \<Rightarrow> bool" where
  "low_memory_ok s \<longleftrightarrow> kmemlow_ok s \<and> term_ok s \<and> aligned (kernel_end_physical s)
     \<and> (\<forall>k < frame (kernel_end_physical s). k \<in> kused s)
     \<and> 0x100000 \<le> unat (mbitmap_physical s)
     \<and> unat (mbitmap_physical s) + 4 * unat (bitmap_size s) \<le> unat (kernel_end_physical s)
     \<and> unat (total_blocks s) \<le> 32 * unat (bitmap_size s)"

text \<open>Two memories agree from an address on.\<close>

definition same_above :: "u32 \<Rightarrow> memory \<Rightarrow> memory \<Rightarrow> bool" where
  "same_above a m m' \<longleftrightarrow> (\<forall>x. unat a \<le> unat x \<longrightarrow> m' x = m x)"

text \<open>The pages built so far, with the contents of their entries.\<close>

definition pages :: "'a kmemlow_scheme \<Rightarrow> (u32 \<rightharpoonup> (nat \<Rightarrow> u32)) \<Rightarrow> bool" where
  "pages s T \<longleftrightarrow>
     (\<forall>t f. T t = Some f \<longrightarrow> aligned t \<and> unat (kernel_end_physical s) \<le> unat t \<and> frame t \<in> kused s \<and> table (mem s) t f)"

lemma page_address:
  assumes "aligned t" "k < 4096"
  shows "unat (t + of_nat k) = unat t + k"
proof -
  have "4096 dvd unat t" using assms(1) by (simp add: aligned_def dvd_eq_mod_eq_0)
  then obtain q where q: "unat t = 4096 * q" by (elim dvdE)
  then have "q < 2 ^ 20" using unat_u32_bound [of t] by simp
  then show ?thesis using assms(2) q by (intro unat_add_small) simp
qed

lemma table_same_above:
  "same_above a m m' \<Longrightarrow> aligned t \<Longrightarrow> unat a \<le> unat t \<Longrightarrow> table m t f \<Longrightarrow> table m' t f"
  using table_moved [of m' t m f] page_address [of t] by (simp add: same_above_def)

lemma aligned_frame: "aligned p \<longleftrightarrow> unat p = 4096 * frame p"
  unfolding aligned_def frame_def by (metis dvd_eq_mod_eq_0 dvd_mult_div_cancel dvd_triv_left)

lemma aligned_frame_inj: "aligned p \<Longrightarrow> aligned q \<Longrightarrow> frame p = frame q \<longleftrightarrow> p = q"
  by (auto simp: aligned_frame word_unat_eq_iff)

text \<open>Memory changes that leave the bitmap alone leave the used blocks alone.\<close>

lemma kused_cong:
  assumes "unat (total_blocks s) \<le> 32 * n" "n \<le> 2 ^ 30"
    and "\<forall>i < 4 * n. m' (mbitmap_physical s + of_nat i) = mem s (mbitmap_physical s + of_nat i)"
  shows "kused (s\<lparr>mem := m'\<rparr>) = kused s"
proof -
  have "block_used m' (mbitmap_physical s) k = block_used (mem s) (mbitmap_physical s) k"
    if "k < unat (total_blocks s)" for k
  proof -
    have "k div 32 < n" using that assms(1) by (simp add: div_less_iff_less_mult)
    then show ?thesis unfolding block_used_def elem_offset
      using load32_moved [OF assms(3), of "4 * (k div 32)"] by simp
  qed
  then show ?thesis by (auto simp: kused_def used_set_def)
qed

lemma bitmap_address:
  assumes "low_memory_ok s" "i < 4 * unat (bitmap_size s)"
  shows "unat (mbitmap_physical s + of_nat i) = unat (mbitmap_physical s) + i"
    and "unat (mbitmap_physical s + of_nat i) < unat (kernel_end_physical s)"
proof -
  have "unat (mbitmap_physical s) + i < unat (kernel_end_physical s)"
    using assms by (simp add: low_memory_ok_def)
  moreover from this show "unat (mbitmap_physical s + of_nat i) = unat (mbitmap_physical s) + i"
    using less_trans [OF _ unat_u32_bound] by (intro unat_add_small) simp
  ultimately show "unat (mbitmap_physical s + of_nat i) < unat (kernel_end_physical s)" by simp
qed

lemma bitmap_units: "low_memory_ok s \<Longrightarrow> unat (bitmap_size s) < 2 ^ 30"
proof -
  assume "low_memory_ok s"
  then have "4 * unat (bitmap_size s) < 4294967296"
    unfolding low_memory_ok_def using unat_u32_bound [of "kernel_end_physical s"] by linarith
  then show ?thesis by simp
qed

text \<open>Any change of memory that keeps the bitmap keeps the layout.\<close>

lemma low_memory_mem:
  assumes "low_memory_ok s"
    and "\<forall>i < 4 * unat (bitmap_size s). m' (mbitmap_physical s + of_nat i) = mem s (mbitmap_physical s + of_nat i)"
  shows "low_memory_ok (s\<lparr>mem := m'\<rparr>) \<and> kused (s\<lparr>mem := m'\<rparr>) = kused s"
proof -
  have k: "kused (s\<lparr>mem := m'\<rparr>) = kused s"
    using assms bitmap_units [OF assms(1)] by (intro kused_cong) (auto simp: low_memory_ok_def)
  then show ?thesis using assms(1) by (simp add: low_memory_ok_def kmemlow_ok_def term_ok_def)
qed

lemma kused_frame: "kused (s\<lparr>io := a, cur_x := x, cur_y := y\<rparr>) = kused s"
  by (simp add: kused_def)

lemma cells_below: "same_outside_cells 0 2000 m m' \<Longrightarrow> 0x100000 \<le> unat x \<Longrightarrow> m' x = m x"
  using off_screen [of x] by (simp add: same_outside_cells_def)

lemma prints_pages:
  assumes "low_memory_ok s" "pages s T" "prints s s'"
  shows "low_memory_ok s' \<and> pages s' T \<and> kused s' = kused s"
proof -
  obtain m l x y where s': "s' = s\<lparr>mem := m\<rparr>\<lparr>io := io s @ l, cur_x := x, cur_y := y\<rparr>"
    and m: "same_outside_cells 0 2000 (mem s) m" and ok: "term_ok s'"
    using assms(3) by (auto simp: prints_def)
  have "\<forall>i < 4 * unat (bitmap_size s). m (mbitmap_physical s + of_nat i) = mem s (mbitmap_physical s + of_nat i)"
    using bitmap_address [OF assms(1)] assms(1) cells_below [OF m] by (simp add: low_memory_ok_def)
  then have L: "low_memory_ok (s\<lparr>mem := m\<rparr>)" "kused (s\<lparr>mem := m\<rparr>) = kused s"
    using low_memory_mem [OF assms(1)] by auto
  have u: "kused s' = kused s" unfolding s' kused_frame using L(2) .
  have "low_memory_ok s'" using L(1) ok u unfolding low_memory_ok_def kmemlow_ok_def L(2) u by (simp add: s')
  moreover have "same_above (kernel_end_physical s) (mem s) m"
    using assms(1) cells_below [OF m] by (simp add: same_above_def low_memory_ok_def)
  then have "pages s' T" using assms(2) u table_same_above by (fastforce simp: pages_def s')
  ultimately show ?thesis using u by blast
qed

text \<open>The blocks the search can find, and taking one of them.\<close>

definition free_blocks :: "'a kmemlow_scheme \<Rightarrow> nat set" where
  "free_blocks s = {k. k < 32 * (unat (total_blocks s) div 32)} - kused s"

lemma finite_free_blocks [simp]: "finite (free_blocks s)"
  by (simp add: free_blocks_def)

lemma alloc_page:
  assumes "low_memory_ok s" "pages s T" "card (free_blocks s) = Suc n"
  shows "\<exists>p m. kmemlow_alloc s = (p, s\<lparr>mem := m\<rparr>) \<and> p \<noteq> 0 \<and> aligned p
    \<and> unat (kernel_end_physical s) \<le> unat p \<and> frame p \<notin> kused s \<and> p \<notin> dom T
    \<and> low_memory_ok (s\<lparr>mem := m\<rparr>) \<and> pages (s\<lparr>mem := m\<rparr>) T
    \<and> frame p \<in> kused (s\<lparr>mem := m\<rparr>) \<and> card (free_blocks (s\<lparr>mem := m\<rparr>)) = n
    \<and> kused (s\<lparr>mem := m\<rparr>) = insert (frame p) (kused s) \<and> (\<forall>k < frame p. k \<in> kused s) \<and> same_above (kernel_end_physical s) (mem s) m"
proof -
  have ok: "kmemlow_ok s" using assms(1) by (simp add: low_memory_ok_def)
  have "free_blocks s \<noteq> {}" using assms(3) by auto
  then obtain f where f: "kmemlow_alloc s = (f * PAGE_SIZE, kmemlow_allocate f s)"
    "unat f < unat (total_blocks s)" "unat f < 32 * (unat (total_blocks s) div 32)" "unat f < 2 ^ 20" "f \<noteq> 0" "unat f \<notin> kused s"
    "\<forall>k < unat f. k \<in> kused s"
    using kmemlow_alloc_result [OF ok] by (auto simp: free_blocks_def)
  define p where "p = f * PAGE_SIZE"
  have p: "frame p = unat f" "unat p = 4096 * unat f" "p \<noteq> 0"
    using frame_of_block [OF f(4)] f(5) by (simp_all add: p_def PAGE_SIZE_def)
  then have al: "aligned p" by (simp add: aligned_frame)
  define m where "m = bm_allocate (mbitmap_physical s) f (mem s)"
  have st: "kmemlow_allocate f s = s\<lparr>mem := m\<rparr>" by (simp add: kmemlow_allocate_def m_def)
  have u: "kused (s\<lparr>mem := m\<rparr>) = insert (unat f) (kused s)" using kused_allocate [OF f(2)] by (simp add: st)
  have "\<not> frame p < frame (kernel_end_physical s)" using assms(1) f(6) p(1) by (auto simp: low_memory_ok_def)
  then have above: "unat (kernel_end_physical s) \<le> unat p"
    using assms(1) al by (auto simp: low_memory_ok_def aligned_frame)
  have new: "p \<notin> dom T" using assms(2) f(6) p(1) unfolding pages_def dom_def by fastforce
  have "low_memory_ok (s\<lparr>mem := m\<rparr>)" using assms(1) u by (auto simp: low_memory_ok_def kmemlow_ok_def term_ok_def)
  moreover have sa: "same_above (kernel_end_physical s) (mem s) m"
  proof -
    have "unat f < 32 * unat (bitmap_size s)" using f(2) assms(1) by (simp add: low_memory_ok_def)
    then have o: "same_outside (mbitmap_physical s) (4 * unat (bitmap_size s)) (mem s) m"
      unfolding m_def using bitmap_units [OF assms(1)] by (intro bm_same_outside) auto
    have "\<not> in_region (mbitmap_physical s) (4 * unat (bitmap_size s)) x" if "unat (kernel_end_physical s) \<le> unat x" for x
      using that assms(1) by (intro not_in_region_above) (simp add: low_memory_ok_def)
    then show ?thesis using o by (simp add: same_above_def same_outside_def)
  qed
  then have "pages (s\<lparr>mem := m\<rparr>) T" using sa assms(2) u table_same_above by (fastforce simp: pages_def)
  moreover have "free_blocks (s\<lparr>mem := m\<rparr>) = free_blocks s - {unat f}" using u by (auto simp: free_blocks_def)
  then have "card (free_blocks (s\<lparr>mem := m\<rparr>)) = n" using assms(3) f(3,6) by (simp add: free_blocks_def)
  ultimately show ?thesis using f(1) st u p al above new f(6,7) sa unfolding p_def [symmetric]
    by (intro exI [of _ p] exI [of _ m]) (simp add: p_def [symmetric])
qed

text \<open>Writing inside one of the pages.\<close>

lemma page_write:
  assumes "low_memory_ok s" "pages s T" "aligned t" "unat (kernel_end_physical s) \<le> unat t"
    and "same_outside t 4096 (mem s) m"
  shows "low_memory_ok (s\<lparr>mem := m\<rparr>) \<and> kused (s\<lparr>mem := m\<rparr>) = kused s
    \<and> (\<forall>t' f. T t' = Some f \<longrightarrow> t' \<noteq> t \<longrightarrow> table m t' f)"
proof -
  have "\<not> in_region t 4096 x" if "unat x < unat (kernel_end_physical s)" for x
  proof
    assume "in_region t 4096 x"
    then obtain k where "k < 4096" "x = t + of_nat k" by (auto simp: in_region_iff)
    then show False using page_address [OF assms(3)] assms(4) that by auto
  qed
  then have "\<forall>i < 4 * unat (bitmap_size s). m (mbitmap_physical s + of_nat i) = mem s (mbitmap_physical s + of_nat i)"
    using assms(5) bitmap_address [OF assms(1)] by (simp add: same_outside_def)
  then show ?thesis
    using low_memory_mem [OF assms(1)] assms(2,3) table_same_outside [OF assms(5)] by (fastforce simp: pages_def)
qed

lemma clear_page_pages:
  assumes "low_memory_ok s" "pages s T" "aligned t" "unat (kernel_end_physical s) \<le> unat t"
    and "t \<notin> dom T" "frame t \<in> kused s"
  shows "\<exists>m. clear_page t s = s\<lparr>mem := m\<rparr> \<and> low_memory_ok (s\<lparr>mem := m\<rparr>)
    \<and> pages (s\<lparr>mem := m\<rparr>) (T(t \<mapsto> (\<lambda>_. 0))) \<and> kused (s\<lparr>mem := m\<rparr>) = kused s \<and> same_outside t 4096 (mem s) m"
proof -
  define m where "m = memset_loop t 0 PAGE_SIZE (mem s)"
  have "clear_page t s = s\<lparr>mem := m\<rparr>"
    by (simp add: clear_page_def ki_memset_def ki_memset_loop_eq m_def)
  moreover have b: "m x = (if in_region t 4096 x then 0 else mem s x)" for x
    using memset_loop_byte [of t 0 PAGE_SIZE "mem s" x] by (simp add: m_def PAGE_SIZE_def)
  then have so: "same_outside t 4096 (mem s) m" by (simp add: same_outside_def)
  note w = page_write [OF assms(1-4) so]
  have "table m t (\<lambda>_. 0)" using b by (intro table_zero) (auto intro: in_regionI)
  then have "pages (s\<lparr>mem := m\<rparr>) (T(t \<mapsto> (\<lambda>_. 0)))"
    using w assms(2-6) by (auto simp: pages_def)
  ultimately show ?thesis using w so by blast
qed

lemma set_entry_pages:
  assumes "low_memory_ok s" "pages s T" "T t = Some f" "unat i < 1024"
  shows "\<exists>m. set_entry t i v s = s\<lparr>mem := m\<rparr> \<and> low_memory_ok (s\<lparr>mem := m\<rparr>)
    \<and> pages (s\<lparr>mem := m\<rparr>) (T(t \<mapsto> f(unat i := v))) \<and> kused (s\<lparr>mem := m\<rparr>) = kused s \<and> same_outside t 4096 (mem s) m"
proof -
  define m where "m = store32 (mem s) (elem t (unat i)) v"
  have t: "aligned t" "unat (kernel_end_physical s) \<le> unat t" "frame t \<in> kused s" "table (mem s) t f"
    using assms(2,3) by (auto simp: pages_def)
  have "set_entry t i v s = s\<lparr>mem := m\<rparr>" by (simp add: set_entry_def m_def elem_def)
  moreover have so: "same_outside t 4096 (mem s) m"
    using store32_same_outside [of "unat i" 1024 t "mem s" v] assms(4) by (simp add: m_def)
  note w = page_write [OF assms(1,2) t(1,2) so]
  have "table m t (f(unat i := v))" unfolding m_def by (rule table_store [OF t(4) assms(4)])
  then have "pages (s\<lparr>mem := m\<rparr>) (T(t \<mapsto> f(unat i := v)))" using w t assms(2) by (auto simp: pages_def)
  ultimately show ?thesis using w so by blast
qed

section \<open>The stages\<close>

text \<open>What happens between two states leaves the free blocks alone: blocks are only taken, from the
  lowest on, and the memory of the blocks that stay free is as before.\<close>

definition spares :: "'b kmemlow_scheme \<Rightarrow> 'a kmemlow_scheme \<Rightarrow> bool" where
  "spares s0 s \<longleftrightarrow> kernel_end_physical s = kernel_end_physical s0 \<and> total_blocks s = total_blocks s0 \<and> kused s0 \<subseteq> kused s
     \<and> (\<forall>j \<in> kused s - kused s0. \<forall>k. k < unat (total_blocks s) \<longrightarrow> k \<notin> kused s \<longrightarrow> j < k)
     \<and> (\<forall>x. unat (kernel_end_physical s) \<le> unat x \<longrightarrow> frame x \<notin> kused s \<longrightarrow> mem s x = mem s0 x)"

lemma spares_refl: "spares s s"
  by (simp add: spares_def)

lemma spares_write:
  assumes "spares s0 s" "kused s' = kused s" "kernel_end_physical s' = kernel_end_physical s" "total_blocks s' = total_blocks s"
    and "\<And>x. unat (kernel_end_physical s) \<le> unat x \<Longrightarrow> frame x \<notin> kused s \<Longrightarrow> mem s' x = mem s x"
  shows "spares s0 s'"
  using assms by (simp add: spares_def)

lemma spares_take:
  assumes "spares s0 s" "kused s' = insert f (kused s)" "\<forall>k < f. k \<in> kused s" "f \<notin> kused s"
    and "kernel_end_physical s' = kernel_end_physical s" "total_blocks s' = total_blocks s"
    and "\<And>x. unat (kernel_end_physical s) \<le> unat x \<Longrightarrow> mem s' x = mem s x"
  shows "spares s0 s'"
  unfolding spares_def
proof (intro conjI ballI allI impI)
  fix j k assume j: "j \<in> kused s' - kused s0" and k: "k < unat (total_blocks s')" "k \<notin> kused s'"
  show "j < k"
  proof (cases "j = f")
    case True
    have "k \<noteq> f" "\<not> k < f" using k assms(2,3) by auto
    then show ?thesis using True by simp
  next
    case False
    then show ?thesis using j k assms(1,2,6) by (auto simp: spares_def)
  qed
qed (use assms in \<open>auto simp: spares_def\<close>)

text \<open>A stage: the pages built so far, the number of free blocks left, and the state \<open>s0\<close> at the start.\<close>

definition stage :: "'b kmemlow_scheme \<Rightarrow> 'a kmemlow_scheme \<Rightarrow> nat \<Rightarrow> (u32 \<rightharpoonup> (nat \<Rightarrow> u32)) \<Rightarrow> bool" where
  "stage s0 s n T \<longleftrightarrow> low_memory_ok s \<and> pages s T \<and> card (free_blocks s) = n \<and> spares s0 s"

text \<open>Only memory and the terminal changed.\<close>

definition touched :: "'a kterm_scheme \<Rightarrow> 'a kterm_scheme \<Rightarrow> bool" where
  "touched s s' \<longleftrightarrow> (\<exists>m l x y. s' = s\<lparr>mem := m, io := l, cur_x := x, cur_y := y\<rparr>)"

lemma touchedI: "s' = s\<lparr>mem := m, io := l, cur_x := x, cur_y := y\<rparr> \<Longrightarrow> touched s s'"
  by (auto simp: touched_def)

lemma touched_mem: "touched s (s\<lparr>mem := m\<rparr>)"
  by (rule touchedI [where l = "io s" and x = "cur_x s" and y = "cur_y s"]) simp

lemma touched_trans: "touched s1 s2 \<Longrightarrow> touched s2 s3 \<Longrightarrow> touched s1 s3"
  unfolding touched_def by fastforce

lemma touched_prints: "prints s s' \<Longrightarrow> touched s s'"
  unfolding prints_def touched_def by blast

lemma stage_fields:
  fixes s :: "'a kmemlow_scheme" and s' :: "'b kmemlow_scheme"
  assumes "mem s' = mem s" "cur_x s' = cur_x s" "cur_y s' = cur_y s" "mbitmap_physical s' = mbitmap_physical s"
    "total_blocks s' = total_blocks s" "bitmap_size s' = bitmap_size s" "kernel_end_physical s' = kernel_end_physical s"
  shows "stage s0 s' n T \<longleftrightarrow> stage s0 s n T"
  by (simp add: stage_def low_memory_ok_def kmemlow_ok_def term_ok_def kused_def pages_def free_blocks_def spares_def assms)

lemma stage_updates [simp]:
  fixes s :: "'a paging_scheme"
  shows "stage s0 (s\<lparr>page_directory := v\<rparr>) n T \<longleftrightarrow> stage s0 s n T" "stage s0 (s\<lparr>first_pagetable := v\<rparr>) n T \<longleftrightarrow> stage s0 s n T"
    "stage s0 (s\<lparr>kernel_pagetable := v\<rparr>) n T \<longleftrightarrow> stage s0 s n T" "stage s0 (s\<lparr>kernel_stack_map := v\<rparr>) n T \<longleftrightarrow> stage s0 s n T"
    "stage s0 (s\<lparr>kernel_end_virtual := v\<rparr>) n T \<longleftrightarrow> stage s0 s n T"
  by (rule stage_fields; simp)+

lemma touched_updates:
  fixes s :: "'a paging_scheme"
  assumes "touched s s'"
  shows "touched (s\<lparr>page_directory := v\<rparr>) (s'\<lparr>page_directory := v\<rparr>)"
    "touched (s\<lparr>first_pagetable := v\<rparr>) (s'\<lparr>first_pagetable := v\<rparr>)"
    "touched (s\<lparr>kernel_pagetable := v\<rparr>) (s'\<lparr>kernel_pagetable := v\<rparr>)"
    "touched (s\<lparr>kernel_stack_map := v\<rparr>) (s'\<lparr>kernel_stack_map := v\<rparr>)"
    "touched (s\<lparr>kernel_end_virtual := v\<rparr>) (s'\<lparr>kernel_end_virtual := v\<rparr>)"
proof -
  obtain m l x y where "s' = s\<lparr>mem := m, io := l, cur_x := x, cur_y := y\<rparr>" using assms by (auto simp: touched_def)
  then show "touched (s\<lparr>page_directory := v\<rparr>) (s'\<lparr>page_directory := v\<rparr>)"
    "touched (s\<lparr>first_pagetable := v\<rparr>) (s'\<lparr>first_pagetable := v\<rparr>)"
    "touched (s\<lparr>kernel_pagetable := v\<rparr>) (s'\<lparr>kernel_pagetable := v\<rparr>)"
    "touched (s\<lparr>kernel_stack_map := v\<rparr>) (s'\<lparr>kernel_stack_map := v\<rparr>)"
    "touched (s\<lparr>kernel_end_virtual := v\<rparr>) (s'\<lparr>kernel_end_virtual := v\<rparr>)"
    by (auto intro!: touchedI [where m = m and l = l and x = x and y = y])
qed

text \<open>A format that prints no backspace.\<close>

definition printable :: "string \<Rightarrow> va_arg list \<Rightarrow> bool" where
  "printable str args \<longleftrightarrow> (\<exists>cs. ki_format (ascii str) args = Some cs \<and> 8 \<notin> set cs)"

lemma print_stage:
  assumes "stage s0 s n T" "printable str args"
  obtains s' where "ki_printf str args s = Some s'" "stage s0 s' n T" "touched s s'" "kused s' = kused s"
proof -
  obtain cs where cs: "ki_format (ascii str) args = Some cs" "8 \<notin> set cs" using assms(2) by (auto simp: printable_def)
  have "term_ok s" using assms(1) by (simp add: stage_def low_memory_ok_def)
  then obtain s' where s': "ki_printf str args s = Some s'" "prints s s'" using ki_printf_prints [OF _ cs] by blast
  then have "total_blocks s' = total_blocks s" by (auto simp: prints_def)
  have st: "low_memory_ok s" "pages s T" "spares s0 s" using assms(1) by (simp_all add: stage_def)
  have m: "same_outside_cells 0 2000 (mem s) (mem s')" "kernel_end_physical s' = kernel_end_physical s" using s'(2) by (auto simp: prints_def)
  have "spares s0 s'"
    by (rule spares_write [OF st(3)])
       (use prints_pages [OF st(1,2) s'(2)] m cells_below [OF m(1)] st(1) \<open>total_blocks s' = total_blocks s\<close> in \<open>auto simp: low_memory_ok_def\<close>)
  then have "stage s0 s' n T" "kused s' = kused s"
    using prints_pages [OF st(1,2) s'(2)] assms(1) \<open>total_blocks s' = total_blocks s\<close> by (auto simp: stage_def free_blocks_def)
  then show thesis using that s' touched_prints by blast
qed

lemma alloc_stage:
  assumes "stage s0 s (Suc n) T"
  obtains p m where "kmemlow_alloc s = (p, s\<lparr>mem := m\<rparr>)" "p \<noteq> 0" "aligned p" "T p = None"
    "unat (kernel_end_physical s) \<le> unat p" "frame p \<notin> kused s" "frame p \<in> kused (s\<lparr>mem := m\<rparr>)"
    "stage s0 (s\<lparr>mem := m\<rparr>) n T"
proof -
  have st: "low_memory_ok s" "pages s T" "card (free_blocks s) = Suc n" "spares s0 s" using assms by (simp_all add: stage_def)
  obtain p m where p: "kmemlow_alloc s = (p, s\<lparr>mem := m\<rparr>)" "p \<noteq> 0" "aligned p" "unat (kernel_end_physical s) \<le> unat p"
      "frame p \<notin> kused s" "p \<notin> dom T" "low_memory_ok (s\<lparr>mem := m\<rparr>)" "pages (s\<lparr>mem := m\<rparr>) T" "frame p \<in> kused (s\<lparr>mem := m\<rparr>)"
      "card (free_blocks (s\<lparr>mem := m\<rparr>)) = n" "kused (s\<lparr>mem := m\<rparr>) = insert (frame p) (kused s)" "\<forall>k < frame p. k \<in> kused s"
      "same_above (kernel_end_physical s) (mem s) m"
    using alloc_page [OF st(1-3)] by blast
  have "spares s0 (s\<lparr>mem := m\<rparr>)" by (rule spares_take [OF st(4) p(11,12,5)]) (use p(13) in \<open>simp_all add: same_above_def\<close>)
  then have "stage s0 (s\<lparr>mem := m\<rparr>) n T" using p by (simp add: stage_def)
  then show thesis using that p by (simp add: domIff)
qed

lemma alloc_stage_none:
  assumes "stage s0 s 0 T"
  shows "kmemlow_alloc s = (0, s\<lparr>kinit_errno := KMEMLOW_ERROR_ENOMEM\<rparr>)"
proof -
  have "kmemlow_ok s" "free_blocks s = {}" using assms by (auto simp: stage_def low_memory_ok_def)
  then show ?thesis using kmemlow_alloc_result [of s] by (auto simp: free_blocks_def)
qed

text \<open>Writing in a used page.\<close>

lemma spares_page:
  assumes "spares s0 s" "aligned t" "frame t \<in> kused s" "kused (s\<lparr>mem := m\<rparr>) = kused s" "same_outside t 4096 (mem s) m"
  shows "spares s0 (s\<lparr>mem := m\<rparr>)"
proof (rule spares_write [OF assms(1)])
  fix x assume x: "frame x \<notin> kused s"
  have "\<not> in_region t 4096 x"
  proof
    assume "in_region t 4096 x"
    then obtain k where k: "k < 4096" "x = t + of_nat k" by (auto simp: in_region_iff)
    then have "unat x = 4096 * frame t + k" using page_address [OF assms(2)] assms(2) by (simp add: aligned_frame)
    then have "frame x = frame t" using k(1) by (simp add: frame_def)
    then show False using x assms(3) by simp
  qed
  then show "mem (s\<lparr>mem := m\<rparr>) x = mem s x" using assms(5) by (simp add: same_outside_def)
qed (use assms(4) in simp_all)

lemma set_entry_stage:
  assumes "stage s0 s n T" "T t = Some f" "unat i < 1024"
  obtains m where "set_entry t i v s = s\<lparr>mem := m\<rparr>" "stage s0 (s\<lparr>mem := m\<rparr>) n (T(t \<mapsto> f(unat i := v)))"
proof -
  have st: "low_memory_ok s" "pages s T" "spares s0 s" using assms by (simp_all add: stage_def)
  then have t: "aligned t" "frame t \<in> kused s" using assms(2) by (auto simp: pages_def)
  obtain m where m: "set_entry t i v s = s\<lparr>mem := m\<rparr>" "low_memory_ok (s\<lparr>mem := m\<rparr>)" "pages (s\<lparr>mem := m\<rparr>) (T(t \<mapsto> f(unat i := v)))"
      "kused (s\<lparr>mem := m\<rparr>) = kused s" "same_outside t 4096 (mem s) m"
    using set_entry_pages [OF st(1,2) assms(2,3)] by blast
  have "stage s0 (s\<lparr>mem := m\<rparr>) n (T(t \<mapsto> f(unat i := v)))"
    using m spares_page [OF st(3) t m(4,5)] assms(1) by (simp add: stage_def free_blocks_def)
  then show thesis using that m(1) by blast
qed

text \<open>A new table: the block is fresh in \<open>s\<close> and was taken before \<open>s1\<close>.\<close>

lemma clear_stage:
  assumes "stage s0 s n T" "aligned t" "unat (kernel_end_physical s) \<le> unat t" "T t = None" "frame t \<in> kused s"
  obtains m where "clear_page t s = s\<lparr>mem := m\<rparr>" "stage s0 (s\<lparr>mem := m\<rparr>) n (T(t \<mapsto> (\<lambda>_. 0)))"
    "kused (s\<lparr>mem := m\<rparr>) = kused s"
proof -
  have st: "low_memory_ok s" "pages s T" "spares s0 s" "t \<notin> dom T" using assms by (simp_all add: stage_def domIff)
  obtain m where m: "clear_page t s = s\<lparr>mem := m\<rparr>" "low_memory_ok (s\<lparr>mem := m\<rparr>)" "pages (s\<lparr>mem := m\<rparr>) (T(t \<mapsto> (\<lambda>_. 0)))"
      "kused (s\<lparr>mem := m\<rparr>) = kused s" "same_outside t 4096 (mem s) m"
    using clear_page_pages [OF st(1,2) assms(2,3) st(4) assms(5)] by blast
  have "stage s0 (s\<lparr>mem := m\<rparr>) n (T(t \<mapsto> (\<lambda>_. 0)))"
    using m spares_page [OF st(3) assms(2,5) m(4,5)] assms(1) by (simp add: stage_def free_blocks_def)
  then show thesis using that m(1,4) by blast
qed

lemma touched_fields:
  fixes s :: "'a kmemlow_scheme"
  assumes "touched s s'"
  shows "kernel_end_physical s' = kernel_end_physical s" "total_blocks s' = total_blocks s"
    "mbitmap_physical s' = mbitmap_physical s" "used_blocks s' = used_blocks s"
  using assms by (auto simp: touched_def)

lemma touched_paging_fields:
  fixes s :: "'a paging_scheme"
  assumes "touched s s'"
  shows "page_directory s' = page_directory s" "first_pagetable s' = first_pagetable s"
    "kernel_pagetable s' = kernel_pagetable s" "kernel_stack_map s' = kernel_stack_map s"
    "kernel_end_virtual s' = kernel_end_virtual s" "kernel_end_physical s' = kernel_end_physical s"
  using assms by (auto simp: touched_def)

lemmas flag_defs = PTABLE_FLAG_PRESENT_def PTABLE_FLAG_USER_def

definition entry_of :: "u32 \<Rightarrow> u32" where
  "entry_of p = p OR PTABLE_FLAG_PRESENT OR PTABLE_FLAG_USER"

text \<open>One stage: take a block, announce it, clear it and enter it into the page directory.\<close>

lemma kused_fields:
  fixes s :: "'a kmemlow_scheme" and s' :: "'b kmemlow_scheme"
  shows "mem s' = mem s \<Longrightarrow> mbitmap_physical s' = mbitmap_physical s \<Longrightarrow> total_blocks s' = total_blocks s \<Longrightarrow> kused s' = kused s"
  by (simp add: kused_def)

lemma announce_stage:
  assumes "stage s0 s n T" "aligned p" "unat (kernel_end_physical s) \<le> unat p" "T p = None" "frame p \<in> kused s"
    and "printable str args"
  obtains s' m where "ki_printf str args s = Some s'" "clear_page p s' = s'\<lparr>mem := m\<rparr>"
    "stage s0 (s'\<lparr>mem := m\<rparr>) n (T(p \<mapsto> (\<lambda>_. 0)))" "touched s s'"
proof -
  obtain s' where s': "ki_printf str args s = Some s'" "stage s0 s' n T" "touched s s'" "kused s' = kused s"
    using print_stage [OF assms(1,6)] by blast
  have "unat (kernel_end_physical s') \<le> unat p" "frame p \<in> kused s'"
    using touched_fields(1) [OF s'(3)] assms(3,5) s'(4) by simp_all
  from clear_stage [OF s'(2) assms(2) this(1) assms(4) this(2)]
  obtain m where "clear_page p s' = s'\<lparr>mem := m\<rparr>" "stage s0 (s'\<lparr>mem := m\<rparr>) n (T(p \<mapsto> (\<lambda>_. 0)))" by metis
  then show thesis using that s' by blast
qed

lemma printable_plain:
  "printable (ln ''creating page directory...'') []" "printable (ln ''mapping first megabyte...'') []"
  "printable ''mapping kernel...'' []"
  "printable (ln ''page directory address: 0x%x'') [VaWord n]" "printable (ln ''page table address: 0x%x'') [VaWord n]"
  "printable (ln ''kernel page table address: 0x%x'') [VaWord n]" "printable (ln ''kernel end virtual = 0x%x'') [VaWord n]"
  using number_text_printable [of 16 n]
  by (simp_all add: printable_def ln_def ki_format_eval)

lemma create_page_directory_stage:
  assumes "stage s0 s (Suc n) Map.empty"
  shows "\<exists>s' pd. create_page_directory s = Some (0, s') \<and> touched (s\<lparr>page_directory := pd\<rparr>) s'
    \<and> pd \<noteq> 0 \<and> stage s0 s' n [pd \<mapsto> (\<lambda>_. 0)(1023 := entry_of pd)]"
proof -
  obtain s1 where s1: "ki_printf (ln ''creating page directory...'') [] s = Some s1" "stage s0 s1 (Suc n) Map.empty" "touched s s1"
    using print_stage [OF assms printable_plain(1)] by blast
  obtain pd m where a: "kmemlow_alloc s1 = (pd, s1\<lparr>mem := m\<rparr>)" "pd \<noteq> 0" "aligned pd"
    "unat (kernel_end_physical s1) \<le> unat pd" "frame pd \<in> kused (s1\<lparr>mem := m\<rparr>)" "stage s0 (s1\<lparr>mem := m\<rparr>) n Map.empty"
    using alloc_stage [OF s1(2)] by metis
  define s2 where "s2 = s1\<lparr>mem := m, page_directory := pd\<rparr>"
  have s2: "stage s0 s2 n Map.empty" "frame pd \<in> kused s2" "unat (kernel_end_physical s2) \<le> unat pd"
    using a(4-6) kused_fields [of s2 "s1\<lparr>mem := m\<rparr>"] by (simp_all add: s2_def)
  obtain s3 m4 where s3: "ki_printf (ln ''page directory address: 0x%x'') [VaWord pd] s2 = Some s3"
      "clear_page pd s3 = s3\<lparr>mem := m4\<rparr>" "stage s0 (s3\<lparr>mem := m4\<rparr>) n [pd \<mapsto> (\<lambda>_. 0)]" "touched s2 s3"
    using announce_stage [OF s2(1) a(3) s2(3) _ s2(2) printable_plain(4)] by auto
  have i: "unat (pdir_entry 0xffc00000) = 1023" by (simp add: unat_pdir_entry)
  obtain m5 where s5: "set_entry pd (pdir_entry 0xffc00000) (entry_of pd) (s3\<lparr>mem := m4\<rparr>) = s3\<lparr>mem := m5\<rparr>"
      "stage s0 (s3\<lparr>mem := m5\<rparr>) n [pd \<mapsto> (\<lambda>_. 0)(1023 := entry_of pd)]"
    using set_entry_stage [OF s3(3), of pd "\<lambda>_. 0" "pdir_entry 0xffc00000" "entry_of pd"] i by auto
  have pd3: "page_directory s3 = pd" using touched_paging_fields(1) [OF s3(4)] by (simp add: s2_def)
  have "create_page_directory s = Some (0, s3\<lparr>mem := m5\<rparr>)"
    using s1(1) a(1,2) s3(1,2) s5(1) pd3
    by (simp add: create_page_directory_def Let_def s2_def entry_of_def)
  moreover have "touched (s\<lparr>page_directory := pd\<rparr>) (s3\<lparr>mem := m5\<rparr>)"
    using touched_updates(1) [OF touched_trans [OF s1(3) touched_mem]] s3(4) touched_trans touched_mem
    unfolding s2_def by blast
  ultimately show ?thesis using a(2) s5(2) by auto
qed

lemma create_page_directory_none:
  assumes "stage s0 s 0 T"
  shows "\<exists>s'. create_page_directory s = Some (-1, s') \<and> kinit_errno s' = ERROR_PAGING_ENOMEM"
proof -
  obtain s1 where s1: "ki_printf (ln ''creating page directory...'') [] s = Some s1" "stage s0 s1 0 T"
    using print_stage [OF assms printable_plain(1)] by blast
  then show ?thesis using alloc_stage_none [OF s1(2)] by (simp add: create_page_directory_def Let_def)
qed

text \<open>The two loops fill a range of entries with a linear map.\<close>

definition linear_map :: "nat \<Rightarrow> nat \<Rightarrow> (nat \<Rightarrow> u32) \<Rightarrow> nat \<Rightarrow> u32" where
  "linear_map lo hi f = (\<lambda>i. if lo \<le> i \<and> i < hi then entry_of (of_nat (4096 * i)) else f i)"

lemma linear_map_first: "j < hi \<Longrightarrow> linear_map (Suc j) hi (f(j := entry_of (of_nat (4096 * j)))) = linear_map j hi f"
  by (auto simp: linear_map_def Suc_le_eq fun_eq_iff)

lemma linear_map_empty: "linear_map hi hi f = f"
  by (auto simp: linear_map_def fun_eq_iff)

lemma ptable_entry_page:
  assumes "j < 1024" "c AND 0x3fffff = 0"
  shows "unat (ptable_entry (c + of_nat (4096 * j))) = j"
proof -
  have m: "(0x3fffff :: u32) = mask 22" by (simp add: mask_eq_exp_minus_1)
  have "take_bit 22 c = 0" using assms(2) unfolding m by (simp only: take_bit_eq_mask)
  then have "take_bit 22 (unat c) = 0" by (metis unsigned_take_bit_eq unsigned_0)
  then have "4194304 dvd unat c" by (simp add: take_bit_eq_mod dvd_eq_mod_eq_0)
  then obtain q where q: "unat c = 4194304 * q" by (elim dvdE)
  then have "q < 1024" using unat_u32_bound [of c] by simp
  then have "unat (c + of_nat (4096 * j)) = 4194304 * q + 4096 * j"
    using q assms(1) by (subst unat_add_small) simp_all
  moreover have "(4194304 * q + 4096 * j) div 4096 mod 1024 = j"
  proof -
    have "4194304 * q + 4096 * j = 4096 * (1024 * q + j)" by simp
    then have "(4194304 * q + 4096 * j) div 4096 = 1024 * q + j" by simp
    then show ?thesis using assms(1) by simp
  qed
  ultimately show ?thesis by (simp add: unat_ptable_entry)
qed

lemma identity_loop_stage:
  "j \<le> 256 \<Longrightarrow> stage s0 s n T \<Longrightarrow> T (first_pagetable s) = Some f \<Longrightarrow>
   \<exists>s'. identity_loop (of_nat (4096 * j)) s = s' \<and> touched s s'
     \<and> stage s0 s' n (T(first_pagetable s \<mapsto> linear_map j 256 f))"
proof (induction "256 - j" arbitrary: j s T f)
  case 0
  then have j: "j = 256" by simp
  then show ?case using 0(3,4) touched_mem [of s "mem s"]
    by (simp add: identity_loop.simps [of "0x100000"] linear_map_empty map_upd_triv)
next
  case (Suc d)
  then have j: "j < 256" by simp
  then have lt: "(of_nat (4096 * j) :: u32) < 0x100000"
    by (simp only: word_less_nat_alt) (subst unat_of_nat_u32, simp_all)
  have nx: "of_nat (4096 * j) + PAGE_SIZE = (of_nat (4096 * Suc j) :: u32)" by (simp add: PAGE_SIZE_def)
  have ix: "unat (ptable_entry (of_nat (4096 * j))) = j" using ptable_entry_page [of j 0] j by simp
  obtain m where m: "set_entry (first_pagetable s) (ptable_entry (of_nat (4096 * j))) (entry_of (of_nat (4096 * j))) s = s\<lparr>mem := m\<rparr>"
    "stage s0 (s\<lparr>mem := m\<rparr>) n (T(first_pagetable s \<mapsto> f(j := entry_of (of_nat (4096 * j)))))"
    using set_entry_stage [OF Suc.prems(2,3), of "ptable_entry (of_nat (4096 * j))"] ix j by auto
  have e: "identity_loop (of_nat (4096 * j)) s = identity_loop (of_nat (4096 * Suc j)) (s\<lparr>mem := m\<rparr>)"
    using lt m(1) unfolding identity_loop.simps [of "of_nat (4096 * j)"] nx entry_of_def by simp
  have "\<exists>s'. identity_loop (of_nat (4096 * Suc j)) (s\<lparr>mem := m\<rparr>) = s' \<and> touched (s\<lparr>mem := m\<rparr>) s'
     \<and> stage s0 s' n (T(first_pagetable s \<mapsto> f(j := entry_of (of_nat (4096 * j))),
         first_pagetable s \<mapsto> linear_map (Suc j) 256 (f(j := entry_of (of_nat (4096 * j))))))"
    using Suc.hyps(1) [of "Suc j" "s\<lparr>mem := m\<rparr>", OF _ _ m(2)] Suc.hyps(2) j by simp
  then show ?case unfolding e using touched_trans [OF touched_mem] linear_map_first [OF j] by auto
qed

lemma kernel_loop_stage:
  assumes "hi \<le> 1024"
  shows "j \<le> hi \<Longrightarrow> stage s0 s n T \<Longrightarrow> T (kernel_pagetable s) = Some f \<Longrightarrow>
   kernel_end_virtual s = 0xc0000000 + of_nat (4096 * hi) \<Longrightarrow>
   \<exists>s'. kernel_loop (0xc0000000 + of_nat (4096 * j)) s = Some s' \<and> touched s s'
     \<and> stage s0 s' n (T(kernel_pagetable s \<mapsto> linear_map j hi f))"
proof (induction "hi - j" arbitrary: j s T f)
  case 0
  then have j: "j = hi" by simp
  then show ?case using 0(3-5) touched_mem [of s "mem s"]
    by (subst kernel_loop.simps) (simp add: linear_map_empty map_upd_triv)
next
  case (Suc d)
  then have j: "j < hi" "j < 1024" using assms by simp_all
  let ?i = "0xc0000000 + of_nat (4096 * j) :: u32"
  have "unat ?i = 0xc0000000 + 4096 * j" "unat (0xc0000000 + of_nat (4096 * hi) :: u32) = 0xc0000000 + 4096 * hi"
    using j assms unat_add_small [of "0xc0000000" "4096 * j"] unat_add_small [of "0xc0000000" "4096 * hi"] by simp_all
  then have lt: "?i < kernel_end_virtual s" using j Suc.prems(4) by (simp add: word_less_nat_alt)
  have nx: "?i + PAGE_SIZE = 0xc0000000 + of_nat (4096 * Suc j)" by (simp add: PAGE_SIZE_def)
  have sub: "?i - 0xc0000000 = of_nat (4096 * j)" by simp
  have ix: "unat (ptable_entry ?i) = j" using ptable_entry_page [of j "0xc0000000"] j by simp
  obtain m where m: "set_entry (kernel_pagetable s) (ptable_entry ?i) (entry_of (of_nat (4096 * j))) s = s\<lparr>mem := m\<rparr>"
    "stage s0 (s\<lparr>mem := m\<rparr>) n (T(kernel_pagetable s \<mapsto> f(j := entry_of (of_nat (4096 * j)))))"
    using set_entry_stage [OF Suc.prems(2,3), of "ptable_entry ?i"] ix j by auto
  have e: "kernel_loop ?i s = kernel_loop (0xc0000000 + of_nat (4096 * Suc j)) (s\<lparr>mem := m\<rparr>)"
    using lt m(1) unfolding kernel_loop.simps [of ?i] nx sub entry_of_def by simp
  have "\<exists>s'. kernel_loop (0xc0000000 + of_nat (4096 * Suc j)) (s\<lparr>mem := m\<rparr>) = Some s' \<and> touched (s\<lparr>mem := m\<rparr>) s'
     \<and> stage s0 s' n (T(kernel_pagetable s \<mapsto> f(j := entry_of (of_nat (4096 * j))),
         kernel_pagetable s \<mapsto> linear_map (Suc j) hi (f(j := entry_of (of_nat (4096 * j))))))"
    using Suc.hyps(1) [of "Suc j" "s\<lparr>mem := m\<rparr>", OF _ _ m(2)] Suc.hyps(2) Suc.prems(4) j by simp
  then show ?case unfolding e using touched_trans [OF touched_mem] linear_map_first [OF j(1)] by auto
qed

lemma map_first_megabyte_stage:
  assumes "stage s0 s (Suc n) [pd \<mapsto> g]" "page_directory s = pd"
  shows "\<exists>s' t. map_first_megabyte s = Some (0, s') \<and> touched (s\<lparr>first_pagetable := t\<rparr>) s' \<and> t \<noteq> pd
    \<and> stage s0 s' n [pd \<mapsto> g(0 := entry_of t), t \<mapsto> linear_map 0 256 (\<lambda>_. 0)]"
proof -
  obtain s1 where s1: "ki_printf (ln ''mapping first megabyte...'') [] s = Some s1" "stage s0 s1 (Suc n) [pd \<mapsto> g]" "touched s s1"
    using print_stage [OF assms(1) printable_plain(2)] by blast
  obtain t m where a: "kmemlow_alloc s1 = (t, s1\<lparr>mem := m\<rparr>)" "t \<noteq> 0" "aligned t" "[pd \<mapsto> g] t = None"
    "unat (kernel_end_physical s1) \<le> unat t" "frame t \<in> kused (s1\<lparr>mem := m\<rparr>)" "stage s0 (s1\<lparr>mem := m\<rparr>) n [pd \<mapsto> g]"
    using alloc_stage [OF s1(2)] by metis
  then have ne: "t \<noteq> pd" by (auto split: if_splits)
  define s2 where "s2 = s1\<lparr>mem := m, first_pagetable := t\<rparr>"
  have s2: "stage s0 s2 n [pd \<mapsto> g]" "frame t \<in> kused s2" "unat (kernel_end_physical s2) \<le> unat t"
    using a(5-7) kused_fields [of s2 "s1\<lparr>mem := m\<rparr>"] by (simp_all add: s2_def)
  obtain s3 m4 where s3: "ki_printf (ln ''page table address: 0x%x'') [VaWord t] s2 = Some s3"
      "clear_page t s3 = s3\<lparr>mem := m4\<rparr>" "stage s0 (s3\<lparr>mem := m4\<rparr>) n [pd \<mapsto> g, t \<mapsto> (\<lambda>_. 0)]" "touched s2 s3"
    using announce_stage [OF s2(1) a(3) s2(3) a(4) s2(2) printable_plain(5)] by metis
  have i: "unat (pdir_entry 0) = 0" by (simp add: unat_pdir_entry)
  obtain m5 where s5: "set_entry pd (pdir_entry 0) (entry_of t) (s3\<lparr>mem := m4\<rparr>) = s3\<lparr>mem := m5\<rparr>"
      "stage s0 (s3\<lparr>mem := m5\<rparr>) n [pd \<mapsto> g(0 := entry_of t), t \<mapsto> (\<lambda>_. 0)]"
    using set_entry_stage [OF s3(3), of pd g "pdir_entry 0" "entry_of t"] i ne by (auto simp: fun_upd_twist)
  have fields: "page_directory s3 = pd" "first_pagetable s3 = t"
    using touched_paging_fields [OF s3(4)] touched_paging_fields [OF s1(3)] assms(2) by (simp_all add: s2_def)
  obtain s6 where s6: "identity_loop 0 (s3\<lparr>mem := m5\<rparr>) = s6" "touched (s3\<lparr>mem := m5\<rparr>) s6"
      "stage s0 s6 n [pd \<mapsto> g(0 := entry_of t), t \<mapsto> linear_map 0 256 (\<lambda>_. 0)]"
    using identity_loop_stage [OF _ s5(2), of 0 "\<lambda>_. 0"] fields by auto
  have "map_first_megabyte s = Some (0, s6)"
    using s1(1) a(1,2) s3(1,2) s5(1) s6(1) fields
    by (simp add: map_first_megabyte_def Let_def s2_def entry_of_def)
  moreover have "touched (s\<lparr>first_pagetable := t\<rparr>) s6"
    using touched_updates(2) [OF touched_trans [OF s1(3) touched_mem]] s3(4) s6(2) touched_trans touched_mem
    unfolding s2_def by blast
  ultimately show ?thesis using ne s6(3) by blast
qed

lemma map_kernel_stage:
  assumes "stage s0 s (Suc n) T" "page_directory s = pd" "T pd = Some g" "frame (kernel_end_physical s) \<le> 1024"
  shows "\<exists>s' t. map_kernel s = Some (0, s') \<and> T t = None
    \<and> touched (s\<lparr>kernel_pagetable := t, kernel_end_virtual := kernel_end_physical s + 0xc0000000\<rparr>) s'
    \<and> stage s0 s' n (T(pd \<mapsto> g(768 := entry_of t), t \<mapsto> linear_map 256 (frame (kernel_end_physical s)) (\<lambda>_. 0)))"
proof -
  let ?e = "kernel_end_physical s"
  have e: "aligned ?e" "0x100000 \<le> unat ?e" using assms(1) by (auto simp: stage_def low_memory_ok_def)
  then have "unat ?e = 4096 * frame ?e" using aligned_frame by blast
  then have ee: "?e + 0xc0000000 = 0xc0000000 + of_nat (4096 * frame ?e)" "256 \<le> frame ?e"
    using e(2) by (metis add.commute word_of_nat_unat_u32, linarith)
  obtain s1 where s1: "ki_printf ''mapping kernel...'' [] s = Some s1" "stage s0 s1 (Suc n) T" "touched s s1"
    using print_stage [OF assms(1) printable_plain(3)] by blast
  obtain t m where a: "kmemlow_alloc s1 = (t, s1\<lparr>mem := m\<rparr>)" "t \<noteq> 0" "aligned t" "T t = None"
    "unat (kernel_end_physical s1) \<le> unat t" "frame t \<in> kused (s1\<lparr>mem := m\<rparr>)" "stage s0 (s1\<lparr>mem := m\<rparr>) n T"
    using alloc_stage [OF s1(2)] by metis
  then have ne: "t \<noteq> pd" using assms(3) by auto
  define s2 where "s2 = s1\<lparr>mem := m, kernel_pagetable := t\<rparr>"
  have s2: "stage s0 s2 n T" "frame t \<in> kused s2" "unat (kernel_end_physical s2) \<le> unat t"
    using a(5-7) kused_fields [of s2 "s1\<lparr>mem := m\<rparr>"] by (simp_all add: s2_def)
  obtain s3 m4 where s3: "ki_printf (ln ''kernel page table address: 0x%x'') [VaWord t] s2 = Some s3"
      "clear_page t s3 = s3\<lparr>mem := m4\<rparr>" "stage s0 (s3\<lparr>mem := m4\<rparr>) n (T(t \<mapsto> (\<lambda>_. 0)))" "touched s2 s3"
    using announce_stage [OF s2(1) a(3) s2(3) a(4) s2(2) printable_plain(6)] by metis
  have i: "unat (pdir_entry 0xc0100000) = 768" by (simp add: unat_pdir_entry)
  obtain m5 where s5: "set_entry pd (pdir_entry 0xc0100000) (entry_of t) (s3\<lparr>mem := m4\<rparr>) = s3\<lparr>mem := m5\<rparr>"
      "stage s0 (s3\<lparr>mem := m5\<rparr>) n (T(pd \<mapsto> g(768 := entry_of t), t \<mapsto> (\<lambda>_. 0)))"
    using set_entry_stage [OF s3(3), of pd g "pdir_entry 0xc0100000" "entry_of t"] i ne assms(3)
    by (auto simp: fun_upd_twist)
  have fields: "page_directory s3 = pd" "kernel_pagetable s3 = t" "kernel_end_physical s3 = ?e"
    using touched_paging_fields [OF s3(4)] touched_paging_fields [OF s1(3)] assms(2) by (simp_all add: s2_def)
  define s6 where "s6 = s3\<lparr>mem := m5, kernel_end_virtual := ?e + 0xc0000000\<rparr>"
  have st6: "stage s0 s6 n (T(pd \<mapsto> g(768 := entry_of t), t \<mapsto> (\<lambda>_. 0)))" using s5(2) by (simp add: s6_def)
  obtain s7 where s7: "ki_printf (ln ''kernel end virtual = 0x%x'') [VaWord (?e + 0xc0000000)] s6 = Some s7"
      "stage s0 s7 n (T(pd \<mapsto> g(768 := entry_of t), t \<mapsto> (\<lambda>_. 0)))" "touched s6 s7"
    using print_stage [OF st6 printable_plain(7)] by blast
  have f7: "kernel_end_virtual s7 = 0xc0000000 + of_nat (4096 * frame ?e)" "kernel_pagetable s7 = t"
    using touched_paging_fields [OF s7(3)] fields ee(1) by (simp_all add: s6_def)
  obtain s8 where s8: "kernel_loop 0xc0100000 s7 = Some s8" "touched s7 s8"
      "stage s0 s8 n (T(pd \<mapsto> g(768 := entry_of t), t \<mapsto> linear_map 256 (frame ?e) (\<lambda>_. 0)))"
    using kernel_loop_stage [OF assms(4) ee(2) s7(2), of "\<lambda>_. 0"] f7 by auto
  have "map_kernel s = Some (0, s8)"
    using s1(1) a(1,2) s3(1,2) s5(1) s7(1) s8(1) fields
    by (simp add: map_kernel_def Let_def s2_def s6_def entry_of_def kmemlow_get_kernel_endptr_def)
  moreover have "touched (s\<lparr>kernel_pagetable := t, kernel_end_virtual := ?e + 0xc0000000\<rparr>) s8"
  proof -
    have "touched (s\<lparr>kernel_pagetable := t\<rparr>) (s3\<lparr>mem := m5\<rparr>)"
      using touched_updates(3) [OF touched_trans [OF s1(3) touched_mem]] s3(4) touched_trans touched_mem
      unfolding s2_def by blast
    from touched_updates(5) [OF this] have "touched (s\<lparr>kernel_pagetable := t, kernel_end_virtual := ?e + 0xc0000000\<rparr>) s6"
      by (simp add: s6_def)
    then show ?thesis using s7(3) s8(2) touched_trans by blast
  qed
  ultimately show ?thesis using a(4) s8(3) by blast
qed

lemma create_new_kernel_stack_stage:
  assumes "stage s0 s (Suc (Suc n)) T" "page_directory s = pd" "T pd = Some g"
  shows "\<exists>s' ts sb. create_new_kernel_stack s = (0, s') \<and> T ts = None \<and> T sb = None \<and> sb \<noteq> ts
    \<and> touched (s\<lparr>kernel_stack_map := ts\<rparr>) s'
    \<and> stage s0 s' n (T(pd \<mapsto> g(1022 := entry_of ts), ts \<mapsto> (\<lambda>_. 0)(1023 := entry_of sb), sb \<mapsto> (\<lambda>_. 0)))"
proof -
  obtain ts m where a: "kmemlow_alloc s = (ts, s\<lparr>mem := m\<rparr>)" "ts \<noteq> 0" "aligned ts" "T ts = None"
    "unat (kernel_end_physical s) \<le> unat ts" "frame ts \<in> kused (s\<lparr>mem := m\<rparr>)" "stage s0 (s\<lparr>mem := m\<rparr>) (Suc n) T"
    using alloc_stage [OF assms(1)] by metis
  define s1 where "s1 = s\<lparr>mem := m, kernel_stack_map := ts\<rparr>"
  have s1: "stage s0 s1 (Suc n) T" "frame ts \<in> kused s1" using a(6,7) kused_fields [of s1 "s\<lparr>mem := m\<rparr>"] by (simp_all add: s1_def)
  obtain sb m2 where b: "kmemlow_alloc s1 = (sb, s1\<lparr>mem := m2\<rparr>)" "sb \<noteq> 0" "aligned sb" "T sb = None"
    "unat (kernel_end_physical s1) \<le> unat sb" "frame sb \<notin> kused s1" "frame sb \<in> kused (s1\<lparr>mem := m2\<rparr>)"
    "stage s0 (s1\<lparr>mem := m2\<rparr>) n T" "frame ts \<in> kused (s1\<lparr>mem := m2\<rparr>)"
  proof -
    obtain p m' where p: "kmemlow_alloc s1 = (p, s1\<lparr>mem := m'\<rparr>)" "p \<noteq> 0" "aligned p" "T p = None"
      "unat (kernel_end_physical s1) \<le> unat p" "frame p \<notin> kused s1" "frame p \<in> kused (s1\<lparr>mem := m'\<rparr>)"
      "stage s0 (s1\<lparr>mem := m'\<rparr>) n T" using alloc_stage [OF s1(1)] by metis
    have "kmemlow_ok s1" using s1(1) by (simp add: stage_def low_memory_ok_def)
    then have "kused (s1\<lparr>mem := m'\<rparr>) = insert (frame p) (kused s1)" using low.alloc_block p(1,2) by blast
    then show thesis using that [OF p] s1(2) by simp
  qed
  have ne: "sb \<noteq> ts" using b(6) s1(2) by auto
  have ne': "ts \<noteq> pd" "sb \<noteq> pd" using a(4) b(4) assms(3) by auto
  define s2 where "s2 = s1\<lparr>mem := m2\<rparr>"
  have k2: "unat (kernel_end_physical s2) \<le> unat ts" "unat (kernel_end_physical s2) \<le> unat sb"
    using a(5) b(5) by (simp_all add: s2_def s1_def)
  obtain m3 where c3: "clear_page ts s2 = s2\<lparr>mem := m3\<rparr>" "stage s0 (s2\<lparr>mem := m3\<rparr>) n (T(ts \<mapsto> (\<lambda>_. 0)))"
      "kused (s2\<lparr>mem := m3\<rparr>) = kused s2"
    using clear_stage [OF b(8) [folded s2_def] a(3) k2(1) a(4) b(9) [folded s2_def]] by metis
  have "frame sb \<in> kused (s2\<lparr>mem := m3\<rparr>)" "unat (kernel_end_physical (s2\<lparr>mem := m3\<rparr>)) \<le> unat sb" "(T(ts \<mapsto> (\<lambda>_. 0))) sb = None"
    using b(4,7) c3(3) k2(2) ne by (simp_all add: s2_def)
  from clear_stage [OF c3(2) b(3) this(2,3,1)]
  obtain m4 where "clear_page sb (s2\<lparr>mem := m3\<rparr>) = s2\<lparr>mem := m3\<rparr>\<lparr>mem := m4\<rparr>"
      "stage s0 (s2\<lparr>mem := m3\<rparr>\<lparr>mem := m4\<rparr>) n (T(ts \<mapsto> (\<lambda>_. 0), sb \<mapsto> (\<lambda>_. 0)))" by metis
  then have c4: "clear_page sb (s2\<lparr>mem := m3\<rparr>) = s2\<lparr>mem := m4\<rparr>"
      "stage s0 (s2\<lparr>mem := m4\<rparr>) n (T(ts \<mapsto> (\<lambda>_. 0), sb \<mapsto> (\<lambda>_. 0)))" by simp_all
  have i: "unat (pdir_entry KERNEL_STACK_MAPPING) = 1022" "unat (ptable_entry KERNEL_STACK_MAPPING) = 1023"
    by (simp_all add: unat_pdir_entry unat_ptable_entry KERNEL_STACK_MAPPING_def PAGE_DIRECTORY_MAPPING_def PAGE_SIZE_def)
  obtain m5 where s5: "set_entry pd (pdir_entry KERNEL_STACK_MAPPING) (entry_of ts) (s2\<lparr>mem := m4\<rparr>) = s2\<lparr>mem := m5\<rparr>"
      "stage s0 (s2\<lparr>mem := m5\<rparr>) n (T(ts \<mapsto> (\<lambda>_. 0), sb \<mapsto> (\<lambda>_. 0), pd \<mapsto> g(1022 := entry_of ts)))"
    using set_entry_stage [OF c4(2), of pd g "pdir_entry KERNEL_STACK_MAPPING" "entry_of ts"] i ne' assms(3) by auto
  obtain m6 where s6: "set_entry ts (ptable_entry KERNEL_STACK_MAPPING) (entry_of sb) (s2\<lparr>mem := m5\<rparr>) = s2\<lparr>mem := m6\<rparr>"
      "stage s0 (s2\<lparr>mem := m6\<rparr>) n (T(ts \<mapsto> (\<lambda>_. 0), sb \<mapsto> (\<lambda>_. 0), pd \<mapsto> g(1022 := entry_of ts),
          ts \<mapsto> (\<lambda>_. 0)(1023 := entry_of sb)))"
    using set_entry_stage [OF s5(2), of ts "\<lambda>_. 0" "ptable_entry KERNEL_STACK_MAPPING" "entry_of sb"] i ne ne' by auto
  have T: "T(ts \<mapsto> (\<lambda>_. 0), sb \<mapsto> (\<lambda>_. 0), pd \<mapsto> g(1022 := entry_of ts), ts \<mapsto> (\<lambda>_. 0)(1023 := entry_of sb))
      = T(pd \<mapsto> g(1022 := entry_of ts), ts \<mapsto> (\<lambda>_. 0)(1023 := entry_of sb), sb \<mapsto> (\<lambda>_. 0))"
    using ne ne' by (auto simp: fun_eq_iff)
  have "create_new_kernel_stack s = (0, s2\<lparr>mem := m6\<rparr>)"
    using a(1,2) b(1,2) c3(1) c4(1) s5(1) s6(1) assms(2)
    by (simp add: create_new_kernel_stack_def Let_def s2_def s1_def entry_of_def)
  moreover have "touched (s\<lparr>kernel_stack_map := ts\<rparr>) (s2\<lparr>mem := m6\<rparr>)"
    using touched_updates(4) [OF touched_mem [of s m]] touched_trans touched_mem unfolding s2_def s1_def by blast
  ultimately show ?thesis using a(4) b(4) ne s6(2) unfolding T by blast
qed

section \<open>The address space\<close>

text \<open>
  What the tables should mean: the first megabyte is itself, the kernel is mapped at 3 GB plus its
  physical address, the page below the top 4 MB is the stack, and in the top 4 MB page number
  \<open>i\<close> is the page table that serves directory entry \<open>i\<close>.
\<close>

definition kernel_map :: "u32 \<Rightarrow> u32 \<Rightarrow> u32 \<Rightarrow> u32 \<Rightarrow> u32 \<Rightarrow> u32 \<Rightarrow> u32 \<Rightarrow> u32 option" where
  "kernel_map pd t1 tk ts sb kend va =
     (let off = va AND 0xfff
      in if va < 0x100000 then Some va
         else if 0xc0100000 \<le> va \<and> va < 0xc0000000 + kend then Some (va - 0xc0000000)
         else if 0xffbff000 \<le> va \<and> va < 0xffc00000 then Some (sb + off)
         else if 0xffc00000 \<le> va then
           (let i = ptable_entry va
            in if i = 0 then Some (t1 + off) else if i = 768 then Some (tk + off)
               else if i = 1022 then Some (ts + off) else if i = 1023 then Some (pd + off) else None)
         else None)"

lemma entry_of_bits: "bit (entry_of p) 0" "aligned p \<Longrightarrow> entry_of p AND NOT 0xfff = p"
  using aligned_flags [of p "5"] by (simp_all add: entry_of_def flag_defs bit_or_iff or.assoc)

lemma aligned_of_nat: "i < 2 ^ 20 \<Longrightarrow> aligned (of_nat (4096 * i))"
  by (simp add: aligned_def unat_of_nat del: of_nat_mult)

lemma walk_entry:
  "table m t f \<Longrightarrow> i < 1024 \<Longrightarrow> f i = 0 \<Longrightarrow> walk_step m t i = None"
  "table m t f \<Longrightarrow> i < 1024 \<Longrightarrow> f i = entry_of p \<Longrightarrow> aligned p \<Longrightarrow> walk_step m t i = Some p"
  by (simp add: walk_step_table) (simp only: walk_step_table entry_of_bits if_True)

definition directory :: "u32 \<Rightarrow> u32 \<Rightarrow> u32 \<Rightarrow> u32 \<Rightarrow> nat \<Rightarrow> u32" where
  "directory pd t1 tk ts = (\<lambda>_. 0)(1023 := entry_of pd, 0 := entry_of t1, 768 := entry_of tk, 1022 := entry_of ts)"

lemma translate_tables:
  assumes T: "table m pd (directory pd t1 tk ts)" "table m t1 (linear_map 0 256 (\<lambda>_. 0))"
    "table m tk (linear_map 256 (frame kend) (\<lambda>_. 0))" "table m ts ((\<lambda>_. 0)(1023 := entry_of sb))"
    and al: "aligned pd" "aligned t1" "aligned tk" "aligned ts" "aligned sb" "aligned kend"
    and fk: "frame kend \<le> 1024"
  shows "translate m pd va = kernel_map pd t1 tk ts sb kend va"
proof -
  define d p off where "d = unat va div 2 ^ 22" and "p = unat va div 2 ^ 12 mod 1024" and "off = va AND 0xfff"
  have b: "d < 1024" "p < 1024" "unat off < 4096"
    using pdir_bound [of va] unat_page_offset [of va] by (simp_all add: d_def p_def off_def)
  have va: "unat va = 4194304 * d + 4096 * p + unat off"
    using va_split [of va] by (simp add: d_def p_def off_def)
  have va': "va = of_nat (4194304 * d) + of_nat (4096 * p) + off"
    unfolding of_nat_add [symmetric] using va by (metis of_nat_add word_of_nat_unat_u32)
  have ke: "unat kend = 4096 * frame kend" using al(6) aligned_frame by blast
  then have ku: "unat (0xc0000000 + kend) = 0xc0000000 + 4096 * frame kend"
  proof -
    have "unat kend \<le> 4194304" using ke fk by linarith
    then have "unat (0xc0000000 + kend) = 0xc0000000 + unat kend"
      using unat_add_small [of "0xc0000000" "unat kend"] by simp
    then show ?thesis using ke by simp
  qed
  have pe: "ptable_entry va = of_nat p"
    using unat_ptable_entry [of va] by (metis p_def word_of_nat_unat_u32)
  have pi: "(of_nat p :: u32) = of_nat k \<longleftrightarrow> p = k" if "k < 1024" for k using b(2) that by simp
  have tr: "translate m pd va = Option.bind (walk_step m pd d) (\<lambda>t. Option.bind (walk_step m t p) (\<lambda>q. Some (q + off)))"
    by (simp add: translate_def d_def p_def off_def)
  note cmp = word_less_nat_alt word_le_nat_alt ku
  have K: "kernel_map pd t1 tk ts sb kend va =
     (if d = 0 \<and> p < 256 then Some va
      else if d = 768 \<and> 256 \<le> p \<and> p < frame kend then Some (va - 0xc0000000)
      else if d = 1022 \<and> p = 1023 then Some (sb + off)
      else if d = 1023 then
        (if p = 0 then Some (t1 + off) else if p = 768 then Some (tk + off)
         else if p = 1022 then Some (ts + off) else if p = 1023 then Some (pd + off) else None)
      else None)"
  proof -
    have c1: "va < 0x100000 \<longleftrightarrow> d = 0 \<and> p < 256" unfolding cmp using va b by auto
    have c2: "0xc0100000 \<le> va \<and> va < 0xc0000000 + kend \<longleftrightarrow> d = 768 \<and> 256 \<le> p \<and> p < frame kend"
      by (cases "d = 768"; unfold cmp; use va b fk in auto)
    have c3: "0xffbff000 \<le> va \<and> va < 0xffc00000 \<longleftrightarrow> d = 1022 \<and> p = 1023"
      by (cases "d = 1022"; unfold cmp; use va b in auto)
    have c4: "0xffc00000 \<le> va \<longleftrightarrow> d = 1023" unfolding cmp using va b by auto
    show ?thesis using pi [of 0] pi [of 768] pi [of 1022] pi [of 1023]
      by (simp add: kernel_map_def c1 c2 c3 c4 pe off_def [symmetric])
  qed
  note W = walk_entry(1) [OF _ b(2)] walk_entry(2) [OF _ b(2)]
  consider "d = 0" | "d = 768" | "d = 1022" | "d = 1023" | "d \<notin> {0, 768, 1022, 1023}" by blast
  then show ?thesis
  proof cases
    case 1
    have w: "walk_step m pd d = Some t1" using walk_entry(2) [OF T(1) b(1) _ al(2)] 1 by (simp add: directory_def)
    have "walk_step m t1 p = (if p < 256 then Some (of_nat (4096 * p)) else None)"
      using W(1) [OF T(2)] W(2) [OF T(2) _ aligned_of_nat, of p] b(2) by (simp add: linear_map_def)
    then show ?thesis using tr w K va' 1 by simp
  next
    case 2
    have w: "walk_step m pd d = Some tk" using walk_entry(2) [OF T(1) b(1) _ al(3)] 2 by (simp add: directory_def)
    have "walk_step m tk p = (if 256 \<le> p \<and> p < frame kend then Some (of_nat (4096 * p)) else None)"
      using W(1) [OF T(3)] W(2) [OF T(3) _ aligned_of_nat, of p] b(2)
      by (cases "256 \<le> p \<and> p < frame kend") (auto simp: linear_map_def)
    moreover have "va - 0xc0000000 = of_nat (4096 * p) + off" using va' 2 by simp
    ultimately show ?thesis using tr w K 2 by simp
  next
    case 3
    have w: "walk_step m pd d = Some ts" using walk_entry(2) [OF T(1) b(1) _ al(4)] 3 by (simp add: directory_def)
    have "walk_step m ts p = (if p = 1023 then Some sb else None)"
      using W(1) [OF T(4)] W(2) [OF T(4) _ al(5)] by (cases "p = 1023") auto
    then show ?thesis using tr w K 3 by simp
  next
    case 4
    have w: "walk_step m pd d = Some pd" using walk_entry(2) [OF T(1) b(1) _ al(1)] 4 by (simp add: directory_def)
    have "walk_step m pd p = (if p = 0 then Some t1 else if p = 768 then Some tk
         else if p = 1022 then Some ts else if p = 1023 then Some pd else None)"
      using W(1) [OF T(1)] W(2) [OF T(1) _ al(1)] W(2) [OF T(1) _ al(2)] W(2) [OF T(1) _ al(3)] W(2) [OF T(1) _ al(4)]
      by (cases "p = 0"; cases "p = 768"; cases "p = 1022"; cases "p = 1023") (auto simp: directory_def)
    then show ?thesis using tr w K 4 by simp
  next
    case 5
    then have "walk_step m pd d = None" using walk_entry(1) [OF T(1) b(1)] by (simp add: directory_def)
    then show ?thesis using tr K 5 by simp
  qed
qed

text \<open>All five pages of the finished address space.\<close>

definition kernel_tables :: "u32 \<Rightarrow> u32 \<Rightarrow> u32 \<Rightarrow> u32 \<Rightarrow> u32 \<Rightarrow> nat \<Rightarrow> u32 \<rightharpoonup> (nat \<Rightarrow> u32)" where
  "kernel_tables pd t1 tk ts sb n = [pd \<mapsto> directory pd t1 tk ts, t1 \<mapsto> linear_map 0 256 (\<lambda>_. 0),
     tk \<mapsto> linear_map 256 n (\<lambda>_. 0), ts \<mapsto> (\<lambda>_. 0)(1023 := entry_of sb), sb \<mapsto> (\<lambda>_. 0)]"

lemma translate_stage:
  assumes "stage s0 s n (kernel_tables pd t1 tk ts sb (frame (kernel_end_physical s)))" "distinct [pd, t1, tk, ts, sb]"
    and "frame (kernel_end_physical s) \<le> 1024"
  shows "translate (mem s) pd va = kernel_map pd t1 tk ts sb (kernel_end_physical s) va"
proof -
  have P: "kernel_tables pd t1 tk ts sb (frame (kernel_end_physical s)) t = Some f \<Longrightarrow> aligned t \<and> table (mem s) t f" for t f
    using assms(1) unfolding stage_def pages_def by blast
  have e: "aligned (kernel_end_physical s)" using assms(1) by (simp add: stage_def low_memory_ok_def)
  show ?thesis
    using P [of pd] P [of t1] P [of tk] P [of ts] P [of sb] e assms(2,3)
    by (intro translate_tables) (auto simp: kernel_tables_def)
qed

section \<open>All stages\<close>

lemma ki_setup_paging_result:
  assumes "stage s0 s n Map.empty" "5 \<le> n" "frame (kernel_end_physical s) \<le> 1024"
  shows "\<exists>s' t1 tk ts sb. ki_setup_paging s = Some (0, s')
    \<and> kernel_end_virtual s' = kernel_end_physical s + 0xc0000000
    \<and> kernel_end_physical s' = kernel_end_physical s \<and> mbitmap_physical s' = mbitmap_physical s
    \<and> total_blocks s' = total_blocks s \<and> used_blocks s' = used_blocks s
    \<and> distinct [page_directory s', t1, tk, ts, sb]
    \<and> stage s0 s' (n - 5) [page_directory s' \<mapsto> directory (page_directory s') t1 tk ts, t1 \<mapsto> linear_map 0 256 (\<lambda>_. 0),
         tk \<mapsto> linear_map 256 (frame (kernel_end_physical s)) (\<lambda>_. 0), ts \<mapsto> (\<lambda>_. 0)(1023 := entry_of sb), sb \<mapsto> (\<lambda>_. 0)]"
proof -
  define k where "k = n - 5"
  have n: "n = Suc (Suc (Suc (Suc (Suc k))))" using assms(2) by (simp add: k_def)
  let ?e = "kernel_end_physical s"
  obtain s1 pd where s1: "create_page_directory s = Some (0, s1)" "touched (s\<lparr>page_directory := pd\<rparr>) s1"
    "stage s0 s1 (Suc (Suc (Suc (Suc k)))) [pd \<mapsto> (\<lambda>_. 0)(1023 := entry_of pd)]"
    using create_page_directory_stage [OF assms(1) [unfolded n]] by blast
  have f1: "page_directory s1 = pd" "kernel_end_physical s1 = ?e" using touched_paging_fields [OF s1(2)] by simp_all
  obtain s2 t1 where s2: "map_first_megabyte s1 = Some (0, s2)" "touched (s1\<lparr>first_pagetable := t1\<rparr>) s2" "t1 \<noteq> pd"
    "stage s0 s2 (Suc (Suc (Suc k))) [pd \<mapsto> (\<lambda>_. 0)(1023 := entry_of pd, 0 := entry_of t1), t1 \<mapsto> linear_map 0 256 (\<lambda>_. 0)]"
    using map_first_megabyte_stage [OF s1(3) f1(1)] by blast
  have f2: "page_directory s2 = pd" "kernel_end_physical s2 = ?e" using touched_paging_fields [OF s2(2)] f1 by simp_all
  define T2 where "T2 = [pd \<mapsto> (\<lambda>_. 0)(1023 := entry_of pd, 0 := entry_of t1), t1 \<mapsto> linear_map 0 256 (\<lambda>_. 0)]"
  have T2: "T2 pd = Some ((\<lambda>_. 0)(1023 := entry_of pd, 0 := entry_of t1))" using s2(3) by (simp add: T2_def)
  obtain s3 tk where s3: "map_kernel s2 = Some (0, s3)" "T2 tk = None"
    "touched (s2\<lparr>kernel_pagetable := tk, kernel_end_virtual := ?e + 0xc0000000\<rparr>) s3"
    "stage s0 s3 (Suc (Suc k)) (T2(pd \<mapsto> (\<lambda>_. 0)(1023 := entry_of pd, 0 := entry_of t1, 768 := entry_of tk),
       tk \<mapsto> linear_map 256 (frame ?e) (\<lambda>_. 0)))"
    using map_kernel_stage [OF s2(4) [folded T2_def] f2(1) T2, unfolded f2(2), OF assms(3)] by blast
  have f3: "page_directory s3 = pd" "kernel_end_virtual s3 = ?e + 0xc0000000"
    using touched_paging_fields [OF s3(3)] f2 by simp_all
  have n3: "tk \<noteq> pd" "tk \<noteq> t1" using s3(2) s2(3) by (auto simp: T2_def)
  define T3 where "T3 = T2(pd \<mapsto> (\<lambda>_. 0)(1023 := entry_of pd, 0 := entry_of t1, 768 := entry_of tk),
       tk \<mapsto> linear_map 256 (frame ?e) (\<lambda>_. 0))"
  have T3: "T3 pd = Some ((\<lambda>_. 0)(1023 := entry_of pd, 0 := entry_of t1, 768 := entry_of tk))"
    using n3 by (simp add: T3_def)
  obtain s4 ts sb where s4: "create_new_kernel_stack s3 = (0, s4)" "T3 ts = None" "T3 sb = None" "sb \<noteq> ts"
    "touched (s3\<lparr>kernel_stack_map := ts\<rparr>) s4"
    "stage s0 s4 k (T3(pd \<mapsto> directory pd t1 tk ts, ts \<mapsto> (\<lambda>_. 0)(1023 := entry_of sb), sb \<mapsto> (\<lambda>_. 0)))"
    using create_new_kernel_stack_stage [OF s3(4) [folded T3_def] f3(1) T3] unfolding directory_def by blast
  have f4: "page_directory s4 = pd" "kernel_end_virtual s4 = ?e + 0xc0000000"
    using touched_paging_fields [OF s4(5)] f3 by simp_all
  have d: "distinct [pd, t1, tk, ts, sb]" using s2(3) n3 s4(2-4) by (auto simp: T3_def T2_def)
  have "T3(pd \<mapsto> directory pd t1 tk ts, ts \<mapsto> (\<lambda>_. 0)(1023 := entry_of sb), sb \<mapsto> (\<lambda>_. 0))
    = [pd \<mapsto> directory pd t1 tk ts, t1 \<mapsto> linear_map 0 256 (\<lambda>_. 0), tk \<mapsto> linear_map 256 (frame ?e) (\<lambda>_. 0),
       ts \<mapsto> (\<lambda>_. 0)(1023 := entry_of sb), sb \<mapsto> (\<lambda>_. 0)]"
    using d by (auto simp: T3_def T2_def fun_eq_iff)
  moreover have "ki_setup_paging s = Some (0, s4)"
    using s1(1) s2(1) s3(1) s4(1) by (simp add: ki_setup_paging_def Let_def)
  moreover have "kernel_end_physical s4 = ?e \<and> mbitmap_physical s4 = mbitmap_physical s
      \<and> total_blocks s4 = total_blocks s \<and> used_blocks s4 = used_blocks s"
    using touched_fields [OF s1(2)] touched_fields [OF s2(2)] touched_fields [OF s3(3)] touched_fields [OF s4(5)] by simp
  ultimately show ?thesis using s4(6) f4 d by (auto simp: k_def)
qed

text \<open>Each stage gives up without a block.\<close>

lemma map_first_megabyte_none:
  assumes "stage s0 s 0 T"
  shows "\<exists>s'. map_first_megabyte s = Some (-1, s') \<and> kinit_errno s' = ERROR_PAGING_ENOMEM"
proof -
  obtain s1 where s1: "ki_printf (ln ''mapping first megabyte...'') [] s = Some s1" "stage s0 s1 0 T"
    using print_stage [OF assms printable_plain(2)] by blast
  then show ?thesis using alloc_stage_none [OF s1(2)] by (simp add: map_first_megabyte_def Let_def)
qed

lemma map_kernel_none:
  assumes "stage s0 s 0 T"
  shows "\<exists>s'. map_kernel s = Some (-1, s') \<and> kinit_errno s' = ERROR_PAGING_ENOMEM"
proof -
  obtain s1 where s1: "ki_printf ''mapping kernel...'' [] s = Some s1" "stage s0 s1 0 T"
    using print_stage [OF assms printable_plain(3)] by blast
  then show ?thesis using alloc_stage_none [OF s1(2)] by (simp add: map_kernel_def Let_def)
qed

lemma create_new_kernel_stack_none:
  assumes "stage s0 s n T" "n < 2"
  shows "\<exists>s'. create_new_kernel_stack s = (-1, s') \<and> kinit_errno s' = ERROR_PAGING_ENOMEM"
proof (cases n)
  case 0
  from alloc_stage_none [OF assms(1) [unfolded 0]] show ?thesis by (simp add: create_new_kernel_stack_def Let_def)
next
  case (Suc k)
  then have k: "n = Suc 0" using assms(2) by simp
  obtain p m where a: "kmemlow_alloc s = (p, s\<lparr>mem := m\<rparr>)" "p \<noteq> 0" "stage s0 (s\<lparr>mem := m\<rparr>) 0 T"
    using alloc_stage [OF assms(1) [unfolded k]] by metis
  then have "stage s0 (s\<lparr>mem := m, kernel_stack_map := p\<rparr>) 0 T" by simp
  from alloc_stage_none [OF this] show ?thesis using a by (simp add: create_new_kernel_stack_def Let_def)
qed

lemma ki_setup_paging_none:
  assumes "stage s0 s n Map.empty" "n < 5" "frame (kernel_end_physical s) \<le> 1024"
  shows "\<exists>s'. ki_setup_paging s = Some (-1, s') \<and> kinit_errno s' = ERROR_PAGING_ENOMEM"
proof (cases n)
  case 0
  from create_page_directory_none [OF assms(1) [unfolded 0]] show ?thesis by (auto simp: ki_setup_paging_def)
next
  case n1: (Suc n1)
  obtain s1 pd where s1: "create_page_directory s = Some (0, s1)" "touched (s\<lparr>page_directory := pd\<rparr>) s1"
    "stage s0 s1 n1 [pd \<mapsto> (\<lambda>_. 0)(1023 := entry_of pd)]"
    using create_page_directory_stage [OF assms(1) [unfolded n1]] by blast
  note f1 = touched_paging_fields [OF s1(2)]
  show ?thesis
  proof (cases n1)
    case 0
    from map_first_megabyte_none [OF s1(3) [unfolded 0]] show ?thesis using s1(1) by (auto simp: ki_setup_paging_def)
  next
    case n2: (Suc n2)
    obtain s2 t1 where s2: "map_first_megabyte s1 = Some (0, s2)" "touched (s1\<lparr>first_pagetable := t1\<rparr>) s2" "t1 \<noteq> pd"
      "stage s0 s2 n2 [pd \<mapsto> (\<lambda>_. 0)(1023 := entry_of pd, 0 := entry_of t1), t1 \<mapsto> linear_map 0 256 (\<lambda>_. 0)]"
      using map_first_megabyte_stage [OF s1(3) [unfolded n2]] f1(1) by auto
    note f2 = touched_paging_fields [OF s2(2)]
    show ?thesis
    proof (cases n2)
      case 0
      from map_kernel_none [OF s2(4) [unfolded 0]] show ?thesis using s1(1) s2(1) by (auto simp: ki_setup_paging_def)
    next
      case n3: (Suc n3)
      obtain s3 T where s3: "map_kernel s2 = Some (0, s3)" "stage s0 s3 n3 T"
        using map_kernel_stage [OF s2(4) [unfolded n3], of pd] f1 f2 assms(3) s2(3) by auto
      have "n3 < 2" using assms(2) n1 n2 n3 by simp
      from create_new_kernel_stack_none [OF s3(2) this] show ?thesis
        using s1(1) s2(1) s3(1) by (auto simp: ki_setup_paging_def Let_def)
    qed
  qed
qed

text \<open>The allocator's initialisation leads to a state from which paging can be set up.\<close>

lemma init_done_ready:
  assumes "init_done start kb es M s s'" "kernel_fits start kb es"
    and kend_def: "kend = kend_phys start (units_of_blocks (blocks_of_memsz kb))"
  shows "low_memory_ok s'" "kernel_end_physical s' = kend" "total_blocks s' = blocks_of_memsz kb" "mbitmap_physical s' = start"
    "free_blocks s' = {k. k < 32 * (unat (blocks_of_memsz kb) div 32) \<and> frame kend \<le> k \<and> available es k}"
    "unat kend \<le> unat x \<Longrightarrow> x \<notin> M \<Longrightarrow> mem s' x = mem s x"
proof -
  define blocks where "blocks = blocks_of_memsz kb"
  define units where "units = units_of_blocks blocks"
  have L: "0x100000 \<le> unat start" "unat start + 4 * unat units + 4096 < 2 ^ 32" "frame kend \<le> unat blocks"
    using assms(2) by (auto simp: kernel_fits_def Let_def blocks_def units_def kend_def)
  note kb = kend_phys_bounds [OF L(2)]
  have ke: "kend = kend_phys start units" by (simp add: kend_def units_def blocks_def)
  have ub: "unat blocks < 2 ^ 20" "unat units = (unat blocks + 31) div 32"
    unfolding blocks_def units_def by (rule unat_blocks_of_memsz, rule unat_units_of_blocks)
  have bu: "unat blocks \<le> 32 * unat units"
    unfolding ub(2) using div_bounds [of 32 "unat blocks + 31"] by linarith
  have s': "mbitmap_physical s' = start" "total_blocks s' = blocks" "bitmap_size s' = units" "kernel_end_physical s' = kend" "term_ok s'"
    "\<forall>k < 32 * unat units. block_used (mem s') start k \<longleftrightarrow> k < frame kend \<or> \<not> available es k"
    "\<forall>x. unat kend \<le> unat x \<longrightarrow> x \<notin> M \<longrightarrow> mem s' x = mem s x"
    using assms(1) by (simp_all add: init_done_def Let_def blocks_def units_def kend_def)
  have used: "k \<in> kused s' \<longleftrightarrow> k < unat blocks \<and> (k < frame kend \<or> \<not> available es k)" for k
    using s'(1,2,6) bu by (auto simp: kused_def used_set_def)
  have al: "aligned kend" using kb(3) by (simp add: ke aligned_def)
  have kpos: "0x100000 \<le> unat kend" using kb(1) L(1) unfolding ke by linarith
  then have "0 < frame kend" by (simp add: frame_def div_greater_zero_iff)
  then show "low_memory_ok s'"
    using s'(1-5) used L ub(1) bu kb(1) al by (auto simp: low_memory_ok_def kmemlow_ok_def ke)
  have "k < unat blocks" if "k < 32 * (unat blocks div 32)" for k
    using that by (rule less_le_trans) simp
  then show "free_blocks s' = {k. k < 32 * (unat (blocks_of_memsz kb) div 32) \<and> frame kend \<le> k \<and> available es k}"
    by (auto simp: free_blocks_def used s'(2) blocks_def [symmetric])
  show "kernel_end_physical s' = kend" "total_blocks s' = blocks_of_memsz kb" "mbitmap_physical s' = start"
    "unat kend \<le> unat x \<Longrightarrow> x \<notin> M \<Longrightarrow> mem s' x = mem s x"
    using s' by (simp_all add: blocks_def)
qed

section \<open>Properties\<close>

text \<open>C6: with five free blocks, \<open>ki_setup_paging\<close> builds exactly the address space the kernel is linked
  for: for every virtual address, the walk of the processor through the new tables gives the address of
  \<open>kernel_map\<close>, or a page fault where that has none. The five tables and the stack page are
  different blocks. (The kernel must end below 4 MB: \<open>map_kernel\<close> has one page table.)\<close>

theorem ki_setup_paging_address_space:
  assumes "low_memory_ok s" "5 \<le> card (free_blocks s)" "frame (kernel_end_physical s) \<le> 1024"
  shows "\<exists>s' t1 tk ts sb. ki_setup_paging s = Some (0, s') \<and> distinct [page_directory s', t1, tk, ts, sb]
    \<and> kernel_end_virtual s' = kernel_end_physical s + 0xc0000000
    \<and> (\<forall>va. translate (mem s') (page_directory s') va
           = kernel_map (page_directory s') t1 tk ts sb (kernel_end_physical s) va)"
proof -
  have "stage s s (card (free_blocks s)) Map.empty" using assms(1) by (simp add: stage_def pages_def spares_refl)
  from ki_setup_paging_result [OF this assms(2,3)]
  obtain s' t1 tk ts sb n where s': "ki_setup_paging s = Some (0, s')"
    "kernel_end_virtual s' = kernel_end_physical s + 0xc0000000" "kernel_end_physical s' = kernel_end_physical s"
    "distinct [page_directory s', t1, tk, ts, sb]"
    "stage s s' n (kernel_tables (page_directory s') t1 tk ts sb (frame (kernel_end_physical s)))"
    unfolding kernel_tables_def by blast
  have "translate (mem s') (page_directory s') va = kernel_map (page_directory s') t1 tk ts sb (kernel_end_physical s) va" for va
    using translate_stage [of _ s' n "page_directory s'" t1 tk ts sb va] s'(3-5) assms(3) by simp
  then show ?thesis using s' by blast
qed

text \<open>with fewer than five free blocks, \<open>ki_setup_paging\<close> returns -1 and the error code is
  \<open>ERROR_PAGING_ENOMEM\<close>.\<close>

theorem ki_setup_paging_no_memory:
  assumes "low_memory_ok s" "card (free_blocks s) < 5" "frame (kernel_end_physical s) \<le> 1024"
  shows "\<exists>s'. ki_setup_paging s = Some (-1, s') \<and> kinit_errno s' = ERROR_PAGING_ENOMEM"
  using assms by (intro ki_setup_paging_none [of s]) (auto simp: stage_def pages_def spares_refl)

text \<open>The sample machine after the initialisation of its allocator: with its region available 7679 blocks
  are free, with its region reserved none is.\<close>

definition paging_boot :: "u32 \<Rightarrow> paging" where
  "paging_boot ty = low_state_with ty
     \<lparr>page_directory = 0, first_pagetable = 0, kernel_pagetable = 0, kernel_stack_map = 0, kernel_end_virtual = 0\<rparr>"

definition paging_start :: "u32 \<Rightarrow> paging" where
  "paging_start ty = snd (the (kmemlow_init_allocator 0xc0200000 (low_entry ty) (paging_boot ty)))"

lemma paging_start_ready:
  "low_memory_ok (paging_start ty)" "kernel_end_physical (paging_start ty) = 0x201000"
  "free_blocks (paging_start ty) = {k. k < 8192 \<and> 513 \<le> k \<and> ty = 1}"
proof -
  have l: "init_layout (0xc0200000 - 0xc0000000) 0x8000 [low_entry ty] (paging_boot ty)"
    unfolding paging_boot_def by (rule low_layout)
  obtain s' M where s': "kmemlow_init_allocator 0xc0200000 (low_entry ty) (paging_boot ty) = Some (0, s')"
    and d: "init_done (0xc0200000 - 0xc0000000) 0x8000 [low_entry ty] M (paging_boot ty) s'"
    using kmemlow_init_result [OF l, of "low_entry ty"] by blast
  have f: "kernel_fits (0xc0200000 - 0xc0000000) 0x8000 [low_entry ty]" using init_layout_ready [OF l] by (simp add: loader_ready_def)
  note r = init_done_ready [OF d f refl]
  have "kend_phys (0xc0200000 - 0xc0000000) (units_of_blocks (blocks_of_memsz 0x8000)) = 0x201000"
    "blocks_of_memsz 0x8000 = 8192"
    by (simp_all add: blocks_of_memsz_def KILOBYTES_def PAGE_SIZE_def units_of_blocks_def BLOCKS_PER_UNIT_def kend_phys_def)
  then show "low_memory_ok (paging_start ty)" "kernel_end_physical (paging_start ty) = 0x201000"
    "free_blocks (paging_start ty) = {k. k < 8192 \<and> 513 \<le> k \<and> ty = 1}"
    using s' r(1,2,5) by (auto simp: paging_start_def available_def low_entry_def first_block_def block_count_def frame_def)
qed

theorem ki_setup_paging_address_space_witness:
  "\<exists>s'. ki_setup_paging (paging_start 1) = Some (0, s')
     \<and> translate (mem s') (page_directory s') 0xc0100234 = Some 0x100234
     \<and> translate (mem s') (page_directory s') 0xb8000 = Some 0xb8000
     \<and> translate (mem s') (page_directory s') 0xfffff000 = Some (page_directory s')
     \<and> translate (mem s') (page_directory s') 0x100000 = None"
proof -
  have "free_blocks (paging_start 1) = {513..<8192}"
    unfolding paging_start_ready(3) by (rule set_eqI) (simp only: mem_Collect_eq atLeastLessThan_iff simp_thms conj_commute)
  then have c: "5 \<le> card (free_blocks (paging_start 1))" by (simp only: card_atLeastLessThan)
  have f: "frame (kernel_end_physical (paging_start 1)) \<le> 1024" by (simp add: paging_start_ready frame_def)
  obtain s' t1 tk ts sb where s': "ki_setup_paging (paging_start 1) = Some (0, s')"
    and t: "\<forall>va. translate (mem s') (page_directory s') va = kernel_map (page_directory s') t1 tk ts sb 0x201000 va"
    using ki_setup_paging_address_space [OF paging_start_ready(1) c f] unfolding paging_start_ready(2) by (elim exE conjE)
  have k: "kernel_map pd t1 tk ts sb 0x201000 0xc0100234 = Some 0x100234"
    "kernel_map pd t1 tk ts sb 0x201000 0xb8000 = Some 0xb8000"
    "kernel_map pd t1 tk ts sb 0x201000 0xfffff000 = Some pd"
    "kernel_map pd t1 tk ts sb 0x201000 0x100000 = None" for pd
    by (simp_all add: kernel_map_def Let_def ptable_entry_def)
  show ?thesis using s' by (intro exI [of _ s']) (simp only: t [rule_format] k simp_thms)
qed

theorem ki_setup_paging_no_memory_witness:
  "\<exists>s'. ki_setup_paging (paging_start 2) = Some (-1, s') \<and> kinit_errno s' = ERROR_PAGING_ENOMEM"
  by (rule ki_setup_paging_no_memory) (simp_all add: paging_start_ready frame_def)

end
