(* ===== verification/Kinit.thy ===== *)
theory Kinit
  imports EarlyPaging
begin

text \<open>
  The entry of the early phase, init/init/kinit.c: from the boot loader's registers to the
  parameters handed to the kernel. \<open>early_panic\<close> (bootstub.asm) is an endless jump, so a call
  of \<open>kernel_early_init\<close> ends in one of two ways. The parameter structure is written to memory at
  the address the caller passes. The results are proved once, against the contract \<open>boot_loader\<close>, and hold for both boot protocols.
\<close>

datatype 'a boot_outcome = Panicked 'a | Booted 'a

definition KERNEL_VERSION_STRING :: "u8 list" where "KERNEL_VERSION_STRING = ascii ''v0.0.1_alpha''"

definition early_welcome_message :: "'a paging_scheme \<Rightarrow> 'a paging_scheme option" where
  "early_welcome_message s = do {
     s \<leftarrow> ki_printf (ln ''missy kernel %s'') [VaStr KERNEL_VERSION_STRING] s;
     ki_printf (ln ''this is a debug build. debugging output will be shown'') [] s
   }"

definition KERNEL_PHYSICAL_TO_VIRTUAL :: "u32 \<Rightarrow> u32" where
  "KERNEL_PHYSICAL_TO_VIRTUAL x = x + 0xc0000000"

text \<open>The fields of \<open>struct KERNEL_PARAMETERS\<close>, five words.\<close>

definition get_kparam :: "u32 \<Rightarrow> nat \<Rightarrow> 'a machine_scheme \<Rightarrow> u32" where
  "get_kparam kparams i s = load32 (mem s) (elem kparams i)"

definition set_kparam :: "u32 \<Rightarrow> nat \<Rightarrow> u32 \<Rightarrow> 'a machine_scheme \<Rightarrow> 'a machine_scheme" where
  "set_kparam kparams i v s = s\<lparr>mem := store32 (mem s) (elem kparams i) v\<rparr>"

definition fill_kparams :: "u32 \<Rightarrow> 'a paging_scheme \<Rightarrow> 'a paging_scheme" where
  "fill_kparams kparams s =
     (let s = set_kparam kparams 0 ki_get_kernel_stack_top s;
          s = set_kparam kparams 1 (ki_get_kernel_end_virtual s) s;
          s = set_kparam kparams 2 (KERNEL_PHYSICAL_TO_VIRTUAL (kmemlow_get_bitmap_ptr s)) s;
          s = set_kparam kparams 3 (kmemlow_get_total_blocks s) s;
          s = set_kparam kparams 4 (kmemlow_get_used_blocks s) s
      in s)"

definition print_kparams :: "u32 \<Rightarrow> 'a paging_scheme \<Rightarrow> 'a paging_scheme option" where
  "print_kparams kparams s = do {
     s \<leftarrow> ki_printf (ln ''kparams struct:'') [] s;
     s \<leftarrow> ki_printf (ln ''kernel_stack - 0x%x'') [VaWord (get_kparam kparams 0 s)] s;
     s \<leftarrow> ki_printf (ln ''kernel_heap - 0x%x'') [VaWord (get_kparam kparams 1 s)] s;
     s \<leftarrow> ki_printf (ln ''kernel_memory_bitmap - 0x%x'') [VaWord (get_kparam kparams 2 s)] s;
     s \<leftarrow> ki_printf (ln ''kernel memory total blocks: %d'') [VaWord (get_kparam kparams 3 s)] s;
     ki_printf (ln ''kernel memory used blocks: %d'') [VaWord (get_kparam kparams 4 s)] s
   }"

definition kernel_early_init ::
  "u32 \<Rightarrow> mmap_data \<Rightarrow> u32 \<Rightarrow> u32 \<Rightarrow> u32 \<Rightarrow> 'a paging_scheme \<Rightarrow> 'a paging_scheme boot_outcome option" where
  "kernel_early_init mbitmap memory_map_block mboot_hdr magic kparams s = do {
     s \<leftarrow> early_welcome_message s;
     (result, s) \<leftarrow> multiboot_init mboot_hdr magic s;
     if result \<noteq> 0 then do {
       s \<leftarrow> ki_printf (ln ''[PANIC]: Multiboot data format could not be determined: %d'') [VaWord (kinit_errno s)] s;
       Some (Panicked s)
     } else do {
       (_, s) \<leftarrow> kmemlow_init_allocator mbitmap memory_map_block s;
       (_, s) \<leftarrow> ki_setup_paging s;
       let s = fill_kparams kparams s;
       s \<leftarrow> print_kparams kparams s;
       Some (Booted s)
     }
   }"

section \<open>Printing the parameters\<close>

lemma printable_kinit:
  "printable (ln ''missy kernel %s'') [VaStr KERNEL_VERSION_STRING]"
  "printable (ln ''this is a debug build. debugging output will be shown'') []"
  "printable (ln ''[PANIC]: Multiboot data format could not be determined: %d'') [VaWord n]"
  "printable (ln ''kparams struct:'') []"
  "printable (ln ''kernel_stack - 0x%x'') [VaWord n]" "printable (ln ''kernel_heap - 0x%x'') [VaWord n]"
  "printable (ln ''kernel_memory_bitmap - 0x%x'') [VaWord n]"
  "printable (ln ''kernel memory total blocks: %d'') [VaWord n]" "printable (ln ''kernel memory used blocks: %d'') [VaWord n]"
  using number_text_printable [of 16 n] number_text_printable [of 10 n]
  by (simp_all add: printable_def ln_def ki_format_eval KERNEL_VERSION_STRING_def)

lemma print_ok:
  assumes "term_ok s" "printable str args"
  obtains s' where "ki_printf str args s = Some s'" "prints s s'"
  using ki_printf_prints [OF assms(1)] assms(2) unfolding printable_def by metis

text \<open>What a print keeps: all memory above the first megabyte.\<close>

lemma prints_above: "prints s s' \<Longrightarrow> same_above 0x100000 (mem s) (mem s')"
  using cells_below by (fastforce simp: prints_def same_above_def)

lemma multiboot2_init_ok:
  assumes "boot_map (mem s) p kb es" "p AND 7 = 0"
  shows "multiboot_init p MULTIBOOT2_MAGIC s
    = Some (0, s\<lparr>boot_magic := MULTIBOOT2_MAGIC, mboot_ptr := p, api_struct := full_api\<rparr>)"
proof -
  obtain ts i j where b: "boot_info (mem s) p ts" "tag_offset 4 8 ts = Some i" "tag_offset 6 8 ts = Some j"
    using assms(1) by (auto simp: boot_map_def mboot2_consts)
  then have "4 \<in> fst ` set ts" "6 \<in> fst ` set ts" "p \<noteq> 0"
    using tag_offset_None [of 4 8 ts] tag_offset_None [of 6 8 ts] boot_map_size [OF assms(1)] by auto
  then show ?thesis using multiboot_init_result [of s p MULTIBOOT2_MAGIC ts] b(1) assms(2)
    by (simp add: boot_readable_def boot_verdict_def boot_fields_def api_of_def MULTIBOOT_MAGIC_def MULTIBOOT2_MAGIC_def)
qed

lemma multiboot1_init_ok:
  assumes "boot1_map (mem s) p kb es" "p AND 7 = 0"
  shows "multiboot_init p MULTIBOOT_MAGIC s
    = Some (0, s\<lparr>boot_magic := MULTIBOOT_MAGIC, mboot_ptr := p, api_struct := api1\<rparr>)"
  using assms multiboot_init_result [of s p MULTIBOOT_MAGIC "[]"]
  by (simp add: boot_readable_def boot_verdict_def boot_fields_def api_of_def boot1_map_def MULTIBOOT_MAGIC_def MULTIBOOT2_MAGIC_def)

section \<open>Filling the parameters\<close>

lemma same_above_trans: "same_above a m1 m2 \<Longrightarrow> same_above a m2 m3 \<Longrightarrow> same_above a m1 m3"
  by (simp add: same_above_def)

lemma prints_cells: "prints s s' \<Longrightarrow> same_outside_cells 0 2000 (mem s) (mem s')"
  by (auto simp: prints_def)

lemma kparam_off_screen:
  assumes "same_outside_cells 0 2000 (mem s) (mem s')" "\<forall>k < 20. outside_cells 0 2000 (kparams + of_nat k)" "i < 5"
  shows "get_kparam kparams i s' = get_kparam kparams i s"
proof -
  have "\<forall>k < 20. mem s' (kparams + of_nat k) = mem s (kparams + of_nat k)" using assms(1,2) by (simp add: same_outside_cells_def)
  from load32_moved [OF this, of "4 * i"] assms(3) show ?thesis by (simp add: get_kparam_def elem_offset)
qed

text \<open>The parameter structure lies before the bitmap: writing it changes no
  page and no bit of the bitmap.\<close>

lemma set_kparam_stage:
  assumes "stage s0 s n T" "unat kparams + 20 \<le> unat (mbitmap_physical s)" "i < 5"
  shows "stage s0 (set_kparam kparams i v s) n T"
proof -
  define m where "m = store32 (mem s) (elem kparams i) v"
  have o: "same_outside kparams (4 * 5) (mem s) m"
    unfolding m_def using assms(3) by (intro store32_same_outside) simp_all
  have above: "m x = mem s x" if "unat kparams + 20 \<le> unat x" for x
    using o not_in_region_above [of kparams 20 x] that by (simp add: same_outside_def)
  have L: "low_memory_ok s" "pages s T" using assms(1) by (simp_all add: stage_def)
  have b: "unat (mbitmap_physical s) \<le> unat (kernel_end_physical s)" using L(1) by (simp add: low_memory_ok_def)
  have "\<forall>i < 4 * unat (bitmap_size s). m (mbitmap_physical s + of_nat i) = mem s (mbitmap_physical s + of_nat i)"
    using bitmap_address(1) [OF L(1)] above assms(2) by simp
  note w = low_memory_mem [OF L(1) this]
  have sa: "same_above (kernel_end_physical s) (mem s) m" using above assms(2) b by (simp add: same_above_def)
  have "spares s0 s" using assms(1) by (simp add: stage_def)
  then have sp: "spares s0 (s\<lparr>mem := m\<rparr>)" by (rule spares_write) (use w sa in \<open>simp_all add: same_above_def\<close>)
  have "pages (s\<lparr>mem := m\<rparr>) T" using sa L(2) w table_same_above by (fastforce simp: pages_def)
  then show ?thesis using w assms(1)
    by (simp add: stage_def set_kparam_def m_def [symmetric] free_blocks_def sp)
qed

lemma get_set_kparam: "i < 5 \<Longrightarrow> j < 5 \<Longrightarrow> get_kparam p i (set_kparam p j v s) = (if i = j then v else get_kparam p i s)"
  by (simp add: get_kparam_def set_kparam_def load32_store32_elem)

lemma set_kparam_fields [simp]:
  fixes s :: "'a paging_scheme"
  shows "mbitmap_physical (set_kparam p i v s) = mbitmap_physical s" "kernel_end_virtual (set_kparam p i v s) = kernel_end_virtual s"
    "total_blocks (set_kparam p i v s) = total_blocks s" "used_blocks (set_kparam p i v s) = used_blocks s"
    "page_directory (set_kparam p i v s) = page_directory s" "kernel_end_physical (set_kparam p i v s) = kernel_end_physical s"
  by (simp_all add: set_kparam_def)

text \<open>The values handed to the kernel.\<close>

definition kparams_are :: "u32 \<Rightarrow> u32 list \<Rightarrow> 'a machine_scheme \<Rightarrow> bool" where
  "kparams_are kparams vs s \<longleftrightarrow> map (\<lambda>i. get_kparam kparams i s) [0..<5] = vs"

lemma upt_5: "[0..<5] = [0, 1, 2, 3, 4 :: nat]"
  by (simp add: upt_rec)

lemma fill_kparams_result:
  fixes s :: "'a paging_scheme"
  assumes "stage s0 s n T" "unat kparams + 20 \<le> unat (mbitmap_physical s)"
  shows "stage s0 (fill_kparams kparams s) n T"
    and "kparams_are kparams [0xffbffffc, kernel_end_virtual s, mbitmap_physical s + 0xc0000000, total_blocks s, used_blocks s]
           (fill_kparams kparams s)"
    and "page_directory (fill_kparams kparams s) = page_directory s"
    and "kernel_end_physical (fill_kparams kparams s) = kernel_end_physical s"
    and "used_blocks (fill_kparams kparams s) = used_blocks s"
  using assms
  by (simp_all add: fill_kparams_def Let_def set_kparam_stage kparams_are_def upt_5 get_set_kparam
      ki_get_kernel_stack_top_def KERNEL_STACK_MAPPING_def PAGE_DIRECTORY_MAPPING_def PAGE_SIZE_def
      ki_get_kernel_end_virtual_def KERNEL_PHYSICAL_TO_VIRTUAL_def kmemlow_get_bitmap_ptr_def
      kmemlow_get_total_blocks_def kmemlow_get_used_blocks_def)

lemma print_kparams_result:
  fixes s :: "'a paging_scheme"
  assumes "stage s0 s n T" "kparams_are kparams vs s" "\<forall>k < 20. outside_cells 0 2000 (kparams + of_nat k)"
  obtains s' where "print_kparams kparams s = Some s'" "stage s0 s' n T" "kparams_are kparams vs s'" "touched s s'"
proof -
  define P where "P = (\<lambda>s'. stage s0 s' n T \<and> kparams_are kparams vs s' \<and> touched s s')"
  have step: "\<exists>s2. ki_printf str args s1 = Some s2 \<and> P s2" if h: "P s1" "printable str args" for s1 str args
  proof -
    have "term_ok s1" using h(1) by (simp add: P_def stage_def low_memory_ok_def)
    then obtain s2 where s2: "ki_printf str args s1 = Some s2" "prints s1 s2" using print_ok h(2) by metis
    have "stage s0 s2 n T" using print_stage [of s0 s1 n T, OF _ h(2)] h(1) s2(1) unfolding P_def by force
    moreover have "kparams_are kparams vs s2"
      using h(1) kparam_off_screen [OF prints_cells [OF s2(2)] assms(3)] by (simp add: P_def kparams_are_def upt_5)
    ultimately show ?thesis using s2 h(1) touched_prints touched_trans unfolding P_def by blast
  qed
  have "P s" using assms(1,2) touched_mem [of s "mem s"] by (simp add: P_def)
  then obtain s1 where s1: "ki_printf (ln ''kparams struct:'') [] s = Some s1" "P s1" using step printable_kinit(4) by blast
  obtain s2 where s2: "ki_printf (ln ''kernel_stack - 0x%x'') [VaWord (get_kparam kparams 0 s1)] s1 = Some s2" "P s2"
    using step [OF s1(2)] printable_kinit(5) by blast
  obtain s3 where s3: "ki_printf (ln ''kernel_heap - 0x%x'') [VaWord (get_kparam kparams 1 s2)] s2 = Some s3" "P s3"
    using step [OF s2(2)] printable_kinit(6) by blast
  obtain s4 where s4: "ki_printf (ln ''kernel_memory_bitmap - 0x%x'') [VaWord (get_kparam kparams 2 s3)] s3 = Some s4" "P s4"
    using step [OF s3(2)] printable_kinit(7) by blast
  obtain s5 where s5: "ki_printf (ln ''kernel memory total blocks: %d'') [VaWord (get_kparam kparams 3 s4)] s4 = Some s5" "P s5"
    using step [OF s4(2)] printable_kinit(8) by blast
  obtain s6 where s6: "ki_printf (ln ''kernel memory used blocks: %d'') [VaWord (get_kparam kparams 4 s5)] s5 = Some s6" "P s6"
    using step [OF s5(2)] printable_kinit(9) by blast
  have "print_kparams kparams s = Some s6" using s1(1) s2(1) s3(1) s4(1) s5(1) s6(1) by (simp add: print_kparams_def)
  then show thesis using s6(2) that unfolding P_def by blast
qed

text \<open>What the early phase shows of itself: the two lines of the welcome and, when it panics, one line with the error code.\<close>

definition show_text :: "i32 list \<Rightarrow> 'a kterm_scheme \<Rightarrow> 'a kterm_scheme" where
  "show_text cs s = ki_update_cursor (fold ki_putc cs s)"

definition version_line :: "i32 list" where
  "version_line = map scast (ascii ''missy kernel v0.0.1_alpha\<newline>'')"

definition debug_line :: "i32 list" where
  "debug_line = map scast (ascii ''this is a debug build. debugging output will be shown\<newline>'')"

definition panic_line :: "u32 \<Rightarrow> i32 list" where
  "panic_line e = map scast (ascii ''[PANIC]: Multiboot data format could not be determined: '') @ digits_text 10 e @ [10]"

lemma printf_text: "ki_format (ascii str) args = Some cs \<Longrightarrow> ki_printf str args s = Some (show_text cs s)"
  by (simp add: ki_printf_def ki_printf_loop_format show_text_def)

lemma show_text_prints: "term_ok s \<Longrightarrow> 8 \<notin> set cs \<Longrightarrow> prints s (show_text cs s)"
  unfolding show_text_def by (meson fold_ki_putc_prints ki_update_cursor_prints prints_ok prints_trans)

lemma early_lines:
  "ki_format (ascii (ln ''missy kernel %s'')) [VaStr KERNEL_VERSION_STRING] = Some version_line"
  "ki_format (ascii (ln ''this is a debug build. debugging output will be shown'')) [] = Some debug_line"
  "ki_format (ascii (ln ''[PANIC]: Multiboot data format could not be determined: %d'')) [VaWord e] = Some (panic_line e)"
  "8 \<notin> set version_line" "8 \<notin> set debug_line" "8 \<notin> set (panic_line e)"
  using number_text_printable [of 10 e]
  by (simp_all add: ki_format_eval ln_def KERNEL_VERSION_STRING_def version_line_def debug_line_def panic_line_def)

lemma welcome_shows:
  "early_welcome_message s = Some (show_text debug_line (show_text version_line s))"
  by (simp add: early_welcome_message_def early_lines printf_text)

lemma welcome_shown_prints: "term_ok s \<Longrightarrow> prints s (show_text debug_line (show_text version_line s))"
  by (meson early_lines(4,5) prints_ok prints_trans show_text_prints)

lemma welcome_prints:
  assumes "term_ok s"
  obtains s' where "early_welcome_message s = Some s'" "prints s s'"
  using welcome_shows welcome_shown_prints [OF assms] that by blast

lemma prints_boot_fields:
  assumes "prints s s'"
  shows "prints (s\<lparr>boot_magic := a, mboot_ptr := b, api_struct := c\<rparr>) (s'\<lparr>boot_magic := a, mboot_ptr := b, api_struct := c\<rparr>)"
proof -
  obtain m l x y where "s' = s\<lparr>mem := m, io := io s @ l, cur_x := x, cur_y := y\<rparr>"
    "same_outside_cells 0 2000 (mem s) m" "term_ok s'" using assms by (auto simp: prints_def)
  then show ?thesis by (intro printsI [where m = m and l = l and x = x and y = y]) (simp_all add: term_ok_def)
qed

section \<open>The whole early phase\<close>

text \<open>The contract of \<open>kernel_early_init\<close> with the boot loader: the drivers are a \<open>boot_source\<close>, and the structure of a loader
  with the magic number \<open>magic\<close> selects the functions \<open>api\<close>.\<close>

locale boot_loader = boot_source view footprint room moved
  for view :: "u32 \<Rightarrow> mmap_data list \<Rightarrow> 'a paging_scheme \<Rightarrow> bool"
    and footprint :: "'a paging_scheme \<Rightarrow> u32 set"
    and room :: "u32 \<Rightarrow> u32 \<Rightarrow> 'a paging_scheme \<Rightarrow> bool"
    and moved :: "u32 \<Rightarrow> 'a paging_scheme \<Rightarrow> u32 set" +
  fixes magic :: u32 and api :: multiboot_api
  assumes accepted: "view kb es (s\<lparr>boot_magic := magic, mboot_ptr := p, api_struct := api\<rparr>) \<Longrightarrow> p AND 7 = 0 \<Longrightarrow>
      multiboot_init p magic s = Some (0, s\<lparr>boot_magic := magic, mboot_ptr := p, api_struct := api\<rparr>)"
begin

lemma kernel_early_init_result:
  assumes L: "loader_ready view footprint room (mbitmap - 0xc0000000) kb es (s\<lparr>mboot_ptr := hdr, api_struct := api\<rparr>)"
    and kend_def: "kend = kend_phys (mbitmap - 0xc0000000) (units_of_blocks (blocks_of_memsz kb))"
    and avail_def: "avail = {k. k < 32 * (unat (blocks_of_memsz kb) div 32) \<and> frame kend \<le> k \<and> available es k}"
    and "hdr AND 7 = 0" "frame kend \<le> 1024" "5 \<le> card avail"
    and "\<forall>k < 20. outside_cells 0 2000 (kparams + of_nat k)" "unat kparams + 20 \<le> unat (mbitmap - 0xc0000000)"
  obtains s' g :: "'a paging_scheme" and t1 tk ts sb
  where "kernel_early_init mbitmap buf hdr magic kparams s = Some (Booted s')"
    "distinct [page_directory s', t1, tk, ts, sb]"
    "stage g s' (card avail - 5) (kernel_tables (page_directory s') t1 tk ts sb (frame kend))"
    "kparams_are kparams [0xffbffffc, kend + 0xc0000000, mbitmap, blocks_of_memsz kb, used_blocks s'] s'"
    "kernel_end_physical s' = kend" "mbitmap_physical s' = mbitmap - 0xc0000000" "total_blocks s' = blocks_of_memsz kb" "free_blocks g = avail"
    "\<forall>x. unat kend \<le> unat x \<longrightarrow> x \<notin> moved kend (s\<lparr>mboot_ptr := hdr, api_struct := api\<rparr>) \<longrightarrow> mem g x = mem s x"
proof -
  let ?b = "\<lambda>s. s\<lparr>boot_magic := magic, mboot_ptr := hdr, api_struct := api\<rparr>" and ?start = "mbitmap - 0xc0000000"
  let ?s = "s\<lparr>mboot_ptr := hdr, api_struct := api\<rparr>"
  have "term_ok s" using L by (simp add: loader_ready_def term_ok_def)
  then obtain s1 where s1: "early_welcome_message s = Some s1" "prints s s1" using welcome_prints by blast
  have m1: "same_outside_cells 0 2000 (mem s) (mem s1)" using s1(2) by (rule prints_cells)
  have "same_source ?s (?b s1)" "term_ok (?b s1)"
    using s1(2) prints_ok [OF s1(2)] by (auto simp: same_source_def prints_def term_ok_def)
  then have L1: "loader_ready view footprint room ?start kb es (?b s1)" "moved kend (?b s1) = moved kend ?s"
    using ready_kept [OF L, of "?b s1"] m1 by simp_all
  have K: "kernel_fits ?start kb es" "view kb es (?b s1)" using L1(1) by (simp_all add: loader_ready_def)
  note s2 = accepted [OF K(2) assms(4)]
  obtain s3 where s3: "kmemlow_init_allocator mbitmap buf (?b s1) = Some (0, s3)" "init_done ?start kb es (moved kend ?s) (?b s1) s3"
    using init_result [OF L1(1), of buf] unfolding kend_def [symmetric] L1(2) by blast
  note r3 = init_done_ready [OF s3(2) K(1) kend_def]
  have c: "card (free_blocks s3) = card avail" unfolding r3(5) avail_def ..
  have st3: "stage s3 s3 (card avail) Map.empty" using r3(1) c by (simp add: stage_def pages_def spares_refl)
  obtain s4 t1 tk ts sb where s4: "ki_setup_paging s3 = Some (0, s4)" "kernel_end_virtual s4 = kend + 0xc0000000"
    "kernel_end_physical s4 = kend" "mbitmap_physical s4 = mbitmap - 0xc0000000" "total_blocks s4 = blocks_of_memsz kb"
    "distinct [page_directory s4, t1, tk, ts, sb]"
    "stage s3 s4 (card avail - 5) (kernel_tables (page_directory s4) t1 tk ts sb (frame kend))"
    using ki_setup_paging_result [OF st3] assms(5,6) unfolding r3(2-4) kernel_tables_def by blast
  note f = fill_kparams_result [OF s4(7), unfolded s4(2-5), OF assms(8)]
  obtain s6 where s6: "print_kparams kparams (fill_kparams kparams s4) = Some s6"
    "stage s3 s6 (card avail - 5) (kernel_tables (page_directory s4) t1 tk ts sb (frame kend))"
    "kparams_are kparams [0xffbffffc, kend + 0xc0000000, mbitmap - 0xc0000000 + 0xc0000000, blocks_of_memsz kb, used_blocks s4] s6"
    "touched (fill_kparams kparams s4) s6"
    using print_kparams_result [OF f(1,2) assms(7)] by blast
  have "0x100000 \<le> unat ?start" using K(1) by (simp add: kernel_fits_def Let_def)
  then have "0x100000 \<le> unat kend" using r3(1) unfolding low_memory_ok_def r3(2,4) by linarith
  then have old: "\<forall>x. unat kend \<le> unat x \<longrightarrow> x \<notin> moved kend ?s \<longrightarrow> mem s3 x = mem s x"
    using r3(6) cells_below [OF m1] by fastforce
  have p6: "page_directory s6 = page_directory s4" "kernel_end_physical s6 = kend" "used_blocks s6 = used_blocks s4"
    "mbitmap_physical s6 = mbitmap - 0xc0000000" "total_blocks s6 = blocks_of_memsz kb"
    using touched_paging_fields [OF s6(4)] touched_fields [OF s6(4)] f(3-5) s4(4,5) by (simp_all add: fill_kparams_def Let_def)
  have "kernel_early_init mbitmap buf hdr magic kparams s = Some (Booted s6)"
    using s1(1) s2 s3(1) s4(1) s6(1) by (simp add: kernel_early_init_def Let_def)
  then show thesis by (rule that) (use s4(6) s6(2,3) p6 r3(5) avail_def old in simp_all)
qed

text \<open>The address space the early phase leaves, and the parameters.\<close>

lemma early_init_address_space:
  assumes L: "loader_ready view footprint room (mbitmap - 0xc0000000) kb es (s\<lparr>mboot_ptr := hdr, api_struct := api\<rparr>)"
    and kend_def: "kend = kend_phys (mbitmap - 0xc0000000) (units_of_blocks (blocks_of_memsz kb))"
    and "hdr AND 7 = 0" "frame kend \<le> 1024"
    and "5 \<le> card {k. k < 32 * (unat (blocks_of_memsz kb) div 32) \<and> frame kend \<le> k \<and> available es k}"
    and "\<forall>k < 20. outside_cells 0 2000 (kparams + of_nat k)" "unat kparams + 20 \<le> unat (mbitmap - 0xc0000000)"
  shows "\<exists>s' t1 tk ts sb. kernel_early_init mbitmap buf hdr magic kparams s = Some (Booted s')
    \<and> distinct [page_directory s', t1, tk, ts, sb]
    \<and> (\<forall>va. translate (mem s') (page_directory s') va = kernel_map (page_directory s') t1 tk ts sb kend va)
    \<and> kparams_are kparams [0xffbffffc, kend + 0xc0000000, mbitmap, blocks_of_memsz kb, used_blocks s'] s'"
proof -
  obtain s' g :: "'a paging_scheme" and t1 tk ts sb where s': "kernel_early_init mbitmap buf hdr magic kparams s = Some (Booted s')"
    "distinct [page_directory s', t1, tk, ts, sb]"
    "stage g s' (card {k. k < 32 * (unat (blocks_of_memsz kb) div 32) \<and> frame kend \<le> k \<and> available es k} - 5)
       (kernel_tables (page_directory s') t1 tk ts sb (frame kend))"
    "kparams_are kparams [0xffbffffc, kend + 0xc0000000, mbitmap, blocks_of_memsz kb, used_blocks s'] s'"
    "kernel_end_physical s' = kend"
    by (rule kernel_early_init_result [OF assms(1) kend_def refl assms(3-7)]) (rule that)
  have "translate (mem s') (page_directory s') va = kernel_map (page_directory s') t1 tk ts sb kend va" for va
    using translate_stage [of g s' _ "page_directory s'" t1 tk ts sb va] s'(2,3,5) assms(4) by simp
  then show ?thesis using s'(1,2,4) by blast
qed

end

interpretation loader2: boot_loader view2 footprint2 room2 moved2 MULTIBOOT2_MAGIC full_api
proof (rule boot_loader.intro [OF mb2.boot_source_axioms], unfold_locales)
  fix kb es p and s :: "'a paging_scheme"
  assume "view2 kb es (s\<lparr>boot_magic := MULTIBOOT2_MAGIC, mboot_ptr := p, api_struct := full_api\<rparr>)" "p AND 7 = 0"
  then show "multiboot_init p MULTIBOOT2_MAGIC s = Some (0, s\<lparr>boot_magic := MULTIBOOT2_MAGIC, mboot_ptr := p, api_struct := full_api\<rparr>)"
    using multiboot2_init_ok by (auto simp: view2_def)
qed

interpretation loader1: boot_loader view1 footprint1 room1 "\<lambda>_ _. {}" MULTIBOOT_MAGIC api1
proof (rule boot_loader.intro [OF mb1.boot_source_axioms], unfold_locales)
  fix kb es p and s :: "'a paging_scheme"
  assume "view1 kb es (s\<lparr>boot_magic := MULTIBOOT_MAGIC, mboot_ptr := p, api_struct := api1\<rparr>)" "p AND 7 = 0"
  then show "multiboot_init p MULTIBOOT_MAGIC s = Some (0, s\<lparr>boot_magic := MULTIBOOT_MAGIC, mboot_ptr := p, api_struct := api1\<rparr>)"
    using multiboot1_init_ok by (auto simp: view1_def)
qed

text \<open>The refusal of a boot structure.\<close>

text \<open>The bytes of the boot information the decision rests on.\<close>

definition boot_bytes :: "memory \<Rightarrow> u32 \<Rightarrow> u32 \<Rightarrow> nat" where
  "boot_bytes m p magic =
     (if p AND 7 \<noteq> 0 then 0 else if magic = MULTIBOOT_MAGIC then 4
      else if magic = MULTIBOOT2_MAGIC \<and> p \<noteq> 0 then unat (load32 m p) else 0)"

lemma boot_verdict_kept:
  assumes "boot_readable m p magic ts" "\<forall>i < boot_bytes m p magic. m' (p + of_nat i) = m (p + of_nat i)"
  shows "boot_readable m' p magic ts \<and> boot_verdict m' p magic ts = boot_verdict m p magic ts"
proof -
  have "mi_flags m' p = mi_flags m p" if "p AND 7 = 0" "magic = MULTIBOOT_MAGIC"
    using load32_moved [of "boot_bytes m p magic" m' p m p 0] assms(2) that by (simp add: boot_bytes_def mi_flags_def)
  moreover have "boot_info m' p ts" if "p AND 7 = 0" "magic = MULTIBOOT2_MAGIC" "p \<noteq> 0"
  proof -
    have b: "boot_info m p ts" using assms(1) that by (simp add: boot_readable_def)
    have "\<forall>i < unat (load32 m p). m' (p + of_nat i) = m (p + of_nat i)"
      using assms(2) that by (simp add: boot_bytes_def MULTIBOOT_MAGIC_def MULTIBOOT2_MAGIC_def)
    then show ?thesis using boot_info_moved(1) [of m p m' p ts] b that(3) by (simp add: boot_info_def)
  qed
  ultimately show ?thesis by (simp add: boot_readable_def boot_verdict_def)
qed

lemma early_init_refused:
  assumes "term_ok s" "boot_readable (mem s) hdr magic ts" "boot_verdict (mem s) hdr magic ts = Some e"
    and "\<forall>k < boot_bytes (mem s) hdr magic. outside_cells 0 2000 (hdr + of_nat k)"
  shows "\<exists>s'. kernel_early_init mbitmap buf hdr magic kparams s = Some (Panicked s')
    \<and> s' = show_text (panic_line e)
        ((boot_fields hdr magic (show_text debug_line (show_text version_line s)))\<lparr>kinit_errno := e\<rparr>)
    \<and> prints ((boot_fields hdr magic s)\<lparr>kinit_errno := e\<rparr>) s'"
proof -
  define s1 where "s1 = show_text debug_line (show_text version_line s)"
  have p1: "prints s s1" using welcome_shown_prints [OF assms(1)] by (simp add: s1_def)
  define s2 where "s2 = (boot_fields hdr magic s1)\<lparr>kinit_errno := e\<rparr>"
  have "\<forall>k < boot_bytes (mem s) hdr magic. mem s1 (hdr + of_nat k) = mem s (hdr + of_nat k)"
    using p1 assms(4) by (auto simp: prints_def same_outside_cells_def)
  from boot_verdict_kept [OF assms(2) this] assms(3)
  have "multiboot_init hdr magic s1 = Some (-1, s2)"
    using multiboot_init_result [of s1 hdr magic ts] by (simp add: s2_def)
  then have r: "kernel_early_init mbitmap buf hdr magic kparams s = Some (Panicked (show_text (panic_line e) s2))"
    by (simp add: kernel_early_init_def welcome_shows s1_def [symmetric] printf_text early_lines s2_def)
  have "prints ((boot_fields hdr magic s)\<lparr>kinit_errno := e\<rparr>) s2"
  proof -
    obtain m l x y where "s1 = s\<lparr>mem := m, io := io s @ l, cur_x := x, cur_y := y\<rparr>"
      "same_outside_cells 0 2000 (mem s) m" "term_ok s1" using p1 by (auto simp: prints_def)
    then show ?thesis unfolding s2_def boot_fields_def
      by (intro printsI [where m = m and l = l and x = x and y = y]) (simp_all add: term_ok_def)
  qed
  moreover from this have "prints s2 (show_text (panic_line e) s2)"
    using show_text_prints early_lines(6) prints_ok by blast
  ultimately show ?thesis using r prints_trans unfolding s1_def s2_def by blast
qed

section \<open>Properties\<close>


text \<open>C38: every boot structure \<open>multiboot_init\<close> refuses leads to the panic: a misaligned pointer, an unknown magic
  number, a null multiboot 2 structure, and either protocol without a memory size or without a memory map. The early phase
  prints its two lines of welcome, takes the refusal, prints the line of the panic with the error code in decimal, and stops
  there: besides the boot fields and the error code, only the cells of the screen, the cursor and the log of port writes have
  changed, so the allocator, the page tables and the kernel's parameters are as before. The bytes of the boot information
  must not lie on the screen the welcome is printed to.\<close>

theorem kernel_early_init_panics:
  assumes "term_ok s" "hdr AND 7 = 0 \<and> magic = MULTIBOOT2_MAGIC \<and> hdr \<noteq> 0 \<longrightarrow> boot_info (mem s) hdr ts"
    and "boot_verdict (mem s) hdr magic ts = Some e"
    and "\<forall>k < boot_bytes (mem s) hdr magic. outside_cells 0 2000 (hdr + of_nat k)"
  shows "\<exists>s'. kernel_early_init mbitmap buf hdr magic kparams s = Some (Panicked s')
    \<and> s' = show_text (panic_line e)
        ((boot_fields hdr magic (show_text debug_line (show_text version_line s)))\<lparr>kinit_errno := e\<rparr>)
    \<and> prints ((boot_fields hdr magic s)\<lparr>kinit_errno := e\<rparr>) s'"
  using assms by (intro early_init_refused) (simp_all add: boot_readable_def)


text \<open>The panics of both protocols: a multiboot 2 structure without a memory map, a multiboot 1 structure without a
  memory size, and a misaligned pointer.\<close>

lemma below_screen:
  assumes "unat p + n \<le> 0xB8000"
  shows "\<forall>k < n. outside_cells 0 2000 (p + of_nat k)"
proof (intro allI impI)
  fix k assume k: "k < n"
  then have "unat (p + of_nat k) = unat p + k" using assms by (intro unat_add_small) simp
  then show "outside_cells 0 2000 (p + of_nat k)"
    using k assms region_range [of "0xB8000" 4000 "p + of_nat k"] by (auto simp: outside_cells_def cell_addr_def VIDEO_MEMORY_def)
qed

lemma panic_line_digit:
  "panic_line 2 = map scast (ascii ''[PANIC]: Multiboot data format could not be determined: 2\<newline>'')"
  "panic_line 1 = map scast (ascii ''[PANIC]: Multiboot data format could not be determined: 1\<newline>'')"
  "panic_line 4 = map scast (ascii ''[PANIC]: Multiboot data format could not be determined: 4\<newline>'')"
  by (simp_all add: panic_line_def digits_text_def ascii_def number_bytes.simps)

theorem kernel_early_init_panics_witness:
  "(\<exists>s' s1. kernel_early_init 0xc0200000 (low_entry 1) 0x1000 MULTIBOOT2_MAGIC 0x7e100 ((paging_boot 1)\<lparr>mem := memsz_boot\<rparr>) = Some (Panicked s')
       \<and> s' = show_text (map scast (ascii ''[PANIC]: Multiboot data format could not be determined: 2\<newline>'')) s1
       \<and> kinit_errno s' = 2 \<and> page_directory s' = 0)
   \<and> (\<exists>s' s1. kernel_early_init 0xc0200000 (low_entry 1) 0x2000 MULTIBOOT_MAGIC 0x7e100 ((paging_boot 1)\<lparr>mem := store32 (\<lambda>_. 0) 0x2000 0x40\<rparr>) = Some (Panicked s')
       \<and> s' = show_text (map scast (ascii ''[PANIC]: Multiboot data format could not be determined: 1\<newline>'')) s1
       \<and> kinit_errno s' = 1 \<and> page_directory s' = 0)
   \<and> (\<exists>s' s1. kernel_early_init 0xc0200000 (low_entry 1) 0x1004 MULTIBOOT2_MAGIC 0x7e100 ((paging_boot 1)\<lparr>mem := memsz_boot\<rparr>) = Some (Panicked s')
       \<and> s' = show_text (map scast (ascii ''[PANIC]: Multiboot data format could not be determined: 4\<newline>'')) s1
       \<and> kinit_errno s' = 4 \<and> page_directory s' = 0)"
proof -
  have w: "\<exists>s' s1. kernel_early_init 0xc0200000 (low_entry 1) p magic 0x7e100 ((paging_boot 1)\<lparr>mem := m\<rparr>) = Some (Panicked s')
       \<and> s' = show_text (panic_line e) s1 \<and> kinit_errno s' = e \<and> page_directory s' = 0"
    if "p AND 7 = 0 \<and> magic = MULTIBOOT2_MAGIC \<and> p \<noteq> 0 \<longrightarrow> boot_info m p ts" "boot_verdict m p magic ts = Some e"
      "unat p + boot_bytes m p magic \<le> 0xB8000" for p magic ts m e
  proof -
    let ?s = "(paging_boot 1)\<lparr>mem := m\<rparr>"
    have "term_ok ?s" by (simp add: paging_boot_def low_state_with_def term_ok_def)
    from kernel_early_init_panics [OF this, of p magic ts e "0xc0200000" "low_entry 1" "0x7e100"] below_screen [OF that(3)] that
    obtain s' s1 where r: "kernel_early_init 0xc0200000 (low_entry 1) p magic 0x7e100 ?s = Some (Panicked s')"
      "s' = show_text (panic_line e) s1" "prints ((boot_fields p magic ?s)\<lparr>kinit_errno := e\<rparr>) s'" by auto
    have "kinit_errno s' = e" "page_directory s' = 0"
      using r(3) by (auto simp: prints_def boot_fields_def paging_boot_def low_state_with_def)
    then show ?thesis using r by blast
  qed
  have l: "load32 memsz_boot 0x1000 = 0x20" by (simp add: memsz_boot_def load32_def store32_def)
  have b: "bit (0x40 :: u32) 6" "\<not> bit (0x40 :: u32) 0" by (simp_all add: bit_iff_odd_drop_bit)
  show ?thesis
    using w [of "0x1000" MULTIBOOT2_MAGIC memsz_boot "[(4, 16)]" 2] w [of "0x2000" MULTIBOOT_MAGIC "store32 (\<lambda>_. 0) 0x2000 0x40" "[]" 1]
      w [of "0x1004" MULTIBOOT2_MAGIC memsz_boot "[]" 4] memsz_info l b
    by (simp add: boot_bytes_def boot_verdict_def mboot_consts mi_flags_def mem_simps panic_line_digit)
qed

end
