(* ===== verification/Ports.thy ===== *)
theory Ports
  imports Kinit
begin

text \<open>
  The ports of the early phase: whatever the boot loader hands over, the only accesses are the writes with which the
  early terminal moves the hardware cursor. Nothing is read, so no input is lost before the kernel runs.
\<close>

definition cursor_access :: "io_event \<Rightarrow> bool" where
  "cursor_access e \<longleftrightarrow> (\<exists>v. e = Out 0x3D4 v \<or> e = Out 0x3D5 v)"

definition moves_cursor :: "'a machine_scheme \<Rightarrow> 'b machine_scheme \<Rightarrow> bool" where
  "moves_cursor s s' \<longleftrightarrow> (\<exists>l. io s' = io s @ l \<and> list_all cursor_access l)"

lemma moves_refl: "io s' = io s \<Longrightarrow> moves_cursor s s'"
  by (simp add: moves_cursor_def)

lemma moves_trans [trans]: "moves_cursor s1 s2 \<Longrightarrow> moves_cursor s2 s3 \<Longrightarrow> moves_cursor s1 s3"
  by (auto simp: moves_cursor_def)

lemma moves_io: "io s1 = io s \<Longrightarrow> io s2 = io s' \<Longrightarrow> moves_cursor s1 s2 \<longleftrightarrow> moves_cursor s s'"
  by (simp add: moves_cursor_def)

section \<open>The terminal\<close>

lemma scroll_io [simp]: "io (scroll_if_below s) = io s"
  by (simp add: scroll_if_below_def kernel_early_scroll_display_def Let_def)

lemma putc_plain_io [simp]: "io (ki_putc_plain c s) = io s" "io ((ki_putc_plain c ^^ n) s) = io s"
proof -
  show "io (ki_putc_plain c s) = io s" for c and s :: "'a kterm_scheme" by (simp add: ki_putc_plain_def Let_def)
  then show "io ((ki_putc_plain c ^^ n) s) = io s" by (induction n) simp_all
qed

lemma putc_io [simp]: "io (ki_putc c s) = io s"
  by (simp add: ki_putc_def Let_def)

lemma put_bytes_io [simp]: "io (put_bytes xs s) = io s"
  by (induction xs arbitrary: s) (simp_all add: put_bytes_def)

lemma put_local_io [simp]: "io (put_local m i n s) = io s"
proof (induction m i n s rule: put_local.induct)
  case (1 m i n s)
  then show ?case by (subst put_local.simps) simp
qed

lemma put_number_io: "put_number a b s = Some s' \<Longrightarrow> io s' = io s"
  by (auto simp: put_number_def ki_make_ulong_string_def Let_def split: if_splits Option.bind_splits)

lemma printf_loop_io: "ki_printf_loop str args s = Some s' \<Longrightarrow> io s' = io s"
proof (induction str args s rule: ki_printf_loop.induct)
  case (3 c f str args s)
  then show ?case by (auto split: if_splits option.splits list.splits va_arg.splits Option.bind_splits dest: put_number_io)
qed (auto split: if_splits)

lemma update_cursor_moves: "moves_cursor s (ki_update_cursor s)"
  by (simp add: moves_cursor_def ki_update_cursor_def Let_def outportb_low_def cursor_access_def)

lemma printf_moves:
  assumes "ki_printf str args s = Some s'"
  shows "moves_cursor s s'"
proof -
  obtain s1 where s1: "ki_printf_loop (ascii str) args s = Some s1" "s' = ki_update_cursor s1" using assms by (auto simp: ki_printf_def)
  have "moves_cursor s s1" by (rule moves_refl [OF printf_loop_io [OF s1(1)]])
  then show ?thesis unfolding s1(2) using update_cursor_moves moves_trans by blast
qed

section \<open>The boot structure\<close>

lemma find_tag_io: "mboot2_find_tag ty s = Some (r, s') \<Longrightarrow> io s' = io s"
  by (auto simp: mboot2_find_tag_def split: if_splits Option.bind_splits option.splits)

lemma check_tags_io: "check_tags_loop req s = Some (r, s') \<Longrightarrow> io s' = io s"
proof (induction req s rule: check_tags_loop.induct)
  case (2 ty err req s)
  obtain tag s1 where s1: "mboot2_find_tag ty s = Some (tag, s1)" using 2(2) by (auto split: Option.bind_splits)
  show ?case
  proof (cases "tag = 0")
    case True
    then show ?thesis using 2(2) find_tag_io [OF s1] by (auto simp: s1 split: if_splits)
  next
    case False
    then have "check_tags_loop req s1 = Some (r, s')" using 2(2) by (simp add: s1)
    from 2(1) [OF s1 refl False this] show ?thesis using find_tag_io [OF s1] by simp
  qed
qed simp

lemma check_flags_io: "io (snd (check_flags_loop req fl s)) = io s"
  by (induction req fl s rule: check_flags_loop.induct) simp_all

lemma init_multiboot_io: "io (snd (init_multiboot s)) = io s" "init_multiboot2 s = Some (r, s') \<Longrightarrow> io s' = io s"
  using check_tags_io [of multiboot2_required "multiboot2_install_api_fns s" r s']
  by (simp_all add: init_multiboot_def Let_def check_multiboot_flags_def check_flags_io multiboot_install_api_fns_def
      init_multiboot2_def check_multiboot2_tags_def multiboot2_install_api_fns_def)

lemma multiboot_init_io:
  assumes "multiboot_init p magic s = Some (r, s')"
  shows "io s' = io s"
proof -
  let ?s = "init_api_struct (s\<lparr>boot_magic := magic, mboot_ptr := p\<rparr>)"
  have i: "io ?s = io s" by (simp add: init_api_struct_def)
  consider "s' = s\<lparr>kinit_errno := MBOOT_ERROR_MISALIGNED_HEADER\<rparr>" | "init_multiboot ?s = (r, s')" | "init_multiboot2 ?s = Some (r, s')"
    | "s' = ?s\<lparr>kinit_errno := MBOOT_ERROR_UNSUPPORTED\<rparr>"
    using assms by (auto simp: multiboot_init_def Let_def split: if_splits)
  then show ?thesis
  proof cases
    case 2
    then show ?thesis using init_multiboot_io(1) [of ?s] i by simp
  next
    case 3
    then show ?thesis using init_multiboot_io(2) i by metis
  qed (simp_all add: i)
qed

lemma get_memsz_io: "multiboot_get_memsz s = Some (r, s') \<Longrightarrow> io s' = io s"
  by (auto simp: multiboot_get_memsz_def call_get_memory_size_def mboot_get_memory_size_def mboot2_get_memory_size_def
      split: memory_size_fn.splits if_splits Option.bind_splits dest!: find_tag_io)

lemma next_mmap_io: "mboot2_next_mmap s = Some (r, s') \<Longrightarrow> io s' = io s"
  by (auto simp: mboot2_next_mmap_def Let_def split: if_splits Option.bind_splits dest!: find_tag_io)

lemma get_mmap_next_io: "multiboot_get_mmap_next b s = Some (r, b', s') \<Longrightarrow> io s' = io s"
  by (auto simp: multiboot_get_mmap_next_def mboot_get_next_mmap_entry_def multiboot_next_mmap_def mboot2_get_next_mmap_def Let_def
      split: next_mmap_fn.splits if_splits Option.bind_splits prod.splits dest!: next_mmap_io)

lemma relocate_io: "multiboot_relocate k s = Some s' \<Longrightarrow> io s' = io s"
  by (auto simp: multiboot_relocate_def mboot2_relocate_tags_def mboot2_get_structure_length_def Let_def split: relocate_fn.splits if_splits)

section \<open>Blocks and tables\<close>

lemma region_loops_io [simp]: "io (reserve_loop a n s) = io s" "io (free_loop a n s) = io s"
proof -
  show "io (reserve_loop a n s) = io s"
    by (induction a n s rule: reserve_loop.induct) (subst reserve_loop.simps, simp add: Let_def kmemlow_allocate_def)
  show "io (free_loop a n s) = io s"
    by (induction a n s rule: free_loop.induct) (subst free_loop.simps, simp add: Let_def kmemlow_deallocate_def)
qed

lemma regions_io [simp]: "io (reserve_region b l s) = io s" "io (free_region b l s) = io s"
  by (simp_all add: reserve_region_def free_region_def)

lemma mmap_loop_io: "mmap_loop b s = Some s' \<Longrightarrow> io s' = io s"
proof (induction b s s' rule: mmap_loop.raw_induct [rotated 1, consumes 1, case_names step])
  case (step mmap_loop b s s')
  then show ?case by (auto split: if_splits Option.bind_splits prod.splits dest!: get_mmap_next_io)
qed

lemma init_allocator_moves:
  fixes s s' :: "'a kmemlow_scheme"
  assumes "kmemlow_init_allocator mb b s = Some (r, s')"
  shows "moves_cursor s s'"
proof -
  obtain n and s1 s2 s4 s6 :: "'a kmemlow_scheme" and k a c m where
      s1: "multiboot_get_memsz (s\<lparr>mbitmap_physical := mb - 0xc0000000\<rparr>) = Some (n, s1)"
    and s2: "ki_printf memsz_text [VaWord n] s1 = Some s2"
    and s4: "multiboot_relocate k (s2\<lparr>total_blocks := a, used_blocks := a, bitmap_size := c, kernel_end_physical := k\<rparr>) = Some s4"
    and s6: "mmap_loop b (s4\<lparr>mem := m\<rparr>) = Some s6"
    and s': "s' = reserve_region 0x100000 (k - 0x100000) (reserve_region 0 0x100000 s6)"
    using assms by (simp add: kmemlow_init_allocator_def Let_def split: Option.bind_split_asm prod.split_asm)
  have "moves_cursor s s1" using get_memsz_io [OF s1] by (intro moves_refl) simp
  also have "moves_cursor s1 s2" by (rule printf_moves [OF s2])
  also have "moves_cursor s2 s'" using relocate_io [OF s4] mmap_loop_io [OF s6] by (intro moves_refl) (simp add: s')
  finally show ?thesis .
qed

lemma alloc_io [simp]: "io (snd (kmemlow_alloc s)) = io s"
  by (simp add: kmemlow_alloc_def kmemlow_first_free_def kmemlow_allocate_def split: option.split)

lemma alloc_eq_io: "kmemlow_alloc s = (p, s') \<Longrightarrow> io s' = io s"
  using alloc_io [of s] by simp

lemma entry_io [simp]: "io (set_entry t i v s) = io s" "io (clear_page p s) = io s"
  by (simp_all add: set_entry_def clear_page_def)

lemma identity_loop_io [simp]: "io (identity_loop i s) = io s"
proof (induction i s rule: identity_loop.induct)
  case (1 i s)
  then show ?case by (subst identity_loop.simps) simp
qed

lemma kernel_loop_io: "kernel_loop i s = Some s' \<Longrightarrow> io s' = io s"
proof (induction i s s' rule: kernel_loop.raw_induct [rotated 1, consumes 1, case_names step])
  case (step kernel_loop i s s')
  show ?case
  proof (cases "i < kernel_end_virtual s")
    case True
    from step(1) [of "i + PAGE_SIZE", OF step(2) [unfolded if_P [OF True]]] show ?thesis by simp
  next
    case False
    then show ?thesis using step(2) by simp
  qed
qed

lemma printf_after: "ki_printf str args s1 = Some s2 \<Longrightarrow> moves_cursor s s1 \<Longrightarrow> moves_cursor s s2"
  using printf_moves moves_trans by blast

lemma moves_same: "moves_cursor s s1 \<Longrightarrow> io s2 = io s1 \<Longrightarrow> moves_cursor s s2"
  by (simp add: moves_cursor_def)

lemma printf_kept: "ki_printf str args s1 = Some s2 \<Longrightarrow> io s1 = io s0 \<Longrightarrow> moves_cursor s s0 \<Longrightarrow> moves_cursor s s2"
  using printf_after moves_same by blast

lemma create_page_directory_moves:
  assumes "create_page_directory s = Some (r, s')"
  shows "moves_cursor s s'"
proof -
  obtain s1 where s1: "ki_printf (ln ''creating page directory...'') [] s = Some s1" using assms
    by (auto simp: create_page_directory_def split: Option.bind_splits)
  obtain p s2 where s2: "kmemlow_alloc s1 = (p, s2)" by (cases "kmemlow_alloc s1")
  have m: "moves_cursor s s2" using printf_moves [OF s1] alloc_eq_io [OF s2] by (rule moves_same)
  show ?thesis using assms
    by (auto simp: create_page_directory_def s1 s2 Let_def split: Option.bind_splits if_splits
        intro: moves_same [OF m] moves_same [OF printf_kept [OF _ _ m]])
qed

lemma map_first_megabyte_moves:
  assumes "map_first_megabyte s = Some (r, s')"
  shows "moves_cursor s s'"
proof -
  obtain s1 where s1: "ki_printf (ln ''mapping first megabyte...'') [] s = Some s1" using assms
    by (auto simp: map_first_megabyte_def split: Option.bind_splits)
  obtain p s2 where s2: "kmemlow_alloc s1 = (p, s2)" by (cases "kmemlow_alloc s1")
  have m: "moves_cursor s s2" using printf_moves [OF s1] alloc_eq_io [OF s2] by (rule moves_same)
  show ?thesis using assms
    by (auto simp: map_first_megabyte_def s1 s2 Let_def split: Option.bind_splits if_splits
        intro: moves_same [OF m] moves_same [OF printf_kept [OF _ _ m]])
qed

lemma map_kernel_moves:
  assumes "map_kernel s = Some (r, s')"
  shows "moves_cursor s s'"
proof -
  obtain s1 where s1: "ki_printf ''mapping kernel...'' [] s = Some s1" using assms
    by (auto simp: map_kernel_def split: Option.bind_splits)
  obtain p s2 where s2: "kmemlow_alloc s1 = (p, s2)" by (cases "kmemlow_alloc s1")
  have m: "moves_cursor s s2" using printf_moves [OF s1] alloc_eq_io [OF s2] by (rule moves_same)
  show ?thesis using assms
    by (auto simp: map_kernel_def s1 s2 Let_def split: Option.bind_splits if_splits dest!: kernel_loop_io
        intro: moves_same [OF m] moves_same [OF printf_kept [OF _ _ printf_kept [OF _ _ m]]])
qed

lemma create_stack_io: "io (snd (create_new_kernel_stack s)) = io s"
  by (auto simp: create_new_kernel_stack_def Let_def split: prod.split dest!: alloc_eq_io)

lemma setup_paging_moves:
  fixes s s' :: "'a paging_scheme"
  assumes "ki_setup_paging s = Some (r, s')"
  shows "moves_cursor s s'"
proof -
  obtain r1 and s1 :: "'a paging_scheme" where s1: "create_page_directory s = Some (r1, s1)" using assms
    by (auto simp: ki_setup_paging_def split: Option.bind_splits)
  note m1 = create_page_directory_moves [OF s1]
  show ?thesis
  proof (cases "r1 = 0")
    case True
    obtain r2 and s2 :: "'a paging_scheme" where s2: "map_first_megabyte s1 = Some (r2, s2)" using assms s1 True
      by (auto simp: ki_setup_paging_def split: Option.bind_splits)
    note m2 = moves_trans [OF m1 map_first_megabyte_moves [OF s2]]
    show ?thesis
    proof (cases "r2 = 0")
      case True
      obtain r3 and s3 :: "'a paging_scheme" where s3: "map_kernel s2 = Some (r3, s3)" using assms s1 s2 \<open>r1 = 0\<close> True
        by (auto simp: ki_setup_paging_def split: Option.bind_splits)
      have "s' = s3 \<or> s' = snd (create_new_kernel_stack s3)" using assms s1 s2 s3 \<open>r1 = 0\<close> True
        by (auto simp: ki_setup_paging_def split: if_splits prod.splits)
      then show ?thesis using moves_trans [OF m2 map_kernel_moves [OF s3]] moves_same create_stack_io by metis
    qed (use assms s1 s2 True m2 in \<open>simp add: ki_setup_paging_def\<close>)
  qed (use assms s1 m1 in \<open>simp add: ki_setup_paging_def\<close>)
qed

section \<open>The early phase\<close>

fun final :: "'a boot_outcome \<Rightarrow> 'a" where
  "final (Panicked s) = s"
| "final (Booted s) = s"

lemma fill_kparams_io [simp]: "io (fill_kparams p s) = io s"
  by (simp add: fill_kparams_def set_kparam_def Let_def)

lemma welcome_moves: "early_welcome_message s = Some s' \<Longrightarrow> moves_cursor s s'"
  by (auto simp: early_welcome_message_def split: Option.bind_splits intro: printf_after printf_moves)

lemma print_kparams_moves: "print_kparams p s = Some s' \<Longrightarrow> moves_cursor s s'"
  by (auto simp: print_kparams_def split: Option.bind_splits) (meson printf_after printf_moves)

lemma kernel_early_init_moves:
  fixes s :: "'a paging_scheme"
  assumes "kernel_early_init mbitmap buf hdr magic kparams s = Some r"
  shows "moves_cursor s (final r)"
proof -
  obtain s1 s2 :: "'a paging_scheme" and r2 where s1: "early_welcome_message s = Some s1" and s2: "multiboot_init hdr magic s1 = Some (r2, s2)"
    using assms by (auto simp: kernel_early_init_def split: Option.bind_splits)
  have m2: "moves_cursor s s2" using welcome_moves [OF s1] multiboot_init_io [OF s2] by (rule moves_same)
  show ?thesis
  proof (cases "r2 = 0")
    case True
    obtain s3 s4 s5 :: "'a paging_scheme" and r3 r4 where s3: "kmemlow_init_allocator mbitmap buf s2 = Some (r3, s3)"
        and s4: "ki_setup_paging s3 = Some (r4, s4)" and s5: "print_kparams kparams (fill_kparams kparams s4) = Some s5" and r: "r = Booted s5"
      using assms s1 s2 True by (auto simp: kernel_early_init_def split: Option.bind_splits)
    note m2
    also note init_allocator_moves [OF s3]
    also note setup_paging_moves [OF s4]
    also have "moves_cursor s4 (fill_kparams kparams s4)" by (simp add: moves_refl)
    also note print_kparams_moves [OF s5]
    finally show ?thesis by (simp add: r)
  next
    case False
    then obtain s3 where "ki_printf (ln ''[PANIC]: Multiboot data format could not be determined: %d'') [VaWord (kinit_errno s2)] s2 = Some s3" "r = Panicked s3"
      using assms s1 s2 by (auto simp: kernel_early_init_def split: Option.bind_splits)
    then show ?thesis using printf_moves moves_trans [OF m2] by fastforce
  qed
qed

text \<open>C26: whatever the boot loader hands over, and whether the early phase ends in the panic or in the boot, its port
  accesses are writes to the two ports of the hardware cursor: it reads no device, so nothing that arrives at the serial
  port before the kernel runs is lost, and it leaves the interrupt controllers alone.\<close>
theorem kernel_early_init_ports:
  assumes "kernel_early_init mbitmap buf hdr magic kparams s = Some r"
  shows "\<exists>l. io (final r) = io s @ l \<and> list_all cursor_access l"
  using kernel_early_init_moves [OF assms] by (simp add: moves_cursor_def)

lemma kernel_early_init_ports_witness:
  "\<exists>s'. kernel_early_init 0xc0200000 (low_entry 1) 0x1004 MULTIBOOT2_MAGIC 0x7e100 (paging_boot 1) = Some (Panicked s')
     \<and> list_all cursor_access (io s')"
proof -
  obtain s' where s': "kernel_early_init 0xc0200000 (low_entry 1) 0x1004 MULTIBOOT2_MAGIC 0x7e100 (paging_boot 1) = Some (Panicked s')"
    using early_init_refused [of "paging_boot 1" "0x1004" MULTIBOOT2_MAGIC "[]" 4 "0xc0200000" "low_entry 1" "0x7e100"]
    by (auto simp: paging_boot_def low_state_with_def term_ok_def boot_readable_def boot_verdict_def boot_bytes_def mboot_consts)
  have "io (paging_boot 1) = []" by (simp add: paging_boot_def low_state_with_def)
  then show ?thesis using kernel_early_init_ports [OF s'] s' by auto
qed

end
