(* ===== verification/Display.thy ===== *)
theory Display
  imports Video
begin

text \<open>
  The kernel's display driver, arch/i386/display.c: the text buffer with a cursor the driver draws
  itself, a blinking underscore in the cell that is written next. The cursor position is kept in
  16-bit words as in the code; a write pointer is the number of the cell it points to.
\<close>

record display = kernel +
  x_loc :: u16
  y_loc :: u16
  color_attrib :: u8

definition BLINKY_CURSOR :: u16 where "BLINKY_CURSOR = 0x5F"
definition CLEAR_SCREEN_CHAR :: u16 where "CLEAR_SCREEN_CHAR = 0x20"
definition TAB_CHAR_COUNT :: nat where "TAB_CHAR_COUNT = 4"

definition display_make_color :: "u32 \<Rightarrow> u32 \<Rightarrow> u8" where
  "display_make_color fg bg = ucast (push_bit 4 bg OR fg)"

section \<open>Operations\<close>

definition get_write_location :: "'a display_scheme \<Rightarrow> int" where
  "get_write_location s = uint (y_loc s) * VIDEO_COLS + uint (x_loc s)"

definition put_cell :: "int \<Rightarrow> u16 \<Rightarrow> 'a machine_scheme \<Rightarrow> 'a machine_scheme" where
  "put_cell i v s = s\<lparr>mem := set_cell i v (mem s)\<rparr>"

text \<open>The three values the driver writes: a blank, a character, the cursor.\<close>

definition blank :: "'a display_scheme \<Rightarrow> u16" where
  "blank s = push_bit 8 (ucast (color_attrib s)) OR CLEAR_SCREEN_CHAR"

definition glyph :: "'a display_scheme \<Rightarrow> u32 \<Rightarrow> u16" where
  "glyph s c = push_bit 8 (ucast (color_attrib s)) OR ucast (ucast c :: u8)"

definition cursor_glyph :: "'a display_scheme \<Rightarrow> u16" where
  "cursor_glyph s = push_bit 8 (ucast (color_attrib s) OR 0x80) OR BLINKY_CURSOR"

definition update_blinky_cursor :: "'a display_scheme \<Rightarrow> 'a display_scheme" where
  "update_blinky_cursor s = put_cell (get_write_location s) (cursor_glyph s) s"

definition scroll_display :: "'a display_scheme \<Rightarrow> 'a display_scheme" where
  "scroll_display s =
     (let copy_sz = VIDEO_COLS * (VIDEO_ROWS - 1);
          m = copy_cells_up copy_sz (mem s);
          m' = fill_cells copy_sz (copy_sz + VIDEO_COLS) (push_bit 8 (ucast (color_attrib s)) OR 0x20) m
      in s\<lparr>mem := m', y_loc := word_of_int (VIDEO_ROWS - 1), x_loc := 0\<rparr>)"

definition increment_draw_location :: "'a display_scheme \<Rightarrow> 'a display_scheme" where
  "increment_draw_location s =
     (let s1 = s\<lparr>x_loc := x_loc s + 1\<rparr>;
          s2 = (if uint (x_loc s1) \<ge> VIDEO_COLS then s1\<lparr>x_loc := 0, y_loc := y_loc s1 + 1\<rparr> else s1);
          s3 = (if uint (y_loc s2) \<ge> VIDEO_ROWS then scroll_display s2 else s2)
      in update_blinky_cursor s3)"

definition backspace :: "int \<Rightarrow> 'a display_scheme \<Rightarrow> 'a display_scheme" where
  "backspace write_loc s =
     (let s1 = put_cell write_loc (blank s) s;
          s2 = put_cell (write_loc - 1) (blank s1) s1;
          s3 = (if x_loc s2 = 0 then
                  (if y_loc s2 > 0 then s2\<lparr>y_loc := y_loc s2 - 1, x_loc := word_of_int (VIDEO_COLS - 1)\<rparr> else s2)
                else s2\<lparr>x_loc := x_loc s2 - 1\<rparr>)
      in update_blinky_cursor s3)"

fun tabulate_loop :: "nat \<Rightarrow> int \<Rightarrow> 'a display_scheme \<Rightarrow> 'a display_scheme" where
  "tabulate_loop 0 write_loc s = s"
| "tabulate_loop (Suc n) write_loc s =
     tabulate_loop n (write_loc + 1) (increment_draw_location (put_cell write_loc (blank s) s))"

definition tabulate :: "int \<Rightarrow> 'a display_scheme \<Rightarrow> 'a display_scheme" where
  "tabulate write_loc s = tabulate_loop TAB_CHAR_COUNT write_loc s"

definition display_write :: "u32 \<Rightarrow> 'a display_scheme \<Rightarrow> 'a display_scheme" where
  "display_write c s =
     (let write_loc = get_write_location s in
      if c = 8 then backspace write_loc s
      else if c = 9 then tabulate write_loc s
      else if c = 10 \<or> c = 13 then
        (let s1 = put_cell write_loc (blank s) s;
             s2 = s1\<lparr>x_loc := 0, y_loc := y_loc s1 + 1\<rparr>;
             s3 = (if uint (y_loc s2) \<ge> VIDEO_ROWS then scroll_display s2 else s2)
         in update_blinky_cursor s3)
      else increment_draw_location (put_cell write_loc (glyph s c) s))"

definition display_change_color :: "u8 \<Rightarrow> 'a display_scheme \<Rightarrow> u8 \<times> 'a display_scheme" where
  "display_change_color new_color s = (color_attrib s, s\<lparr>color_attrib := new_color\<rparr>)"

definition display_clear :: "'a display_scheme \<Rightarrow> 'a display_scheme" where
  "display_clear s =
     update_blinky_cursor (s\<lparr>mem := fill_cells 0 (VIDEO_COLS * VIDEO_ROWS) (blank s) (mem s), y_loc := 0, x_loc := 0\<rparr>)"

definition disable_hardware_cursor :: "'a display_scheme \<Rightarrow> 'a display_scheme" where
  "disable_hardware_cursor s = outportb 0x3d5 0x20 (outportb 0x3d4 0x0a s)"

text \<open>The attribute controller: the code of the two functions differs in one operation.\<close>

definition toggle_blinking_text :: "(u8 \<Rightarrow> u8) \<Rightarrow> device \<Rightarrow> 'a display_scheme \<Rightarrow> 'a display_scheme" where
  "toggle_blinking_text f dev s =
     (let (_, s) = inportb dev 0x3da s;
          (preserve, s) = inportb dev 0x3c0 s;
          s = outportb 0x3c0 0x10 s;
          (attributes, s) = inportb dev 0x3c1 s;
          s = outportb 0x3c0 (f attributes) s
      in outportb 0x3c0 preserve s)"

definition enable_blinking_text :: "device \<Rightarrow> 'a display_scheme \<Rightarrow> 'a display_scheme" where
  "enable_blinking_text = toggle_blinking_text (\<lambda>attributes. attributes OR 0x08)"

definition disable_blinking_text :: "device \<Rightarrow> 'a display_scheme \<Rightarrow> 'a display_scheme" where
  "disable_blinking_text = toggle_blinking_text (\<lambda>attributes. attributes AND NOT 0x08)"

definition display_init :: "device \<Rightarrow> 'a display_scheme \<Rightarrow> 'a display_scheme" where
  "display_init dev s = enable_blinking_text dev (display_clear (disable_hardware_cursor s))"

section \<open>What an operation may change\<close>

definition display_ok :: "'a display_scheme \<Rightarrow> bool" where
  "display_ok s \<longleftrightarrow> uint (x_loc s) < 80 \<and> uint (y_loc s) < 25"

text \<open>The cursor is drawn in the cell that is written next.\<close>

definition cursor_shown :: "'a display_scheme \<Rightarrow> bool" where
  "cursor_shown s \<longleftrightarrow> cell (mem s) (get_write_location s) = cursor_glyph s"

text \<open>Only cells from \<open>lo\<close> to \<open>hi - 1\<close> and the cursor position change.\<close>

definition draws :: "int \<Rightarrow> int \<Rightarrow> 'a display_scheme \<Rightarrow> 'a display_scheme \<Rightarrow> bool" where
  "draws lo hi s s' \<longleftrightarrow> (\<exists>m x y. s' = s\<lparr>mem := m, x_loc := x, y_loc := y\<rparr> \<and> same_outside_cells lo hi (mem s) m)"

lemma drawsI:
  "s' = s\<lparr>mem := m, x_loc := x, y_loc := y\<rparr> \<Longrightarrow> same_outside_cells lo hi (mem s) m \<Longrightarrow> draws lo hi s s'"
  by (auto simp: draws_def)

lemma draws_trans: "draws lo hi s1 s2 \<Longrightarrow> draws lo hi s2 s3 \<Longrightarrow> draws lo hi s1 s3"
  unfolding draws_def by (fastforce intro: same_outside_cells_trans)

lemma draws_refl: "draws lo hi s s"
  by (rule drawsI [where m = "mem s" and x = "x_loc s" and y = "y_loc s"]) simp_all

lemma draws_move: "draws lo hi s (s\<lparr>x_loc := x, y_loc := y\<rparr>)"
  by (rule drawsI [where m = "mem s" and x = x and y = y]) simp_all

lemma draws_same_mem:
  fixes s :: "'a display_scheme"
  assumes "s' = s\<lparr>x_loc := x_loc s', y_loc := y_loc s'\<rparr>"
  shows "draws lo hi s s'"
  by (subst assms) (rule draws_move)

lemma draws_put_cell:
  assumes "lo \<le> i" "i < hi" "near lo" "near hi"
  shows "draws lo hi s (put_cell i v s)"
  by (rule drawsI [where m = "set_cell i v (mem s)" and x = "x_loc s" and y = "y_loc s"])
     (simp_all add: put_cell_def set_cell_outside assms)

lemma near_bounds [simp]: "near 0" "near 2000" "near (- 1)"
  by (simp_all add: near_def)

lemma put_cell_simps [simp]:
  "x_loc (put_cell i v s) = x_loc s" "y_loc (put_cell i v s) = y_loc s" "color_attrib (put_cell i v s) = color_attrib s"
  "mem (put_cell i v s) = set_cell i v (mem s)"
  by (simp_all add: put_cell_def)

lemma write_location_bounds: "display_ok s \<Longrightarrow> 0 \<le> get_write_location s \<and> get_write_location s < 2000"
  by (simp add: get_write_location_def display_ok_def VIDEO_COLS_def)

lemma update_blinky_cursor_result:
  assumes "display_ok s"
  shows "draws 0 2000 s (update_blinky_cursor s)" "display_ok (update_blinky_cursor s)" "cursor_shown (update_blinky_cursor s)"
proof -
  have w: "0 \<le> get_write_location s" "get_write_location s < 2000" using write_location_bounds [OF assms] by auto
  then show "draws 0 2000 s (update_blinky_cursor s)" unfolding update_blinky_cursor_def by (intro draws_put_cell) simp_all
  show "display_ok (update_blinky_cursor s)" using assms by (simp add: update_blinky_cursor_def display_ok_def)
  have "near (get_write_location s)" using w by (simp add: near_def)
  then show "cursor_shown (update_blinky_cursor s)"
    by (simp add: cursor_shown_def update_blinky_cursor_def get_write_location_def cursor_glyph_def cell_set_cell)
qed

lemma scroll_display_result:
  shows "draws 0 2000 s (scroll_display s)" "display_ok (scroll_display s)"
    and "0 \<le> j \<Longrightarrow> j < 2000 \<Longrightarrow>
      cell (mem (scroll_display s)) j = (if j < 1920 then cell (mem s) (j + 80) else blank s)"
proof -
  let ?m = "copy_cells_up 1920 (mem s)"
  have n: "near 1920" "near 2000" by (simp_all add: near_def)
  have c: "same_outside_cells 0 1920 (mem s) ?m"
    "\<And>j. near j \<Longrightarrow> cell ?m j = (if 0 \<le> j \<and> j < 1920 then cell (mem s) (j + 80) else cell (mem s) j)"
    using copy_cells_up_result [of 1920 "mem s"] n by (auto simp: VIDEO_COLS_def)
  let ?m' = "fill_cells 1920 2000 (push_bit 8 (ucast (color_attrib s)) OR 0x20) ?m"
  have f: "same_outside_cells 1920 2000 ?m ?m'"
    "\<And>j. near j \<Longrightarrow> cell ?m' j = (if 1920 \<le> j \<and> j < 2000 then push_bit 8 (ucast (color_attrib s)) OR 0x20 else cell ?m j)"
    using fill_cells_result [of 1920 2000 ?m "push_bit 8 (ucast (color_attrib s)) OR 0x20"] n by auto
  have o: "same_outside_cells 0 2000 (mem s) ?m'"
    using same_outside_cells_mono [OF c(1), of 0 2000] same_outside_cells_mono [OF f(1), of 0 2000]
    by (auto intro: same_outside_cells_trans)
  have e: "scroll_display s = s\<lparr>mem := ?m', x_loc := 0, y_loc := 24\<rparr>"
    by (simp add: scroll_display_def VIDEO_COLS_def VIDEO_ROWS_def)
  show "draws 0 2000 s (scroll_display s)" using o e by (intro drawsI) auto
  show "display_ok (scroll_display s)" by (simp add: e display_ok_def)
  show "cell (mem (scroll_display s)) j = (if j < 1920 then cell (mem s) (j + 80) else blank s)" if "0 \<le> j" "j < 2000"
    using c(2) f(2) that by (simp add: e near_def blank_def CLEAR_SCREEN_CHAR_def)
qed

lemma uint_inc_u16: "uint x < 80 \<Longrightarrow> uint (x + 1) = uint x + 1" for x :: u16
  by (simp add: uint_word_ariths)

lemma uint_dec_u16: "x \<noteq> 0 \<Longrightarrow> uint (x - 1) = uint x - 1" for x :: u16
proof -
  assume "x \<noteq> 0"
  then have "1 \<le> uint x" using uint_0_iff [of x] uint_ge_0 [of x] by linarith
  then show ?thesis using uint_bounded [of x] by (simp add: uint_word_ariths)
qed

text \<open>Advancing the cursor: it wraps into the next row, and below the last row the screen scrolls.\<close>

lemma increment_cases:
  assumes "display_ok s"
  shows "increment_draw_location s =
    (if get_write_location s = 1999 then update_blinky_cursor (scroll_display (s\<lparr>x_loc := 0, y_loc := 25\<rparr>))
     else update_blinky_cursor (s\<lparr>x_loc := if uint (x_loc s) = 79 then 0 else x_loc s + 1,
                                   y_loc := if uint (x_loc s) = 79 then y_loc s + 1 else y_loc s\<rparr>))"
proof -
  have b: "uint (x_loc s) < 80" "uint (y_loc s) < 25" "0 \<le> uint (x_loc s)" "0 \<le> uint (y_loc s)"
    using assms by (simp_all add: display_ok_def)
  have x: "uint (x_loc s + 1) = uint (x_loc s) + 1" "uint (y_loc s + 1) = uint (y_loc s) + 1"
    using b by (simp_all add: uint_inc_u16)
  have w: "get_write_location s = 1999 \<longleftrightarrow> uint (x_loc s) = 79 \<and> uint (y_loc s) = 24"
    using b by (auto simp: get_write_location_def VIDEO_COLS_def)
  have y: "uint (y_loc s) = 24 \<Longrightarrow> y_loc s + 1 = 25" using x(2) by (simp add: word_uint_eq_iff)
  show ?thesis using b x w y
    by (auto simp: increment_draw_location_def Let_def VIDEO_COLS_def VIDEO_ROWS_def)
qed

lemma draws_from_move: "draws lo hi (s\<lparr>x_loc := x, y_loc := y\<rparr>) s' \<Longrightarrow> draws lo hi s s'"
  using draws_trans draws_move by blast

lemma increment_result:
  assumes "display_ok s"
  shows "draws 0 2000 s (increment_draw_location s) \<and> display_ok (increment_draw_location s)
    \<and> cursor_shown (increment_draw_location s)"
proof (cases "get_write_location s = 1999")
  case True
  let ?t = "scroll_display (s\<lparr>x_loc := 0, y_loc := 25\<rparr>)"
  have "draws 0 2000 s ?t" using scroll_display_result(1) draws_from_move by blast
  then show ?thesis using True update_blinky_cursor_result [of ?t] scroll_display_result(2)
    by (auto simp: increment_cases [OF assms] intro: draws_trans)
next
  case False
  let ?t = "s\<lparr>x_loc := if uint (x_loc s) = 79 then 0 else x_loc s + 1,
                y_loc := if uint (x_loc s) = 79 then y_loc s + 1 else y_loc s\<rparr>"
  have b: "uint (x_loc s) < 80" "uint (y_loc s) < 25" "0 \<le> uint (x_loc s)" "0 \<le> uint (y_loc s)"
    using assms by (simp_all add: display_ok_def)
  have "uint (x_loc s) = 79 \<Longrightarrow> uint (y_loc s) < 24"
    using b False by (auto simp: get_write_location_def VIDEO_COLS_def)
  then have "display_ok ?t" using b by (auto simp: display_ok_def uint_inc_u16)
  moreover have "draws 0 2000 s ?t" by (rule draws_move)
  ultimately show ?thesis
    using False update_blinky_cursor_result [of ?t] unfolding increment_cases [OF assms] if_not_P [OF False]
    by (blast intro: draws_trans)
qed

lemma draws_mono:
  assumes "draws lo hi s s'" "lo' \<le> lo" "hi \<le> hi'" "near lo'" "near hi'"
  shows "draws lo' hi' s s'"
  using assms same_outside_cells_mono [OF _ assms(2-5)] unfolding draws_def by blast

lemma display_ok_fields: "display_ok (put_cell i v s) = display_ok s"
  by (simp add: display_ok_def)

lemma tabulate_loop_result:
  "display_ok s \<Longrightarrow> n \<noteq> 0 \<or> cursor_shown s \<Longrightarrow> 0 \<le> w \<Longrightarrow> w + int n \<le> 2004 \<Longrightarrow>
   draws 0 (max 2000 (w + int n)) s (tabulate_loop n w s) \<and> display_ok (tabulate_loop n w s) \<and> cursor_shown (tabulate_loop n w s)"
proof (induction n w s rule: tabulate_loop.induct)
  case (1 w s)
  then show ?case by (simp add: draws_refl)
next
  case (2 n w s)
  let ?hi = "max 2000 (w + int (Suc n))"
  let ?s1 = "put_cell w (blank s) s"
  let ?s2 = "increment_draw_location ?s1"
  have nr: "near ?hi" using "2.prems" by (auto simp: near_def)
  have p: "draws 0 ?hi s ?s1"
    by (rule draws_put_cell [OF "2.prems"(3) _ near_bounds(1) nr]) simp
  have "display_ok ?s1" using "2.prems"(1) by (simp only: display_ok_fields)
  from increment_result [OF this]
  have i: "draws 0 2000 ?s1 ?s2" "display_ok ?s2" "cursor_shown ?s2" by blast+
  have d: "draws 0 ?hi ?s1 ?s2" by (rule draws_mono [OF i(1) _ _ near_bounds(1) nr]) simp_all
  have e: "w + 1 + int n = w + int (Suc n)" by simp
  have t: "draws 0 ?hi ?s2 (tabulate_loop n (w + 1) ?s2) \<and> display_ok (tabulate_loop n (w + 1) ?s2)
      \<and> cursor_shown (tabulate_loop n (w + 1) ?s2)"
    using "2.IH" [OF i(2) disjI2 [OF i(3)]] "2.prems"(3,4) unfolding e by simp
  have "draws 0 ?hi s (tabulate_loop n (w + 1) ?s2)"
    using p d t by (blast intro: draws_trans)
  then show ?case using t unfolding tabulate_loop.simps by blast
qed

lemma newline_result:
  assumes "display_ok s" "c = 10 \<or> c = 13"
  shows "draws 0 2000 s (display_write c s) \<and> display_ok (display_write c s) \<and> cursor_shown (display_write c s)"
proof -
  let ?w = "get_write_location s"
  define s1 where "s1 = put_cell ?w (blank s) s"
  define s2 where "s2 = s1\<lparr>x_loc := 0, y_loc := y_loc s1 + 1\<rparr>"
  define s3 where "s3 = (if uint (y_loc s2) \<ge> VIDEO_ROWS then scroll_display s2 else s2)"
  have e: "display_write c s = update_blinky_cursor s3"
    using assms(2) by (auto simp: display_write_def Let_def s1_def s2_def s3_def)
  have "0 \<le> ?w" "?w < 2000" using write_location_bounds [OF assms(1)] by auto
  then have d: "draws 0 2000 s s1" unfolding s1_def by (intro draws_put_cell) auto
  have u: "uint (y_loc s2) = uint (y_loc s) + 1"
    using assms(1) by (simp add: s2_def s1_def display_ok_def uint_inc_u16)
  have "draws 0 2000 s s2" using d draws_move unfolding s2_def by (rule draws_trans)
  then have "draws 0 2000 s s3" "display_ok s3"
    using u assms(1) scroll_display_result(1,2) [of s2]
    by (auto simp: s3_def VIDEO_ROWS_def display_ok_def s2_def intro: draws_trans)
  then show ?thesis using update_blinky_cursor_result [of s3] unfolding e by (auto intro: draws_trans)
qed

lemma backspace_result:
  assumes "display_ok s"
  shows "draws (get_write_location s - 1) 2000 s (backspace (get_write_location s) s)
    \<and> display_ok (backspace (get_write_location s) s) \<and> cursor_shown (backspace (get_write_location s) s)"
proof -
  let ?w = "get_write_location s"
  define s2 where "s2 = put_cell (?w - 1) (blank s) (put_cell ?w (blank s) s)"
  define s3 where "s3 = (if x_loc s = 0 then (if y_loc s > 0 then s2\<lparr>y_loc := y_loc s - 1, x_loc := 79\<rparr> else s2)
                else s2\<lparr>x_loc := x_loc s - 1\<rparr>)"
  have e: "backspace ?w s = update_blinky_cursor s3"
    by (simp add: backspace_def Let_def s2_def s3_def VIDEO_COLS_def blank_def)
  have w: "0 \<le> ?w" "?w < 2000" "near (?w - 1)" using write_location_bounds [OF assms] by (auto simp: near_def)
  have d: "draws (?w - 1) 2000 s s2"
    unfolding s2_def using w by (intro draws_trans [OF draws_put_cell draws_put_cell]) auto
  have b: "uint (x_loc s) < 80" "uint (y_loc s) < 25" using assms by (simp_all add: display_ok_def)
  have l: "display_ok s3 \<and> ?w - 1 \<le> get_write_location s3"
  proof -
    have "y_loc s > 0 \<longleftrightarrow> y_loc s \<noteq> 0" by (simp add: word_gt_0)
    then show ?thesis using b uint_dec_u16 [of "x_loc s"] uint_dec_u16 [of "y_loc s"]
      by (auto simp: s3_def s2_def display_ok_def get_write_location_def VIDEO_COLS_def)
  qed
  have "draws (?w - 1) 2000 s2 s3" by (rule draws_same_mem) (simp add: s3_def s2_def)
  then have "draws (?w - 1) 2000 s s3" by (rule draws_trans [OF d])
  moreover have "draws (?w - 1) 2000 s3 (update_blinky_cursor s3)"
    unfolding update_blinky_cursor_def using l w write_location_bounds [of s3] by (intro draws_put_cell) auto
  ultimately show ?thesis using update_blinky_cursor_result [of s3] l unfolding e by (auto intro: draws_trans)
qed

section \<open>The terminal the driver implements\<close>

text \<open>
  A terminal is a list of 2000 cells, a position in it and a colour. The driver's rows and columns,
  word arithmetic and pointers into video memory do not appear.
\<close>

record tty =
  cells :: "u16 list"
  pos :: nat
  attr :: u8

definition tty_blank :: "tty \<Rightarrow> u16" where
  "tty_blank t = push_bit 8 (ucast (attr t)) OR 0x20"

definition tty_set :: "nat \<Rightarrow> u16 \<Rightarrow> tty \<Rightarrow> tty" where
  "tty_set i v t = t\<lparr>cells := (cells t)[i := v]\<rparr>"

definition tty_show :: "tty \<Rightarrow> tty" where
  "tty_show t = tty_set (pos t) (push_bit 8 (ucast (attr t) OR 0x80) OR 0x5F) t"

text \<open>Going to a position below the last row scrolls by one row.\<close>

definition tty_goto :: "nat \<Rightarrow> tty \<Rightarrow> tty" where
  "tty_goto p t = tty_show (if p < 2000 then t\<lparr>pos := p\<rparr>
     else t\<lparr>cells := drop 80 (cells t) @ replicate 80 (tty_blank t), pos := 1920\<rparr>)"

primrec tty_blanks :: "nat \<Rightarrow> nat \<Rightarrow> tty \<Rightarrow> tty" where
  "tty_blanks 0 w t = t"
| "tty_blanks (Suc n) w t = (let t1 = tty_set w (tty_blank t) t in tty_blanks n (w + 1) (tty_goto (pos t1 + 1) t1))"

definition tty_write :: "u32 \<Rightarrow> tty \<Rightarrow> tty" where
  "tty_write c t =
     (if c = 8 then (let t1 = tty_set (pos t) (tty_blank t) t in
        if pos t = 0 then tty_show t1 else tty_goto (pos t - 1) (tty_set (pos t - 1) (tty_blank t) t1))
      else if c = 9 then tty_blanks 4 (pos t) t
      else if c = 10 \<or> c = 13 then tty_goto (80 * (pos t div 80) + 80) (tty_set (pos t) (tty_blank t) t)
      else tty_goto (pos t + 1) (tty_set (pos t) (push_bit 8 (ucast (attr t)) OR ucast (ucast c :: u8)) t))"

definition screen :: "memory \<Rightarrow> u16 list" where
  "screen m = map (\<lambda>i. cell m (int i)) [0..<2000]"

definition tty_of :: "'a display_scheme \<Rightarrow> tty" where
  "tty_of s = \<lparr>cells = screen (mem s), pos = nat (get_write_location s), attr = color_attrib s\<rparr>"

lemma screen_simps [simp]: "length (screen m) = 2000" "i < 2000 \<Longrightarrow> screen m ! i = cell m (int i)"
  by (simp_all add: screen_def)

lemma tty_of_simps [simp]:
  "cells (tty_of s) = screen (mem s)" "pos (tty_of s) = nat (get_write_location s)" "attr (tty_of s) = color_attrib s"
  by (simp_all add: tty_of_def)

lemma screen_set_cell: "0 \<le> i \<Longrightarrow> near i \<Longrightarrow> screen (set_cell i v m) = (screen m)[nat i := v]"
  by (rule nth_equalityI) (auto simp: nth_list_update cell_set_cell near_def)

lemma screen_set_cell_outside: "i < 0 \<Longrightarrow> near i \<Longrightarrow> screen (set_cell i v m) = screen m"
  by (rule nth_equalityI) (auto simp: cell_set_cell near_def)

lemma screen_scroll: "screen (mem (scroll_display s)) = drop 80 (screen (mem s)) @ replicate 80 (blank s)"
proof (rule nth_equalityI)
  fix i assume "i < length (screen (mem (scroll_display s)))"
  then show "screen (mem (scroll_display s)) ! i = (drop 80 (screen (mem s)) @ replicate 80 (blank s)) ! i"
    using scroll_display_result(3) [of "int i" s] by (auto simp: nth_append algebra_simps)
qed simp

lemma tty_put_cell: "0 \<le> i \<Longrightarrow> near i \<Longrightarrow> tty_of (put_cell i v s) = tty_set (nat i) v (tty_of s)"
  by (simp add: tty_of_def tty_set_def get_write_location_def screen_set_cell)

lemma tty_blank_of: "tty_blank (tty_of s) = blank s"
  by (simp add: tty_blank_def blank_def CLEAR_SCREEN_CHAR_def)

lemma location_near: "display_ok s \<Longrightarrow> 0 \<le> get_write_location s \<and> near (get_write_location s)"
  using write_location_bounds [of s] by (simp add: near_def)

lemma tty_update_blinky_cursor: "display_ok s \<Longrightarrow> tty_of (update_blinky_cursor s) = tty_show (tty_of s)"
  using location_near [of s]
  by (simp add: update_blinky_cursor_def tty_show_def tty_put_cell cursor_glyph_def BLINKY_CURSOR_def)

text \<open>Moving the cursor and drawing it, below the last row with a scroll, is going there.\<close>

lemma tty_moved:
  assumes "p < 2000" "display_ok s'" "mem s' = mem s" "color_attrib s' = color_attrib s" "get_write_location s' = int p"
  shows "tty_of (update_blinky_cursor s') = tty_goto p (tty_of s)"
  using assms by (simp add: tty_update_blinky_cursor tty_goto_def) (simp add: tty_of_def)

lemma tty_scrolled:
  assumes "p \<ge> 2000" "mem s' = mem s" "color_attrib s' = color_attrib s"
  shows "tty_of (update_blinky_cursor (scroll_display s')) = tty_goto p (tty_of s)"
proof -
  have "get_write_location (scroll_display s') = 1920" "color_attrib (scroll_display s') = color_attrib s'"
    by (simp_all add: scroll_display_def Let_def get_write_location_def VIDEO_COLS_def VIDEO_ROWS_def)
  then show ?thesis using assms
    by (simp add: tty_update_blinky_cursor scroll_display_result(2) tty_goto_def tty_blank_of)
       (simp add: tty_of_def screen_scroll blank_def)
qed

lemma tty_increment:
  assumes "display_ok s"
  shows "tty_of (increment_draw_location s) = tty_goto (pos (tty_of s) + 1) (tty_of s)"
proof (cases "get_write_location s = 1999")
  case True
  show ?thesis unfolding increment_cases [OF assms] if_P [OF True] by (intro tty_scrolled) (simp_all add: True)
next
  case False
  let ?t = "s\<lparr>x_loc := if uint (x_loc s) = 79 then 0 else x_loc s + 1,
                y_loc := if uint (x_loc s) = 79 then y_loc s + 1 else y_loc s\<rparr>"
  have b: "uint (x_loc s) < 80" "uint (y_loc s) < 25" "0 \<le> uint (x_loc s)" "0 \<le> uint (y_loc s)"
    using assms by (simp_all add: display_ok_def)
  have w: "0 \<le> get_write_location s" "get_write_location s < 2000" using write_location_bounds [OF assms] by auto
  have "uint (x_loc s) = 79 \<Longrightarrow> uint (y_loc s) < 24"
    using b False by (auto simp: get_write_location_def VIDEO_COLS_def)
  then have "display_ok ?t" "get_write_location ?t = get_write_location s + 1"
    using b by (auto simp: display_ok_def get_write_location_def VIDEO_COLS_def uint_inc_u16)
  then show ?thesis using False w unfolding increment_cases [OF assms] if_not_P [OF False]
    by (intro tty_moved) auto
qed

lemma tty_tabulate_loop:
  assumes "display_ok s" "0 \<le> w" "w + int n \<le> 2004"
  shows "tty_of (tabulate_loop n w s) = tty_blanks n (nat w) (tty_of s)"
  using assms
proof (induction n w s rule: tabulate_loop.induct)
  case (2 n w s)
  let ?s1 = "put_cell w (blank s) s"
  have ok: "display_ok ?s1" using "2.prems"(1) by (simp only: display_ok_fields)
  have "near w" using "2.prems"(2,3) by (simp add: near_def)
  then have p: "tty_of ?s1 = tty_set (nat w) (tty_blank (tty_of s)) (tty_of s)"
    using "2.prems"(2) by (simp only: tty_put_cell tty_blank_of)
  have "tty_of (tabulate_loop n (w + 1) (increment_draw_location ?s1))
      = tty_blanks n (nat (w + 1)) (tty_goto (pos (tty_of ?s1) + 1) (tty_of ?s1))"
    using "2.IH" increment_result [OF ok] "2.prems"(2,3) by (simp only: tty_increment [OF ok])
  moreover have "nat (w + 1) = nat w + 1" using "2.prems"(2) by simp
  ultimately show ?case unfolding tabulate_loop.simps tty_blanks.simps Let_def p by simp
qed simp

lemma uint_unat: "uint x = int (unat x)"
  by simp

lemma location_unat: "get_write_location s = int (80 * unat (y_loc s) + unat (x_loc s))"
  by (simp add: get_write_location_def VIDEO_COLS_def)

lemma location_row: "display_ok s \<Longrightarrow> nat (get_write_location s) div 80 = unat (y_loc s)"
proof -
  assume "display_ok s"
  then have "unat (x_loc s) < 80" unfolding display_ok_def uint_unat by linarith
  then show ?thesis unfolding location_unat nat_int by simp
qed

lemma tty_newline:
  assumes "display_ok s" "c = 10 \<or> c = 13"
  shows "tty_of (display_write c s) = tty_write c (tty_of s)"
proof -
  let ?w = "get_write_location s"
  define s1 where "s1 = put_cell ?w (blank s) s"
  define s2 where "s2 = s1\<lparr>x_loc := 0, y_loc := y_loc s + 1\<rparr>"
  have e: "display_write c s = update_blinky_cursor (if uint (y_loc s2) \<ge> 25 then scroll_display s2 else s2)"
    using assms(2) by (auto simp: display_write_def Let_def s1_def s2_def VIDEO_ROWS_def)
  have u: "uint (y_loc s2) = uint (y_loc s) + 1"
    using assms(1) by (simp add: s2_def display_ok_def uint_inc_u16)
  have n: "uint (y_loc s) = int (unat (y_loc s))" by (rule uint_unat)
  have x0: "uint (x_loc s2) = 0" by (simp add: s2_def)
  have l: "get_write_location s2 = int (80 * unat (y_loc s) + 80)"
    unfolding get_write_location_def VIDEO_COLS_def u n x0 by simp
  have "tty_of (display_write c s) = tty_goto (80 * unat (y_loc s) + 80) (tty_of s1)"
  proof (cases "uint (y_loc s2) \<ge> 25")
    case True
    then have "80 * unat (y_loc s) + 80 \<ge> 2000" using u n by linarith
    then show ?thesis unfolding e if_P [OF True] by (intro tty_scrolled) (simp_all add: s2_def)
  next
    case False
    then have "80 * unat (y_loc s) + 80 < 2000" using u n by linarith
    moreover have "display_ok s2" using False unfolding display_ok_def x0 by linarith
    ultimately show ?thesis using l unfolding e if_not_P [OF False]
      by (intro tty_moved) (simp_all add: s2_def)
  qed
  also have "tty_of s1 = tty_set (pos (tty_of s)) (tty_blank (tty_of s)) (tty_of s)"
    using location_near [OF assms(1)] by (simp add: s1_def tty_put_cell tty_blank_of)
  finally show ?thesis using assms by (auto simp: tty_write_def location_row)
qed

lemma uint_pos: "x \<noteq> 0 \<Longrightarrow> 0 < uint x" for x :: u16
  using uint_0_iff [of x] uint_ge_0 [of x] by linarith

lemma at_home: "get_write_location s = 0 \<Longrightarrow> x_loc s = 0 \<and> y_loc s = 0"
  using uint_pos [of "x_loc s"] uint_pos [of "y_loc s"] uint_ge_0 [of "x_loc s"] uint_ge_0 [of "y_loc s"]
  unfolding get_write_location_def VIDEO_COLS_def by (metis add_nonneg_pos add_pos_nonneg less_irrefl mult_nonneg_nonneg
    mult_pos_pos zero_le_numeral zero_less_numeral)

lemma tty_backspace:
  assumes "display_ok s"
  shows "tty_of (backspace (get_write_location s) s) = tty_write 8 (tty_of s)"
proof -
  let ?w = "get_write_location s"
  define s1 where "s1 = put_cell ?w (blank s) s"
  define s2 where "s2 = put_cell (?w - 1) (blank s) s1"
  define s3 where "s3 = (if x_loc s = 0 then (if y_loc s > 0 then s2\<lparr>y_loc := y_loc s - 1, x_loc := 79\<rparr> else s2)
                else s2\<lparr>x_loc := x_loc s - 1\<rparr>)"
  have e: "backspace ?w s = update_blinky_cursor s3"
    by (simp add: backspace_def Let_def s1_def s2_def s3_def VIDEO_COLS_def blank_def)
  have w: "0 \<le> ?w" "?w < 2000" "near ?w" "near (?w - 1)"
    using write_location_bounds [OF assms] by (auto simp: near_def)
  have b: "uint (x_loc s) < 80" "uint (y_loc s) < 25" "0 \<le> uint (x_loc s)" "0 \<le> uint (y_loc s)"
    using assms by (simp_all add: display_ok_def)
  have p: "tty_of s1 = tty_set (pos (tty_of s)) (tty_blank (tty_of s)) (tty_of s)"
    using w by (simp add: s1_def tty_put_cell tty_blank_of)
  have same: "mem s3 = mem s2" "color_attrib s3 = color_attrib s2" by (simp_all add: s3_def)
  show ?thesis
  proof (cases "?w = 0")
    case True
    then have z: "x_loc s = 0" "y_loc s = 0" using at_home by auto
    then have "s3 = s2" by (simp add: s3_def)
    moreover have "display_ok s2" using z by (simp add: s2_def s1_def display_ok_def)
    moreover have "tty_of s2 = tty_of s1"
      using w True by (simp add: s2_def tty_of_def screen_set_cell_outside get_write_location_def)
    ultimately show ?thesis unfolding e by (simp add: True tty_update_blinky_cursor tty_write_def p)
  next
    case False
    have "y_loc s > 0 \<longleftrightarrow> y_loc s \<noteq> 0" by (simp add: word_gt_0)
    then have l: "display_ok s3" "get_write_location s3 = int (nat (?w - 1))"
      using b False uint_pos [of "x_loc s"] uint_pos [of "y_loc s"] uint_dec_u16 [of "x_loc s"] uint_dec_u16 [of "y_loc s"]
      by (auto simp: s3_def s2_def s1_def display_ok_def get_write_location_def VIDEO_COLS_def)
    have "tty_of s2 = tty_set (pos (tty_of s) - 1) (tty_blank (tty_of s)) (tty_of s1)"
      using w False by (simp add: s2_def tty_put_cell tty_blank_of nat_diff_distrib)
    moreover have "tty_of (backspace ?w s) = tty_goto (nat (?w - 1)) (tty_of s2)"
      unfolding e using w l same by (intro tty_moved) auto
    ultimately show ?thesis using w False by (simp add: tty_write_def p nat_diff_distrib)
  qed
qed

lemma display_write_tty:
  assumes "display_ok s"
  shows "tty_of (display_write c s) = tty_write c (tty_of s)"
proof -
  have w: "0 \<le> get_write_location s" "get_write_location s + int 4 \<le> 2004" "near (get_write_location s)"
    using write_location_bounds [OF assms] by (auto simp: near_def)
  consider "c = 8" | "c = 9" | "c = 10 \<or> c = 13" | "c \<noteq> 8" "c \<noteq> 9" "\<not> (c = 10 \<or> c = 13)" by blast
  then show ?thesis
  proof cases
    case 1
    then show ?thesis using tty_backspace [OF assms] by (simp add: display_write_def)
  next
    case 2
    then show ?thesis using tty_tabulate_loop [OF assms w(1,2)]
      by (simp add: display_write_def tabulate_def TAB_CHAR_COUNT_def tty_write_def)
  next
    case 3
    then show ?thesis by (rule tty_newline [OF assms])
  next
    case 4
    let ?s = "put_cell (get_write_location s) (glyph s c) s"
    have "tty_of ?s = tty_set (nat (get_write_location s)) (glyph s c) (tty_of s)" by (rule tty_put_cell [OF w(1,3)])
    then have "tty_of (increment_draw_location ?s) = tty_goto (pos (tty_of s) + 1) (tty_set (nat (get_write_location s)) (glyph s c) (tty_of s))"
      using assms by (simp add: tty_increment display_ok_fields tty_set_def)
    then show ?thesis using 4 by (simp add: display_write_def tty_write_def glyph_def)
  qed
qed

lemma display_write_result:
  assumes "display_ok s" "c = 8 \<Longrightarrow> get_write_location s \<noteq> 0" "c = 9 \<Longrightarrow> get_write_location s \<le> 1996"
  shows "draws 0 2000 s (display_write c s) \<and> display_ok (display_write c s) \<and> cursor_shown (display_write c s)"
proof -
  have w: "0 \<le> get_write_location s" "get_write_location s < 2000" using write_location_bounds [OF assms(1)] by auto
  consider "c = 8" | "c = 9" | "c = 10 \<or> c = 13" | "c \<noteq> 8" "c \<noteq> 9" "\<not> (c = 10 \<or> c = 13)" by blast
  then show ?thesis
  proof cases
    case 1
    have b: "draws 0 2000 s (backspace (get_write_location s) s)"
      using backspace_result [OF assms(1)] w assms(2) [OF 1] by (auto intro: draws_mono)
    then show ?thesis using backspace_result [OF assms(1)] 1 by (simp add: display_write_def)
  next
    case 2
    have "max 2000 (get_write_location s + int 4) = 2000" using assms(3) [OF 2] by simp
    then show ?thesis using tabulate_loop_result [OF assms(1), of 4 "get_write_location s"] 2 w
      by (simp add: display_write_def tabulate_def TAB_CHAR_COUNT_def)
  next
    case 3
    then show ?thesis by (rule newline_result [OF assms(1)])
  next
    case 4
    let ?s = "put_cell (get_write_location s) (glyph s c) s"
    have "draws 0 2000 s ?s" using w by (intro draws_put_cell) simp_all
    moreover have "display_ok ?s" using assms(1) by (simp only: display_ok_fields)
    ultimately have "draws 0 2000 s (increment_draw_location ?s) \<and> display_ok (increment_draw_location ?s)
        \<and> cursor_shown (increment_draw_location ?s)"
      using increment_result by (blast intro: draws_trans)
    then show ?thesis using 4 by (simp add: display_write_def)
  qed
qed

text \<open>Whatever the character, at most one cell before the screen and three after it are written.\<close>

lemma display_write_bounded:
  assumes ok: "display_ok s"
  shows "draws (- 1) 2003 s (display_write c s) \<and> display_ok (display_write c s)"
proof -
  have n: "near 2003" by (simp add: near_def)
  have w: "0 \<le> get_write_location s" "get_write_location s + int 4 \<le> 2003" using write_location_bounds [OF ok] by auto
  show ?thesis
  proof (cases "c = 8 \<or> c = 9")
    case True
    have "draws (- 1) 2003 s (backspace (get_write_location s) s)"
      using backspace_result [OF ok] w by (auto intro: draws_mono simp: n)
    moreover have "draws (- 1) 2003 s (tabulate_loop 4 (get_write_location s) s)"
      using tabulate_loop_result [OF ok, of 4 "get_write_location s"] w by (auto intro: draws_mono simp: n)
    ultimately show ?thesis using True backspace_result [OF ok] tabulate_loop_result [OF ok, of 4 "get_write_location s"] w
      by (auto simp: display_write_def tabulate_def TAB_CHAR_COUNT_def)
  next
    case False
    then show ?thesis using display_write_result [OF ok, of c] by (auto intro: draws_mono simp: n)
  qed
qed

lemmas display_write_ok = display_write_bounded [THEN conjunct2]

text \<open>The driver as the interfaces see it.\<close>

interpretation disp: terminal_driver display_write display_ok tty_of tty_write
  by unfold_locales (auto intro: display_write_ok display_write_tty)

interpretation disp: character_sink display_write display_ok "\<lambda>c. c \<noteq> 8 \<and> c \<noteq> 9" "draws 0 2000"
  by unfold_locales (use draws_refl draws_trans display_write_result in blast)+

subsection \<open>Outside the screen\<close>

lemma cell_below_screen:
  assumes "draws 0 2000 s s'" "2000 \<le> j" "near j"
  shows "cell (mem s') j = cell (mem s) j" "color_attrib s' = color_attrib s"
proof -
  have "VIDEO_MEMORY + 2 * j = int (0xB8000 + nat (2 * j))" using assms(2) by (simp add: VIDEO_MEMORY_def)
  then have a: "cell_addr j = of_nat (0xB8000 + nat (2 * j))" unfolding cell_addr_def by (simp only: of_int_of_nat_eq)
  have b: "4000 \<le> nat (2 * j)" "nat (2 * j) < 200000" using assms(2,3) by (auto simp: near_def)
  have "cell_addr j + 1 = of_nat (0xB8000 + nat (2 * j) + 1)" by (simp add: a)
  then have "unat (cell_addr j) = 0xB8000 + nat (2 * j)" "unat (cell_addr j + 1) = 0xB8000 + nat (2 * j) + 1"
    unfolding a using b unat_of_nat_u32 [of "0xB8000 + nat (2 * j)"] unat_of_nat_u32 [of "0xB8000 + nat (2 * j) + 1"]
    by simp_all
  then have "outside_cells 0 2000 (cell_addr j)" "outside_cells 0 2000 (cell_addr j + 1)"
    using b by (auto intro: off_screen)
  then show "cell (mem s') j = cell (mem s) j" "color_attrib s' = color_attrib s"
    using assms(1) by (auto simp: draws_def same_outside_cells_def cell_def load16_def)
qed

lemma tabulate_loop_below_screen:
  assumes "display_ok s" "0 \<le> w" "w + int n \<le> 2004" "2000 \<le> j" "near j"
  shows "cell (mem (tabulate_loop n w s)) j = (if w \<le> j \<and> j < w + int n then blank s else cell (mem s) j)"
  using assms
proof (induction n w s rule: tabulate_loop.induct)
  case (2 n w s)
  let ?s1 = "put_cell w (blank s) s"
  let ?s2 = "increment_draw_location ?s1"
  have "near w" using "2.prems"(2,3) by (simp add: near_def)
  then have p: "cell (mem ?s1) j = (if w = j then blank s else cell (mem s) j)"
    using "2.prems"(5) by (simp add: cell_set_cell)
  have "display_ok ?s1" using "2.prems"(1) by (simp only: display_ok_fields)
  from increment_result [OF this]
  have i: "draws 0 2000 ?s1 ?s2" "display_ok ?s2" by blast+
  have c: "cell (mem ?s2) j = cell (mem ?s1) j" "blank ?s2 = blank s"
    using cell_below_screen [OF i(1) "2.prems"(4,5)] by (simp_all add: blank_def)
  have "cell (mem (tabulate_loop n (w + 1) ?s2)) j = (if w + 1 \<le> j \<and> j < w + 1 + int n then blank s else cell (mem ?s1) j)"
    using "2.IH" [OF i(2)] "2.prems"(2-5) unfolding c by simp
  then show ?case unfolding tabulate_loop.simps p by auto
qed auto

section \<open>Initialisation\<close>

lemma display_clear_result:
  "tty_of (display_clear s) = tty_show \<lparr>cells = replicate 2000 (blank s), pos = 0, attr = color_attrib s\<rparr>"
  "draws 0 2000 s (display_clear s)" "display_ok (display_clear s)" "cursor_shown (display_clear s)"
proof -
  let ?m = "fill_cells 0 2000 (blank s) (mem s)"
  define s1 where "s1 = s\<lparr>mem := ?m, y_loc := 0, x_loc := 0\<rparr>"
  have e: "display_clear s = update_blinky_cursor s1" by (simp add: display_clear_def s1_def VIDEO_COLS_def VIDEO_ROWS_def)
  have f: "same_outside_cells 0 2000 (mem s) ?m" "\<And>j. near j \<Longrightarrow> cell ?m j = (if 0 \<le> j \<and> j < 2000 then blank s else cell (mem s) j)"
    using fill_cells_result [of 0 2000 "mem s" "blank s"] by auto
  have ok: "display_ok s1" by (simp add: s1_def display_ok_def)
  have "draws 0 2000 s s1"
    by (rule drawsI [OF _ f(1), where x = 0 and y = 0]) (simp add: s1_def)
  then show "draws 0 2000 s (display_clear s)" "display_ok (display_clear s)" "cursor_shown (display_clear s)"
    using update_blinky_cursor_result [OF ok] unfolding e by (auto intro: draws_trans)
  have "screen ?m = replicate 2000 (blank s)" by (rule nth_equalityI) (simp_all add: f(2) near_def)
  then have "tty_of s1 = \<lparr>cells = replicate 2000 (blank s), pos = 0, attr = color_attrib s\<rparr>"
    by (simp add: s1_def tty_of_def get_write_location_def)
  then show "tty_of (display_clear s) = tty_show \<lparr>cells = replicate 2000 (blank s), pos = 0, attr = color_attrib s\<rparr>"
    using tty_update_blinky_cursor [OF ok] unfolding e by simp
qed

section \<open>Properties\<close>

text \<open>C11: The display driver implements the terminal: for every character, on every state with the
  cursor on the screen, what the driver does to video memory, cursor and colour is exactly what the
  terminal specification says, the scroll in the last row included.\<close>
theorem display_write_refines:
  "display_ok s \<Longrightarrow> tty_of (display_write c s) = tty_write c (tty_of s)"
  by (rule display_write_tty)

text \<open>A display with its cursor at a given column and row.\<close>

definition display_at :: "u16 \<Rightarrow> u16 \<Rightarrow> display" where
  "display_at x y = \<lparr>mem = (\<lambda>_. 0), io = [], errno = 0, x_loc = x, y_loc = y, color_attrib = 7\<rparr>"

lemma display_at_location: "get_write_location (display_at x y) = uint y * 80 + uint x"
  by (simp add: display_at_def get_write_location_def VIDEO_COLS_def)

lemma display_write_refines_witness:
  "display_ok (display_at 79 24) \<and> tty_of (display_write 65 (display_at 79 24)) = tty_write 65 (tty_of (display_at 79 24))"
proof -
  have "display_ok (display_at 79 24)" by (simp add: display_at_def display_ok_def)
  then show ?thesis using display_write_refines by blast
qed

text \<open>C29: Apart from a backspace in the first cell and a tab in the last three, writing a character
  keeps the cursor on the screen, draws it where the next character goes, and changes no memory
  other than the 2000 cells of the screen.\<close>
theorem display_write_confined:
  assumes "display_ok s" "c = 8 \<Longrightarrow> get_write_location s \<noteq> 0" "c = 9 \<Longrightarrow> get_write_location s \<le> 1996"
  shows "display_ok (display_write c s) \<and> cursor_shown (display_write c s)
    \<and> same_outside_cells 0 2000 (mem s) (mem (display_write c s))"
proof -
  have "draws 0 2000 s (display_write c s) \<and> display_ok (display_write c s) \<and> cursor_shown (display_write c s)"
    using display_write_result assms by blast
  then show ?thesis by (auto simp: draws_def)
qed

lemma display_write_confined_witness:
  "display_ok (display_write 9 (display_at 76 24)) \<and> cursor_shown (display_write 9 (display_at 76 24))
    \<and> same_outside_cells 0 2000 (mem (display_at 76 24)) (mem (display_write 9 (display_at 76 24)))"
  by (rule display_write_confined) (simp_all add: display_at_location, simp add: display_at_def display_ok_def)

text \<open>The two exceptions write outside the screen: a backspace in the first cell blanks the two
  bytes before video memory, a tab in the last cell (the screen scrolls, the pointer does not) the
  three cells after it.\<close>
theorem display_write_overruns:
  assumes "display_ok s"
  shows "(get_write_location s = 0 \<longrightarrow> load16 (mem (display_write 8 s)) 0xB7FFE = blank s)
    \<and> (get_write_location s = 1999 \<longrightarrow> (\<forall>j \<in> {2000, 2001, 2002}. cell (mem (display_write 9 s)) j = blank s))"
proof (intro conjI impI ballI)
  assume z: "get_write_location s = 0"
  then have "display_write 8 s = update_blinky_cursor (put_cell (- 1) (blank s) (put_cell 0 (blank s) s))"
    using at_home [OF z] by (simp add: display_write_def backspace_def Let_def blank_def)
  moreover have "cell_addr (- 1) = 0xB7FFE" by (simp add: cell_addr_def VIDEO_MEMORY_def)
  ultimately show "load16 (mem (display_write 8 s)) 0xB7FFE = blank s"
    using at_home [OF z] cell_set_cell [of "0" "- 1"] cell_set_cell [of "- 1" "- 1"]
    by (simp add: update_blinky_cursor_def get_write_location_def put_cell_def cell_def)
next
  fix j :: int assume "get_write_location s = 1999" "j \<in> {2000, 2001, 2002}"
  then show "cell (mem (display_write 9 s)) j = blank s"
    using tabulate_loop_below_screen [OF assms, of 1999 4 j]
    by (auto simp: display_write_def tabulate_def TAB_CHAR_COUNT_def near_def)
qed

lemma display_write_overruns_witness:
  "load16 (mem (display_write 8 (display_at 0 0))) 0xB7FFE = 0x720 \<and> cell (mem (display_write 9 (display_at 79 24))) 2002 = 0x720"
proof -
  have "display_ok (display_at 0 0)" "display_ok (display_at 79 24)" "blank (display_at x y) = 0x720" for x y
    by (simp_all add: display_at_def display_ok_def blank_def CLEAR_SCREEN_CHAR_def)
  then show ?thesis
    using display_write_overruns [of "display_at 0 0"] display_write_overruns [of "display_at 79 24"]
    by (auto simp: display_at_location)
qed

text \<open>Initialising the display clears the screen, puts the cursor in its first cell, switches the
  hardware cursor off and sets the blink bit of the attribute mode register, keeping its other bits
  and the controller's index as they were read.\<close>
theorem display_init_result:
  "\<exists>status index mode.
     tty_of (display_init dev s) = tty_show \<lparr>cells = replicate 2000 (blank s), pos = 0, attr = color_attrib s\<rparr>
   \<and> io (display_init dev s) = io s @ [Out 0x3d4 0x0a, Out 0x3d5 0x20, In 0x3da status, In 0x3c0 index,
       Out 0x3c0 0x10, In 0x3c1 mode, Out 0x3c0 (mode OR 0x08), Out 0x3c0 index]
   \<and> display_ok (display_init dev s) \<and> cursor_shown (display_init dev s)
   \<and> same_outside_cells 0 2000 (mem s) (mem (display_init dev s))"
proof -
  let ?s = "disable_hardware_cursor s"
  let ?t = "display_clear ?s"
  obtain status index mode where
    d: "display_init dev s = ?t\<lparr>io := io ?t @ [In 0x3da status, In 0x3c0 index,
       Out 0x3c0 0x10, In 0x3c1 mode, Out 0x3c0 (mode OR 0x08), Out 0x3c0 index]\<rparr>"
    by (simp add: display_init_def enable_blinking_text_def toggle_blinking_text_def inportb_def outportb_def Let_def)
  have e: "io ?s = io s @ [Out 0x3d4 0x0a, Out 0x3d5 0x20]" "mem ?s = mem s" "blank ?s = blank s" "color_attrib ?s = color_attrib s"
    by (simp_all add: disable_hardware_cursor_def outportb_def blank_def)
  have "io ?t = io ?s" "same_outside_cells 0 2000 (mem s) (mem ?t)"
    using display_clear_result(2) [of ?s] by (auto simp: draws_def e)
  moreover have "tty_of (display_init dev s) = tty_of ?t" "display_ok (display_init dev s) = display_ok ?t"
    "cursor_shown (display_init dev s) = cursor_shown ?t" "mem (display_init dev s) = mem ?t"
    by (simp_all add: d tty_of_def get_write_location_def display_ok_def cursor_shown_def cursor_glyph_def)
  ultimately show ?thesis
    using display_clear_result [of ?s] unfolding d e by (intro exI [of _ status] exI [of _ index] exI [of _ mode]) simp
qed

end
