(* ===== verification/Balloc.thy ===== *)
theory Balloc
  imports Bitmap Display
begin

text \<open>
  The block allocator of the running kernel, arch/i386/balloc.c: the same bitmap as the early one
  (the shared code is in the theory of the bitmap), and a count of used blocks that the two
  operations keep. The proofs are about the set of used blocks.
\<close>

definition ENOMEM :: u32 where "ENOMEM = 2"

record balloc = display +
  mbmp :: u32
  btotal :: u32
  bused :: u32

section \<open>Operations\<close>

definition block_is_allocated :: "u32 \<Rightarrow> 'a balloc_scheme \<Rightarrow> bool" where
  "block_is_allocated x s \<longleftrightarrow>
     load32 (mem s) (unit_addr (mbmp s) (x div BLOCKS_PER_UNIT)) AND push_bit (unat (x mod BLOCKS_PER_UNIT)) 1 \<noteq> 0"

definition balloc_first_free :: "'a balloc_scheme \<Rightarrow> u32 \<times> 'a balloc_scheme" where
  "balloc_first_free s =
     (case scan_units (mem s) (mbmp s) 0 (btotal s div BLOCKS_PER_UNIT) of
        Some block \<Rightarrow> (block, s)
      | None \<Rightarrow> (0, s\<lparr>errno := ENOMEM\<rparr>))"

definition balloc_allocate :: "u32 \<Rightarrow> 'a balloc_scheme \<Rightarrow> 'a balloc_scheme" where
  "balloc_allocate block s = s\<lparr>mem := bm_allocate (mbmp s) block (mem s), bused := bused s + 1\<rparr>"

definition balloc_deallocate :: "u32 \<Rightarrow> 'a balloc_scheme \<Rightarrow> 'a balloc_scheme" where
  "balloc_deallocate block s = s\<lparr>mem := bm_deallocate (mbmp s) block (mem s), bused := bused s - 1\<rparr>"

definition balloc_initialize :: "u32 \<Rightarrow> u32 \<Rightarrow> u32 \<Rightarrow> 'a balloc_scheme \<Rightarrow> 'a balloc_scheme" where
  "balloc_initialize bmp nblocks nused s = s\<lparr>mbmp := bmp, btotal := nblocks, bused := nused\<rparr>"

definition balloc_allocate_block :: "'a balloc_scheme \<Rightarrow> u32 \<times> 'a balloc_scheme" where
  "balloc_allocate_block s =
     (case balloc_first_free s of (free_block, s1) \<Rightarrow>
        if free_block = 0 then (0, s1)
        else (free_block * PAGE_SIZE, balloc_allocate free_block s1))"

definition balloc_deallocate_block :: "u32 \<Rightarrow> 'a balloc_scheme \<Rightarrow> 'a balloc_scheme" where
  "balloc_deallocate_block block s =
     (let allocated_block = block div PAGE_SIZE in
      if block_is_allocated allocated_block s then
        (if allocated_block < btotal s then balloc_deallocate allocated_block s else s)
      else s)"

definition balloc_get_total_blocks :: "'a balloc_scheme \<Rightarrow> u32" where
  "balloc_get_total_blocks s = btotal s"

definition balloc_get_used_blocks :: "'a balloc_scheme \<Rightarrow> u32" where
  "balloc_get_used_blocks s = bused s"

definition balloc_get_free_blocks :: "'a balloc_scheme \<Rightarrow> u32" where
  "balloc_get_free_blocks s = btotal s - bused s"

section \<open>The set of used blocks\<close>

definition bset :: "'a balloc_scheme \<Rightarrow> nat set" where
  "bset s = used_set (mem s) (mbmp s) (btotal s)"

text \<open>The states of a running kernel: block 0 is never free.\<close>

definition balloc_ok :: "'a balloc_scheme \<Rightarrow> bool" where
  "balloc_ok s \<longleftrightarrow> unat (btotal s) \<le> 2 ^ 20 \<and> 0 \<in> bset s"

lemma bset_finite [simp]: "finite (bset s)"
  by (simp add: bset_def used_set_def)

lemma bset_errno [simp]: "bset (s\<lparr>errno := e\<rparr>) = bset s"
  by (simp add: bset_def)

lemma bset_bound: "k \<in> bset s \<Longrightarrow> k < unat (btotal s)"
  by (simp add: bset_def used_set_def)

lemma bset_allocate: "unat f < unat (btotal s) \<Longrightarrow> bset (balloc_allocate f s) = insert (unat f) (bset s)"
  by (simp add: bset_def balloc_allocate_def used_set_allocate)

lemma block_is_allocated_used: "block_is_allocated x s \<longleftrightarrow> block_used (mem s) (mbmp s) (unat x)"
  by (simp add: block_is_allocated_def unit_addr_block block_used_def and_exp_eq_0_iff_not_bit)

lemma balloc_deallocate_block_result:
  "balloc_deallocate_block p s = (if frame p \<in> bset s then balloc_deallocate (p div PAGE_SIZE) s else s)"
  by (auto simp: balloc_deallocate_block_def Let_def block_is_allocated_used bset_def used_set_def frame_div word_less_nat_alt)

lemma bset_deallocate_block: "bset (balloc_deallocate_block p s) = bset s - {frame p}"
  by (simp add: balloc_deallocate_block_result) (simp add: bset_def balloc_deallocate_def used_set_deallocate frame_div)

lemma deallocate_block_same [simp]:
  "btotal (balloc_deallocate_block p s) = btotal s" "mbmp (balloc_deallocate_block p s) = mbmp s"
  by (simp_all add: balloc_deallocate_block_result balloc_deallocate_def)

lemma balloc_allocate_same [simp]:
  "btotal (balloc_allocate f s) = btotal s" "mbmp (balloc_allocate f s) = mbmp s"
  by (simp_all add: balloc_allocate_def)

lemma balloc_alloc_result:
  assumes "balloc_ok s"
  shows "(\<exists>f. balloc_allocate_block s = (f * PAGE_SIZE, balloc_allocate f s) \<and> unat f < unat (btotal s)
       \<and> unat f < 32 * (unat (btotal s) div 32)
       \<and> unat f < 2 ^ 20 \<and> f \<noteq> 0 \<and> unat f \<notin> bset s \<and> (\<forall>k < unat f. k \<in> bset s))
     \<or> (balloc_allocate_block s = (0, s\<lparr>errno := ENOMEM\<rparr>)
       \<and> (\<forall>k < 32 * (unat (btotal s) div 32). k \<in> bset s))"
proof -
  have t: "unat (btotal s) \<le> 2 ^ 20" and z: "0 \<in> bset s" using assms by (simp_all add: balloc_ok_def)
  note f = first_free_result [OF t, of "mem s" "mbmp s", folded bset_def]
  show ?thesis
  proof (cases "scan_units (mem s) (mbmp s) 0 (btotal s div BLOCKS_PER_UNIT)")
    case None
    then show ?thesis using f by (simp add: balloc_allocate_block_def balloc_first_free_def)
  next
    case (Some b)
    then have "unat b \<notin> bset s" using f by simp
    then have "b \<noteq> 0" using z by auto
    then show ?thesis using f Some by (auto simp: balloc_allocate_block_def balloc_first_free_def)
  qed
qed

interpretation bal: block_allocator balloc_allocate_block balloc_deallocate_block bset balloc_ok
proof
  fix s :: "'a balloc_scheme" and p s'
  assume ok: "balloc_ok s"
  note r = balloc_alloc_result [OF ok]
  {
    assume a: "balloc_allocate_block s = (p, s')"
    show "balloc_ok s'" using r a ok by (auto simp: balloc_ok_def bset_allocate)
  next
    assume a: "balloc_allocate_block s = (p, s')" "p \<noteq> 0"
    show "unat p = 4096 * frame p \<and> frame p \<notin> bset s \<and> bset s' = insert (frame p) (bset s)"
      using r a by (auto simp: bset_allocate PAGE_SIZE_def frame_of_block)
  next
    assume a: "balloc_allocate_block s = (0, s')"
    show "bset s' = bset s" using r a by (auto simp: PAGE_SIZE_def frame_of_block(3))
  next
    assume "frame p \<in> bset s" "frame p \<noteq> 0"
    then show "balloc_ok (balloc_deallocate_block p s)" using ok by (simp add: balloc_ok_def bset_deallocate_block)
  next
    assume "frame p \<in> bset s" "frame p \<noteq> 0"
    show "bset (balloc_deallocate_block p s) = bset s - {frame p}" by (rule bset_deallocate_block)
  }
qed

section \<open>Runs of the allocator\<close>

text \<open>
  One call of the interface, by anyone: an allocation, which may fail, or the release of any address
  outside block 0, used or not.
\<close>

inductive balloc_step :: "'a balloc_scheme \<Rightarrow> 'a balloc_scheme \<Rightarrow> bool" where
  alloc: "balloc_allocate_block s = (p, s') \<Longrightarrow> balloc_step s s'"
| release: "frame p \<noteq> 0 \<Longrightarrow> balloc_step s (balloc_deallocate_block p s)"

inductive balloc_run :: "'a balloc_scheme \<Rightarrow> 'a balloc_scheme \<Rightarrow> bool" where
  start: "balloc_run s s"
| step: "balloc_run s s1 \<Longrightarrow> balloc_step s1 s2 \<Longrightarrow> balloc_run s s2"

declare balloc_step.intros [intro] balloc_run.intros [intro]

text \<open>The count and the size of the set move together.\<close>

definition miscount :: "'a balloc_scheme \<Rightarrow> u32" where
  "miscount s = bused s - of_nat (card (bset s))"

lemma miscount_allocate:
  assumes "unat f < unat (btotal s)" "unat f \<notin> bset s"
  shows "miscount (balloc_allocate f s) = miscount s"
  using assms by (simp add: miscount_def bset_allocate) (simp add: balloc_allocate_def)

lemma miscount_deallocate_block: "miscount (balloc_deallocate_block p s) = miscount s"
proof (cases "frame p \<in> bset s")
  case True
  then have "card (bset s) = Suc (card (bset s - {frame p}))" by (metis bset_finite card.remove)
  then have c: "of_nat (card (bset s)) = (of_nat (card (bset s - {frame p})) :: u32) + 1" by simp
  have "bused (balloc_deallocate_block p s) = bused s - 1"
    using True by (simp add: balloc_deallocate_block_result balloc_deallocate_def)
  then show ?thesis unfolding miscount_def bset_deallocate_block c by simp
qed (simp add: balloc_deallocate_block_result)

lemma balloc_step_keeps:
  assumes "balloc_step s s'" "balloc_ok s"
  shows "balloc_ok s' \<and> miscount s' = miscount s \<and> btotal s' = btotal s \<and> mbmp s' = mbmp s"
  using assms(1)
proof cases
  case (alloc p)
  from balloc_alloc_result [OF assms(2)] show ?thesis
  proof (elim disjE exE conjE)
    fix f assume "balloc_allocate_block s = (f * PAGE_SIZE, balloc_allocate f s)" "unat f < unat (btotal s)" "unat f \<notin> bset s"
    then show ?thesis using alloc bal.alloc_ok [OF assms(2) alloc] by (simp add: miscount_allocate)
  next
    assume "balloc_allocate_block s = (0, s\<lparr>errno := ENOMEM\<rparr>)"
    then show ?thesis using alloc bal.alloc_ok [OF assms(2) alloc] by (simp add: miscount_def)
  qed
next
  case (release p)
  then show ?thesis using assms(2)
    by (simp add: balloc_ok_def bset_deallocate_block miscount_deallocate_block)
qed

lemma balloc_run_keeps:
  "balloc_run s s' \<Longrightarrow> balloc_ok s \<Longrightarrow> balloc_ok s' \<and> miscount s' = miscount s \<and> btotal s' = btotal s \<and> mbmp s' = mbmp s"
  by (induction rule: balloc_run.induct) (auto dest: balloc_step_keeps)

lemma take_blocks_keeps:
  "balloc_ok s \<Longrightarrow> take_blocks balloc_allocate_block n s = (ps, s') \<Longrightarrow> balloc_ok s' \<and> btotal s' = btotal s"
proof (induction n arbitrary: s ps)
  case (Suc n)
  then show ?case using balloc_step_keeps balloc_step.alloc by (fastforce split: prod.splits)
qed auto

lemma fresh_blocks_bound:
  assumes "balloc_ok s" "take_blocks balloc_allocate_block n s = (ps, s')" "0 \<notin> set ps"
  shows "length ps + card (bset s) \<le> unat (btotal s')"
proof -
  have f: "distinct (map frame ps)" "frame ` set ps \<inter> bset s = {}" "bset s' = bset s \<union> frame ` set ps"
    using bal.take_blocks_fresh [OF assms] by auto
  have "card (frame ` set ps) = length ps" using distinct_card [OF f(1)] by simp
  then have "length ps + card (bset s) = card (bset s')"
    using f(2) unfolding f(3) by (subst card_Un_disjoint) auto
  also have "\<dots> \<le> card {..<unat (btotal s')}" by (rule card_mono) (auto dest: bset_bound)
  finally show ?thesis by simp
qed

text \<open>Once block 0 is released every search finds it, and its number is the error value.\<close>

lemma block0_free_null:
  assumes "0 \<notin> bset s" "32 \<le> unat (btotal s)" "unat (btotal s) \<le> 2 ^ 20"
  shows "balloc_allocate_block s = (0, s)"
proof -
  note f = first_free_result [OF assms(3), of "mem s" "mbmp s", folded bset_def]
  have "0 < 32 * (unat (btotal s) div 32)" using assms(2) div_le_mono [of 32 "unat (btotal s)" 32] by simp
  then obtain b where b: "scan_units (mem s) (mbmp s) 0 (btotal s div BLOCKS_PER_UNIT) = Some b"
    using f assms(1) by (cases "scan_units (mem s) (mbmp s) 0 (btotal s div BLOCKS_PER_UNIT)") auto
  then have "\<not> 0 < unat b" using f assms(1) by auto
  then show ?thesis by (simp add: balloc_allocate_block_def balloc_first_free_def b unat_eq_zero)
qed

section \<open>Properties\<close>

text \<open>A state to run the allocator in: 64 blocks, of which \<open>w\<close> and \<open>v\<close> say which are used.\<close>

definition balloc_at :: "u32 \<Rightarrow> u32 \<Rightarrow> balloc" where
  "balloc_at w v = \<lparr>mem = store32 (store32 (\<lambda>_. 0) 0x1000 w) 0x1004 v, io = [], errno = 0, x_loc = 0, y_loc = 0,
     color_attrib = 7, mbmp = 0x1000, btotal = 64, bused = 2\<rparr>"

lemma balloc_at_ok: "bit w 0 \<Longrightarrow> balloc_ok (balloc_at w v)"
  by (simp add: balloc_ok_def balloc_at_def bset_def used_set_def block_used_def elem_def mem_simps apart_def)

text \<open>\<open>balloc_allocate_block\<close> is first fit over the full words of the bitmap: it marks the lowest
  free block, counts it and returns its address; only when all of them are used it returns null with
  \<open>ENOMEM\<close> and changes nothing else.\<close>
theorem balloc_first_fit:
  assumes "balloc_ok s"
  shows "case balloc_allocate_block s of (p, s') \<Rightarrow>
    if \<exists>k < 32 * (unat (btotal s) div 32). k \<notin> bset s
    then frame p \<notin> bset s \<and> (\<forall>k < frame p. k \<in> bset s) \<and> unat p = 4096 * frame p
      \<and> bset s' = insert (frame p) (bset s) \<and> bused s' = bused s + 1
    else p = 0 \<and> s' = s\<lparr>errno := ENOMEM\<rparr>"
  using balloc_alloc_result [OF assms]
proof (elim disjE exE conjE)
  fix f assume f: "balloc_allocate_block s = (f * PAGE_SIZE, balloc_allocate f s)" "unat f < unat (btotal s)"
    "unat f < 32 * (unat (btotal s) div 32)" "unat f < 2 ^ 20" "unat f \<notin> bset s" "\<forall>k < unat f. k \<in> bset s"
  have "bused (balloc_allocate f s) = bused s + 1" by (simp add: balloc_allocate_def)
  then show ?thesis using f by (auto simp: bset_allocate PAGE_SIZE_def frame_of_block)
qed auto

lemma balloc_first_fit_witness:
  "frame (fst (balloc_allocate_block (balloc_at 3 0))) \<notin> bset (balloc_at 3 0)"
proof -
  have ok: "balloc_ok (balloc_at 3 0)" by (rule balloc_at_ok) simp
  have "32 < 32 * (unat (btotal (balloc_at 3 0)) div 32)" "32 \<notin> bset (balloc_at 3 0)"
    by (simp_all add: balloc_at_def bset_def used_set_def block_used_def elem_def mem_simps apart_def)
  then show ?thesis using balloc_first_fit [OF ok] by (auto split: prod.splits if_splits)
qed

text \<open>C18: In every run of the allocator, whatever is released in it (block 0 excepted), block 0 stays
  used, the size of the bitmap stays, and the count of used blocks stays as far from the number of
  blocks marked as it was at the start; no run hands out more blocks than there are.\<close>
theorem balloc_run_invariant:
  assumes "balloc_run s s'" "balloc_ok s" "take_blocks balloc_allocate_block n s' = (ps, s'')" "0 \<notin> set ps"
  shows "balloc_ok s' \<and> bused s' - of_nat (card (bset s')) = bused s - of_nat (card (bset s))
    \<and> distinct (map frame ps) \<and> frame ` set ps \<inter> bset s' = {} \<and> length ps + card (bset s') \<le> unat (btotal s)"
proof -
  have k: "balloc_ok s' \<and> miscount s' = miscount s \<and> btotal s' = btotal s" using balloc_run_keeps [OF assms(1,2)] by blast
  then have ok: "balloc_ok s'" by blast
  have "btotal s'' = btotal s'" using take_blocks_keeps [OF ok assms(3)] by blast
  then show ?thesis
    using k bal.take_blocks_fresh [OF ok assms(3,4)] fresh_blocks_bound [OF ok assms(3,4)] by (simp add: miscount_def)
qed

lemma balloc_run_invariant_witness:
  "balloc_ok (balloc_deallocate_block 0x1000 (balloc_at 3 0))
    \<and> bused (balloc_deallocate_block 0x1000 (balloc_at 3 0)) - of_nat (card (bset (balloc_deallocate_block 0x1000 (balloc_at 3 0))))
      = bused (balloc_at 3 0) - of_nat (card (bset (balloc_at 3 0)))"
proof -
  have ok: "balloc_ok (balloc_at 3 0)" by (rule balloc_at_ok) simp
  have "frame 0x1000 \<noteq> 0" by (simp add: frame_def)
  then have r: "balloc_run (balloc_at 3 0) (balloc_deallocate_block 0x1000 (balloc_at 3 0))" by blast
  show ?thesis using balloc_run_invariant [OF r ok, of 0 "[]"] by simp
qed

text \<open>Releasing an address of the first 4 KB, as the null pointer, frees block 0, whose number is
  the search's error value: from then on every allocation returns null, however much memory is free,
  and does not even set \<open>errno\<close>.\<close>
theorem balloc_release_null_kills:
  assumes "balloc_ok s" "32 \<le> unat (btotal s)" "unat p < 4096"
  shows "balloc_allocate_block (balloc_deallocate_block p s) = (0, balloc_deallocate_block p s)"
proof -
  have "frame p = 0" using assms(3) by (simp add: frame_def)
  then show ?thesis using assms by (intro block0_free_null) (auto simp: bset_deallocate_block balloc_ok_def)
qed

lemma balloc_release_null_kills_witness:
  "balloc_allocate_block (balloc_deallocate_block 1 (balloc_at 1 0)) = (0, balloc_deallocate_block 1 (balloc_at 1 0))"
  by (rule balloc_release_null_kills) (simp_all add: balloc_at_ok, simp add: balloc_at_def)

end
