(* ===== verification/Pagemngr.thy ===== *)
theory Pagemngr
  imports Balloc Mmu
begin

text \<open>
  The page manager, arch/i386/pagemngr.c. It reaches the page directory and the page tables through
  the window at 0xffc00000, which the last entry of the directory, pointing at the directory itself,
  maps onto them. The page frames are a memory of their own, \<open>phys\<close>; an access to the window goes
  through the page walk from \<open>cr3\<close>, and \<open>None\<close> is a page fault. The kernel's other memory, which is
  mapped linearly and disjoint from the frames handed out for tables, stays in \<open>mem\<close>.
  \<open>invalidate_page\<close> changes no memory; the translation buffer is the subject of Tlb.
\<close>

record pagemngr = balloc +
  phys :: memory
  cr3 :: u32
  pdir_physical :: u32

definition PAGE_DIRECTORY_VIRTUAL_BASE :: u32 where "PAGE_DIRECTORY_VIRTUAL_BASE = 0xfffff000"
definition PAGE_TABLE_VIRTUAL_BASE :: u32 where "PAGE_TABLE_VIRTUAL_BASE = 0xffc00000"
definition PAGEMNGR_PAGE_SIZE :: u32 where "PAGEMNGR_PAGE_SIZE = 4096"

section \<open>Operations\<close>

definition window_read :: "u32 \<Rightarrow> 'a pagemngr_scheme \<Rightarrow> u32 option" where
  "window_read va s = map_option (load32 (phys s)) (translate (phys s) (cr3 s) va)"

definition window_write :: "u32 \<Rightarrow> u32 \<Rightarrow> 'a pagemngr_scheme \<Rightarrow> 'a pagemngr_scheme option" where
  "window_write va v s =
     map_option (\<lambda>pa. s\<lparr>phys := store32 (phys s) pa v\<rparr>) (translate (phys s) (cr3 s) va)"

text \<open>The addresses of \<open>_page_directory_virtual[pdir_entry(v)]\<close> and \<open>page_table_virtual[i]\<close>.\<close>

definition pdir_slot :: "u32 \<Rightarrow> u32" where
  "pdir_slot v = PAGE_DIRECTORY_VIRTUAL_BASE + 4 * pdir_entry v"

definition ptable_slot :: "u32 \<Rightarrow> u32 \<Rightarrow> u32" where
  "ptable_slot v i = PAGE_TABLE_VIRTUAL_BASE + pdir_entry v * PAGEMNGR_PAGE_SIZE + 4 * i"

text \<open>\<open>get_pdir_base_register\<close> has its operands in the order of the other assembler syntax: \<open>mov %0,%%cr3\<close>
  loads CR3 from the register that should receive it. \<open>reg\<close> is what that register holds. Nothing calls \<open>pagemngr_init\<close>.\<close>

definition get_pdir_base_register :: "u32 \<Rightarrow> 'a pagemngr_scheme \<Rightarrow> u32 \<times> 'a pagemngr_scheme" where
  "get_pdir_base_register reg s = (reg, s\<lparr>cr3 := reg\<rparr>)"

definition pagemngr_init :: "u32 \<Rightarrow> 'a pagemngr_scheme \<Rightarrow> int \<times> 'a pagemngr_scheme" where
  "pagemngr_init reg s = (case get_pdir_base_register reg s of (pdir, s) \<Rightarrow> (0, s\<lparr>pdir_physical := pdir\<rparr>))"

text \<open>The first half of \<open>pagemngr_map_block\<close>: a missing page table is allocated. The boolean says
  whether to go on.\<close>

definition map_page_table :: "u32 \<Rightarrow> 'a pagemngr_scheme \<Rightarrow> (bool \<times> 'a pagemngr_scheme) option" where
  "map_page_table virt s = do {
     page_directory_entry \<leftarrow> window_read (pdir_slot virt) s;
     if page_directory_entry = 0 then
       (case balloc_allocate_block s of (new_page_table, s1) \<Rightarrow>
          if new_page_table = 0 then Some (False, s1)
          else map_option (Pair True) (window_write (pdir_slot virt) (new_page_table OR PTABLE_FLAG_PRESENT) s1))
     else Some (True, s)
   }"

definition pagemngr_map_block :: "u32 \<Rightarrow> u32 \<Rightarrow> 'a pagemngr_scheme \<Rightarrow> (int \<times> 'a pagemngr_scheme) option" where
  "pagemngr_map_block physical virt s = do {
     let page_table_entry = physical OR PTABLE_FLAG_PRESENT;
     (go_on, s1) \<leftarrow> map_page_table virt s;
     if go_on then do {
       e \<leftarrow> window_read (ptable_slot virt (ptable_entry virt)) s1;
       if e \<noteq> 0 then Some (-1, s1)
       else map_option (Pair 0) (window_write (ptable_slot virt (ptable_entry virt)) page_table_entry s1)
     } else Some (-1, s1)
   }"

text \<open>The loop that looks for an entry of the table that is still in use.\<close>

function used_entry :: "u32 \<Rightarrow> nat \<Rightarrow> 'a pagemngr_scheme \<Rightarrow> nat option" where
  "used_entry virt i s =
     (if i < 1024 then
        Option.bind (window_read (ptable_slot virt (of_nat i)) s)
          (\<lambda>e. if e > 0 then Some i else used_entry virt (i + 1) s)
      else Some i)"
  by pat_completeness auto
termination
  by (relation "measure (\<lambda>(v, i, s). 1024 - i)") auto

declare used_entry.simps [simp del]

definition pagemngr_unmap_block :: "u32 \<Rightarrow> 'a pagemngr_scheme \<Rightarrow> (u32 \<times> 'a pagemngr_scheme) option" where
  "pagemngr_unmap_block virt s = do {
     page_directory_entry \<leftarrow> window_read (pdir_slot virt) s;
     if page_directory_entry AND PTABLE_FLAG_PRESENT \<noteq> 0 then do {
       e \<leftarrow> window_read (ptable_slot virt (ptable_entry virt)) s;
       if e AND PTABLE_FLAG_PRESENT \<noteq> 0 then do {
         let physical_address = e AND 0xfff;
         s1 \<leftarrow> window_write (ptable_slot virt (ptable_entry virt)) 0 s;
         i \<leftarrow> used_entry virt 0 s1;
         if i \<ge> 1024 then do {
           page_directory_entry \<leftarrow> window_read (pdir_slot virt) s1;
           s2 \<leftarrow> window_write (pdir_slot virt) 0 (balloc_deallocate_block page_directory_entry s1);
           Some (physical_address, s2)
         } else Some (physical_address, s1)
       } else Some (0, s)
     } else Some (0, s)
   }"

section \<open>The address space\<close>

text \<open>
  The contents of the directory and of the tables its entries point to. The last entry is the window;
  the tables and the directory are different frames.
\<close>

definition base :: "u32 \<Rightarrow> u32" where
  "base e = e AND NOT 0xfff"

definition space :: "memory \<Rightarrow> u32 \<Rightarrow> (nat \<Rightarrow> u32) \<Rightarrow> (nat \<Rightarrow> nat \<Rightarrow> u32) \<Rightarrow> bool" where
  "space m pd dir tabs \<longleftrightarrow> aligned pd \<and> table m pd dir \<and> bit (dir 1023) 0 \<and> base (dir 1023) = pd
     \<and> (\<forall>d < 1023. dir d \<noteq> 0 \<longrightarrow> bit (dir d) 0 \<and> base (dir d) \<noteq> pd \<and> table m (base (dir d)) (tabs d))
     \<and> (\<forall>d < 1023. \<forall>d' < 1023. d \<noteq> d' \<longrightarrow> dir d \<noteq> 0 \<longrightarrow> dir d' \<noteq> 0 \<longrightarrow> base (dir d) \<noteq> base (dir d'))"

text \<open>What the page walk makes of such contents, outside the window.\<close>

definition space_map :: "(nat \<Rightarrow> u32) \<Rightarrow> (nat \<Rightarrow> nat \<Rightarrow> u32) \<Rightarrow> u32 \<Rightarrow> u32 option" where
  "space_map dir tabs va =
     (let d = unat va div 2 ^ 22; e = tabs d (unat va div 2 ^ 12 mod 1024)
      in if dir d \<noteq> 0 \<and> bit e 0 then Some (base e + (va AND 0xfff)) else None)"

lemma base_aligned [simp]: "aligned (base e)"
  unfolding aligned_def base_def unat_page_down by simp

lemma spaceD:
  assumes "space m pd dir tabs"
  shows "aligned pd" "table m pd dir" "bit (dir 1023) 0" "base (dir 1023) = pd"
    "d < 1023 \<Longrightarrow> dir d \<noteq> 0 \<Longrightarrow> bit (dir d) 0 \<and> base (dir d) \<noteq> pd \<and> table m (base (dir d)) (tabs d)"
    "d < 1023 \<Longrightarrow> d' < 1023 \<Longrightarrow> d \<noteq> d' \<Longrightarrow> dir d \<noteq> 0 \<Longrightarrow> dir d' \<noteq> 0 \<Longrightarrow> base (dir d) \<noteq> base (dir d')"
  using assms by (auto simp: space_def)

lemma space_walk:
  assumes "space m pd dir tabs" "d < 1024"
  shows "walk_step m pd d = (if bit (dir d) 0 then Some (base (dir d)) else None)"
  using walk_step_table [OF spaceD(2) [OF assms(1)] assms(2)] by (simp add: base_def)

lemma translate_space:
  assumes "space m pd dir tabs" "unat va div 2 ^ 22 < 1023"
  shows "translate m pd va = space_map dir tabs va"
proof -
  let ?d = "unat va div 2 ^ 22" and ?p = "unat va div 2 ^ 12 mod 1024"
  have w: "walk_step m pd ?d = (if bit (dir ?d) 0 then Some (base (dir ?d)) else None)"
    using space_walk [OF assms(1)] assms(2) by simp
  show ?thesis
  proof (cases "dir ?d = 0")
    case False
    then have t: "bit (dir ?d) 0" "table m (base (dir ?d)) (tabs ?d)" using spaceD(5) [OF assms] by auto
    then show ?thesis using w walk_step_table [OF t(2), of ?p] False
      by (simp add: translate_def space_map_def Let_def base_def)
  qed (use w in \<open>simp add: translate_def space_map_def Let_def\<close>)
qed

text \<open>The two kinds of addresses in the window.\<close>

lemma offset_mult: "j < 1024 \<Longrightarrow> unat va = 4096 * q + 4 * j \<Longrightarrow> va AND 0xfff = of_nat (4 * j)" for va :: u32
proof -
  assume a: "j < 1024" "unat va = 4096 * q + 4 * j"
  have "unat (va AND 0xfff) = 4 * j" using a by (simp add: unat_page_offset)
  then show ?thesis by (metis word_of_nat_unat_u32)
qed

lemma unat_slots:
  assumes "unat i < 1024"
  shows "unat (pdir_slot v) = 4096 * 1048575 + 4 * (unat v div 2 ^ 22)"
    "unat (ptable_slot v i) = 4096 * (1047552 + unat v div 2 ^ 22) + 4 * unat i"
proof -
  let ?d = "unat v div 2 ^ 22"
  have d: "?d < 1024" by (rule pdir_bound)
  have p: "pdir_entry v = of_nat ?d" using unat_pdir_entry [of v] by (metis word_of_nat_unat_u32)
  have "pdir_slot v = of_nat (4096 * 1048575 + 4 * ?d)"
    by (simp add: pdir_slot_def PAGE_DIRECTORY_VIRTUAL_BASE_def p)
  moreover have "unat (of_nat (4096 * 1048575 + 4 * ?d) :: u32) = 4096 * 1048575 + 4 * ?d"
    by (rule unat_of_nat_u32) (use d in simp)
  ultimately show "unat (pdir_slot v) = 4096 * 1048575 + 4 * ?d" by simp
  have "ptable_slot v i = of_nat (4096 * (1047552 + ?d) + 4 * unat i)"
    by (simp add: ptable_slot_def PAGE_TABLE_VIRTUAL_BASE_def PAGEMNGR_PAGE_SIZE_def p algebra_simps)
  moreover have "unat (of_nat (4096 * (1047552 + ?d) + 4 * unat i) :: u32) = 4096 * (1047552 + ?d) + 4 * unat i"
    by (rule unat_of_nat_u32) (use d assms in simp)
  ultimately show "unat (ptable_slot v i) = 4096 * (1047552 + ?d) + 4 * unat i" by simp
qed

lemma translate_pdir_slot:
  assumes "space m pd dir tabs"
  shows "translate m pd (pdir_slot v) = Some (elem pd (unat v div 2 ^ 22))"
proof -
  let ?d = "unat v div 2 ^ 22"
  have u: "unat (pdir_slot v) = 4096 * 1048575 + 4 * ?d" using unat_slots(1) [of 0 v] by simp
  have d: "?d < 1024" by (rule pdir_bound)
  have "unat (pdir_slot v) div 2 ^ 12 = 1048575" using u d by (intro div_nat_eqI) simp_all
  moreover have "unat (pdir_slot v) div 2 ^ 22 = 1023" using u d by (intro div_nat_eqI) simp_all
  moreover have "pdir_slot v AND 0xfff = of_nat (4 * ?d)" by (rule offset_mult [OF d u])
  moreover have "walk_step m pd 1023 = Some pd"
    using space_walk [OF assms, of 1023] spaceD(3,4) [OF assms] by simp
  ultimately show ?thesis by (simp add: translate_def elem_offset)
qed

lemma translate_ptable_slot:
  assumes "space m pd dir tabs" "unat v div 2 ^ 22 < 1023" "dir (unat v div 2 ^ 22) \<noteq> 0" "unat i < 1024"
  shows "translate m pd (ptable_slot v i) = Some (elem (base (dir (unat v div 2 ^ 22))) (unat i))"
proof -
  let ?d = "unat v div 2 ^ 22"
  have u: "unat (ptable_slot v i) = 4096 * (1047552 + ?d) + 4 * unat i" by (rule unat_slots(2) [OF assms(4)])
  have q: "unat (ptable_slot v i) div 2 ^ 12 = 1047552 + ?d" using u assms(4) by (intro div_nat_eqI) simp_all
  then have "unat (ptable_slot v i) div 2 ^ 12 mod 1024 = ?d" using assms(2) by (simp add: mod_if)
  moreover have "unat (ptable_slot v i) div 2 ^ 22 = 1023" using u assms(2,4) by (intro div_nat_eqI) simp_all
  moreover have "ptable_slot v i AND 0xfff = of_nat (4 * unat i)" by (rule offset_mult [OF assms(4) u])
  moreover have "walk_step m pd 1023 = Some pd"
    using space_walk [OF assms(1), of 1023] spaceD(3,4) [OF assms(1)] by simp
  moreover have "walk_step m pd ?d = Some (base (dir ?d))"
    using space_walk [OF assms(1), of ?d] spaceD(5) [OF assms(1-3)] assms(2) by simp
  ultimately show ?thesis by (simp add: translate_def elem_offset)
qed

section \<open>Changing the address space\<close>

lemma store_other_table:
  "i < 1024 \<Longrightarrow> aligned s \<Longrightarrow> aligned t \<Longrightarrow> s \<noteq> t \<Longrightarrow> table m t f \<Longrightarrow> table (store32 m (elem s i) v) t f"
  by (rule table_same_outside [where s = s and m = m]) (use store32_same_outside [of i 1024] in simp_all)

lemma space_set_entry:
  assumes "space m pd dir tabs" "d < 1023" "dir d \<noteq> 0" "i < 1024"
  shows "space (store32 m (elem (base (dir d)) i) v) pd dir (tabs(d := (tabs d)(i := v)))"
  unfolding space_def
proof (intro conjI allI impI)
  note S = spaceD [OF assms(1)]
  show "aligned pd" "bit (dir 1023) 0" "base (dir 1023) = pd" by (rule S)+
  show "table (store32 m (elem (base (dir d)) i) v) pd dir"
    using store_other_table [OF assms(4) base_aligned S(1) _ S(2)] S(5) [OF assms(2,3)] by blast
  fix e assume e: "e < 1023" "dir e \<noteq> 0"
  show "bit (dir e) 0" "base (dir e) \<noteq> pd" using S(5) [OF e] by auto
  show "table (store32 m (elem (base (dir d)) i) v) (base (dir e)) ((tabs(d := (tabs d)(i := v))) e)"
  proof (cases "e = d")
    case True
    then show ?thesis using table_store S(5) [OF assms(2,3)] assms(4) by simp
  next
    case False
    then show ?thesis using store_other_table [OF assms(4) base_aligned base_aligned] S(5) [OF e] S(6) [OF assms(2) e(1)] assms(3) e(2) by auto
  qed
next
  fix e e' assume "e < 1023" "e' < 1023" "e \<noteq> e'" "dir e \<noteq> 0" "dir e' \<noteq> 0"
  then show "base (dir e) \<noteq> base (dir e')" by (rule spaceD(6) [OF assms(1)])
qed

lemma space_set_table:
  assumes "space m pd dir tabs" "d < 1023"
    and new: "v \<noteq> 0 \<Longrightarrow> bit v 0 \<and> base v \<noteq> pd \<and> table m (base v) f
      \<and> (\<forall>e < 1023. e \<noteq> d \<longrightarrow> dir e \<noteq> 0 \<longrightarrow> base (dir e) \<noteq> base v)"
  shows "space (store32 m (elem pd d) v) pd (dir(d := v)) (tabs(d := f))"
  unfolding space_def
proof (intro conjI allI impI)
  note S = spaceD [OF assms(1)]
  have d: "d < 1024" "1023 \<noteq> d" using assms(2) by auto
  show "aligned pd" by (rule S)
  show "bit ((dir(d := v)) 1023) 0" "base ((dir(d := v)) 1023) = pd" using S(3,4) d by simp_all
  show "table (store32 m (elem pd d) v) pd (dir(d := v))" by (rule table_store [OF S(2) d(1)])
  fix e assume e: "e < 1023" "(dir(d := v)) e \<noteq> 0"
  show "bit ((dir(d := v)) e) 0" "base ((dir(d := v)) e) \<noteq> pd" using S(5) [OF e(1)] new e by (auto split: if_splits)
  show "table (store32 m (elem pd d) v) (base ((dir(d := v)) e)) ((tabs(d := f)) e)"
    using store_other_table [OF d(1) S(1) base_aligned] S(5) [OF e(1)] new e by (auto split: if_splits)
next
  fix e e' assume "e < 1023" "e' < 1023" "e \<noteq> e'" "(dir(d := v)) e \<noteq> 0" "(dir(d := v)) e' \<noteq> 0"
  then show "base ((dir(d := v)) e) \<noteq> base ((dir(d := v)) e')"
    using spaceD(6) [OF assms(1), of e e'] new by (auto split: if_splits)
qed

text \<open>
  The states of the page manager: the contents of the space, a working block allocator, and the
  frames of the directory and the tables marked as used in it.
\<close>

definition vm :: "'a pagemngr_scheme \<Rightarrow> (nat \<Rightarrow> u32) \<Rightarrow> (nat \<Rightarrow> nat \<Rightarrow> u32) \<Rightarrow> bool" where
  "vm s dir tabs \<longleftrightarrow> space (phys s) (cr3 s) dir tabs \<and> balloc_ok s \<and> frame (cr3 s) \<in> bset s
     \<and> (\<forall>d < 1023. dir d \<noteq> 0 \<longrightarrow> frame (base (dir d)) \<in> bset s \<and> base (dir d) \<noteq> 0)"

lemma vmD:
  assumes "vm s dir tabs"
  shows "space (phys s) (cr3 s) dir tabs" "balloc_ok s" "frame (cr3 s) \<in> bset s"
    "d < 1023 \<Longrightarrow> dir d \<noteq> 0 \<Longrightarrow> frame (base (dir d)) \<in> bset s \<and> base (dir d) \<noteq> 0"
  using assms by (auto simp: vm_def)

text \<open>No frame outside the used ones holds anything but zeros.\<close>

definition clean :: "'a pagemngr_scheme \<Rightarrow> bool" where
  "clean s \<longleftrightarrow> (\<forall>t. aligned t \<longrightarrow> frame t \<notin> bset s \<longrightarrow> table (phys s) t (\<lambda>_. 0))"

lemma clean_store:
  assumes "clean s" "aligned t" "frame t \<in> bset s" "i < 1024"
  shows "clean (s\<lparr>phys := store32 (phys s) (elem t i) v\<rparr>)"
  unfolding clean_def
proof (intro allI impI)
  fix u assume u: "aligned u" "frame u \<notin> bset (s\<lparr>phys := store32 (phys s) (elem t i) v\<rparr>)"
  then have n: "frame u \<notin> bset s" by (simp add: bset_def)
  then have "table (phys s) u (\<lambda>_. 0)" using assms(1) u(1) by (simp add: clean_def)
  then show "table (phys (s\<lparr>phys := store32 (phys s) (elem t i) v\<rparr>)) u (\<lambda>_. 0)"
    using store_other_table [OF assms(4,2) u(1)] n assms(3) by auto
qed

lemma bset_phys [simp]: "bset (s\<lparr>phys := m\<rparr>) = bset s"
  by (simp add: bset_def)

lemma read_pdir:
  assumes "vm s dir tabs"
  shows "window_read (pdir_slot v) s = Some (dir (unat v div 2 ^ 22))"
  using translate_pdir_slot [OF vmD(1) [OF assms]] tableD [OF spaceD(2) [OF vmD(1) [OF assms]]] pdir_bound
  by (simp add: window_read_def)

lemma read_ptable:
  assumes "vm s dir tabs" "unat v div 2 ^ 22 < 1023" "dir (unat v div 2 ^ 22) \<noteq> 0" "unat i < 1024"
  shows "window_read (ptable_slot v i) s = Some (tabs (unat v div 2 ^ 22) (unat i))"
  using translate_ptable_slot [OF vmD(1) [OF assms(1)] assms(2-4)] spaceD(5) [OF vmD(1) [OF assms(1)] assms(2,3)]
    tableD assms(4) by (simp add: window_read_def)

lemma write_ptable:
  assumes "vm s dir tabs" "unat v div 2 ^ 22 < 1023" "dir (unat v div 2 ^ 22) \<noteq> 0" "unat i < 1024"
  shows "\<exists>m. window_write (ptable_slot v i) x s = Some (s\<lparr>phys := m\<rparr>)
    \<and> vm (s\<lparr>phys := m\<rparr>) dir (tabs(unat v div 2 ^ 22 := (tabs (unat v div 2 ^ 22))(unat i := x)))
    \<and> (clean s \<longrightarrow> clean (s\<lparr>phys := m\<rparr>))"
  using translate_ptable_slot [OF vmD(1) [OF assms(1)] assms(2-4)] space_set_entry [OF vmD(1) [OF assms(1)] assms(2-4)]
    clean_store [where s = s, OF _ base_aligned _ assms(4)] vmD(4) [OF assms(1-3)] assms(1)
  by (intro exI [of _ "store32 (phys s) (elem (base (dir (unat v div 2 ^ 22))) (unat i)) x"])
     (simp add: window_write_def vm_def balloc_ok_def)

lemma write_pdir:
  assumes "vm s dir tabs" "unat v div 2 ^ 22 < 1023"
    and "x \<noteq> 0 \<Longrightarrow> bit x 0 \<and> base x \<noteq> cr3 s \<and> table (phys s) (base x) f \<and> frame (base x) \<in> bset s \<and> base x \<noteq> 0
      \<and> (\<forall>e < 1023. e \<noteq> unat v div 2 ^ 22 \<longrightarrow> dir e \<noteq> 0 \<longrightarrow> base (dir e) \<noteq> base x)"
  shows "\<exists>m. window_write (pdir_slot v) x s = Some (s\<lparr>phys := m\<rparr>)
    \<and> vm (s\<lparr>phys := m\<rparr>) (dir(unat v div 2 ^ 22 := x)) (tabs(unat v div 2 ^ 22 := f))
    \<and> (clean s \<longrightarrow> clean (s\<lparr>phys := m\<rparr>))"
proof -
  have "space (store32 (phys s) (elem (cr3 s) (unat v div 2 ^ 22)) x) (cr3 s) (dir(unat v div 2 ^ 22 := x)) (tabs(unat v div 2 ^ 22 := f))"
    using space_set_table [OF vmD(1) [OF assms(1)] assms(2)] assms(3) by blast
  then show ?thesis
    using translate_pdir_slot [OF vmD(1) [OF assms(1)]] assms
      clean_store [OF _ spaceD(1) [OF vmD(1) [OF assms(1)]] vmD(3) [OF assms(1)] pdir_bound [of v]]
    by (auto simp: window_write_def vm_def balloc_ok_def)
qed

text \<open>At most one block more is in use.\<close>

definition grown :: "'a balloc_scheme \<Rightarrow> 'a balloc_scheme \<Rightarrow> bool" where
  "grown s s' \<longleftrightarrow> btotal s' = btotal s \<and> (bset s' = bset s \<or> (\<exists>k. bset s' = insert k (bset s)))"

text \<open>An entry that is not zero is present.\<close>

definition tidy :: "(nat \<Rightarrow> u32) \<Rightarrow> (nat \<Rightarrow> nat \<Rightarrow> u32) \<Rightarrow> bool" where
  "tidy dir tabs \<longleftrightarrow> (\<forall>d < 1023. \<forall>i < 1024. dir d \<noteq> 0 \<longrightarrow> tabs d i \<noteq> 0 \<longrightarrow> bit (tabs d i) 0)"

lemma grown_refl [simp]: "grown s s"
  by (simp add: grown_def)

lemma grown_phys [simp]: "grown s (s'\<lparr>phys := m\<rparr>) = grown s s'"
  by (simp add: grown_def)

text \<open>An allocation changes the bitmap, the count and the error variable.\<close>

lemma alloc_fields:
  "balloc_allocate_block s = (p, s') \<Longrightarrow> \<exists>m u e. s' = s\<lparr>errno := e, mem := m, bused := u\<rparr>"
proof -
  assume a: "balloc_allocate_block s = (p, s')"
  consider "s' = s" | "s' = s\<lparr>errno := ENOMEM\<rparr>" | f where "s' = balloc_allocate f s"
    using a by (auto simp: balloc_allocate_block_def balloc_first_free_def split: option.splits if_splits)
  then show ?thesis
  proof cases
    case 1
    then show ?thesis by (intro exI [of _ "mem s"] exI [of _ "bused s"] exI [of _ "errno s"]) simp
  next
    case 2
    then show ?thesis by (intro exI [of _ "mem s"] exI [of _ "bused s"] exI [of _ ENOMEM]) simp
  next
    case (3 f)
    then show ?thesis
      by (intro exI [of _ "bm_allocate (mbmp s) f (mem s)"] exI [of _ "bused s + 1"] exI [of _ "errno s"])
         (simp add: balloc_allocate_def)
  qed
qed

lemma vm_alloc:
  assumes "vm s dir tabs" "balloc_allocate_block s = (p, s')"
  shows "vm s' dir tabs" "phys s' = phys s" "cr3 s' = cr3 s"
    "p \<noteq> 0 \<Longrightarrow> aligned p \<and> frame p \<notin> bset s \<and> bset s' = insert (frame p) (bset s)"
    "clean s \<Longrightarrow> clean s'" "grown s s'"
proof -
  note ok = vmD(2) [OF assms(1)]
  obtain m u e where "s' = s\<lparr>errno := e, mem := m, bused := u\<rparr>" using alloc_fields [OF assms(2)] by blast
  then show f: "phys s' = phys s" "cr3 s' = cr3 s" by simp_all
  have bt: "btotal s' = btotal s" using \<open>s' = s\<lparr>errno := e, mem := m, bused := u\<rparr>\<close> by simp
  show p: "p \<noteq> 0 \<Longrightarrow> aligned p \<and> frame p \<notin> bset s \<and> bset s' = insert (frame p) (bset s)"
    using bal.alloc_block [OF ok assms(2)] by (simp add: aligned_def)
  show "grown s s'" using p bal.alloc_null [OF ok, of s'] assms(2) bt by (cases "p = 0") (auto simp: grown_def)
  have sub: "bset s \<subseteq> bset s'" using p bal.alloc_null [OF ok, of s'] assms(2) by (cases "p = 0") auto
  then show "clean s \<Longrightarrow> clean s'" using f by (auto simp: clean_def)
  show "vm s' dir tabs" using sub  assms(1) f bal.alloc_ok [OF ok assms(2)] by (auto simp: vm_def)
qed

lemma unat_aligned_frame: "aligned p \<Longrightarrow> aligned q \<Longrightarrow> frame p = frame q \<Longrightarrow> p = q"
  unfolding aligned_def frame_def word_unat_eq_iff by (metis div_mult_mod_eq)

lemma base_entry:
  assumes "aligned p"
  shows "base (p OR PTABLE_FLAG_PRESENT) = p" "bit (p OR PTABLE_FLAG_PRESENT) 0" "p OR PTABLE_FLAG_PRESENT \<noteq> 0"
proof -
  show "base (p OR PTABLE_FLAG_PRESENT) = p"
    unfolding base_def using assms by (rule aligned_flags) (simp add: PTABLE_FLAG_PRESENT_def)
  show b: "bit (p OR PTABLE_FLAG_PRESENT) 0" by (simp add: PTABLE_FLAG_PRESENT_def bit_or_iff)
  then show "p OR PTABLE_FLAG_PRESENT \<noteq> 0" by (metis bit_0_eq bot_apply bot_bool_def)
qed

lemma frame_base: "frame (base e) = frame e"
  unfolding frame_def base_def unat_page_down by simp

text \<open>The first half of the mapping: a table that is there, no memory, or a new table with the old
  contents of its frame.\<close>

lemma map_page_table_result:
  assumes "vm s dir tabs" "unat v div 2 ^ 22 < 1023"
  defines "d \<equiv> unat v div 2 ^ 22"
  shows "(dir d \<noteq> 0 \<and> map_page_table v s = Some (True, s))
    \<or> (dir d = 0 \<and> (\<exists>s'. map_page_table v s = Some (False, s') \<and> vm s' dir tabs \<and> phys s' = phys s \<and> cr3 s' = cr3 s
          \<and> balloc_allocate_block s = (0, s') \<and> (clean s \<longrightarrow> clean s') \<and> grown s s'))
    \<or> (dir d = 0 \<and> (\<exists>t s' f. map_page_table v s = Some (True, s') \<and> t \<noteq> 0 \<and> aligned t \<and> frame t \<notin> bset s \<and> cr3 s' = cr3 s
          \<and> table (phys s) t f \<and> vm s' (dir(d := t OR PTABLE_FLAG_PRESENT)) (tabs(d := f)) \<and> (clean s \<longrightarrow> clean s') \<and> grown s s'))"
proof (cases "dir d = 0")
  case False
  then show ?thesis using read_pdir [OF assms(1), of v] by (simp add: map_page_table_def d_def)
next
  case True
  obtain t s1 where a: "balloc_allocate_block s = (t, s1)" by (cases "balloc_allocate_block s")
  note A = vm_alloc [OF assms(1) a]
  have r: "window_read (pdir_slot v) s = Some 0" using read_pdir [OF assms(1), of v] True by (simp add: d_def)
  show ?thesis
  proof (cases "t = 0")
    case T: True
    then show ?thesis using True r a A by (simp add: map_page_table_def)
  next
    case T: False
    define f where "f = (\<lambda>i. load32 (phys s) (elem t i))"
    have f: "table (phys s) t f" by (simp add: table_def f_def)
    have t: "aligned t" "frame t \<notin> bset s" "frame t \<in> bset s1" using A(4) T by auto
    have "base (t OR PTABLE_FLAG_PRESENT) \<noteq> cr3 s1" using vmD(3) [OF assms(1)] t A(3) by (auto simp: base_entry)
    moreover have "base (dir e) \<noteq> t" if "e < 1023" "dir e \<noteq> 0" for e using vmD(4) [OF assms(1) that] t by auto
    ultimately obtain m where m: "window_write (pdir_slot v) (t OR PTABLE_FLAG_PRESENT) s1 = Some (s1\<lparr>phys := m\<rparr>)"
      "vm (s1\<lparr>phys := m\<rparr>) (dir(d := t OR PTABLE_FLAG_PRESENT)) (tabs(d := f))" "clean s1 \<longrightarrow> clean (s1\<lparr>phys := m\<rparr>)"
      using write_pdir [OF A(1) assms(2), of "t OR PTABLE_FLAG_PRESENT" f] t f T A(2)
      by (auto simp: base_entry d_def)
    then have "map_page_table v s = Some (True, s1\<lparr>phys := m\<rparr>)" using r a T by (simp add: map_page_table_def)
    then show ?thesis using True T t f m(2,3) A(3,5,6) by auto
  qed
qed

text \<open>The second half, with the table in place.\<close>

definition set_entry_of :: "u32 \<Rightarrow> u32 \<Rightarrow> (nat \<Rightarrow> nat \<Rightarrow> u32) \<Rightarrow> nat \<Rightarrow> nat \<Rightarrow> u32" where
  "set_entry_of v x tabs = tabs(unat v div 2 ^ 22 := (tabs (unat v div 2 ^ 22))(unat v div 2 ^ 12 mod 1024 := x))"

lemma map_block_entry:
  assumes "map_page_table v s = Some (True, s1)" "vm s1 dir tabs" "unat v div 2 ^ 22 < 1023" "dir (unat v div 2 ^ 22) \<noteq> 0"
  shows "(tabs (unat v div 2 ^ 22) (unat v div 2 ^ 12 mod 1024) \<noteq> 0 \<and> pagemngr_map_block p v s = Some (-1, s1))
    \<or> (tabs (unat v div 2 ^ 22) (unat v div 2 ^ 12 mod 1024) = 0 \<and> (\<exists>m. pagemngr_map_block p v s = Some (0, s1\<lparr>phys := m\<rparr>)
        \<and> vm (s1\<lparr>phys := m\<rparr>) dir (set_entry_of v (p OR PTABLE_FLAG_PRESENT) tabs) \<and> (clean s1 \<longrightarrow> clean (s1\<lparr>phys := m\<rparr>))))"
  using assms(1) read_ptable [OF assms(2-4) ptable_entry_bound] write_ptable [OF assms(2-4) ptable_entry_bound]
  by (auto simp: pagemngr_map_block_def Let_def unat_ptable_entry set_entry_of_def)

lemma same_page:
  "unat va div 4096 = unat v div 4096 \<longleftrightarrow>
   unat va div 2 ^ 22 = unat v div 2 ^ 22 \<and> unat va div 2 ^ 12 mod 1024 = unat v div 2 ^ 12 mod 1024" for va v :: u32
proof -
  have "unat x div 2 ^ 22 = unat x div 4096 div 1024" for x :: u32 by (simp add: div_mult2_eq [symmetric])
  then show ?thesis by simp (metis div_mult_mod_eq)
qed

lemma space_map_set_entry:
  assumes "dir (unat v div 2 ^ 22) \<noteq> 0"
  shows "space_map dir (set_entry_of v x tabs) va =
    (if unat va div 4096 = unat v div 4096 then (if bit x 0 then Some (base x + (va AND 0xfff)) else None)
     else space_map dir tabs va)"
  using assms unfolding same_page by (auto simp: space_map_def set_entry_of_def Let_def)

lemma base_or_present: "base (p OR PTABLE_FLAG_PRESENT) = base p"
  by (simp add: base_def PTABLE_FLAG_PRESENT_def bit.conj_disj_distrib2)

lemma present_bit: "bit (p OR PTABLE_FLAG_PRESENT) 0"
  by (simp add: PTABLE_FLAG_PRESENT_def bit_or_iff)

lemma tidy_set_entry: "tidy dir tabs \<Longrightarrow> tidy dir (set_entry_of v (p OR PTABLE_FLAG_PRESENT) tabs)"
  by (auto simp: tidy_def set_entry_of_def present_bit)

lemma tidy_new_table: "tidy dir tabs \<Longrightarrow> \<forall>i < 1024. f i = 0 \<Longrightarrow> tidy (dir(d := x)) (tabs(d := f))"
  by (auto simp: tidy_def)

text \<open>\<open>pagemngr_map_block\<close> on a state with clean frames: the page is mapped, or nothing is.\<close>

definition maps :: "'a pagemngr_scheme \<Rightarrow> u32 \<Rightarrow> u32 option" where
  "maps s va = translate (phys s) (cr3 s) va"

lemma maps_vm: "vm s dir tabs \<Longrightarrow> unat va div 2 ^ 22 < 1023 \<Longrightarrow> maps s va = space_map dir tabs va"
  unfolding maps_def by (rule translate_space [OF vmD(1)])

lemma map_block_result:
  assumes "vm s dir tabs" "clean s" "unat v div 2 ^ 22 < 1023"
  shows "\<exists>r s' dir' tabs'. pagemngr_map_block p v s = Some (r, s') \<and> vm s' dir' tabs' \<and> clean s' \<and> cr3 s' = cr3 s
    \<and> (\<forall>va. unat va div 2 ^ 22 < 1023 \<longrightarrow> maps s' va =
        (if r = 0 \<and> unat va div 4096 = unat v div 4096 then Some (base p + (va AND 0xfff)) else maps s va))
    \<and> (r = 0 \<and> maps s v = None
      \<or> r = -1 \<and> (dir (unat v div 2 ^ 22) \<noteq> 0 \<and> tabs (unat v div 2 ^ 22) (unat v div 2 ^ 12 mod 1024) \<noteq> 0
          \<or> dir (unat v div 2 ^ 22) = 0 \<and> balloc_allocate_block s = (0, s')))
    \<and> grown s s' \<and> (tidy dir tabs \<longrightarrow> tidy dir' tabs') \<and> (\<forall>d. dir d \<noteq> 0 \<longrightarrow> dir' d = dir d)"
proof -
  let ?d = "unat v div 2 ^ 22" and ?i = "unat v div 2 ^ 12 mod 1024"
  consider (there) "dir ?d \<noteq> 0" "map_page_table v s = Some (True, s)"
    | (full) s' where "dir ?d = 0" "map_page_table v s = Some (False, s')" "vm s' dir tabs" "phys s' = phys s" "cr3 s' = cr3 s"
        "balloc_allocate_block s = (0, s')" "clean s'" "grown s s'"
    | (fresh) t s' f where "dir ?d = 0" "map_page_table v s = Some (True, s')" "aligned t" "frame t \<notin> bset s" "cr3 s' = cr3 s"
        "table (phys s) t f" "vm s' (dir(?d := t OR PTABLE_FLAG_PRESENT)) (tabs(?d := f))" "clean s'" "grown s s'"
    using map_page_table_result [OF assms(1,3)] assms(2) by blast
  then show ?thesis
  proof cases
    case there
    from map_block_entry [OF there(2) assms(1,3) there(1), of p] show ?thesis
    proof (elim disjE conjE exE)
      assume e: "tabs ?d ?i \<noteq> 0" "pagemngr_map_block p v s = Some (-1, s)"
      show ?thesis
        by (rule exI [of _ "-1"], rule exI [of _ s], rule exI [of _ dir], rule exI [of _ tabs])
           (use assms e there(1) in simp)
    next
      fix m assume e: "tabs ?d ?i = 0" "pagemngr_map_block p v s = Some (0, s\<lparr>phys := m\<rparr>)"
        "vm (s\<lparr>phys := m\<rparr>) dir (set_entry_of v (p OR PTABLE_FLAG_PRESENT) tabs)" "clean s \<longrightarrow> clean (s\<lparr>phys := m\<rparr>)"
      have "maps s v = None" using maps_vm [OF assms(1,3)] e(1) by (simp add: space_map_def)
      moreover have "maps (s\<lparr>phys := m\<rparr>) va = (if unat va div 4096 = unat v div 4096
          then Some (base p + (va AND 0xfff)) else maps s va)" if "unat va div 2 ^ 22 < 1023" for va
        using maps_vm [OF e(3) that] maps_vm [OF assms(1) that] space_map_set_entry [of dir v _ tabs va] there(1)
        by (simp add: base_or_present present_bit)
      ultimately show ?thesis
        by (intro exI [of _ 0] exI [of _ "s\<lparr>phys := m\<rparr>"] exI [of _ dir] exI [of _ "set_entry_of v (p OR PTABLE_FLAG_PRESENT) tabs"])
           (use e assms(2) in \<open>simp add: tidy_set_entry\<close>)
    qed
  next
    case full
    then have "pagemngr_map_block p v s = Some (-1, s')" by (simp add: pagemngr_map_block_def)
    then show ?thesis using full
      by (intro exI [of _ "-1"] exI [of _ s'] exI [of _ dir] exI [of _ tabs]) (simp add: maps_def)
  next
    case fresh
    let ?dir = "dir(?d := t OR PTABLE_FLAG_PRESENT)" and ?tabs = "tabs(?d := f)"
    have z: "f i = 0" if "i < 1024" for i
      using fresh(3,4,6) assms(2) that unfolding clean_def by (metis tableD)
    have nz: "?dir ?d \<noteq> 0" using base_entry(3) [OF fresh(3)] by simp
    have zi: "?tabs ?d ?i = 0" using z by simp
    from map_block_entry [OF fresh(2,7) assms(3) nz, of p] zi obtain m where
      e: "pagemngr_map_block p v s = Some (0, s'\<lparr>phys := m\<rparr>)"
        "vm (s'\<lparr>phys := m\<rparr>) ?dir (set_entry_of v (p OR PTABLE_FLAG_PRESENT) ?tabs)" "clean s' \<longrightarrow> clean (s'\<lparr>phys := m\<rparr>)"
      by blast
    have old: "space_map ?dir ?tabs va = space_map dir tabs va" for va
      using fresh(1) z by (auto simp: space_map_def Let_def)
    have "maps s v = None" using maps_vm [OF assms(1,3)] fresh(1) by (simp add: space_map_def)
    moreover have "maps (s'\<lparr>phys := m\<rparr>) va = (if unat va div 4096 = unat v div 4096
          then Some (base p + (va AND 0xfff)) else maps s va)" if "unat va div 2 ^ 22 < 1023" for va
      using maps_vm [OF e(2) that] maps_vm [OF assms(1) that] space_map_set_entry [where dir = ?dir and v = v and tabs = ?tabs and va = va, OF nz] old
      by (simp add: base_or_present present_bit)
    ultimately show ?thesis
      by (intro exI [of _ 0] exI [of _ "s'\<lparr>phys := m\<rparr>"] exI [of _ ?dir] exI [of _ "set_entry_of v (p OR PTABLE_FLAG_PRESENT) ?tabs"])
         (use e fresh(1,5,8,9) z in \<open>auto simp: tidy_set_entry tidy_new_table\<close>)
  qed
qed

section \<open>Unmapping\<close>

lemma present_iff: "e AND PTABLE_FLAG_PRESENT \<noteq> 0 \<longleftrightarrow> bit e 0"
  using and_exp_eq_0_iff_not_bit [of e 0] by (simp add: PTABLE_FLAG_PRESENT_def)

lemma used_entry_result:
  assumes "vm s dir tabs" "unat v div 2 ^ 22 < 1023" "dir (unat v div 2 ^ 22) \<noteq> 0" "i \<le> 1024"
  shows "\<exists>n. used_entry v i s = Some n \<and> (1024 \<le> n \<longleftrightarrow> (\<forall>j. i \<le> j \<and> j < 1024 \<longrightarrow> tabs (unat v div 2 ^ 22) j = 0))"
  using assms(4)
proof (induction i rule: inc_induct)
  case base
  show ?case by (subst used_entry.simps) auto
next
  case (step i)
  have "unat (of_nat i :: u32) = i" using step.hyps by (intro unat_of_nat_u32) simp
  then have r: "window_read (ptable_slot v (of_nat i)) s = Some (tabs (unat v div 2 ^ 22) i)"
    using read_ptable [OF assms(1-3), of "of_nat i"] step.hyps by simp
  have u: "used_entry v i s = (if tabs (unat v div 2 ^ 22) i > 0 then Some i else used_entry v (Suc i) s)"
    using r step.hyps by (subst used_entry.simps) simp
  show ?case
  proof (cases "tabs (unat v div 2 ^ 22) i = 0")
    case True
    have "(\<forall>j. i \<le> j \<and> j < 1024 \<longrightarrow> tabs (unat v div 2 ^ 22) j = 0)
        \<longleftrightarrow> (\<forall>j. Suc i \<le> j \<and> j < 1024 \<longrightarrow> tabs (unat v div 2 ^ 22) j = 0)"
      using True by (metis Suc_leD Suc_leI le_neq_implies_less)
    then show ?thesis using step.IH True unfolding u by simp
  next
    case False
    then show ?thesis using step.hyps unfolding u by (auto simp: word_gt_0)
  qed
qed

lemma dealloc_fields: "\<exists>m u. balloc_deallocate_block p s = s\<lparr>mem := m, bused := u\<rparr>"
proof (cases "frame p \<in> bset s")
  case False
  then show ?thesis by (intro exI [of _ "mem s"] exI [of _ "bused s"]) (simp add: balloc_deallocate_block_result)
next
  case True
  then show ?thesis
    by (intro exI [of _ "bm_deallocate (mbmp s) (p div PAGE_SIZE) (mem s)"] exI [of _ "bused s - 1"])
       (simp add: balloc_deallocate_block_result balloc_deallocate_def)
qed

text \<open>The last page of a table gone: the table is released.\<close>

lemma drop_table:
  assumes "vm s dir tabs" "unat v div 2 ^ 22 < 1023" "dir (unat v div 2 ^ 22) \<noteq> 0"
    and zero: "\<forall>j < 1024. tabs (unat v div 2 ^ 22) j = 0"
  defines "d \<equiv> unat v div 2 ^ 22"
  shows "\<exists>s'. window_write (pdir_slot v) 0 (balloc_deallocate_block (dir d) s) = Some s'
    \<and> vm s' (dir(d := 0)) tabs \<and> cr3 s' = cr3 s \<and> (clean s \<longrightarrow> clean s') \<and> bset s' \<subseteq> bset s"
proof -
  let ?t = "balloc_deallocate_block (dir d) s"
  define m where "m = store32 (phys s) (elem (cr3 s) d) 0"
  note V = vmD [OF assms(1)] and S = spaceD [OF vmD(1) [OF assms(1)]]
  obtain a u where t: "?t = s\<lparr>mem := a, bused := u\<rparr>" using dealloc_fields by blast
  have w: "window_write (pdir_slot v) 0 ?t = Some (?t\<lparr>phys := m\<rparr>)"
    using translate_pdir_slot [OF V(1), of v] unfolding t by (simp add: window_write_def m_def d_def)
  have sp: "space m (cr3 s) (dir(d := 0)) tabs"
    using space_set_table [OF V(1) assms(2), of 0 "tabs d"] unfolding m_def d_def by simp
  have b: "bset (?t\<lparr>phys := m\<rparr>) = bset s - {frame (base (dir d))}" by (simp add: bset_deallocate_block frame_base)
  have d: "d < 1023" "dir d \<noteq> 0" using assms(2,3) by (simp_all add: d_def)
  have pd: "frame (cr3 s) \<noteq> frame (base (dir d))" using unat_aligned_frame [OF S(1) base_aligned] S(5) [OF d] by metis
  have other: "frame (base (dir e)) \<noteq> frame (base (dir d))" if "e < 1023" "dir e \<noteq> 0" "e \<noteq> d" for e
    using unat_aligned_frame [OF base_aligned base_aligned] S(6) [OF that(1) d(1) that(3) that(2) d(2)] by blast
  have nz: "frame (base (dir d)) \<noteq> 0"
    using unat_aligned_frame [OF base_aligned, of 0 "dir d"] V(4) [OF d] by (auto simp: aligned_def frame_def)
  have "vm (?t\<lparr>phys := m\<rparr>) (dir(d := 0)) tabs"
    using V sp pd other nz unfolding vm_def b balloc_ok_def by (simp add: t)
  moreover have "clean (?t\<lparr>phys := m\<rparr>)" if c: "clean s"
    unfolding clean_def b
  proof (intro allI impI)
    fix u assume u: "aligned u" "frame u \<notin> bset s - {frame (base (dir d))}"
    have "table (phys s) u (\<lambda>_. 0)"
    proof (cases "frame u = frame (base (dir d))")
      case True
      then have "u = base (dir d)" using unat_aligned_frame [OF u(1) base_aligned] by blast
      then show ?thesis using S(5) [OF d] zero by (simp add: table_def d_def)
    next
      case False
      then show ?thesis using c u by (simp add: clean_def)
    qed
    moreover have "u \<noteq> cr3 s" using u V(3) pd by auto
    ultimately show "table (phys (?t\<lparr>phys := m\<rparr>)) u (\<lambda>_. 0)"
      using store_other_table [of d "cr3 s" u] S(1) u(1) d(1) by (simp add: m_def)
  qed
  ultimately show ?thesis using w b by (auto simp: t)
qed

lemma space_map_none: "dir (unat va div 2 ^ 22) = 0 \<Longrightarrow> space_map dir tabs va = None"
  by (simp add: space_map_def)

lemma unmap_block_result:
  assumes "vm s dir tabs" "unat v div 2 ^ 22 < 1023" "maps s v \<noteq> None"
  shows "\<exists>s' dir' tabs'. pagemngr_unmap_block v s
      = Some (tabs (unat v div 2 ^ 22) (unat v div 2 ^ 12 mod 1024) AND 0xfff, s')
    \<and> vm s' dir' tabs' \<and> cr3 s' = cr3 s \<and> (clean s \<longrightarrow> clean s') \<and> bset s' \<subseteq> bset s
    \<and> (\<forall>va. unat va div 2 ^ 22 < 1023 \<longrightarrow> maps s' va = (if unat va div 4096 = unat v div 4096 then None else maps s va))"
proof -
  define d i where "d = unat v div 2 ^ 22" and "i = unat v div 2 ^ 12 mod 1024"
  have d: "d < 1023" "dir d \<noteq> 0" "bit (tabs d i) 0"
    using assms(2,3) maps_vm [OF assms(1,2)] by (auto simp: d_def i_def space_map_def Let_def split: if_splits)
  have dv: "dir (unat v div 2 ^ 22) \<noteq> 0" using d(2) by (simp add: d_def)
  have pb: "bit (dir d) 0" using spaceD(5) [OF vmD(1) [OF assms(1)] d(1,2)] by simp
  obtain m where m: "window_write (ptable_slot v (ptable_entry v)) 0 s = Some (s\<lparr>phys := m\<rparr>)"
      "vm (s\<lparr>phys := m\<rparr>) dir (set_entry_of v 0 tabs)" "clean s \<longrightarrow> clean (s\<lparr>phys := m\<rparr>)"
    using write_ptable [OF assms(1,2) dv ptable_entry_bound, where x = 0] by (auto simp: set_entry_of_def unat_ptable_entry)
  let ?s1 = "s\<lparr>phys := m\<rparr>" and ?tabs = "set_entry_of v 0 tabs"
  have old: "space_map dir ?tabs va = (if unat va div 4096 = unat v div 4096 then None else maps s va)"
    if "unat va div 2 ^ 22 < 1023" for va
    using maps_vm [OF assms(1) that] space_map_set_entry [of dir v 0 tabs va, OF dv] by simp
  obtain n where n: "used_entry v 0 ?s1 = Some n" "1024 \<le> n \<longleftrightarrow> (\<forall>j < 1024. ?tabs d j = 0)"
    using used_entry_result [OF m(2) assms(2) dv, of 0] by (auto simp: d_def)
  have r: "window_read (pdir_slot v) s = Some (dir d)" "window_read (pdir_slot v) ?s1 = Some (dir d)"
      "window_read (ptable_slot v (ptable_entry v)) s = Some (tabs d i)"
    using read_pdir [OF assms(1), of v] read_pdir [OF m(2), of v] read_ptable [OF assms(1,2) dv ptable_entry_bound, of v]
    by (simp_all add: d_def i_def unat_ptable_entry)
  have p: "dir d AND PTABLE_FLAG_PRESENT \<noteq> 0" "tabs d i AND PTABLE_FLAG_PRESENT \<noteq> 0"
    using pb d(3) by (simp_all add: present_iff)
  show ?thesis
  proof (cases "1024 \<le> n")
    case False
    then have "pagemngr_unmap_block v s = Some (tabs d i AND 0xfff, ?s1)"
      using r p m(1) n(1) by (simp add: pagemngr_unmap_block_def Let_def)
    then show ?thesis using m(2,3) old maps_vm [OF m(2)] unfolding d_def [symmetric] i_def [symmetric]
      by (intro exI [of _ ?s1] exI [of _ dir] exI [of _ ?tabs]) simp
  next
    case True
    then obtain s2 where s2: "window_write (pdir_slot v) 0 (balloc_deallocate_block (dir d) ?s1) = Some s2"
        "vm s2 (dir(d := 0)) ?tabs" "cr3 s2 = cr3 ?s1" "clean ?s1 \<longrightarrow> clean s2" "bset s2 \<subseteq> bset ?s1"
      using drop_table [OF m(2) assms(2) dv] n(2) by (auto simp: d_def)
    have "pagemngr_unmap_block v s = Some (tabs d i AND 0xfff, s2)"
      using True r p m(1) n(1) s2(1) by (simp add: pagemngr_unmap_block_def Let_def)
    moreover have "maps s2 va = (if unat va div 4096 = unat v div 4096 then None else maps s va)"
      if va: "unat va div 2 ^ 22 < 1023" for va
    proof (cases "unat va div 2 ^ 22 = d")
      case T: True
      have "?tabs d (unat va div 2 ^ 12 mod 1024) = 0" using True n(2) by simp
      then have "space_map dir ?tabs va = None" using T by (simp add: space_map_def)
      then show ?thesis using old [OF va] maps_vm [OF s2(2) va] T by (simp add: space_map_none)
    next
      case False
      then have "space_map (dir(d := 0)) ?tabs va = space_map dir ?tabs va" by (simp add: space_map_def)
      then show ?thesis using old [OF va] maps_vm [OF s2(2) va] by simp
    qed
    ultimately show ?thesis using s2 m(3) unfolding d_def [symmetric] i_def [symmetric]
      by (intro exI [of _ s2] exI [of _ "dir(d := 0)"] exI [of _ ?tabs]) simp
  qed
qed

section \<open>Properties\<close>

text \<open>
  An address space to run in: the directory in frame 1 maps the window and one table, frame 2, whose
  entries are all free; blocks 0 to 2 of 64 are used and all other frames are zero.
\<close>

definition sample_phys :: memory where
  "sample_phys = store32 (store32 (\<lambda>_. 0) 0x1FFC 0x1001) 0x1000 0x2001"

definition sample_vm :: pagemngr where
  "sample_vm = balloc.extend (balloc_at 7 0) \<lparr>phys = sample_phys, cr3 = 0x1000, pdir_physical = 0\<rparr>"

lemma balloc_fields_cong:
  fixes s :: "'a balloc_scheme" and t :: "'b balloc_scheme"
  assumes "mem s = mem t" "mbmp s = mbmp t" "btotal s = btotal t"
  shows "bset s = bset t" "balloc_ok s = balloc_ok t"
  using assms by (simp_all add: bset_def balloc_ok_def)

lemma sample_fields:
  "mem sample_vm = mem (balloc_at 7 0)" "mbmp sample_vm = mbmp (balloc_at 7 0)" "btotal sample_vm = btotal (balloc_at 7 0)"
  "phys sample_vm = sample_phys" "cr3 sample_vm = 0x1000"
  by (simp_all add: sample_vm_def balloc.defs balloc_at_def)

lemma sample_bset: "bset sample_vm = {0, 1, 2}"
proof -
  have u: "block_used (mem (balloc_at 7 0)) 0x1000 k \<longleftrightarrow> k < 3" if "k < 64" for k
  proof -
    have seven: "bit (7 :: u32) j \<longleftrightarrow> j < 3" for j
    proof -
      have "(7 :: u32) = mask 3" by (simp add: mask_eq_exp_minus_1)
      then show ?thesis by (simp only: bit_mask_iff) auto
    qed
    have l: "load32 (mem (balloc_at 7 0)) (elem 0x1000 0) = 7" "load32 (mem (balloc_at 7 0)) (elem 0x1000 1) = 0"
      by (simp_all add: balloc_at_def elem_def mem_simps apart_def)
    have "k div 32 = 0 \<or> k div 32 = 1" using less_mult_imp_div_less [of k 2 32] that by auto
    then show ?thesis
    proof
      assume z: "k div 32 = 0"
      then have "k mod 32 = k" by (metis div_mult_mod_eq add_0 mult_0)
      then show ?thesis unfolding block_used_def z l by (simp only: seven)
    next
      assume z: "k div 32 = 1"
      then have "\<not> k < 3" by auto
      then show ?thesis unfolding block_used_def z l by simp
    qed
  qed
  show ?thesis unfolding bset_def sample_fields used_set_def using u by (auto simp: balloc_at_def)
qed

lemma sample_space: "space sample_phys 0x1000 ((\<lambda>_. 0)(1023 := 0x1001, 0 := 0x2001)) (\<lambda>_ _. 0)"
proof -
  let ?dir = "(\<lambda>_. 0)(1023 := 0x1001, 0 := 0x2001) :: nat \<Rightarrow> u32"
  have e: "elem 0x1000 1023 = 0x1FFC" "elem 0x1000 0 = 0x1000" by (simp_all add: elem_def)
  have sp: "sample_phys = store32 (store32 (\<lambda>_. 0) (elem 0x1000 1023) 0x1001) (elem 0x1000 0) 0x2001"
    by (simp only: sample_phys_def e)
  have "table (\<lambda>_. 0) 0x1000 (\<lambda>_. 0)" "table (\<lambda>_. 0) 0x2000 (\<lambda>_. 0)" by (simp_all add: table_def load32_def)
  then have t: "table sample_phys 0x1000 ?dir" "table sample_phys 0x2000 (\<lambda>_. 0)"
    using table_store [of _ "0x1000" _ 1023 "0x1001"] table_store [of _ "0x1000" _ 0 "0x2001"]
      store_other_table [of _ "0x1000" "0x2000"]
    unfolding sp by (simp_all add: aligned_def)
  have b: "base 0x1001 = 0x1000" "base 0x2001 = 0x2000" by (simp_all add: base_def)
  show ?thesis unfolding space_def using t b by (simp add: aligned_def)
qed

lemma sample_vm_ok: "vm sample_vm ((\<lambda>_. 0)(1023 := 0x1001, 0 := 0x2001)) (\<lambda>_ _. 0)"
proof -
  have "balloc_ok sample_vm" using sample_bset by (simp add: balloc_ok_def) (simp add: sample_fields balloc_at_def)
  moreover have "frame 0x1000 = 1" "base 0x2001 = 0x2000" "frame 0x2000 = 2" by (simp_all add: frame_def base_def)
  ultimately show ?thesis using sample_space by (simp add: vm_def sample_fields sample_bset)
qed

lemma sample_clean: "clean sample_vm"
  unfolding clean_def
proof (intro allI impI)
  fix t assume t: "aligned t" "frame t \<notin> bset sample_vm"
  then have "t \<noteq> 0x1000" by (auto simp: sample_bset frame_def)
  moreover have "table (\<lambda>_. 0) t (\<lambda>_. 0)" by (simp add: table_def load32_def)
  moreover have e: "elem 0x1000 1023 = 0x1FFC" "elem 0x1000 0 = 0x1000" by (simp_all add: elem_def)
  ultimately have "table (store32 (store32 (\<lambda>_. 0) (elem 0x1000 1023) 0x1001) (elem 0x1000 0) 0x2001) t (\<lambda>_. 0)"
    using t(1) by (intro store_other_table) (simp_all add: aligned_def)
  then show "table (phys sample_vm) t (\<lambda>_. 0)" by (simp only: sample_fields sample_phys_def e)
qed

text \<open>C19: On an address space whose free frames are zero, \<open>pagemngr_map_block\<close> always returns (no
  page fault in the window). It succeeds exactly on a page whose entry is empty while memory for its
  table is there; then the page walk leads from this page to the frame and from every other page
  outside the window to where it led before. Otherwise no translation changes. The space stays well
  formed either way.\<close>
theorem pagemngr_map_block_maps:
  assumes "vm s dir tabs" "clean s" "unat v div 2 ^ 22 < 1023"
  shows "\<exists>r s' dir' tabs'. pagemngr_map_block p v s = Some (r, s') \<and> vm s' dir' tabs' \<and> clean s' \<and> cr3 s' = cr3 s
    \<and> (\<forall>va. unat va div 2 ^ 22 < 1023 \<longrightarrow> translate (phys s') (cr3 s') va =
        (if r = 0 \<and> unat va div 4096 = unat v div 4096 then Some (base p + (va AND 0xfff))
         else translate (phys s) (cr3 s) va))
    \<and> (r = 0 \<and> translate (phys s) (cr3 s) v = None
      \<or> r = -1 \<and> (dir (unat v div 2 ^ 22) \<noteq> 0 \<and> tabs (unat v div 2 ^ 22) (unat v div 2 ^ 12 mod 1024) \<noteq> 0
          \<or> dir (unat v div 2 ^ 22) = 0 \<and> balloc_allocate_block s = (0, s')))"
  using map_block_result [OF assms, of p] unfolding maps_def by blast

lemma pagemngr_map_block_maps_witness:
  "\<exists>s'. pagemngr_map_block 0x9000 0x5000 sample_vm = Some (0, s') \<and> translate (phys s') 0x1000 0x5123 = Some 0x9123"
proof -
  have v: "unat (0x5000 :: u32) div 2 ^ 22 < 1023" by simp
  obtain r s' where r: "pagemngr_map_block 0x9000 0x5000 sample_vm = Some (r, s')" "cr3 s' = cr3 sample_vm"
    "\<forall>va. unat va div 2 ^ 22 < 1023 \<longrightarrow> translate (phys s') (cr3 s') va =
        (if r = 0 \<and> unat va div 4096 = unat (0x5000 :: u32) div 4096 then Some (base 0x9000 + (va AND 0xfff))
         else translate (phys sample_vm) (cr3 sample_vm) va)" "r = 0"
    using pagemngr_map_block_maps [OF sample_vm_ok sample_clean v, of "0x9000"] by auto
  from r(3) [rule_format, of "0x5123"] r(2,4) have "translate (phys s') 0x1000 0x5123 = Some 0x9123"
    by (simp add: sample_fields base_def)
  then show ?thesis using r(1,4) by auto
qed

text \<open>C33: Unmapping a mapped page returns, removes exactly the translations of this page and keeps
  the space well formed; an emptied page table is given back. The value returned, meant to be the
  frame's address, is the flag bits of the entry: never null, and always inside the first 4 KB, so
  that a caller who releases it frees block 0.\<close>
theorem pagemngr_unmap_block_unmaps:
  assumes "vm s dir tabs" "unat v div 2 ^ 22 < 1023" "translate (phys s) (cr3 s) v = Some pa"
  shows "\<exists>r s' dir' tabs'. pagemngr_unmap_block v s = Some (r, s') \<and> vm s' dir' tabs' \<and> cr3 s' = cr3 s
    \<and> (\<forall>va. unat va div 2 ^ 22 < 1023 \<longrightarrow> translate (phys s') (cr3 s') va =
        (if unat va div 4096 = unat v div 4096 then None else translate (phys s) (cr3 s) va))
    \<and> bset s' \<subseteq> bset s \<and> (clean s \<longrightarrow> clean s') \<and> r \<noteq> 0 \<and> frame r = 0"
proof -
  let ?e = "tabs (unat v div 2 ^ 22) (unat v div 2 ^ 12 mod 1024)"
  have m: "maps s v \<noteq> None" using assms(3) by (simp add: maps_def)
  then have "bit ?e 0" using maps_vm [OF assms(1,2)] by (auto simp: space_map_def Let_def split: if_splits)
  then have "bit (?e AND 0xfff) 0" by (simp add: bit_and_iff)
  then have nz: "?e AND 0xfff \<noteq> 0" by (metis bit_0_eq bot_apply bot_bool_def)
  have "frame (?e AND 0xfff) = 0" unfolding frame_def unat_page_offset by simp
  with nz show ?thesis using unmap_block_result [OF assms(1,2) m] unfolding maps_def by blast
qed

lemma sample_mapped: "\<exists>s dir tabs. vm s dir tabs \<and> (unat (0x5000 :: u32) div 2 ^ 22 < 1023) \<and> maps (s :: pagemngr) 0x5000 = Some 0x9000"
proof -
  have v: "unat (0x5000 :: u32) div 2 ^ 22 < 1023" by simp
  obtain r :: int and s' dir' tabs' where r: "r = 0" "vm (s' :: pagemngr) dir' tabs'"
    "\<forall>va. unat va div 2 ^ 22 < 1023 \<longrightarrow> maps s' va =
        (if r = 0 \<and> unat va div 4096 = unat (0x5000 :: u32) div 4096 then Some (base 0x9000 + (va AND 0xfff)) else maps sample_vm va)"
    using map_block_result [OF sample_vm_ok sample_clean v, of "0x9000"] by auto
  have "maps s' 0x5000 = Some 0x9000" using r(3) [rule_format, OF v] r(1) by (simp add: base_def)
  then show ?thesis using r(2) v by blast
qed

lemma pagemngr_unmap_block_unmaps_witness:
  "\<exists>s r s'. pagemngr_unmap_block 0x5000 (s :: pagemngr) = Some (r, s') \<and> translate (phys s) (cr3 s) 0x5000 = Some 0x9000
    \<and> translate (phys s') (cr3 s') 0x5000 = None \<and> frame r = 0"
proof -
  obtain s :: pagemngr and dir tabs where s: "vm s dir tabs" "unat (0x5000 :: u32) div 2 ^ 22 < 1023" "translate (phys s) (cr3 s) 0x5000 = Some 0x9000"
    using sample_mapped unfolding maps_def by blast
  from pagemngr_unmap_block_unmaps [OF s] s(2,3) show ?thesis by metis
qed

end
