(* ===== verification/Heap.thy ===== *)
theory Heap
  imports Pagemngr NumText
begin

text \<open>
  The kernel's heap break, arch/i386/memory.c: \<open>brk\<close> and \<open>sbrk\<close> take blocks from the block
  allocator and map them behind the last page of the heap. \<open>None\<close> is a page fault inside the page
  manager. The main invariant: from the heap's base to the page of the break all pages are mapped, to
  different blocks in use, and nothing is mapped behind.
\<close>

record heap = pagemngr +
  brk_ptr :: u32
  heap_base :: u32

section \<open>Operations\<close>

definition PAGEMNGR_PAGE_ALIGN_UP :: "u32 \<Rightarrow> u32" where
  "PAGEMNGR_PAGE_ALIGN_UP x = (x AND NOT 0xfff) + PAGEMNGR_PAGE_SIZE"

definition PAGEMNGR_PAGE_ALIGN_DOWN :: "u32 \<Rightarrow> u32" where
  "PAGEMNGR_PAGE_ALIGN_DOWN x = x AND NOT 0xfff"

definition memory_setbase :: "u32 \<Rightarrow> 'a heap_scheme \<Rightarrow> 'a heap_scheme" where
  "memory_setbase base_address s = s\<lparr>heap_base := base_address\<rparr>"

definition memory_init_mmap :: "u32 \<Rightarrow> u32 \<Rightarrow> u32 \<Rightarrow> 'a heap_scheme \<Rightarrow> 'a heap_scheme" where
  "memory_init_mmap bmp nblocks nused s = balloc_initialize bmp nblocks nused s"

text \<open>The loop of \<open>allocate_new_brk\<close>, from the \<open>i\<close>-th of \<open>n\<close> blocks on.\<close>

function allocate_loop :: "u32 \<Rightarrow> u32 \<Rightarrow> u32 \<Rightarrow> 'a heap_scheme \<Rightarrow> (int \<times> 'a heap_scheme) option" where
  "allocate_loop frame_addr i n s =
     (if i < n then
        (case balloc_allocate_block s of (block, s1) \<Rightarrow>
           if block = 0 \<and> i > 0 then do {
             (physical, s2) \<leftarrow> pagemngr_unmap_block frame_addr s1;
             let s3 = (if physical \<noteq> 0 then balloc_deallocate_block physical s2 else s2);
             Some (-1, s3\<lparr>errno := ENOMEM\<rparr>)
           } else
             Option.bind (pagemngr_map_block block frame_addr s1)
               (\<lambda>(r, s2). allocate_loop (frame_addr + PAGEMNGR_PAGE_SIZE) (i + 1) n s2))
      else Some (0, s))"
  by pat_completeness auto
termination
  by (relation "measure (\<lambda>(f, i, n, s). unat (n - i))") (auto simp: index_measure)

declare allocate_loop.simps [simp del]

definition allocate_new_brk :: "u32 \<Rightarrow> u32 \<Rightarrow> 'a heap_scheme \<Rightarrow> (int \<times> 'a heap_scheme) option" where
  "allocate_new_brk frame_addr new_block_count s = allocate_loop frame_addr 0 new_block_count s"

definition brk :: "u32 \<Rightarrow> 'a heap_scheme \<Rightarrow> (int \<times> 'a heap_scheme) option" where
  "brk addr s =
     (if heap_base s = 0 then Some (-1, s\<lparr>errno := EINVAL\<rparr>)
      else if addr < heap_base s then Some (-1, s\<lparr>errno := ENOMEM\<rparr>)
      else
        (let top = PAGEMNGR_PAGE_ALIGN_UP addr in
         if brk_ptr s = 0 then do {
           let block_count = (top - heap_base s) div PAGEMNGR_PAGE_SIZE;
           (r, s1) \<leftarrow> allocate_new_brk (heap_base s) block_count s;
           if r = -1 then Some (-1, s1) else Some (0, s1\<lparr>brk_ptr := addr\<rparr>)
         }
         else if PAGEMNGR_PAGE_ALIGN_DOWN addr = PAGEMNGR_PAGE_ALIGN_DOWN (brk_ptr s) then
           Some (0, s\<lparr>brk_ptr := addr\<rparr>)
         else do {
           let new_block_count = (top - PAGEMNGR_PAGE_ALIGN_DOWN (brk_ptr s)) div PAGEMNGR_PAGE_SIZE - 1;
           let frame_addr = PAGEMNGR_PAGE_ALIGN_UP (brk_ptr s);
           (r, s1) \<leftarrow> allocate_new_brk frame_addr new_block_count s;
           if r = -1 then Some (-1, s1) else Some (0, s1\<lparr>brk_ptr := addr\<rparr>)
         }))"

text \<open>The result of \<open>sbrk\<close> is a pointer; the error value is -1.\<close>

definition sbrk :: "i32 \<Rightarrow> 'a heap_scheme \<Rightarrow> (u32 \<times> 'a heap_scheme) option" where
  "sbrk increment s =
     (let old_brk = brk_ptr s in
      if increment = 0 then Some (brk_ptr s, s)
      else do {
        (r, s1) \<leftarrow> brk (brk_ptr s + increment) s;
        if r \<noteq> 0 then Some (- 1, s1\<lparr>errno := ENOMEM\<rparr>) else Some (old_brk, s1)
      })"

section \<open>Mapping fresh pages\<close>

definition free_count :: "'a balloc_scheme \<Rightarrow> nat" where
  "free_count s = card ({..<32 * (unat (btotal s) div 32)} - bset s)"

definition tables_ok :: "'a pagemngr_scheme \<Rightarrow> bool" where
  "tables_ok s \<longleftrightarrow> clean s \<and> (\<exists>dir tabs. vm s dir tabs \<and> tidy dir tabs)"

lemma free_count_grown: "grown s s' \<Longrightarrow> free_count s \<le> Suc (free_count s')"
proof -
  assume g: "grown s s'"
  define A where "A = {..<32 * (unat (btotal s) div 32)}"
  have "card (A - bset s) \<le> Suc (card (A - insert k (bset s)))" for k
  proof -
    have "A - bset s \<subseteq> insert k (A - insert k (bset s))" by auto
    then have "card (A - bset s) \<le> card (insert k (A - insert k (bset s)))" by (intro card_mono) (simp_all add: A_def)
    also have "\<dots> \<le> Suc (card (A - insert k (bset s)))" by (rule card_insert_le_m1) simp_all
    finally show ?thesis .
  qed
  then show ?thesis using g by (auto simp: grown_def free_count_def A_def)
qed

lemma free_count_alloc:
  assumes "balloc_ok s" "0 < free_count s" "balloc_allocate_block s = (p, s')"
  shows "p \<noteq> 0"
proof
  assume "p = 0"
  define A where "A = {..<32 * (unat (btotal s) div 32)}"
  obtain k where "k \<in> A - bset s"
    using assms(2) unfolding free_count_def A_def by (metis card_gt_0_iff ex_in_conv)
  then have k: "k < 32 * (unat (btotal s) div 32)" "k \<notin> bset s" by (auto simp: A_def)
  show False using balloc_alloc_result [OF assms(1)] k assms(3) \<open>p = 0\<close>
    by (auto simp: PAGE_SIZE_def frame_of_block(3))
qed

lemma tables_alloc:
  assumes "tables_ok s" "balloc_allocate_block s = (p, s')"
  shows "tables_ok s'" "maps s' va = maps s va" "cr3 s' = cr3 s" "grown s s'" "bset s \<subseteq> bset s'"
    "p \<noteq> 0 \<Longrightarrow> aligned p \<and> frame p \<notin> bset s \<and> bset s' = insert (frame p) (bset s)"
proof -
  obtain dir tabs where v: "vm s dir tabs" "tidy dir tabs" "clean s" using assms(1) by (auto simp: tables_ok_def)
  note A = vm_alloc [OF v(1) assms(2)]
  show "tables_ok s'" "maps s' va = maps s va" "cr3 s' = cr3 s" "grown s s'"
    "p \<noteq> 0 \<Longrightarrow> aligned p \<and> frame p \<notin> bset s \<and> bset s' = insert (frame p) (bset s)"
    using A v by (auto simp: tables_ok_def maps_def)
  show "bset s \<subseteq> bset s'" using A(6) by (auto simp: grown_def)
qed

lemma tables_map:
  assumes "tables_ok s" "unat v div 2 ^ 22 < 1023" "maps s v = None" "0 < free_count s"
  shows "\<exists>s'. pagemngr_map_block p v s = Some (0, s') \<and> tables_ok s' \<and> cr3 s' = cr3 s \<and> grown s s'
    \<and> (\<forall>va. unat va div 2 ^ 22 < 1023 \<longrightarrow> maps s' va =
        (if unat va div 4096 = unat v div 4096 then Some (base p + (va AND 0xfff)) else maps s va))"
proof -
  obtain dir tabs where v: "vm s dir tabs" "tidy dir tabs" "clean s" using assms(1) by (auto simp: tables_ok_def)
  obtain r s' dir' tabs' where m: "pagemngr_map_block p v s = Some (r, s')" "vm s' dir' tabs'" "clean s'" "cr3 s' = cr3 s"
    "\<forall>va. unat va div 2 ^ 22 < 1023 \<longrightarrow> maps s' va =
        (if r = 0 \<and> unat va div 4096 = unat v div 4096 then Some (base p + (va AND 0xfff)) else maps s va)"
    "r = 0 \<and> maps s v = None
      \<or> r = -1 \<and> (dir (unat v div 2 ^ 22) \<noteq> 0 \<and> tabs (unat v div 2 ^ 22) (unat v div 2 ^ 12 mod 1024) \<noteq> 0
          \<or> dir (unat v div 2 ^ 22) = 0 \<and> balloc_allocate_block s = (0, s'))"
    "grown s s'" "tidy dir tabs \<longrightarrow> tidy dir' tabs'"
    using map_block_result [OF v(1,3) assms(2), of p] by blast
  have "dir (unat v div 2 ^ 22) = 0 \<or> tabs (unat v div 2 ^ 22) (unat v div 2 ^ 12 mod 1024) = 0"
  proof (rule ccontr)
    assume "\<not> ?thesis"
    then have "maps s v \<noteq> None"
      using maps_vm [OF v(1) assms(2)] v(2) assms(2) by (simp add: tidy_def space_map_def Let_def)
    then show False using assms(3) by simp
  qed
  moreover have "balloc_allocate_block s \<noteq> (0, s')" using free_count_alloc [OF vmD(2) [OF v(1)] assms(4)] by blast
  ultimately have "r = 0" using m(6) by blast
  then show ?thesis using m v(2) by (intro exI [of _ s']) (auto simp: tables_ok_def)
qed

text \<open>\<open>frame\<close> is also the number of the page of a virtual address; the window starts at page 1047552.\<close>

lemma below_window: "unat va div 2 ^ 22 < 1023 \<longleftrightarrow> frame va < 1047552" for va :: u32
proof -
  have "unat va div 2 ^ 22 = frame va div 1024" by (simp add: frame_def div_mult2_eq [symmetric])
  then show ?thesis by (simp add: div_less_iff_less_mult)
qed

text \<open>What the operations of the page manager may change.\<close>

definition mm_change :: "'a pagemngr_scheme \<Rightarrow> 'a pagemngr_scheme \<Rightarrow> bool" where
  "mm_change s s' \<longleftrightarrow> (\<exists>m u e ph. s' = s\<lparr>errno := e, mem := m, bused := u, phys := ph\<rparr>)"

lemma mm_changeI: "s' = s\<lparr>errno := e, mem := m, bused := u, phys := ph\<rparr> \<Longrightarrow> mm_change s s'"
  by (auto simp: mm_change_def)

lemma mm_refl: "mm_change s s"
  by (rule mm_changeI [where e = "errno s" and m = "mem s" and u = "bused s" and ph = "phys s"]) simp

lemma mm_trans: "mm_change s1 s2 \<Longrightarrow> mm_change s2 s3 \<Longrightarrow> mm_change s1 s3"
proof -
  assume "mm_change s1 s2" "mm_change s2 s3"
  then obtain e m u ph e' m' u' ph' where "s2 = s1\<lparr>errno := e, mem := m, bused := u, phys := ph\<rparr>"
    "s3 = s2\<lparr>errno := e', mem := m', bused := u', phys := ph'\<rparr>"
    unfolding mm_change_def by blast
  then show ?thesis by (intro mm_changeI [where e = e' and m = m' and u = u' and ph = ph']) simp
qed

lemma mm_write: "window_write a b s = Some s' \<Longrightarrow> mm_change s s'"
  by (rule mm_changeI [where e = "errno s" and m = "mem s" and u = "bused s" and ph = "phys s'"]) (auto simp: window_write_def)

lemma mm_alloc:
  fixes s s' :: "'a pagemngr_scheme"
  assumes "balloc_allocate_block s = (p, s')"
  shows "mm_change s s'"
proof -
  obtain m u e where "s' = s\<lparr>errno := e, mem := m, bused := u\<rparr>" using alloc_fields [OF assms] by blast
  then show ?thesis by (intro mm_changeI [where e = e and m = m and u = u and ph = "phys s"]) simp
qed

lemma map_change:
  assumes "pagemngr_map_block p v s = Some (r, s')"
  shows "mm_change s s'"
proof -
  obtain g s1 where t: "map_page_table v s = Some (g, s1)"
    using assms by (auto simp: pagemngr_map_block_def Let_def bind_eq_Some_conv)
  obtain pde where r: "window_read (pdir_slot v) s = Some pde" using t by (auto simp: map_page_table_def bind_eq_Some_conv)
  obtain b s0 where b: "balloc_allocate_block s = (b, s0)" by (cases "balloc_allocate_block s")
  consider "s1 = s" | "s1 = s0" | x where "window_write (pdir_slot v) x s0 = Some s1"
    using t r b by (auto simp: map_page_table_def split: if_splits)
  then have "mm_change s s1" using mm_refl mm_alloc [OF b] mm_write mm_trans by cases blast+
  moreover consider "s' = s1" | x y where "window_write x y s1 = Some s'"
    using assms t by (auto simp: pagemngr_map_block_def Let_def bind_eq_Some_conv split: if_splits)
  then have "mm_change s1 s'" using mm_refl mm_write by cases blast+
  ultimately show ?thesis by (rule mm_trans)
qed

lemma mm_heap_fields:
  fixes s :: "'a heap_scheme"
  shows "mm_change s s' \<Longrightarrow> brk_ptr s' = brk_ptr s \<and> heap_base s' = heap_base s \<and> btotal s' = btotal s \<and> mbmp s' = mbmp s"
  by (auto simp: mm_change_def)

lemmas alloc_heap_fields = mm_heap_fields [OF mm_alloc]
lemmas map_heap_fields = mm_heap_fields [OF map_change]

lemma grown_bset: "grown s s' \<Longrightarrow> bset s \<subseteq> bset s'"
  by (auto simp: grown_def)

lemma next_page:
  assumes "aligned f" "frame f < 1048575"
  shows "aligned (f + 4096)" "frame (f + 4096) = Suc (frame f)"
proof -
  have f: "unat f = 4096 * frame f" using assms(1) unfolding aligned_def frame_def by (metis add.right_neutral mult_div_mod_eq)
  then have "unat f + 4096 < 2 ^ 32" using assms(2) by simp
  then have "unat (f + 4096) = unat f + 4096" using unat_add_small [of f 4096] by simp
  then have u: "unat (f + 4096) = 4096 * Suc (frame f)" using f by simp
  show "aligned (f + 4096)" unfolding aligned_def u by simp
  show "frame (f + 4096) = Suc (frame f)" unfolding frame_def [of "f + 4096"] u by simp
qed

lemma allocate_loop_result:
  assumes "tables_ok s" "aligned f" "unat n = unat i + k" "frame f + k \<le> 1047552" "2 * k \<le> free_count s"
    and "\<And>va. frame f \<le> frame va \<Longrightarrow> frame va < frame f + k \<Longrightarrow> maps s va = None"
  shows "\<exists>s' bs. allocate_loop f i n s = Some (0, s') \<and> tables_ok s' \<and> brk_ptr s' = brk_ptr s \<and> heap_base s' = heap_base s
    \<and> length bs = k \<and> distinct (map frame bs) \<and> list_all aligned bs \<and> frame ` set bs \<inter> bset s = {}
    \<and> frame ` set bs \<union> bset s \<subseteq> bset s'
    \<and> (\<forall>va. frame va < 1047552 \<longrightarrow> maps s' va =
        (if frame f \<le> frame va \<and> frame va < frame f + k then Some (bs ! (frame va - frame f) + (va AND 0xfff)) else maps s va))"
  using assms
proof (induction k arbitrary: f i s)
  case 0
  then have "\<not> i < n" by (simp add: word_less_nat_alt)
  then show ?case using 0 by (intro exI [of _ s] exI [of _ "[]"]) (auto simp: allocate_loop.simps [of f i n s])
next
  case (Suc k)
  have lt: "i < n" using Suc.prems(3) by (simp add: word_less_nat_alt)
  have i1: "unat (i + 1) = Suc (unat i)" using Suc.prems(3) unat_add_small [of i 1] unat_u32_bound [of n] by simp
  obtain b s1 where a: "balloc_allocate_block s = (b, s1)" by (cases "balloc_allocate_block s")
  obtain dir tabs where v: "vm s dir tabs" using Suc.prems(1) by (auto simp: tables_ok_def)
  have b: "b \<noteq> 0" using free_count_alloc [OF vmD(2) [OF v] _ a] Suc.prems(5) by simp
  note A = tables_alloc [OF Suc.prems(1) a]
  have fb: "aligned b" "frame b \<notin> bset s" "bset s1 = insert (frame b) (bset s)" using A(6) b by auto
  have c1: "Suc (2 * k) \<le> free_count s1" using free_count_grown [OF A(4)] Suc.prems(5) by simp
  have fw: "frame f < 1047552" using Suc.prems(4) by simp
  have none: "maps s1 f = None" using A(2) Suc.prems(6) [of f] by simp
  obtain s2 where m: "pagemngr_map_block b f s1 = Some (0, s2)" "tables_ok s2" "grown s1 s2"
    "\<And>va. frame va < 1047552 \<Longrightarrow> maps s2 va = (if frame va = frame f then Some (base b + (va AND 0xfff)) else maps s1 va)"
    using tables_map [OF A(1) _ none, of b] fw c1 unfolding below_window frame_def [symmetric] by auto
  have e: "allocate_loop f i n s = allocate_loop (f + 4096) (i + 1) n s2"
    using lt a b m(1) by (simp add: allocate_loop.simps [of f i n s] PAGEMNGR_PAGE_SIZE_def)
  have np: "aligned (f + 4096)" "frame (f + 4096) = Suc (frame f)" using next_page [OF Suc.prems(2)] fw by simp_all
  have "maps s2 va = None" if "Suc (frame f) \<le> frame va" "frame va < Suc (frame f) + k" for va
    using m(4) [of va] A(2) [of va] Suc.prems(6) [of va] Suc.prems(4) that by simp
  moreover have "2 * k \<le> free_count s2" using free_count_grown [OF m(3)] c1 by simp
  ultimately obtain s' bs where IH: "allocate_loop (f + 4096) (i + 1) n s2 = Some (0, s')" "tables_ok s'"
      "brk_ptr s' = brk_ptr s2" "heap_base s' = heap_base s2"
      "length bs = k" "distinct (map frame bs)" "list_all aligned bs" "frame ` set bs \<inter> bset s2 = {}"
      "frame ` set bs \<union> bset s2 \<subseteq> bset s'"
      "\<And>va. frame va < 1047552 \<Longrightarrow> maps s' va =
        (if Suc (frame f) \<le> frame va \<and> frame va < Suc (frame f) + k then Some (bs ! (frame va - Suc (frame f)) + (va AND 0xfff)) else maps s2 va)"
    using Suc.IH [OF m(2) np(1), of "i + 1"] i1 np(2) Suc.prems(3,4) by auto
  have bs2: "insert (frame b) (bset s) \<subseteq> bset s2" using grown_bset [OF m(3)] fb(3) by simp
  have bb: "base b = b" unfolding base_def by (rule aligned_mask [OF fb(1)])
  show ?case
  proof (rule exI [of _ s'], rule exI [of _ "b # bs"], intro conjI allI impI)
    show "allocate_loop f i n s = Some (0, s')" using e IH(1) by simp
    show "tables_ok s'" by (rule IH)
    show "brk_ptr s' = brk_ptr s" "heap_base s' = heap_base s"
      using IH(3,4) map_heap_fields [OF m(1)] alloc_heap_fields [OF a] by simp_all
    show "length (b # bs) = Suc k" "list_all aligned (b # bs)" using IH(5,7) fb(1) by simp_all
    show "distinct (map frame (b # bs))" using IH(6,8) bs2 by auto
    show "frame ` set (b # bs) \<inter> bset s = {}" using IH(8) bs2 fb(2) by auto
    show "frame ` set (b # bs) \<union> bset s \<subseteq> bset s'" using IH(9) bs2 by auto
    fix va assume w: "frame va < 1047552"
    consider "frame va = frame f" | "Suc (frame f) \<le> frame va" "frame va < Suc (frame f) + k"
      | "\<not> (frame f \<le> frame va \<and> frame va < frame f + Suc k)" by linarith
    then show "maps s' va = (if frame f \<le> frame va \<and> frame va < frame f + Suc k
        then Some ((b # bs) ! (frame va - frame f) + (va AND 0xfff)) else maps s va)"
    proof cases
      case 1
      then show ?thesis using IH(10) [OF w] m(4) [OF w] bb by simp
    next
      case 2
      then have "frame va - frame f = Suc (frame va - Suc (frame f))" by simp
      then show ?thesis using IH(10) [OF w] 2 by simp
    next
      case 3
      then show ?thesis using IH(10) [OF w] m(4) [OF w] A(2) by auto
    qed
  qed
qed

lemma alloc_grown:
  fixes s :: "'a pagemngr_scheme"
  assumes "balloc_allocate_block s = (p, s')" "balloc_ok s"
  shows "balloc_ok s'" "grown s s'"
proof -
  show "balloc_ok s'" by (rule bal.alloc_ok [OF assms(2,1)])
  have "btotal s' = btotal s" using mm_alloc [OF assms(1)] by (auto simp: mm_change_def)
  then show "grown s s'" using bal.alloc_null [OF assms(2), of s'] bal.alloc_block [OF assms(2,1)] assms(1)
    by (cases "p = 0") (auto simp: grown_def)
qed

lemma map_keeps_blocks:
  assumes "pagemngr_map_block p v s = Some (r, s')" "balloc_ok s"
  shows "balloc_ok s'" "bset s \<subseteq> bset s'" "btotal s' = btotal s" "grown s s'"
proof -
  have w: "balloc_ok x = balloc_ok t \<and> grown u x = grown u t" if "window_write a b t = Some x" for a b t u and x :: "'a pagemngr_scheme"
    using that by (auto simp: window_write_def balloc_ok_def grown_def)
  obtain g s1 where t: "map_page_table v s = Some (g, s1)"
    using assms by (auto simp: pagemngr_map_block_def Let_def bind_eq_Some_conv)
  obtain pde where r: "window_read (pdir_slot v) s = Some pde" using t by (auto simp: map_page_table_def bind_eq_Some_conv)
  obtain b s0 where b: "balloc_allocate_block s = (b, s0)" by (cases "balloc_allocate_block s")
  consider "s1 = s" | "s1 = s0" | x where "window_write (pdir_slot v) x s0 = Some s1"
    using t r b by (auto simp: map_page_table_def split: if_splits)
  then have "balloc_ok s1 \<and> grown s s1" using alloc_grown [OF b assms(2)] w assms(2) by cases auto
  moreover consider "s' = s1" | x y where "window_write x y s1 = Some s'"
    using assms t by (auto simp: pagemngr_map_block_def Let_def bind_eq_Some_conv split: if_splits)
  then have "balloc_ok s' = balloc_ok s1 \<and> grown s s' = grown s s1" using w by cases auto
  ultimately show "balloc_ok s'" "grown s s'" by auto
  then show "bset s \<subseteq> bset s'" "btotal s' = btotal s" by (auto simp: grown_def)
qed

text \<open>Every round takes two blocks at most, one for the page and one for its table.\<close>

lemma allocate_loop_induct [consumes 2, case_names stop round]:
  assumes "allocate_loop f i n s = Some (0, s')" "balloc_ok s"
    and "\<And>i s. \<not> i < n \<Longrightarrow> P i s s"
    and "\<And>f i s b s1 r s2. i < n \<Longrightarrow> balloc_ok s \<Longrightarrow> balloc_allocate_block s = (b, s1) \<Longrightarrow> b \<noteq> 0 \<or> i = 0
      \<Longrightarrow> balloc_ok s1 \<Longrightarrow> pagemngr_map_block b f s1 = Some (r, s2) \<Longrightarrow> P (i + 1) s2 s' \<Longrightarrow> P i s s'"
  shows "P i s s'"
  using assms
proof (induction f i n s rule: allocate_loop.induct)
  case (1 f i n s)
  show ?case
  proof (cases "i < n")
    case False
    then show ?thesis using "1.prems" by (simp add: allocate_loop.simps [of f i n s])
  next
    case True
    obtain b s1 where a: "balloc_allocate_block s = (b, s1)" by (cases "balloc_allocate_block s")
    have nf: "\<not> (b = 0 \<and> i > 0)"
      using "1.prems"(1) True a by (auto simp: allocate_loop.simps [of f i n s] Let_def bind_eq_Some_conv)
    then obtain r s2 where m: "pagemngr_map_block b f s1 = Some (r, s2)"
      and l: "allocate_loop (f + PAGEMNGR_PAGE_SIZE) (i + 1) n s2 = Some (0, s')"
      using "1.prems"(1) True a by (auto simp: allocate_loop.simps [of f i n s] bind_eq_Some_conv)
    have ok1: "balloc_ok s1" by (rule alloc_grown(1) [OF a "1.prems"(2)])
    have "P (i + 1) s2 s'" by (rule "1.IH" [OF True a [symmetric] nf m refl l map_keeps_blocks(1) [OF m ok1] "1.prems"(3,4)])
    moreover have "b \<noteq> 0 \<or> i = 0" using nf by (auto simp: word_gt_0)
    ultimately show ?thesis using "1.prems"(4) [OF True "1.prems"(2) a _ ok1 m] by blast
  qed
qed

lemma below_u32_next: "i < n \<Longrightarrow> unat (i + 1) = Suc (unat i)" for i n :: u32
proof -
  assume "i < n"
  then have "unat i < unat n" by (simp only: word_less_nat_alt)
  then have "unat i < 4294967295" using unat_u32_bound [of n] by linarith
  then show ?thesis using unat_add_small [of i 1] by simp
qed

lemma allocate_loop_takes:
  assumes "allocate_loop f i n s = Some (0, s')" "balloc_ok s"
  shows "free_count s \<le> free_count s' + 2 * (unat n - unat i)"
  using assms
proof (induction rule: allocate_loop_induct)
  case (round f i s b s1 r s2)
  have "unat i < unat n" using round(1) by (simp add: word_less_nat_alt)
  then show ?case using free_count_grown [OF alloc_grown(2) [OF round(3,2)]]
      free_count_grown [OF map_keeps_blocks(4) [OF round(6,5)]] round(7) below_u32_next [OF round(1)] by simp
qed simp

section \<open>The heap\<close>

text \<open>The page behind the heap, and the kernel stack's page, which bounds it.\<close>

definition heap_top :: "'a heap_scheme \<Rightarrow> nat" where
  "heap_top s = (if brk_ptr s = 0 then frame (heap_base s) else Suc (frame (brk_ptr s)))"

definition HEAP_LIMIT :: nat where "HEAP_LIMIT = 0xffbff"

text \<open>The pages from \<open>lo\<close> to \<open>hi - 1\<close> are mapped, page \<open>q\<close> to the block \<open>f q\<close>, a different one for each.\<close>

definition backed :: "'a heap_scheme \<Rightarrow> nat \<Rightarrow> nat \<Rightarrow> (nat \<Rightarrow> u32) \<Rightarrow> bool" where
  "backed s lo hi f \<longleftrightarrow> inj_on (\<lambda>q. frame (f q)) {lo..<hi} \<and> (\<forall>q \<in> {lo..<hi}. aligned (f q) \<and> frame (f q) \<in> bset s \<and> frame (f q) \<noteq> 0)
     \<and> (\<forall>va. lo \<le> frame va \<and> frame va < hi \<longrightarrow> maps s va = Some (f (frame va) + (va AND 0xfff)))"

definition heap_ok :: "'a heap_scheme \<Rightarrow> bool" where
  "heap_ok s \<longleftrightarrow> tables_ok s \<and> heap_base s \<noteq> 0 \<and> aligned (heap_base s) \<and> (brk_ptr s \<noteq> 0 \<longrightarrow> heap_base s \<le> brk_ptr s)
     \<and> heap_top s \<le> HEAP_LIMIT \<and> (\<exists>f. backed s (frame (heap_base s)) (heap_top s) f)
     \<and> (\<forall>va. heap_top s \<le> frame va \<and> frame va < HEAP_LIMIT \<longrightarrow> maps s va = None)"

lemma state_brk [simp]:
  fixes s :: "'a heap_scheme"
  shows "bset (s\<lparr>brk_ptr := a\<rparr>) = bset s" "maps (s\<lparr>brk_ptr := a\<rparr>) va = maps s va" "tables_ok (s\<lparr>brk_ptr := a\<rparr>) = tables_ok s"
  by (simp_all add: bset_def maps_def tables_ok_def clean_def vm_def balloc_ok_def)

lemma free_count_brk [simp]:
  fixes s :: "'a heap_scheme"
  shows "free_count (s\<lparr>brk_ptr := p\<rparr>) = free_count s"
  by (simp add: free_count_def)

lemma backed_join:
  assumes "backed s lo mid f" "lo \<le> mid" "length bs = k" "distinct (map frame bs)" "list_all aligned bs"
    "frame ` set bs \<inter> bset s = {}" "frame ` set bs \<union> bset s \<subseteq> bset s'" "0 \<in> bset s"
    and maps: "\<And>va. frame va < mid + k \<Longrightarrow> maps s' va =
        (if mid \<le> frame va then Some (bs ! (frame va - mid) + (va AND 0xfff)) else maps s va)"
  shows "backed s' lo (mid + k) (\<lambda>q. if mid \<le> q then bs ! (q - mid) else f q)" (is "backed s' lo _ ?g")
  unfolding backed_def
proof (intro conjI ballI allI impI)
  have old: "frame (f q) \<in> bset s" "aligned (f q)" "frame (f q) \<noteq> 0" if "lo \<le> q" "q < mid" for q
    using assms(1) that by (auto simp: backed_def)
  have new: "frame (bs ! (q - mid)) \<in> frame ` set bs" "aligned (bs ! (q - mid))" if "mid \<le> q" "q < mid + k" for q
    using that assms(3,5) by (auto simp: list_all_length)
  show "inj_on (\<lambda>q. frame (?g q)) {lo..<mid + k}"
  proof (rule inj_onI)
    fix x y assume xy: "x \<in> {lo..<mid + k}" "y \<in> {lo..<mid + k}" "frame (?g x) = frame (?g y)"
    show "x = y"
    proof (cases "mid \<le> x"; cases "mid \<le> y")
      assume a: "mid \<le> x" "mid \<le> y"
      then have l: "x - mid < length bs" "y - mid < length bs" using xy assms(3) by auto
      then have "map frame bs ! (x - mid) = map frame bs ! (y - mid)" using xy(3) a by simp
      then have "x - mid = y - mid" using l nth_eq_iff_index_eq [OF assms(4), of "x - mid" "y - mid"] by simp
      then show ?thesis using a by simp
    next
      assume "\<not> mid \<le> x" "\<not> mid \<le> y"
      then show ?thesis using assms(1) xy unfolding backed_def inj_on_def by simp
    next
      assume a: "mid \<le> x" "\<not> mid \<le> y"
      then show ?thesis using new [of x] old [of y] xy assms(6) by auto
    next
      assume a: "\<not> mid \<le> x" "mid \<le> y"
      then show ?thesis using new [of y] old [of x] xy assms(6) by auto
    qed
  qed
  fix q assume "q \<in> {lo..<mid + k}"
  then show "aligned (?g q)" "frame (?g q) \<in> bset s'" "frame (?g q) \<noteq> 0"
    using new [of q] old [of q] assms(6-8) by (auto split: if_splits)
next
  fix va assume "lo \<le> frame va \<and> frame va < mid + k"
  then show "maps s' va = Some (?g (frame va) + (va AND 0xfff))"
    using maps [of va] assms(1) by (auto simp: backed_def)
qed

lemma not_null_above: "b \<noteq> 0 \<Longrightarrow> b \<le> a \<Longrightarrow> a \<noteq> 0" for a b :: u32
  by (metis word_gt_0 leD)

lemma heap_extend:
  assumes "heap_ok s" "aligned f" "frame f = heap_top s" "unat n = k" "heap_top s + k \<le> HEAP_LIMIT" "2 * k \<le> free_count s"
    and addr: "Suc (frame addr) = heap_top s + k" "heap_base s \<le> addr"
  shows "\<exists>s'. allocate_new_brk f n s = Some (0, s') \<and> heap_ok (s'\<lparr>brk_ptr := addr\<rparr>) \<and> heap_base s' = heap_base s
    \<and> free_count s \<le> free_count s' + 2 * k
    \<and> (\<forall>va. frame va < heap_top s \<longrightarrow> maps s' va = maps s va)"
proof -
  note H = assms(1) [unfolded heap_ok_def]
  obtain g where g: "backed s (frame (heap_base s)) (heap_top s) g" using H by blast
  have lim: "heap_top s + k \<le> 1047552" using assms(5) by (simp add: HEAP_LIMIT_def)
  have none: "maps s va = None" if "frame f \<le> frame va" "frame va < frame f + k" for va
    using H assms(3,5) that by simp
  obtain s' bs where A: "allocate_loop f 0 n s = Some (0, s')" "tables_ok s'" "brk_ptr s' = brk_ptr s" "heap_base s' = heap_base s"
    "length bs = k" "distinct (map frame bs)" "list_all aligned bs" "frame ` set bs \<inter> bset s = {}" "frame ` set bs \<union> bset s \<subseteq> bset s'"
    and M: "\<And>va. frame va < 1047552 \<Longrightarrow> maps s' va =
        (if heap_top s \<le> frame va \<and> frame va < heap_top s + k then Some (bs ! (frame va - heap_top s) + (va AND 0xfff)) else maps s va)"
    using allocate_loop_result [OF conjunct1 [OF H] assms(2) _ _ assms(6) none, of n 0, unfolded assms(3)] assms(4) lim
    by auto
  have lo: "frame (heap_base s) \<le> heap_top s"
  proof (cases "brk_ptr s = 0")
    case False
    then have "unat (heap_base s) \<le> unat (brk_ptr s)" using H by (simp add: word_le_nat_alt)
    then show ?thesis using False by (simp add: heap_top_def frame_def div_le_mono le_SucI)
  qed (simp add: heap_top_def)
  have "backed s' (frame (heap_base s)) (heap_top s + k) (\<lambda>q. if heap_top s \<le> q then bs ! (q - heap_top s) else g q)"
    using M lim H by (intro backed_join [OF g lo A(5-9)]) (auto simp: tables_ok_def vm_def balloc_ok_def)
  then have "backed (s'\<lparr>brk_ptr := addr\<rparr>) (frame (heap_base s)) (heap_top s + k) (\<lambda>q. if heap_top s \<le> q then bs ! (q - heap_top s) else g q)"
    by (simp add: backed_def)
  moreover have "addr \<noteq> 0" using H addr(2) not_null_above by blast
  then have t: "heap_top (s'\<lparr>brk_ptr := addr\<rparr>) = heap_top s + k" using addr(1) by (simp add: heap_top_def)
  moreover have "maps s' va = None" if "heap_top s + k \<le> frame va" "frame va < HEAP_LIMIT" for va
    using M [of va] H that by (simp add: HEAP_LIMIT_def)
  ultimately have "heap_ok (s'\<lparr>brk_ptr := addr\<rparr>)"
    using H A(2,4) addr(2) assms(5) unfolding heap_ok_def t by auto
  moreover have "\<forall>va. frame va < heap_top s \<longrightarrow> maps s' va = maps s va" using M lim by auto
  moreover have "balloc_ok s" using H by (auto simp: tables_ok_def vm_def)
  then have "free_count s \<le> free_count s' + 2 * k" using allocate_loop_takes [OF A(1)] assms(4) by simp
  ultimately show ?thesis using A(1,4) by (auto simp: allocate_new_brk_def)
qed

section \<open>The break\<close>

lemma page_mult: "unat (x AND NOT 0xfff) = 4096 * frame x" for x :: u32
  unfolding unat_page_down frame_def ..

lemma page_up:
  assumes "frame x < 1048575"
  shows "unat (PAGEMNGR_PAGE_ALIGN_UP x) = 4096 * Suc (frame x)" "aligned (PAGEMNGR_PAGE_ALIGN_UP x)"
    "frame (PAGEMNGR_PAGE_ALIGN_UP x) = Suc (frame x)"
proof -
  let ?d = "x AND NOT 0xfff"
  have "aligned ?d" "frame ?d = frame x" unfolding aligned_def frame_def [of ?d] page_mult by simp_all
  then have n: "aligned (?d + 4096)" "frame (?d + 4096) = Suc (frame x)" using next_page [of ?d] assms by simp_all
  then show a: "aligned (PAGEMNGR_PAGE_ALIGN_UP x)" "frame (PAGEMNGR_PAGE_ALIGN_UP x) = Suc (frame x)"
    by (simp_all add: PAGEMNGR_PAGE_ALIGN_UP_def PAGEMNGR_PAGE_SIZE_def)
  then show "unat (PAGEMNGR_PAGE_ALIGN_UP x) = 4096 * Suc (frame x)"
    unfolding aligned_def frame_def by (metis add.right_neutral mult_div_mod_eq)
qed

lemma page_down_eq: "PAGEMNGR_PAGE_ALIGN_DOWN x = PAGEMNGR_PAGE_ALIGN_DOWN y \<longleftrightarrow> frame x = frame y"
proof -
  have "x AND NOT 0xfff = y AND NOT 0xfff \<longleftrightarrow> 4096 * frame x = 4096 * frame y"
    unfolding word_unat_eq_iff page_mult ..
  then show ?thesis by (simp add: PAGEMNGR_PAGE_ALIGN_DOWN_def)
qed

lemma frame_mono: "x \<le> y \<Longrightarrow> frame x \<le> frame y"
  by (simp add: frame_def div_le_mono word_le_nat_alt)

lemma pages_between:
  fixes a b :: u32
  assumes "unat a = 4096 * m" "unat b = 4096 * n" "n \<le> m"
  shows "unat ((a - b) div PAGEMNGR_PAGE_SIZE) = m - n"
proof -
  have "unat (a - b) = 4096 * (m - n)" using assms by (simp add: unat_sub word_le_nat_alt diff_mult_distrib2)
  then show ?thesis by (simp add: PAGEMNGR_PAGE_SIZE_def unat_div)
qed

lemma aligned_unat: "aligned p \<Longrightarrow> unat p = 4096 * frame p"
  unfolding aligned_def frame_def by (metis add.right_neutral mult_div_mod_eq)

lemma brk_result:
  assumes "heap_ok s" "heap_base s \<le> addr" "brk_ptr s \<le> addr" "frame addr < HEAP_LIMIT"
    and "2 * (Suc (frame addr) - heap_top s) \<le> free_count s"
  shows "\<exists>s'. brk addr s = Some (0, s') \<and> heap_ok s' \<and> brk_ptr s' = addr \<and> heap_base s' = heap_base s
    \<and> free_count s \<le> free_count s' + 2 * (Suc (frame addr) - heap_top s)
    \<and> (\<forall>va. frame va < heap_top s \<longrightarrow> maps s' va = maps s va)"
proof -
  note H = assms(1) [unfolded heap_ok_def]
  have up: "frame addr < 1048575" using assms(4) by (simp add: HEAP_LIMIT_def)
  have g: "heap_base s \<noteq> 0" "\<not> addr < heap_base s" using H assms(2) by auto
  show ?thesis
  proof (cases "brk_ptr s = 0")
    case True
    define n where "n = (PAGEMNGR_PAGE_ALIGN_UP addr - heap_base s) div PAGEMNGR_PAGE_SIZE"
    have t: "heap_top s = frame (heap_base s)" "frame (heap_base s) \<le> frame addr"
      using True frame_mono [OF assms(2)] by (simp_all add: heap_top_def)
    then have n: "unat n = Suc (frame addr) - heap_top s"
      unfolding n_def using pages_between [OF page_up(1) [OF up] aligned_unat] H by simp
    have "aligned (heap_base s)" using H by blast
    from heap_extend [OF assms(1) this t(1) [symmetric] n _ _ _ assms(2)] obtain s' where
      "allocate_new_brk (heap_base s) n s = Some (0, s')" "heap_ok (s'\<lparr>brk_ptr := addr\<rparr>)" "heap_base s' = heap_base s"
      "free_count s \<le> free_count s' + 2 * (Suc (frame addr) - heap_top s)" "\<forall>va. frame va < heap_top s \<longrightarrow> maps s' va = maps s va"
      using t assms(4,5) by auto
    then show ?thesis using True g by (intro exI [of _ "s'\<lparr>brk_ptr := addr\<rparr>"]) (simp add: brk_def n_def Let_def)
  next
    case False
    have t: "heap_top s = Suc (frame (brk_ptr s))" using False by (simp add: heap_top_def)
    have fm: "frame (brk_ptr s) \<le> frame addr" by (rule frame_mono [OF assms(3)])
    show ?thesis
    proof (cases "frame addr = frame (brk_ptr s)")
      case same: True
      have "addr \<noteq> 0" using g not_null_above assms(2) by blast
      then have "heap_top (s\<lparr>brk_ptr := addr\<rparr>) = heap_top s" using same t by (simp add: heap_top_def)
      then have "heap_ok (s\<lparr>brk_ptr := addr\<rparr>)" using H assms(2) by (auto simp: heap_ok_def backed_def)
      then show ?thesis using False g same
        by (intro exI [of _ "s\<lparr>brk_ptr := addr\<rparr>"]) (simp add: brk_def page_down_eq Let_def)
    next
      case more: False
      define n where "n = (PAGEMNGR_PAGE_ALIGN_UP addr - PAGEMNGR_PAGE_ALIGN_DOWN (brk_ptr s)) div PAGEMNGR_PAGE_SIZE - 1"
      have d: "unat (PAGEMNGR_PAGE_ALIGN_DOWN (brk_ptr s)) = 4096 * frame (brk_ptr s)"
        unfolding PAGEMNGR_PAGE_ALIGN_DOWN_def by (rule page_mult)
      have "unat ((PAGEMNGR_PAGE_ALIGN_UP addr - PAGEMNGR_PAGE_ALIGN_DOWN (brk_ptr s)) div PAGEMNGR_PAGE_SIZE) = Suc (frame addr) - frame (brk_ptr s)"
        using pages_between [OF page_up(1) [OF up] d] fm by simp
      moreover from this have "(PAGEMNGR_PAGE_ALIGN_UP addr - PAGEMNGR_PAGE_ALIGN_DOWN (brk_ptr s)) div PAGEMNGR_PAGE_SIZE \<noteq> 0"
        using fm by (metis Suc_diff_le nat.simps(3) unat_0)
      ultimately have n: "unat n = Suc (frame addr) - heap_top s" unfolding n_def t by (simp add: unat_minus_one_u32)
      have bl: "frame (brk_ptr s) < 1048575" using fm up by simp
      note u = page_up [OF bl]
      from heap_extend [OF assms(1) u(2) _ n _ _ _ assms(2)] obtain s' where
        "allocate_new_brk (PAGEMNGR_PAGE_ALIGN_UP (brk_ptr s)) n s = Some (0, s')" "heap_ok (s'\<lparr>brk_ptr := addr\<rparr>)"
        "heap_base s' = heap_base s" "free_count s \<le> free_count s' + 2 * (Suc (frame addr) - heap_top s)" "\<forall>va. frame va < heap_top s \<longrightarrow> maps s' va = maps s va"
        using t fm more assms(4,5) u(3) by auto
      then show ?thesis using False g more
        by (intro exI [of _ "s'\<lparr>brk_ptr := addr\<rparr>"]) (simp add: brk_def n_def Let_def page_down_eq)
    qed
  qed
qed

subsection \<open>Out of memory and shrinking\<close>

text \<open>A loop that succeeds took a block in every round but, perhaps, the first.\<close>

lemma allocate_loop_blocks:
  assumes "allocate_loop f i n s = Some (0, s')" "balloc_ok s" "unat i \<le> unat n"
  shows "btotal s' = btotal s \<and> card (bset s) + (unat n - unat i) \<le> card (bset s') + (if i = 0 then 1 else 0)"
  using assms
proof (induction rule: allocate_loop_induct)
  case (stop i s)
  then show ?case by (simp add: word_less_nat_alt)
next
  case (round f i s b s1 r s2)
  note K = map_keeps_blocks [OF round(6,5)] and i1 = below_u32_next [OF round(1)]
  have lt: "unat i < unat n" using round(1) by (simp add: word_less_nat_alt)
  have nz: "i + 1 \<noteq> 0" using i1 by (metis nat.simps(3) unat_0)
  have "btotal s' = btotal s2 \<and> card (bset s2) + (unat n - unat (i + 1)) \<le> card (bset s')"
    using round(7) lt i1 nz by simp
  moreover have "card (bset s1) \<le> card (bset s2)" using K(2) by (intro card_mono) simp_all
  moreover have "card (bset s) + (if b = 0 then 0 else 1) \<le> card (bset s1)"
    using bal.alloc_block [OF round(2,3)] bal.alloc_null [OF round(2), of s1] round(3) by (cases "b = 0") auto
  moreover have "btotal s1 = btotal s" using alloc_fields [OF round(3)] by auto
  ultimately show ?case using K(3) i1 lt round(4) by (auto split: if_splits)
qed

lemma free_count_0:
  assumes "balloc_ok s" "free_count s = 0"
  shows "balloc_allocate_block s = (0, s\<lparr>errno := ENOMEM\<rparr>)"
proof -
  have "{..<32 * (unat (btotal s) div 32)} \<subseteq> bset s" using assms(2) by (simp add: free_count_def)
  then show ?thesis using balloc_alloc_result [OF assms(1)] by auto
qed

text \<open>One page more with no block left: block 0 is mapped.\<close>

lemma allocate_null:
  assumes "tables_ok s" "unat v div 2 ^ 22 < 1023" "maps s v = None" "free_count s = 0"
    "window_read (pdir_slot v) s \<noteq> Some 0"
  shows "\<exists>s'. allocate_new_brk v 1 s = Some (0, s') \<and> brk_ptr s' = brk_ptr s \<and> heap_base s' = heap_base s
    \<and> (\<forall>va. frame va = frame v \<longrightarrow> maps s' va = Some (va AND 0xfff))"
proof -
  obtain dir tabs where v: "vm s dir tabs" "tidy dir tabs" "clean s" using assms(1) by (auto simp: tables_ok_def)
  define s1 where "s1 = s\<lparr>errno := ENOMEM\<rparr>"
  have a: "balloc_allocate_block s = (0, s1)" using free_count_0 [OF vmD(2) [OF v(1)] assms(4)] by (simp add: s1_def)
  note A = vm_alloc [OF v(1) a]
  have d: "dir (unat v div 2 ^ 22) \<noteq> 0" using assms(5) read_pdir [OF v(1), of v] by auto
  have e: "tabs (unat v div 2 ^ 22) (unat v div 2 ^ 12 mod 1024) = 0"
    using assms(2,3) v(2) [unfolded tidy_def, rule_format, OF assms(2) _ d, of "unat v div 2 ^ 12 mod 1024"]
      d maps_vm [OF v(1) assms(2)] by (auto simp: space_map_def Let_def split: if_splits)
  obtain r s2 where m: "pagemngr_map_block 0 v s1 = Some (r, s2)" "r = 0"
    "\<forall>va. unat va div 2 ^ 22 < 1023 \<longrightarrow> maps s2 va =
        (if r = 0 \<and> unat va div 4096 = unat v div 4096 then Some (base 0 + (va AND 0xfff)) else maps s1 va)"
    using map_block_result [OF A(1) A(5) [OF v(3)] assms(2), of 0] d e by blast
  have "maps s2 va = Some (va AND 0xfff)" if "frame va = frame v" for va
  proof -
    have "unat va div 2 ^ 22 < 1023" using assms(2) that unfolding below_window by simp
    then show ?thesis using m(2,3) that by (simp add: frame_def base_def)
  qed
  moreover have "allocate_new_brk v 1 s = Some (0, s2)"
    using a m(1,2) by (simp add: allocate_new_brk_def allocate_loop.simps [of _ _ 1])
  ultimately show ?thesis
    using map_heap_fields [OF m(1)] alloc_heap_fields [OF a] by auto
qed

text \<open>The number of blocks that \<open>brk\<close> asks for when the break goes back by whole pages.\<close>

lemma shrink_count:
  assumes "frame addr < frame old" "frame old < 1048575"
  shows "2 ^ 20 - (frame old - frame addr)
    \<le> unat ((PAGEMNGR_PAGE_ALIGN_UP addr - PAGEMNGR_PAGE_ALIGN_DOWN old) div PAGEMNGR_PAGE_SIZE - 1)"
proof -
  define A B where "A = frame addr" and "B = frame old"
  have a: "unat (PAGEMNGR_PAGE_ALIGN_UP addr) = 4096 * Suc A" using page_up(1) [of addr] assms by (simp add: A_def)
  have b: "unat (PAGEMNGR_PAGE_ALIGN_DOWN old) = 4096 * B"
    unfolding PAGEMNGR_PAGE_ALIGN_DOWN_def B_def by (rule page_mult)
  have lt: "A < B" "B < 1048575" using assms by (simp_all add: A_def B_def)
  show ?thesis
  proof (cases "B = Suc A")
    case True
    then have "PAGEMNGR_PAGE_ALIGN_UP addr = PAGEMNGR_PAGE_ALIGN_DOWN old" using a b by (simp add: word_unat_eq_iff)
    then show ?thesis by (simp add: unsigned_minus_1_eq_mask mask_eq_exp_minus_1)
  next
    case False
    then have s: "Suc A < B" using lt by simp
    then have "\<not> PAGEMNGR_PAGE_ALIGN_DOWN old \<le> PAGEMNGR_PAGE_ALIGN_UP addr" using a b by (simp add: word_le_nat_alt)
    then have "unat (PAGEMNGR_PAGE_ALIGN_UP addr - PAGEMNGR_PAGE_ALIGN_DOWN old) = 4096 * Suc A + 2 ^ 32 - 4096 * B"
      using a b s by (simp add: unat_sub_if_size word_size)
    also have "\<dots> = 4096 * (2 ^ 20 - (B - Suc A))" using s lt by (simp add: algebra_simps)
    finally have d: "unat ((PAGEMNGR_PAGE_ALIGN_UP addr - PAGEMNGR_PAGE_ALIGN_DOWN old) div PAGEMNGR_PAGE_SIZE) = 2 ^ 20 - (B - Suc A)"
      by (simp add: PAGEMNGR_PAGE_SIZE_def unat_div)
    then have "(PAGEMNGR_PAGE_ALIGN_UP addr - PAGEMNGR_PAGE_ALIGN_DOWN old) div PAGEMNGR_PAGE_SIZE \<noteq> 0" using s lt by auto
    then show ?thesis using d s by (simp add: unat_minus_one_u32 A_def [symmetric] B_def [symmetric])
  qed
qed

lemma allocate_loop_outcome: "allocate_loop f i n s = Some (x, s') \<Longrightarrow> x = 0 \<or> x = -1"
proof (induction f i n s rule: allocate_loop.induct)
  case (1 f i n s)
  obtain b s1 where a: "balloc_allocate_block s = (b, s1)" by (cases "balloc_allocate_block s")
  show ?case
  proof (cases "i < n \<and> \<not> (b = 0 \<and> i > 0)")
    case True
    then have e: "allocate_loop f i n s = Option.bind (pagemngr_map_block b f s1)
        (\<lambda>(r, s2). allocate_loop (f + PAGEMNGR_PAGE_SIZE) (i + 1) n s2)"
      using a by (auto simp: allocate_loop.simps [of f i n s])
    have "Option.bind (pagemngr_map_block b f s1) (\<lambda>(r, s2). allocate_loop (f + PAGEMNGR_PAGE_SIZE) (i + 1) n s2) = Some (x, s')"
      using e "1.prems" by (rule trans [OF sym])
    then obtain r s2 where "pagemngr_map_block b f s1 = Some (r, s2)"
      "allocate_loop (f + PAGEMNGR_PAGE_SIZE) (i + 1) n s2 = Some (x, s')"
      by (auto simp: bind_eq_Some_conv)
    then show ?thesis using "1.IH" [OF _ a [symmetric]] True by blast
  next
    case False
    then show ?thesis using "1.prems" a by (auto simp: allocate_loop.simps [of f i n s] Let_def bind_eq_Some_conv split: if_splits)
  qed
qed

lemma heap_used:
  assumes "heap_ok s"
  shows "Suc (heap_top s - frame (heap_base s)) \<le> card (bset s)"
proof -
  let ?P = "{frame (heap_base s)..<heap_top s}"
  obtain f where f: "backed s (frame (heap_base s)) (heap_top s) f" using assms by (auto simp: heap_ok_def)
  have z: "0 \<in> bset s" using assms by (auto simp: heap_ok_def tables_ok_def vm_def balloc_ok_def)
  have "insert 0 ((\<lambda>q. frame (f q)) ` ?P) \<subseteq> bset s" using f z by (auto simp: backed_def)
  then have "card (insert 0 ((\<lambda>q. frame (f q)) ` ?P)) \<le> card (bset s)" by (intro card_mono) simp_all
  moreover have "0 \<notin> (\<lambda>q. frame (f q)) ` ?P" using f by (auto simp: backed_def)
  moreover have "card ((\<lambda>q. frame (f q)) ` ?P) = card ?P" using f by (intro card_image) (simp add: backed_def)
  ultimately show ?thesis by simp
qed

lemma shrink_result:
  assumes "heap_ok s" "heap_base s \<le> addr" "frame addr < frame (brk_ptr s)"
  shows "brk addr s \<noteq> Some (0, s')"
proof
  assume r: "brk addr s = Some (0, s')"
  note H = assms(1) [unfolded heap_ok_def]
  let ?n = "(PAGEMNGR_PAGE_ALIGN_UP addr - PAGEMNGR_PAGE_ALIGN_DOWN (brk_ptr s)) div PAGEMNGR_PAGE_SIZE - 1"
  have g: "heap_base s \<noteq> 0" "\<not> addr < heap_base s" using H assms(2) by auto
  have p: "brk_ptr s \<noteq> 0" using assms(3) by (auto simp: frame_def)
  then have t: "heap_top s = Suc (frame (brk_ptr s))" by (simp add: heap_top_def)
  have fb: "frame (brk_ptr s) < 1048575" using H t by (simp add: HEAP_LIMIT_def)
  have nd: "PAGEMNGR_PAGE_ALIGN_DOWN addr \<noteq> PAGEMNGR_PAGE_ALIGN_DOWN (brk_ptr s)"
    unfolding page_down_eq using assms(3) by simp
  obtain x s1 where x: "allocate_new_brk (PAGEMNGR_PAGE_ALIGN_UP (brk_ptr s)) ?n s = Some (x, s1)" "x \<noteq> -1"
    using r g p nd by (auto simp: brk_def Let_def bind_eq_Some_conv split: if_splits)
  then have l: "allocate_loop (PAGEMNGR_PAGE_ALIGN_UP (brk_ptr s)) 0 ?n s = Some (0, s1)"
    using x allocate_loop_outcome unfolding allocate_new_brk_def by blast
  have ok: "balloc_ok s" using H by (auto simp: tables_ok_def vm_def)
  have c: "btotal s1 = btotal s" "card (bset s) + unat ?n \<le> Suc (card (bset s1))"
    using allocate_loop_blocks [OF l ok] by simp_all
  have "card (bset s1) \<le> card {..<unat (btotal s)}" using c(1) by (intro card_mono) (auto dest: bset_bound)
  also have "\<dots> \<le> 2 ^ 20" using ok by (simp add: balloc_ok_def)
  finally have "card (bset s) + unat ?n \<le> Suc (2 ^ 20)" using c(2) by simp
  moreover have "2 ^ 20 - (frame (brk_ptr s) - frame addr) \<le> unat ?n" by (rule shrink_count [OF assms(3) fb])
  moreover have "frame (heap_base s) \<le> frame addr" by (rule frame_mono [OF assms(2)])
  ultimately show False using heap_used [OF assms(1)] t assms(3) fb by simp
qed

section \<open>Properties\<close>

text \<open>The page manager's sample with a heap at 0x5000 that has no page yet.\<close>

definition sample_heap :: "u32 \<Rightarrow> u32 \<Rightarrow> heap" where
  "sample_heap w v = pagemngr.extend (balloc.extend (balloc_at w v) \<lparr>phys = sample_phys, cr3 = 0x1000, pdir_physical = 0\<rparr>)
     \<lparr>brk_ptr = 0, heap_base = 0x5000\<rparr>"

lemma sample_heap_fields:
  "mem (sample_heap w v) = mem (balloc_at w v)" "mbmp (sample_heap w v) = mbmp (balloc_at w v)"
  "btotal (sample_heap w v) = 64" "phys (sample_heap w v) = sample_phys" "cr3 (sample_heap w v) = 0x1000"
  "brk_ptr (sample_heap w v) = 0" "heap_base (sample_heap w v) = 0x5000"
  by (simp_all add: sample_heap_def pagemngr.defs balloc.defs balloc_at_def)

lemma sample_heap_bset: "bset (sample_heap 7 0) = {0, 1, 2}"
  using sample_bset unfolding bset_def sample_heap_fields sample_fields by (simp add: balloc_at_def)

lemma sample_heap_tables: "tables_ok (sample_heap 7 0)"
proof -
  have b: "bset (sample_heap 7 0) = bset sample_vm" by (simp only: sample_heap_bset sample_bset)
  have "clean (sample_heap 7 0)" using sample_clean unfolding clean_def b sample_heap_fields sample_fields .
  moreover have "vm (sample_heap 7 0) ((\<lambda>_. 0)(1023 := 0x1001, 0 := 0x2001)) (\<lambda>_ _. 0)"
    using sample_vm_ok unfolding vm_def balloc_ok_def b sample_heap_fields sample_fields by (simp add: balloc_at_def)
  moreover have "tidy ((\<lambda>_. 0)(1023 := 0x1001, 0 := 0x2001)) (\<lambda>_ _. 0)" by (simp add: tidy_def)
  ultimately show ?thesis unfolding tables_ok_def by blast
qed

lemma sample_unmapped: "frame va < 1047552 \<Longrightarrow> maps (sample_heap 7 0) va = None"
proof -
  assume "frame va < 1047552"
  then have "unat va div 2 ^ 22 < 1023" unfolding below_window .
  from translate_space [OF sample_space this] show ?thesis
    by (simp add: maps_def sample_heap_fields space_map_def Let_def)
qed

lemma sample_heap_ok: "heap_ok (sample_heap 7 0)"
proof -
  have f: "frame 0x5000 = 5" by (simp add: frame_def)
  have "backed (sample_heap 7 0) 5 5 (\<lambda>_. 0)" by (auto simp: backed_def)
  moreover have "aligned 0x5000" by (simp add: aligned_def)
  ultimately show ?thesis using sample_heap_tables sample_unmapped
    by (auto simp: heap_ok_def heap_top_def sample_heap_fields f HEAP_LIMIT_def)
qed

lemma sample_free_count: "free_count (sample_heap 7 0) = 61"
proof -
  have "{..<64} - {0, 1, 2} = {3..<64::nat}" by auto
  then show ?thesis by (simp add: free_count_def sample_heap_fields sample_heap_bset)
qed

text \<open>C8: Moving the break up, the first time or later, succeeds when two free blocks are there for
  each new page (one for it, one for a page table): then the whole heap up to the page of the new break
  is mapped to different blocks in use, no page behind it is mapped, and the pages that were there
  keep their blocks.\<close>
theorem brk_grows_heap:
  assumes "heap_ok s" "heap_base s \<le> addr" "brk_ptr s \<le> addr" "frame addr < HEAP_LIMIT"
    and "2 * (Suc (frame addr) - heap_top s) \<le> free_count s"
  shows "\<exists>s'. brk addr s = Some (0, s') \<and> heap_ok s' \<and> brk_ptr s' = addr \<and> heap_base s' = heap_base s
    \<and> (\<forall>va. frame va < heap_top s \<longrightarrow> maps s' va = maps s va)"
  using brk_result [OF assms] by blast

lemma brk_grows_heap_witness:
  "\<exists>s'. brk 0x6fff (sample_heap 7 0) = Some (0, s') \<and> heap_ok s' \<and> brk_ptr s' = 0x6fff"
proof -
  have f: "frame 0x6fff = 6" "frame 0x5000 = 5" by (simp_all add: frame_def)
  show ?thesis using brk_grows_heap [OF sample_heap_ok, of "0x6fff"]
    by (auto simp: sample_heap_fields sample_free_count heap_top_def f HEAP_LIMIT_def)
qed

lemma heap_mapped:
  assumes "heap_ok s" "frame (heap_base s) \<le> frame va" "frame va < heap_top s"
  shows "\<exists>pa. maps s va = Some pa"
  using assms by (auto simp: heap_ok_def backed_def)

lemma sbrk_result:
  assumes "heap_ok s" "brk_ptr s \<noteq> 0" "increment \<noteq> 0" "unat (brk_ptr s) + unat increment < 4096 * HEAP_LIMIT"
    and "2 * (Suc (frame (brk_ptr s + increment)) - heap_top s) \<le> free_count s"
  shows "\<exists>s'. sbrk increment s = Some (brk_ptr s, s') \<and> heap_ok s' \<and> brk_ptr s' = brk_ptr s + increment
    \<and> free_count s \<le> free_count s' + 2 * (Suc (frame (brk_ptr s + increment)) - heap_top s)
    \<and> (\<forall>va. frame va < heap_top s \<longrightarrow> maps s' va = maps s va)
    \<and> (\<forall>k < unat increment. maps s' (brk_ptr s + of_nat k) \<noteq> None)"
proof -
  have lim: "4096 * HEAP_LIMIT < 2 ^ 32" by (simp add: HEAP_LIMIT_def)
  have u: "unat (brk_ptr s + increment) = unat (brk_ptr s) + unat increment"
    by (rule unat_add_lem [THEN iffD1]) (use assms(4) lim in simp)
  have hb: "heap_base s \<le> brk_ptr s" using assms(1,2) by (auto simp: heap_ok_def)
  then have le: "brk_ptr s \<le> brk_ptr s + increment" "heap_base s \<le> brk_ptr s + increment"
    using u by (simp_all add: word_le_nat_alt)
  have fl: "frame (brk_ptr s + increment) < HEAP_LIMIT"
    using assms(4) u by (simp add: frame_def div_less_iff_less_mult mult.commute)
  obtain s' where s': "brk (brk_ptr s + increment) s = Some (0, s')" "heap_ok s'" "brk_ptr s' = brk_ptr s + increment"
    "heap_base s' = heap_base s" "free_count s \<le> free_count s' + 2 * (Suc (frame (brk_ptr s + increment)) - heap_top s)" "\<forall>va. frame va < heap_top s \<longrightarrow> maps s' va = maps s va"
    using brk_result [OF assms(1) le(2,1) fl assms(5)] by blast
  have "maps s' (brk_ptr s + of_nat k) \<noteq> None" if k: "k < unat increment" for k
  proof -
    have "unat (brk_ptr s) + k < 2 ^ 32" using k assms(4) lim by simp
    then have v: "unat (brk_ptr s + of_nat k) = unat (brk_ptr s) + k" by (rule unat_add_small)
    then have a: "heap_base s \<le> brk_ptr s + of_nat k" "brk_ptr s + of_nat k \<le> brk_ptr s + increment"
      using hb k u by (simp_all add: word_le_nat_alt)
    have "brk_ptr s' \<noteq> 0" using s'(3) le(2) assms(1) not_null_above by (auto simp: heap_ok_def)
    then have "frame (brk_ptr s + of_nat k) < heap_top s'" using frame_mono [OF a(2)] s'(3) by (simp add: heap_top_def)
    then show ?thesis using heap_mapped [OF s'(2)] frame_mono [OF a(1)] s'(4) by auto
  qed
  then show ?thesis using s' assms(3) by (intro exI [of _ s']) (simp add: sbrk_def Let_def)
qed

text \<open>
  The interface of \<open>sbrk\<close> for its clients: while there is room, a request of \<open>n\<close> bytes returns the
  old end, moves the end by \<open>n\<close> and makes the bytes between usable; usable bytes stay usable.
\<close>

locale program_break =
  fixes sbrk :: "u32 \<Rightarrow> 's \<Rightarrow> (u32 \<times> 's) option"
    and top :: "'s \<Rightarrow> u32"
    and usable :: "'s \<Rightarrow> u32 \<Rightarrow> bool"
    and room :: "u32 \<Rightarrow> 's \<Rightarrow> bool"
  assumes grant: "room n s \<Longrightarrow> \<exists>s'. sbrk n s = Some (top s, s') \<and> top s' = top s + n
      \<and> (\<forall>k < unat n. usable s' (top s + of_nat k)) \<and> (\<forall>a. usable s a \<longrightarrow> usable s' a)"
    and no_wrap: "room n s \<Longrightarrow> unat (top s + n) = unat (top s) + unat n"
begin

text \<open>Two requests in a row get neighbouring pieces of memory, usable at the same time.\<close>

lemma grant_twice:
  assumes "room n s" "\<And>p s'. sbrk n s = Some (p, s') \<Longrightarrow> room n' s'"
  shows "\<exists>s1 s2. sbrk n s = Some (top s, s1) \<and> sbrk n' s1 = Some (top s + n, s2)
    \<and> (\<forall>k < unat n + unat n'. usable s2 (top s + of_nat k))"
proof -
  obtain s1 where s1: "sbrk n s = Some (top s, s1)" "top s1 = top s + n" "\<forall>k < unat n. usable s1 (top s + of_nat k)"
    using grant [OF assms(1)] by blast
  obtain s2 where s2: "sbrk n' s1 = Some (top s1, s2)" "\<forall>k < unat n'. usable s2 (top s1 + of_nat k)"
      "\<forall>a. usable s1 a \<longrightarrow> usable s2 a"
    using grant [OF assms(2) [OF s1(1)]] by blast
  have "usable s2 (top s + of_nat k)" if "k < unat n + unat n'" for k
  proof (cases "k < unat n")
    case False
    then have "of_nat k = (n + of_nat (k - unat n) :: u32)" by simp
    then have "top s + of_nat k = top s1 + of_nat (k - unat n)" unfolding s1(2) by (simp only: add.assoc)
    moreover have "usable s2 (top s1 + of_nat (k - unat n))" using s2(2) False that by (metis less_diff_conv2 not_less add.commute)
    ultimately show ?thesis by (simp only:)
  qed (use s1(3) s2(3) in blast)
  then show ?thesis using s1(1,2) s2(1) by auto
qed

end

definition sbrk_room :: "u32 \<Rightarrow> 'a heap_scheme \<Rightarrow> bool" where
  "sbrk_room n s \<longleftrightarrow> heap_ok s \<and> brk_ptr s \<noteq> 0 \<and> n \<noteq> 0 \<and> unat (brk_ptr s) + unat n < 4096 * HEAP_LIMIT
     \<and> 2 * (Suc (frame (brk_ptr s + n)) - heap_top s) \<le> free_count s"

definition in_heap :: "'a heap_scheme \<Rightarrow> u32 \<Rightarrow> bool" where
  "in_heap s a \<longleftrightarrow> frame a < heap_top s \<and> maps s a \<noteq> None"

lemma heap_limit_u32: "n < 4096 * HEAP_LIMIT \<Longrightarrow> n < 2 ^ 32"
  by (simp add: HEAP_LIMIT_def)

interpretation brk: program_break sbrk brk_ptr in_heap sbrk_room
proof
  fix n and s :: "'a heap_scheme"
  assume r: "sbrk_room n s"
  then have u: "unat (brk_ptr s + n) = unat (brk_ptr s) + unat n"
    by (intro unat_add_lem [THEN iffD1]) (simp add: sbrk_room_def HEAP_LIMIT_def)
  then show "unat (brk_ptr s + n) = unat (brk_ptr s) + unat n" .
  obtain s' where s': "sbrk n s = Some (brk_ptr s, s')" "heap_ok s'" "brk_ptr s' = brk_ptr s + n"
    "\<forall>va. frame va < heap_top s \<longrightarrow> maps s' va = maps s va" "\<forall>k < unat n. maps s' (brk_ptr s + of_nat k) \<noteq> None"
    using sbrk_result [of s n] r unfolding sbrk_room_def by blast
  have p: "brk_ptr s \<noteq> 0" "brk_ptr s' \<noteq> 0"
    using r u s'(3) by (auto simp: sbrk_room_def unat_eq_zero [symmetric])
  have t: "frame a < heap_top s'" if "unat a \<le> unat (brk_ptr s')" for a
    using frame_mono [of a "brk_ptr s'"] that p(2) by (simp add: heap_top_def word_le_nat_alt)
  have "in_heap s' (brk_ptr s + of_nat k)" if "k < unat n" for k
  proof -
    have "unat (brk_ptr s) + k < 2 ^ 32" using r that by (intro heap_limit_u32) (simp add: sbrk_room_def)
    then have "unat (brk_ptr s + of_nat k) = unat (brk_ptr s) + k" by (rule unat_add_small)
    then show ?thesis using t [of "brk_ptr s + of_nat k"] s'(3,5) that u by (simp add: in_heap_def)
  qed
  moreover have "in_heap s' a" if "in_heap s a" for a
  proof -
    have "heap_top s \<le> heap_top s'" using p frame_mono [of "brk_ptr s" "brk_ptr s'"] s'(3) u
      by (simp add: heap_top_def word_le_nat_alt)
    then show ?thesis using that s'(4) by (auto simp: in_heap_def)
  qed
  ultimately show "\<exists>s'. sbrk n s = Some (brk_ptr s, s') \<and> brk_ptr s' = brk_ptr s + n
      \<and> (\<forall>k < unat n. in_heap s' (brk_ptr s + of_nat k)) \<and> (\<forall>a. in_heap s a \<longrightarrow> in_heap s' a)"
    using s'(1,3) by blast
qed

text \<open>C7: \<open>sbrk\<close> hands out the memory it promises: with blocks enough it returns the old break, every
  byte from there up to the new break is mapped, and the memory handed out before keeps its place.\<close>
theorem sbrk_hands_out_memory:
  assumes "heap_ok s" "brk_ptr s \<noteq> 0" "increment \<noteq> 0" "unat (brk_ptr s) + unat increment < 4096 * HEAP_LIMIT"
    and "2 * (Suc (frame (brk_ptr s + increment)) - heap_top s) \<le> free_count s"
  shows "\<exists>s'. sbrk increment s = Some (brk_ptr s, s') \<and> heap_ok s' \<and> brk_ptr s' = brk_ptr s + increment
    \<and> (\<forall>va. frame va < heap_top s \<longrightarrow> maps s' va = maps s va)
    \<and> (\<forall>k < unat increment. maps s' (brk_ptr s + of_nat k) \<noteq> None)"
  using sbrk_result [OF assms] by blast

lemma sample_with_break:
  "\<exists>s. heap_ok (s :: heap) \<and> brk_ptr s = 0x6800 \<and> heap_base s = 0x5000"
proof -
  have f: "frame 0x6800 = 6" "frame 0x5000 = 5" by (simp_all add: frame_def)
  show ?thesis using brk_result [OF sample_heap_ok, of "0x6800"]
    by (auto simp: sample_heap_fields sample_free_count heap_top_def f HEAP_LIMIT_def)
qed

lemma sbrk_hands_out_memory_witness:
  "\<exists>(s :: heap) s'. sbrk 0x100 s = Some (0x6800, s') \<and> heap_ok s' \<and> maps s' 0x68ff \<noteq> None"
proof -
  obtain s :: heap where s: "heap_ok s" "brk_ptr s = 0x6800" "heap_base s = 0x5000" using sample_with_break by blast
  have f: "frame 0x6800 = 6" "frame 0x6900 = 6" by (simp_all add: frame_def)
  obtain s' where s': "sbrk 0x100 s = Some (brk_ptr s, s')" "heap_ok s'" "\<forall>k < unat (0x100 :: u32). maps s' (brk_ptr s + of_nat k) \<noteq> None"
    using sbrk_hands_out_memory [OF s(1), of "0x100"] s(2) f by (auto simp: HEAP_LIMIT_def heap_top_def)
  have "maps s' (0x6800 + of_nat 0xff) \<noteq> None" using s'(3) [rule_format, of "0xff"] s(2) by simp
  then show ?thesis using s' s(2) by auto
qed

text \<open>C39: The heap never shrinks by a page: for a break that goes back over a page boundary the block
  count wraps around, and \<open>brk\<close> does not succeed (it takes all the free blocks first).\<close>
theorem brk_never_shrinks:
  assumes "heap_ok s" "heap_base s \<le> addr" "frame addr < frame (brk_ptr s)"
  shows "brk addr s \<noteq> Some (0, s')"
  using shrink_result [OF assms] .

lemma brk_never_shrinks_witness:
  "\<exists>s :: heap. heap_ok s \<and> brk_ptr s = 0x6800 \<and> brk 0x5800 s \<noteq> Some (0, s\<lparr>brk_ptr := 0x5800\<rparr>)"
proof -
  obtain s :: heap where s: "heap_ok s" "brk_ptr s = 0x6800" "heap_base s = 0x5000" using sample_with_break by blast
  then have "brk 0x5800 s \<noteq> Some (0, s\<lparr>brk_ptr := 0x5800\<rparr>)"
    by (intro brk_never_shrinks) (simp_all add: frame_def)
  then show ?thesis using s by blast
qed

text \<open>Without a free block a break that needs one page more still succeeds: the null block is
  mapped as the new page, so that the heap goes on in the first 4 KB of physical memory.\<close>
theorem brk_maps_null_when_exhausted:
  assumes "tables_ok s" "heap_base s \<noteq> 0" "heap_base s \<le> addr" "brk_ptr s \<noteq> 0" "frame addr = Suc (frame (brk_ptr s))"
    and "frame addr < HEAP_LIMIT" "maps s (PAGEMNGR_PAGE_ALIGN_UP (brk_ptr s)) = None" "free_count s = 0"
    and "window_read (pdir_slot (PAGEMNGR_PAGE_ALIGN_UP (brk_ptr s))) s \<noteq> Some 0"
  shows "\<exists>s'. brk addr s = Some (0, s') \<and> brk_ptr s' = addr \<and> maps s' addr = Some (addr AND 0xfff)"
proof -
  let ?v = "PAGEMNGR_PAGE_ALIGN_UP (brk_ptr s)"
  have fb: "frame (brk_ptr s) < 1048575" "frame addr < 1048575" using assms(5,6) by (simp_all add: HEAP_LIMIT_def)
  have fv: "frame ?v = frame addr" using page_up(3) [OF fb(1)] assms(5) by simp
  have w: "unat ?v div 2 ^ 22 < 1023" unfolding below_window fv using assms(6) by (simp add: HEAP_LIMIT_def)
  obtain s1 where s1: "allocate_new_brk ?v 1 s = Some (0, s1)" "maps s1 addr = Some (addr AND 0xfff)"
    using allocate_null [OF assms(1) w assms(7,8,9)] fv by auto
  have d: "unat (PAGEMNGR_PAGE_ALIGN_DOWN (brk_ptr s)) = 4096 * frame (brk_ptr s)"
    unfolding PAGEMNGR_PAGE_ALIGN_DOWN_def by (rule page_mult)
  have "unat ((PAGEMNGR_PAGE_ALIGN_UP addr - PAGEMNGR_PAGE_ALIGN_DOWN (brk_ptr s)) div PAGEMNGR_PAGE_SIZE) = 2"
    using pages_between [OF page_up(1) [OF fb(2)] d] assms(5) by simp
  then have n: "(PAGEMNGR_PAGE_ALIGN_UP addr - PAGEMNGR_PAGE_ALIGN_DOWN (brk_ptr s)) div PAGEMNGR_PAGE_SIZE = 2"
    by (simp add: word_unat_eq_iff)
  have nd: "PAGEMNGR_PAGE_ALIGN_DOWN addr \<noteq> PAGEMNGR_PAGE_ALIGN_DOWN (brk_ptr s)" unfolding page_down_eq using assms(5) by simp
  have "\<not> addr < heap_base s" using assms(3) by simp
  then have "brk addr s = Some (0, s1\<lparr>brk_ptr := addr\<rparr>)" using assms(2,4) nd n s1(1) by (simp add: brk_def Let_def)
  then show ?thesis using s1(2) by simp
qed

text \<open>The same space with all blocks in use and the break in page 5.\<close>

definition full_heap :: heap where
  "full_heap = (sample_heap 0xffffffff 0xffffffff)\<lparr>brk_ptr := 0x5800\<rparr>"

lemma full_heap_bset: "bset full_heap = {..<64}"
proof -
  have l: "load32 (mem (balloc_at 0xffffffff 0xffffffff)) (elem 0x1000 0) = 0xffffffff"
    "load32 (mem (balloc_at 0xffffffff 0xffffffff)) (elem 0x1000 1) = 0xffffffff"
    by (simp_all add: balloc_at_def elem_def mem_simps apart_def)
  have "block_used (mem (balloc_at 0xffffffff 0xffffffff)) 0x1000 k" if "k < 64" for k
  proof -
    have "k div 32 = 0 \<or> k div 32 = 1" using less_mult_imp_div_less [of k 2 32] that by auto
    then show ?thesis unfolding block_used_def using l full_unit [of "k mod 32"] by (auto simp: FULL_BITMAP_UNIT_def)
  qed
  then show ?thesis
    unfolding bset_def full_heap_def used_set_def by (auto simp: sample_heap_fields balloc_at_def)
qed

lemma full_heap_fields:
  "phys full_heap = sample_phys" "cr3 full_heap = 0x1000" "btotal full_heap = 64" "brk_ptr full_heap = 0x5800" "heap_base full_heap = 0x5000"
  by (simp_all add: full_heap_def sample_heap_fields)

lemma full_heap_vm: "vm full_heap ((\<lambda>_. 0)(1023 := 0x1001, 0 := 0x2001)) (\<lambda>_ _. 0)"
proof -
  have "frame 0x1000 = 1" "base 0x2001 = 0x2000" "frame 0x2000 = 2" by (simp_all add: frame_def base_def)
  then show ?thesis using sample_space by (simp add: vm_def balloc_ok_def full_heap_bset full_heap_fields)
qed

lemma full_heap_tables: "tables_ok full_heap"
proof -
  have "clean full_heap"
    unfolding clean_def
  proof (intro allI impI)
    fix t assume t: "aligned t" "frame t \<notin> bset full_heap"
    then have "frame t \<notin> bset sample_vm" by (auto simp: full_heap_bset sample_bset)
    then show "table (phys full_heap) t (\<lambda>_. 0)"
      using sample_clean t(1) by (simp add: clean_def full_heap_fields sample_fields)
  qed
  moreover have "tidy ((\<lambda>_. 0)(1023 := 0x1001, 0 := 0x2001)) (\<lambda>_ _. 0)" by (simp add: tidy_def)
  ultimately show ?thesis using full_heap_vm unfolding tables_ok_def by blast
qed

lemma brk_maps_null_when_exhausted_witness:
  "\<exists>s'. brk 0x6123 full_heap = Some (0, s') \<and> brk_ptr s' = 0x6123 \<and> maps s' 0x6123 = Some 0x123"
proof -
  have f: "frame 0x5800 = 5" "frame 0x6123 = 6" by (simp_all add: frame_def)
  have a: "PAGEMNGR_PAGE_ALIGN_UP 0x5800 = 0x6000" by (simp add: PAGEMNGR_PAGE_ALIGN_UP_def PAGEMNGR_PAGE_SIZE_def)
  have m: "maps full_heap 0x6000 = None"
    using maps_vm [OF full_heap_vm, of "0x6000"] by (simp add: space_map_def)
  have w: "window_read (pdir_slot 0x6000) full_heap \<noteq> Some 0" using read_pdir [OF full_heap_vm, of "0x6000"] by simp
  have c: "free_count full_heap = 0" by (simp add: free_count_def full_heap_fields full_heap_bset)
  show ?thesis using brk_maps_null_when_exhausted [OF full_heap_tables, of "0x6123"] m w c
    by (simp add: full_heap_fields f a HEAP_LIMIT_def)
qed

end
