(* ===== verification/Malloc.thy ===== *)
theory Malloc
  imports Heap KString
begin

text \<open>
  The heap allocator of the C library, libc/stdlib/malloc.c: a circular list of free blocks through
  the headers in front of them. A header is an address, its two words are read from and written to
  memory; the arithmetic on header pointers counts in headers of 8 bytes, as in C. The static
  variable \<open>_base\<close> lies at an address of its own. \<open>None\<close> is a loop that does not end, or a page fault
  below \<open>sbrk\<close>.
\<close>

record malloc_state = heap +
  base_header :: u32
  next_free :: u32

definition MALLOC_MIN_SBRK_REQUEST :: u32 where "MALLOC_MIN_SBRK_REQUEST = 1024"
definition HEADER_SIZE :: u32 where "HEADER_SIZE = 8"

section \<open>Operations\<close>

definition hdr_next :: "memory \<Rightarrow> u32 \<Rightarrow> u32" where "hdr_next m h = load32 m h"
definition hdr_size :: "memory \<Rightarrow> u32 \<Rightarrow> u32" where "hdr_size m h = load32 m (h + 4)"
definition set_next :: "u32 \<Rightarrow> u32 \<Rightarrow> memory \<Rightarrow> memory" where "set_next h v m = store32 m h v"
definition set_size :: "u32 \<Rightarrow> u32 \<Rightarrow> memory \<Rightarrow> memory" where "set_size h v m = store32 m (h + 4) v"

text \<open>\<open>h + n\<close> on header pointers.\<close>

definition hdr_plus :: "u32 \<Rightarrow> u32 \<Rightarrow> u32" where "hdr_plus h n = h + HEADER_SIZE * n"

text \<open>The loop of \<open>free\<close> that looks for the place of the block.\<close>

partial_function (option) free_position :: "u32 \<Rightarrow> u32 \<Rightarrow> memory \<Rightarrow> u32 option" where
  "free_position mblock header m =
     (if \<not> (mblock > header \<and> mblock < hdr_next m header) then
        (if header \<ge> hdr_next m header \<and> (mblock > header \<or> mblock < hdr_next m header) then Some header
         else free_position mblock (hdr_next m header) m)
      else Some header)"

definition link_block :: "u32 \<Rightarrow> u32 \<Rightarrow> memory \<Rightarrow> memory" where
  "link_block mblock header m =
     (let m = (if hdr_plus mblock (hdr_size m mblock) = hdr_next m header then
                 (let m = set_size mblock (hdr_size m mblock + hdr_size m (hdr_next m header)) m
                  in set_next mblock (hdr_next m (hdr_next m header)) m)
               else set_next mblock (hdr_next m header) m)
      in if hdr_plus header (hdr_size m header) = mblock then
           (let m = set_size header (hdr_size m header + hdr_size m mblock) m
            in set_next header (hdr_next m mblock) m)
         else set_next header mblock m)"

definition free :: "u32 \<Rightarrow> 'a malloc_state_scheme \<Rightarrow> 'a malloc_state_scheme option" where
  "free block s = do {
     let mblock = block - HEADER_SIZE;
     header \<leftarrow> free_position mblock (next_free s) (mem s);
     Some (s\<lparr>mem := link_block mblock header (mem s), next_free := header\<rparr>)
   }"

definition morecore :: "u32 \<Rightarrow> 'a malloc_state_scheme \<Rightarrow> (u32 \<times> 'a malloc_state_scheme) option" where
  "morecore sz s = do {
     let sz = sz + HEADER_SIZE;
     let sz = (if sz < MALLOC_MIN_SBRK_REQUEST then MALLOC_MIN_SBRK_REQUEST else sz);
     (p, s1) \<leftarrow> sbrk sz s;
     if p = - 1 then Some (0, s1\<lparr>errno := ENOMEM\<rparr>)
     else do {
       s2 \<leftarrow> free (p + HEADER_SIZE) (s1\<lparr>mem := set_size p sz (mem s1)\<rparr>);
       Some (p, s2)
     }
   }"

text \<open>A header that is big enough: it is unlinked, or its end is cut off.\<close>

definition take_block :: "u32 \<Rightarrow> u32 \<Rightarrow> u32 \<Rightarrow> 'a malloc_state_scheme \<Rightarrow> u32 \<times> 'a malloc_state_scheme" where
  "take_block allocation_size prev_header header s =
     (let m = mem s in
      if hdr_size m header = allocation_size then
        (header + HEADER_SIZE, s\<lparr>mem := set_next prev_header (hdr_next m header) m, next_free := prev_header\<rparr>)
      else
        (let m = set_size header (hdr_size m header - allocation_size) m;
             header' = header + hdr_size m header;
             m = set_size header' allocation_size m
         in (header' + HEADER_SIZE, s\<lparr>mem := m, next_free := prev_header\<rparr>)))"

partial_function (option) malloc_loop ::
  "u32 \<Rightarrow> u32 \<Rightarrow> u32 \<Rightarrow> 'a malloc_state_scheme \<Rightarrow> (u32 \<times> 'a malloc_state_scheme) option" where
  "malloc_loop allocation_size prev_header header s =
     (if hdr_size (mem s) header \<ge> allocation_size then
        Some (take_block allocation_size prev_header header s)
      else if header = next_free s then
        Option.bind (morecore allocation_size s)
          (\<lambda>(header', s'). if header' = 0 then Some (0, s')
             else malloc_loop allocation_size header' (hdr_next (mem s') header') s')
      else malloc_loop allocation_size header (hdr_next (mem s) header) s)"

definition start_list :: "'a malloc_state_scheme \<Rightarrow> 'a malloc_state_scheme" where
  "start_list s =
     (if next_free s = 0 then
        (let s1 = s\<lparr>next_free := base_header s, mem := set_next (base_header s) (base_header s) (mem s)\<rparr>
         in s1\<lparr>mem := set_size (base_header s) 0 (mem s1)\<rparr>)
      else s)"

definition malloc :: "u32 \<Rightarrow> 'a malloc_state_scheme \<Rightarrow> (u32 \<times> 'a malloc_state_scheme) option" where
  "malloc nbytes s =
     (let allocation_size = nbytes + HEADER_SIZE; s = start_list s; prev_header = next_free s
      in malloc_loop allocation_size prev_header (hdr_next (mem s) prev_header) s)"

definition calloc :: "u32 \<Rightarrow> u32 \<Rightarrow> 'a malloc_state_scheme \<Rightarrow> (u32 \<times> 'a malloc_state_scheme) option" where
  "calloc count sz s = do {
     (_, s) \<leftarrow> malloc (count * sz) s;
     (memblock, s) \<leftarrow> malloc (count * sz) s;
     if memblock \<noteq> 0 then Some (memblock, s\<lparr>mem := snd (memset memblock 0 (count * sz) (mem s))\<rparr>)
     else Some (memblock, s)
   }"

section \<open>The free list\<close>

text \<open>Following the links from \<open>h\<close> visits the headers \<open>hs\<close> in this order and leads back to \<open>h\<close>.\<close>

definition ring :: "memory \<Rightarrow> u32 list \<Rightarrow> bool" where
  "ring m hs \<longleftrightarrow> hs \<noteq> [] \<and> distinct hs \<and> (\<forall>i < length hs. hdr_next m (hs ! i) = hs ! (Suc i mod length hs))"

lemma ring_next: "ring m hs \<Longrightarrow> Suc i < length hs \<Longrightarrow> hdr_next m (hs ! i) = hs ! Suc i"
  by (simp add: ring_def)

lemma ring_last: "ring m hs \<Longrightarrow> hdr_next m (hs ! (length hs - 1)) = hs ! 0"
  by (simp add: ring_def)

lemma ring_closed:
  assumes "ring m hs" "h \<in> set hs"
  shows "hdr_next m h \<in> set hs"
proof -
  obtain i where i: "i < length hs" "h = hs ! i" using assms(2) by (auto simp: in_set_conv_nth)
  then have "Suc i mod length hs < length hs" by (intro mod_less_divisor) linarith
  then show ?thesis using assms(1) i by (simp add: ring_def)
qed

text \<open>The search of \<open>malloc\<close> starts behind \<open>hs ! 0\<close>: it visits \<open>hs ! 1\<close>, \<open>hs ! 2\<close>, ... and \<open>hs ! 0\<close> last.\<close>

lemma malloc_loop_search:
  assumes "ring (mem s) hs" "next_free s = hs ! 0" "0 < i" "i \<le> j" "j \<le> length hs"
    and "\<And>k. i \<le> k \<Longrightarrow> k < j \<Longrightarrow> hdr_size (mem s) (hs ! (k mod length hs)) < n"
    and "n \<le> hdr_size (mem s) (hs ! (j mod length hs))"
  shows "malloc_loop n (hs ! (i - 1)) (hs ! (i mod length hs)) s
    = Some (take_block n (hs ! (j - 1)) (hs ! (j mod length hs)) s)"
  using assms(4,3,6)
proof (induction i rule: inc_induct)
  case base
  then show ?case using assms(7) by (subst malloc_loop.simps) simp
next
  case (step i)
  have il: "i < length hs" using step.hyps assms(5) by simp
  have small: "\<not> n \<le> hdr_size (mem s) (hs ! i)" using step.prems(2) [of i] step.hyps il by simp
  have "hs ! i \<noteq> hs ! 0" using assms(1) il step.prems(1) by (auto simp: ring_def nth_eq_iff_index_eq)
  then have "hs ! i \<noteq> next_free s" using assms(2) by simp
  moreover have "hdr_next (mem s) (hs ! i) = hs ! (Suc i mod length hs)" using assms(1) il by (simp add: ring_def)
  ultimately have "malloc_loop n (hs ! (i - 1)) (hs ! (i mod length hs)) s
      = malloc_loop n (hs ! i) (hs ! (Suc i mod length hs)) s"
    using small il by (subst malloc_loop.simps) simp
  then show ?case using step.IH step.prems(2) by simp
qed

section \<open>Headers in memory\<close>

text \<open>The 8 bytes of a header do not wrap around; two headers do not overlap.\<close>

definition fits :: "u32 \<Rightarrow> bool" where "fits h \<longleftrightarrow> unat h + 8 \<le> 2 ^ 32"

definition clear_of :: "u32 \<Rightarrow> u32 \<Rightarrow> bool" where
  "clear_of h h' \<longleftrightarrow> unat h + 8 \<le> unat h' \<or> unat h' + 8 \<le> unat h"

lemma apart_nat:
  assumes "unat a + 4 \<le> unat b" "unat b + 4 \<le> 2 ^ 32"
  shows "apart a b" "apart b a"
proof -
  have "a \<le> b" using assms(1) by (simp add: word_le_nat_alt)
  then have d: "unat (b - a) = unat b - unat a" by (rule unat_sub)
  moreover have "unat (a - b) = unat a + 2 ^ 32 - unat b"
    using assms(1) by (simp add: unat_sub_if_size word_size)
  ultimately have "4 \<le> unat (b - a)" "4 \<le> unat (a - b)" using assms by linarith+
  then show "apart a b" "apart b a" by (simp_all add: apart_def)
qed

lemma unat_header_size: "fits h \<Longrightarrow> unat (h + 4) = unat h + 4"
  unfolding fits_def using unat_add_small [of h 4] by simp

lemma header_words:
  assumes "fits h"
  shows "apart h (h + 4)" "apart (h + 4) h"
  using apart_nat [of h "h + 4"] unat_header_size [OF assms] assms by (simp_all add: fits_def)

lemma clear_words:
  assumes "fits h" "fits h'" "clear_of h h'"
  shows "apart h h'" "apart h (h' + 4)" "apart (h + 4) h'" "apart (h + 4) (h' + 4)"
proof -
  note u = unat_header_size [OF assms(1)] unat_header_size [OF assms(2)]
  show "apart h h'" "apart h (h' + 4)" "apart (h + 4) h'" "apart (h + 4) (h' + 4)"
    using assms apart_nat [of h h'] apart_nat [of h' h] apart_nat [of h "h' + 4"] apart_nat [of "h' + 4" h]
      apart_nat [of "h + 4" h'] apart_nat [of h' "h + 4"] apart_nat [of "h + 4" "h' + 4"] apart_nat [of "h' + 4" "h + 4"]
    by (auto simp: clear_of_def fits_def u)
qed

lemma header_same [simp]:
  "hdr_next (set_next h v m) h = v" "hdr_size (set_size h v m) h = v"
  by (simp_all add: hdr_next_def set_next_def hdr_size_def set_size_def load32_store32_same)

lemma header_other_word [simp]:
  "fits h \<Longrightarrow> hdr_size (set_next h v m) h = hdr_size m h" "fits h \<Longrightarrow> hdr_next (set_size h v m) h = hdr_next m h"
  using header_words [of h] by (simp_all add: hdr_next_def set_next_def hdr_size_def set_size_def load32_store32_apart)

lemma header_clear:
  assumes "fits h" "fits h'" "clear_of h h'"
  shows "hdr_next (set_next h v m) h' = hdr_next m h'" "hdr_size (set_next h v m) h' = hdr_size m h'"
    "hdr_next (set_size h v m) h' = hdr_next m h'" "hdr_size (set_size h v m) h' = hdr_size m h'"
  using clear_words [OF assms] by (simp_all add: hdr_next_def set_next_def hdr_size_def set_size_def load32_store32_apart)

section \<open>Disjoint blocks\<close>

text \<open>The bytes a header stands for: its block, and at least the header itself.\<close>

definition extent :: "memory \<Rightarrow> u32 \<Rightarrow> nat" where
  "extent m h = unat h + max 8 (unat (hdr_size m h))"

definition disjoint_from :: "memory \<Rightarrow> u32 \<Rightarrow> nat \<Rightarrow> u32 \<Rightarrow> bool" where
  "disjoint_from m p e h \<longleftrightarrow> e \<le> unat h \<or> extent m h \<le> unat p"

definition in_extent :: "memory \<Rightarrow> u32 \<Rightarrow> u32 \<Rightarrow> bool" where
  "in_extent m h x \<longleftrightarrow> unat h \<le> unat x \<and> unat x < extent m h"

lemma header_bytes:
  assumes "fits h" "\<not> (unat h \<le> unat x \<and> unat x < unat h + 8)"
  shows "set_next h v m x = m x" "set_size h v m x = m x"
proof -
  have u: "unat (h + 1) = unat h + 1" "unat (h + 2) = unat h + 2" "unat (h + 3) = unat h + 3" "unat (h + 4) = unat h + 4"
    "unat (h + 4 + 1) = unat h + 5" "unat (h + 4 + 2) = unat h + 6" "unat (h + 4 + 3) = unat h + 7"
    using assms(1) unat_add_small [of h 1] unat_add_small [of h 2] unat_add_small [of h 3] unat_add_small [of h 4]
      unat_add_small [of h 5] unat_add_small [of h 6] unat_add_small [of h 7]
    unfolding add.assoc by (simp_all add: fits_def)
  show "set_next h v m x = m x" "set_size h v m x = m x"
    using assms(2) u by (auto simp: set_next_def set_size_def store32_def)
qed

text \<open>\<open>b\<close> lies behind \<open>h\<close> and before its successor \<open>n\<close>, where the last block is followed by the first.\<close>

definition between :: "u32 \<Rightarrow> u32 \<Rightarrow> u32 \<Rightarrow> bool" where
  "between h b n \<longleftrightarrow> (if h < n then h < b \<and> b < n else h < b \<or> b < n)"

text \<open>The links follow the addresses: no block lies between another one and its successor.\<close>

definition ordered :: "memory \<Rightarrow> u32 set \<Rightarrow> bool" where
  "ordered m S \<longleftrightarrow> (\<forall>h \<in> S. \<forall>x \<in> S. \<not> between h x (hdr_next m h))"

definition free_list :: "memory \<Rightarrow> u32 list \<Rightarrow> bool" where
  "free_list m hs \<longleftrightarrow> ring m hs \<and> ordered m (set hs) \<and> (\<forall>h \<in> set hs. extent m h \<le> 2 ^ 32)
     \<and> (\<forall>h \<in> set hs. \<forall>h' \<in> set hs. h \<noteq> h' \<longrightarrow> disjoint_from m h (extent m h) h')"

lemma free_listD:
  assumes "free_list m hs"
  shows "ring m hs" "h \<in> set hs \<Longrightarrow> fits h" "h \<in> set hs \<Longrightarrow> h' \<in> set hs \<Longrightarrow> h \<noteq> h' \<Longrightarrow> clear_of h h'"
    "h \<in> set hs \<Longrightarrow> extent m h \<le> 2 ^ 32"
    "h \<in> set hs \<Longrightarrow> h' \<in> set hs \<Longrightarrow> h \<noteq> h' \<Longrightarrow> disjoint_from m h (extent m h) h'"
    "ordered m (set hs)"
proof -
  have e: "unat x + 8 \<le> extent m x" for x by (simp add: extent_def)
  have D: "disjoint_from m x (extent m x) y" if "x \<in> set hs" "y \<in> set hs" "x \<noteq> y" for x y
    using assms that by (simp add: free_list_def)
  have E: "extent m x \<le> 2 ^ 32" if "x \<in> set hs" for x using assms that by (simp add: free_list_def)
  show "ring m hs" "ordered m (set hs)" using assms by (simp_all add: free_list_def)
  show "h \<in> set hs \<Longrightarrow> fits h" using E [of h] e [of h] by (simp add: fits_def)
  show "h \<in> set hs \<Longrightarrow> h' \<in> set hs \<Longrightarrow> h \<noteq> h' \<Longrightarrow> clear_of h h'"
    using D [of h h'] e [of h] e [of h'] unfolding clear_of_def disjoint_from_def by linarith
  show "h \<in> set hs \<Longrightarrow> extent m h \<le> 2 ^ 32" by (rule E)
  show "h \<in> set hs \<Longrightarrow> h' \<in> set hs \<Longrightarrow> h \<noteq> h' \<Longrightarrow> disjoint_from m h (extent m h) h'" by (rule D)
qed

lemma ring_rotate:
  assumes "ring m hs"
  shows "ring m (rotate k hs)"
  unfolding ring_def
proof (intro conjI allI impI)
  show "rotate k hs \<noteq> []" "distinct (rotate k hs)" using assms by (simp_all add: ring_def)
  fix i assume i: "i < length (rotate k hs)"
  have n: "length hs \<noteq> 0" using assms by (simp add: ring_def)
  let ?j = "(k + i) mod length hs"
  have j: "?j < length hs" using n by simp
  have "rotate k hs ! i = hs ! ?j" using i by (simp add: nth_rotate)
  moreover have "rotate k hs ! (Suc i mod length (rotate k hs)) = hs ! (Suc ?j mod length hs)"
  proof -
    have "Suc i mod length hs < length hs" using n by simp
    then have "rotate k hs ! (Suc i mod length hs) = hs ! ((k + Suc i mod length hs) mod length hs)" by (rule nth_rotate)
    moreover have "(k + Suc i mod length hs) mod length hs = Suc ?j mod length hs" by (simp add: mod_simps)
    ultimately show ?thesis by simp
  qed
  ultimately show "hdr_next m (rotate k hs ! i) = rotate k hs ! (Suc i mod length (rotate k hs))"
    using assms j by (simp add: ring_def)
qed

lemma ring_cong:
  assumes "ring m hs" "\<And>h. h \<in> set hs \<Longrightarrow> hdr_next m' h = hdr_next m h"
  shows "ring m' hs"
  using assms by (simp add: ring_def)

text \<open>Unlinking the second header of a ring.\<close>

lemma ring_unlink:
  assumes "ring m (q # h # hs)" "\<And>x. x \<in> set hs \<Longrightarrow> hdr_next m' x = hdr_next m x" "hdr_next m' q = hdr_next m h"
  shows "ring m' (q # hs)"
  unfolding ring_def
proof (intro conjI allI impI)
  note R = assms(1) [unfolded ring_def]
  show "q # hs \<noteq> []" "distinct (q # hs)" using R by simp_all
  have n: "hdr_next m ((q # h # hs) ! i) = (q # h # hs) ! (Suc i mod Suc (Suc (length hs)))" if "i < Suc (Suc (length hs))" for i
    using R that by simp
  fix i assume i: "i < length (q # hs)"
  show "hdr_next m' ((q # hs) ! i) = (q # hs) ! (Suc i mod length (q # hs))"
  proof (cases i)
    case 0
    have "hdr_next m h = (q # h # hs) ! (2 mod Suc (Suc (length hs)))" using n [of 1] by (simp add: numeral_2_eq_2)
    also have "\<dots> = (q # hs) ! (1 mod Suc (length hs))" by (cases hs) (simp_all add: numeral_2_eq_2)
    finally show ?thesis using 0 assms(3) by simp
  next
    case (Suc k)
    then have k: "k < length hs" using i by simp
    have "hdr_next m' (hs ! k) = hdr_next m (hs ! k)" using k by (intro assms(2)) simp
    also have "\<dots> = (q # h # hs) ! (Suc (Suc (Suc k)) mod Suc (Suc (length hs)))" using n [of "Suc (Suc k)"] k by simp
    also have "\<dots> = (q # hs) ! (Suc (Suc k) mod Suc (length hs))"
      using k by (cases "Suc k = length hs") simp_all
    finally show ?thesis using Suc by simp
  qed
qed

lemma ordered_cong: "ordered m S \<Longrightarrow> (\<And>h. h \<in> S \<Longrightarrow> hdr_next m' h = hdr_next m h) \<Longrightarrow> ordered m' S"
  by (simp add: ordered_def)

lemma ordered_unlink:
  assumes "ordered m (insert q (insert h S))" "hdr_next m q = h" "h \<notin> S" "q \<noteq> h"
    and "\<And>x. x \<in> S \<Longrightarrow> x \<noteq> q \<Longrightarrow> hdr_next m' x = hdr_next m x" "hdr_next m' q = hdr_next m h"
  shows "ordered m' (insert q S)"
  unfolding ordered_def
proof (intro ballI)
  fix a x assume a: "a \<in> insert q S" and x: "x \<in> insert q S"
  note O = assms(1) [unfolded ordered_def, rule_format]
  show "\<not> between a x (hdr_next m' a)"
  proof (cases "a = q")
    case True
    have "\<not> between q x h" "\<not> between h x (hdr_next m h)" "x \<noteq> h" using O [of q x] O [of h x] x assms(2,3,4) by auto
    then show ?thesis using True assms(6) by (auto simp: between_def split: if_splits)
  next
    case False
    then show ?thesis using O [of a x] a x assms(5) [of a] by auto
  qed
qed

text \<open>Linking a block in behind the header it lies behind.\<close>

lemma ordered_link:
  assumes "ordered m S" "h \<in> S" "hdr_next m h \<in> S" "\<And>x. x \<in> S \<Longrightarrow> hdr_next m x \<in> S" "b \<notin> S" "between h b (hdr_next m h)"
    and "\<And>x. x \<in> S \<Longrightarrow> x \<noteq> h \<Longrightarrow> hdr_next m' x = hdr_next m x" "hdr_next m' h = b" "hdr_next m' b = hdr_next m h"
  shows "ordered m' (insert b S)"
  unfolding ordered_def
proof (intro ballI)
  let ?n = "hdr_next m"
  note O = assms(1) [unfolded ordered_def, rule_format]
  have old: "\<not> between a b (?n a)" if a: "a \<in> S" "a \<noteq> h" for a
    using O [OF a(1) assms(2)] O [OF assms(2) a(1)] O [OF a(1) assms(3)] O [OF assms(2) assms(4) [OF a(1)]] assms(5,6) a assms(2)
    by (auto simp: between_def split: if_splits)
  fix a x assume a: "a \<in> insert b S" and x: "x \<in> insert b S"
  consider "a = b" | "a = h" | "a \<in> S" "a \<noteq> h" using a by blast
  then show "\<not> between a x (hdr_next m' a)"
  proof cases
    case 1
    have "\<not> between h x (?n h)" if "x \<in> S" using O [OF assms(2) that] .
    then show ?thesis using 1 assms(6,9) x by (auto simp: between_def split: if_splits)
  next
    case 2
    have "\<not> between h x (?n h)" if "x \<in> S" using O [OF assms(2) that] .
    then show ?thesis using 2 assms(6,8) x by (auto simp: between_def split: if_splits)
  next
    case 3
    then show ?thesis using O [OF 3(1)] old [OF 3] x assms(7) by auto
  qed
qed

lemma free_list_cong:
  assumes "free_list m hs" "ring m' hs'" "ordered m' (set hs')" "set hs' \<subseteq> set hs" "\<And>x. x \<in> set hs' \<Longrightarrow> hdr_size m' x \<le> hdr_size m x"
  shows "free_list m' hs'"
  unfolding free_list_def
proof (intro conjI ballI impI)
  note F = free_listD [OF assms(1)]
  have e: "extent m' x \<le> extent m x" if "x \<in> set hs'" for x
    using assms(5) [OF that] by (auto simp: extent_def word_le_nat_alt)
  show "ring m' hs'" "ordered m' (set hs')" by (rule assms(2), rule assms(3))
  fix h assume h: "h \<in> set hs'"
  then have hm: "h \<in> set hs" using assms(4) by blast
  show "extent m' h \<le> 2 ^ 32" using F(4) [OF hm] e [OF h] by linarith
  fix h' assume h': "h' \<in> set hs'" "h \<noteq> h'"
  then have hm': "h' \<in> set hs" using assms(4) by blast
  show "disjoint_from m' h (extent m' h) h'"
    using F(5) [OF hm hm' h'(2)] e [OF h] e [OF h'(1)] unfolding disjoint_from_def by linarith
qed

text \<open>Cutting off the end of a block that is bigger by at least a header.\<close>

lemma split_block:
  assumes "free_list m hs" "h \<in> set hs" "8 \<le> unat a" "unat a + 8 \<le> unat (hdr_size m h)"
  defines "p \<equiv> h + (hdr_size m h - a)"
  defines "m' \<equiv> set_size p a (set_size h (hdr_size m h - a) m)"
  shows "free_list m' hs" "unat p + unat a = unat h + unat (hdr_size m h)" "unat h + 8 \<le> unat p" "hdr_size m' p = a"
    "\<And>x. x \<in> set hs \<Longrightarrow> disjoint_from m' p (unat p + unat a) x"
    "\<And>x. x \<in> set hs \<Longrightarrow> hdr_size m' x = (if x = h then hdr_size m h - a else hdr_size m x)"
proof -
  note F = free_listD [OF assms(1)]
  have e: "extent m h = unat h + unat (hdr_size m h)" using assms(3,4) by (simp add: extent_def)
  have d: "unat (hdr_size m h - a) = unat (hdr_size m h) - unat a" using assms(4) by (intro unat_sub) (simp add: word_le_nat_alt)
  have "unat h + unat (hdr_size m h - a) < 2 ^ 32" using F(4) [OF assms(2)] e d assms(3,4) by linarith
  then have "unat p = unat h + unat (hdr_size m h - a)" unfolding p_def by (metis unat_add_small word_of_nat_unat_u32)
  then show p: "unat p + unat a = unat h + unat (hdr_size m h)" "unat h + 8 \<le> unat p" using d assms(4) by linarith+
  have fp: "fits p" unfolding fits_def using p(1) F(4) [OF assms(2)] e assms(3) by linarith
  have ex: "unat x + 8 \<le> extent m x" for x by (simp add: extent_def)
  have c: "clear_of p x" if "x \<in> set hs" for x
  proof (cases "x = h")
    case False
    then show ?thesis using F(5) [OF assms(2) that] e p ex [of x] assms(3) unfolding clear_of_def disjoint_from_def by auto
  qed (use p in \<open>simp add: clear_of_def\<close>)
  show sz: "hdr_size m' x = (if x = h then hdr_size m h - a else hdr_size m x)" if "x \<in> set hs" for x
    using header_clear [OF fp F(2) [OF that] c [OF that]] header_clear(4) [OF F(2) [OF assms(2)] F(2) [OF that]] F(3) [OF assms(2) that]
    by (auto simp: m'_def)
  have nx: "hdr_next m' x = hdr_next m x" if "x \<in> set hs" for x
    using header_clear [OF fp F(2) [OF that] c [OF that]] header_clear(3) [OF F(2) [OF assms(2)] F(2) [OF that]] F(3) [OF assms(2) that]
      header_other_word(2) [OF F(2) [OF assms(2)]]
    by (cases "x = h") (auto simp: m'_def)
  show "free_list m' hs"
  proof (rule free_list_cong [OF assms(1) ring_cong [OF F(1) nx] ordered_cong [OF F(6) nx]])
    fix x assume "x \<in> set hs"
    then show "hdr_size m' x \<le> hdr_size m x" using sz [of x] d by (auto simp: word_le_nat_alt)
  qed auto
  show "hdr_size m' p = a" by (simp add: m'_def)
  fix x assume x: "x \<in> set hs"
  show "disjoint_from m' p (unat p + unat a) x"
  proof (cases "x = h")
    case True
    have "extent m' h \<le> unat p" using sz [OF assms(2)] d p assms(4) by (simp add: extent_def)
    then show ?thesis using True by (simp add: disjoint_from_def)
  next
    case False
    then have "extent m' x = extent m x" using sz [OF x] by (simp add: extent_def)
    then show ?thesis using F(5) [OF assms(2) x] False e p by (auto simp: disjoint_from_def)
  qed
qed

text \<open>Unlinking a block that fits exactly.\<close>

lemma unlink_block:
  assumes "free_list m (q # h # hs)"
  defines "m' \<equiv> set_next q (hdr_next m h) m"
  shows "free_list m' (q # hs)" "\<And>x. x \<in> set (q # hs) \<Longrightarrow> hdr_size m' x = hdr_size m x"
    "\<And>x. x \<in> set (q # hs) \<Longrightarrow> disjoint_from m' h (extent m h) x"
proof -
  note F = free_listD [OF assms(1)]
  have d: "q \<notin> set hs" "h \<notin> set hs" "h \<noteq> q" using F(1) by (auto simp: ring_def)
  have o: "hdr_next m' x = hdr_next m x" "hdr_size m' x = hdr_size m x" if "x \<in> set hs" for x
  proof -
    have "clear_of q x" "fits q" "fits x" using F(2,3) that d by auto
    then show "hdr_next m' x = hdr_next m x" "hdr_size m' x = hdr_size m x" using header_clear by (simp_all add: m'_def)
  qed
  have "fits q" using F(2) by simp
  then show sz: "hdr_size m' x = hdr_size m x" if "x \<in> set (q # hs)" for x
    using that o(2) by (auto simp: m'_def)
  have r: "ring m' (q # hs)" by (rule ring_unlink [OF F(1)]) (simp_all add: o(1), simp add: m'_def)
  have "hdr_next m q = h" using ring_next [OF F(1), of 0] by simp
  then have "ordered m' (set (q # hs))"
    using ordered_unlink [of m q h "set hs" m'] F(6) d o(1) by (auto simp: m'_def)
  with r show "free_list m' (q # hs)" by (rule free_list_cong [OF assms(1)]) (auto simp: sz)
  fix x assume x: "x \<in> set (q # hs)"
  then have "disjoint_from m h (extent m h) x" using F(5) [of h x] d by auto
  then show "disjoint_from m' h (extent m h) x" using sz [OF x] by (simp add: disjoint_from_def extent_def)
qed

section \<open>Allocating\<close>

lemma rotate_pair:
  assumes "0 < j" "j \<le> length hs" "2 \<le> length hs"
  shows "\<exists>rest. rotate (j - 1) hs = hs ! (j - 1) # hs ! (j mod length hs) # rest"
proof -
  let ?r = "rotate (j - 1) hs"
  have l: "length ?r = length hs" by simp
  then obtain x y rest where r: "?r = x # y # rest" using assms(3) by (metis One_nat_def Suc_1 Suc_le_length_iff)
  have "?r ! 0 = hs ! ((j - 1 + 0) mod length hs)" by (rule nth_rotate) (use assms in auto)
  moreover have "?r ! 1 = hs ! ((j - 1 + 1) mod length hs)" by (rule nth_rotate) (use assms in auto)
  ultimately show ?thesis using r assms by auto
qed

lemma rotate_hd:
  assumes "0 < j" "j \<le> length hs"
  shows "rotate (j - 1) hs ! 0 = hs ! (j - 1)"
proof -
  have "0 < length hs" "j - 1 < length hs" using assms by linarith+
  then show ?thesis by (simp add: nth_rotate)
qed

lemma free_list_rotate: "free_list m hs \<Longrightarrow> free_list m (rotate k hs)"
  by (simp add: free_list_def ring_rotate)

lemma malloc_result:
  assumes "free_list (mem s) hs" "next_free s = hs ! 0" "next_free s \<noteq> 0" "unat nbytes + 8 < 2 ^ 32"
    and j: "0 < j" "j \<le> length hs" "\<And>k. 0 < k \<Longrightarrow> k < j \<Longrightarrow> hdr_size (mem s) (hs ! k) < nbytes + 8"
    and h: "h = hs ! (j mod length hs)"
    and fit: "hdr_size (mem s) h = nbytes + 8 \<and> 2 \<le> length hs \<or> unat nbytes + 16 \<le> unat (hdr_size (mem s) h)"
  shows "\<exists>p s' hs'. malloc nbytes s = Some (p + 8, s') \<and> free_list (mem s') hs' \<and> next_free s' = hs' ! 0
    \<and> set hs' = (if hdr_size (mem s) h = nbytes + 8 then set hs - {h} else set hs)
    \<and> unat h \<le> unat p \<and> unat p + (unat nbytes + 8) = unat h + unat (hdr_size (mem s) h)
    \<and> (\<forall>x \<in> set hs'. disjoint_from (mem s') p (unat p + (unat nbytes + 8)) x
         \<and> hdr_size (mem s') x = (if x = h then hdr_size (mem s) h - (nbytes + 8) else hdr_size (mem s) x))
    \<and> (\<exists>m f. s' = s\<lparr>mem := m, next_free := f\<rparr>)
    \<and> (\<forall>x. (\<forall>h \<in> set hs. \<not> in_extent (mem s) h x) \<longrightarrow> mem s' x = mem s x)"
proof -
  let ?m = "mem s" and ?a = "nbytes + 8" and ?q = "hs ! (j - 1)"
  have a: "unat ?a = unat nbytes + 8" using unat_add_small [of nbytes 8] assms(4) by simp
  have r: "ring ?m hs" by (rule free_listD(1) [OF assms(1)])
  have n: "0 < length hs" using r by (simp add: ring_def)
  have first: "hdr_next ?m (next_free s) = hs ! (1 mod length hs)"
    using r n unfolding assms(2) by (simp add: ring_def)
  have big: "?a \<le> hdr_size ?m (hs ! (j mod length hs))" using fit h a by (auto simp: word_le_nat_alt)
  have "malloc_loop ?a (hs ! (1 - 1)) (hs ! (1 mod length hs)) s = Some (take_block ?a ?q (hs ! (j mod length hs)) s)"
  proof (rule malloc_loop_search [OF r assms(2) _ _ j(2) _ big])
    fix k assume "1 \<le> k" "k < j"
    then show "hdr_size ?m (hs ! (k mod length hs)) < ?a" using j(2) j(3) [of k] by simp
  qed (use j in auto)
  then have M: "malloc nbytes s = Some (take_block ?a ?q h s)"
    using assms(2,3) first h by (simp add: malloc_def start_list_def Let_def HEADER_SIZE_def)
  have hm: "h \<in> set hs" using h n by simp
  have qm: "?q \<in> set hs" using j(1,2) by (intro nth_mem) linarith
  have e8: "unat x + 8 \<le> extent ?m x" for x by (simp add: extent_def)
  show ?thesis
  proof (cases "hdr_size ?m h = ?a")
    case True
    then have l2: "2 \<le> length hs" using fit a by auto
    obtain rest where rot: "rotate (j - 1) hs = ?q # h # rest" using rotate_pair [OF j(1,2) l2] h by blast
    have fl: "free_list ?m (?q # h # rest)" using free_list_rotate [OF assms(1), of "j - 1"] rot by simp
    note U = unlink_block [OF fl]
    let ?m' = "set_next ?q (hdr_next ?m h) ?m"
    have s: "set hs = insert ?q (insert h (set rest))" using rot by (metis list.simps(15) set_rotate)
    have hd: "h \<notin> set (?q # rest)" using free_listD(1) [OF fl] by (auto simp: ring_def)
    have ex: "extent ?m h = unat h + (unat nbytes + 8)" using True a by (simp add: extent_def)
    show ?thesis
    proof (rule exI [of _ h], rule exI [of _ "s\<lparr>mem := ?m', next_free := ?q\<rparr>"], rule exI [of _ "?q # rest"], intro conjI ballI)
      show "malloc nbytes s = Some (h + 8, s\<lparr>mem := ?m', next_free := ?q\<rparr>)"
        using M True by (simp add: take_block_def Let_def HEADER_SIZE_def)
      show "free_list (mem (s\<lparr>mem := ?m', next_free := ?q\<rparr>)) (?q # rest)" using U(1) by simp
      show "set (?q # rest) = (if hdr_size ?m h = ?a then set hs - {h} else set hs)" using True s hd by auto
      fix x assume x: "x \<in> set (?q # rest)"
      show "disjoint_from (mem (s\<lparr>mem := ?m', next_free := ?q\<rparr>)) h (unat h + (unat nbytes + 8)) x"
        using U(3) [OF x] ex by simp
      show "hdr_size (mem (s\<lparr>mem := ?m', next_free := ?q\<rparr>)) x = (if x = h then hdr_size ?m h - ?a else hdr_size ?m x)"
        using U(2) [OF x] x hd by auto
    next
      show "\<exists>m f. s\<lparr>mem := ?m', next_free := ?q\<rparr> = s\<lparr>mem := m, next_free := f\<rparr>" by blast
      show "\<forall>x. (\<forall>h \<in> set hs. \<not> in_extent ?m h x) \<longrightarrow> mem (s\<lparr>mem := ?m', next_free := ?q\<rparr>) x = ?m x"
        using header_bytes(1) [OF free_listD(2) [OF assms(1) qm]] qm e8 [of ?q] by (fastforce simp: in_extent_def)
    qed (use True a in simp_all)
  next
    case False
    then have c: "8 \<le> unat ?a" "unat ?a + 8 \<le> unat (hdr_size ?m h)" using fit a by auto
    note S = split_block [OF assms(1) hm c]
    let ?p = "h + (hdr_size ?m h - ?a)"
    let ?m' = "set_size ?p ?a (set_size h (hdr_size ?m h - ?a) ?m)"
    show ?thesis
    proof (rule exI [of _ ?p], rule exI [of _ "s\<lparr>mem := ?m', next_free := ?q\<rparr>"], rule exI [of _ "rotate (j - 1) hs"], intro conjI ballI)
      show "malloc nbytes s = Some (?p + 8, s\<lparr>mem := ?m', next_free := ?q\<rparr>)"
        using M False by (simp add: take_block_def Let_def HEADER_SIZE_def)
      show "free_list (mem (s\<lparr>mem := ?m', next_free := ?q\<rparr>)) (rotate (j - 1) hs)" using free_list_rotate [OF S(1)] by simp
      show "next_free (s\<lparr>mem := ?m', next_free := ?q\<rparr>) = rotate (j - 1) hs ! 0" using rotate_hd [OF j(1,2)] by simp
      show "unat h \<le> unat ?p" "unat ?p + (unat nbytes + 8) = unat h + unat (hdr_size ?m h)" using S(2,3) a by simp_all
      fix x assume "x \<in> set (rotate (j - 1) hs)"
      then have x: "x \<in> set hs" by simp
      show "disjoint_from (mem (s\<lparr>mem := ?m', next_free := ?q\<rparr>)) ?p (unat ?p + (unat nbytes + 8)) x"
        using S(5) [OF x] a by simp
      show "hdr_size (mem (s\<lparr>mem := ?m', next_free := ?q\<rparr>)) x = (if x = h then hdr_size ?m h - ?a else hdr_size ?m x)"
        using S(6) [OF x] by simp
    next
      show "\<exists>m f. s\<lparr>mem := ?m', next_free := ?q\<rparr> = s\<lparr>mem := m, next_free := f\<rparr>" by blast
      have le: "unat ?p + 8 \<le> extent ?m h" using S(2) c(1) by (simp add: extent_def)
      then have fp: "fits ?p" using free_listD(4) [OF assms(1) hm] by (simp add: fits_def)
      show "\<forall>x. (\<forall>h \<in> set hs. \<not> in_extent ?m h x) \<longrightarrow> mem (s\<lparr>mem := ?m', next_free := ?q\<rparr>) x = ?m x"
      proof (intro allI impI)
        fix x assume "\<forall>h \<in> set hs. \<not> in_extent ?m h x"
        then have "\<not> (unat h \<le> unat x \<and> unat x < extent ?m h)" using hm by (simp add: in_extent_def)
        then have "\<not> (unat h \<le> unat x \<and> unat x < unat h + 8)" "\<not> (unat ?p \<le> unat x \<and> unat x < unat ?p + 8)"
          using e8 [of h] le S(3) by linarith+
        then show "mem (s\<lparr>mem := ?m', next_free := ?q\<rparr>) x = ?m x"
          using header_bytes(2) [OF fp, of x] header_bytes(2) [OF free_listD(2) [OF assms(1) hm], of x] by simp
      qed
    qed (use False in simp)
  qed
qed

section \<open>Freeing\<close>

lemma free_position_step:
  "free_position b h m = (if between h b (hdr_next m h) then Some h else free_position b (hdr_next m h) m)"
  by (subst free_position.simps) (auto simp: between_def)

text \<open>In a ring there is always a place for a block that is not in it.\<close>

lemma ring_has_place:
  assumes "ring m hs" "b \<notin> set hs"
  shows "\<exists>i < length hs. between (hs ! i) b (hdr_next m (hs ! i))"
proof (rule ccontr)
  assume "\<not> ?thesis"
  then have N: "\<not> between (hs ! i) b (hdr_next m (hs ! i))" if "i < length hs" for i using that by blast
  have R: "hs \<noteq> []" "\<And>i. i < length hs \<Longrightarrow> hdr_next m (hs ! i) = hs ! (Suc i mod length hs)"
    using assms(1) by (simp_all add: ring_def)
  have n: "0 < length hs" using R(1) by simp
  obtain i where i: "i < length hs" "hs ! i = Max (set hs)" using R(1) by (metis Max_in List.finite_set in_set_conv_nth set_empty)
  have max: "hs ! k \<le> hs ! i" if "k < length hs" for k using i that by simp
  have next_max: "hdr_next m (hs ! i) \<le> hs ! i" using R(2) [OF i(1)] max n by simp
  have low: "hs ! ((Suc i + k) mod length hs) < b" for k
  proof (induction k)
    case 0
    have "\<not> between (hs ! i) b (hdr_next m (hs ! i))" by (rule N [OF i(1)])
    then have "hdr_next m (hs ! i) \<le> b" using next_max by (auto simp: between_def split: if_splits)
    moreover have "hs ! (Suc i mod length hs) \<noteq> b" using assms(2) n by (metis mod_less_divisor nth_mem)
    ultimately show ?case using R(2) [OF i(1)] by simp
  next
    case (Suc k)
    let ?j = "(Suc i + k) mod length hs"
    have j: "?j < length hs" using n by simp
    have e: "hdr_next m (hs ! ?j) = hs ! ((Suc i + Suc k) mod length hs)" using R(2) [OF j] by (simp add: mod_Suc_eq)
    have "hdr_next m (hs ! ?j) \<le> b" using N [OF j] Suc by (auto simp: between_def split: if_splits)
    moreover have "hs ! ((Suc i + Suc k) mod length hs) \<noteq> b" using assms(2) n by (metis mod_less_divisor nth_mem)
    ultimately show ?case using e by simp
  qed
  have "Suc i + (length hs - 1) = i + length hs" using i(1) by simp
  then have "(Suc i + (length hs - 1)) mod length hs = i" using i(1) by (simp only: mod_add_self2 mod_less)
  then have "hs ! i < b" using low [of "length hs - 1"] by simp
  then have "between (hs ! i) b (hdr_next m (hs ! i))" using next_max by (auto simp: between_def)
  then show False using N [OF i(1)] by blast
qed

lemma free_position_walk:
  assumes "ring m hs" "i \<le> j" "j < length hs" "\<And>k. i \<le> k \<Longrightarrow> k < j \<Longrightarrow> \<not> between (hs ! k) b (hdr_next m (hs ! k))"
    and "between (hs ! j) b (hdr_next m (hs ! j))"
  shows "free_position b (hs ! i) m = Some (hs ! j)"
  using assms(2,4)
proof (induction i rule: inc_induct)
  case base
  then show ?case using assms(5) by (simp add: free_position_step)
next
  case (step i)
  have "free_position b (hs ! i) m = free_position b (hdr_next m (hs ! i)) m"
    using step.prems [of i] step.hyps by (subst free_position_step) simp
  also have "hdr_next m (hs ! i) = hs ! Suc i" using ring_next [OF assms(1)] step.hyps assms(3) by simp
  finally show ?case using step.IH step.prems by simp
qed

lemma free_position_result:
  assumes "ring m hs" "b \<notin> set hs"
  shows "\<exists>i < length hs. free_position b (hs ! 0) m = Some (hs ! i) \<and> between (hs ! i) b (hdr_next m (hs ! i))"
proof -
  obtain i where i: "i < length hs" "between (hs ! i) b (hdr_next m (hs ! i))"
    and least: "\<forall>k < i. \<not> (k < length hs \<and> between (hs ! k) b (hdr_next m (hs ! k)))"
    using ring_has_place [OF assms]
      exists_least_iff [THEN iffD1, of "\<lambda>i. i < length hs \<and> between (hs ! i) b (hdr_next m (hs ! i))"] by blast
  have "free_position b (hs ! 0) m = Some (hs ! i)"
    by (rule free_position_walk [OF assms(1) _ i(1) _ i(2)]) (use least i(1) in auto)
  then show ?thesis using i by blast
qed

text \<open>A block that is already in the ring has no place: the loop runs for ever.\<close>

lemma free_position_in_ring:
  assumes "ring m hs" "ordered m (set hs)" "b \<in> set hs" "h \<in> set hs"
  shows "free_position b h m = None"
proof -
  note closed = ring_closed [OF assms(1)]
  have step: "b' = b \<longrightarrow> m' = m \<longrightarrow> x \<notin> set hs" if "free_position b' x m' = Some y" for b' x m' y
  proof (rule free_position.raw_induct [OF _ that, of "\<lambda>b' x m' _. b' = b \<longrightarrow> m' = m \<longrightarrow> x \<notin> set hs"])
    fix f b' x m' y
    assume IH: "\<And>b' x m' y. f b' x m' = Some y \<Longrightarrow> b' = b \<longrightarrow> m' = m \<longrightarrow> x \<notin> set hs"
      and f: "(if \<not> (x < b' \<and> b' < hdr_next m' x)
          then if hdr_next m' x \<le> x \<and> (x < b' \<or> b' < hdr_next m' x) then Some x else f b' (hdr_next m' x) m'
          else Some x) = Some y"
    show "b' = b \<longrightarrow> m' = m \<longrightarrow> x \<notin> set hs"
    proof (intro impI notI)
      assume e: "b' = b" "m' = m" and x: "x \<in> set hs"
      then have "\<not> between x b (hdr_next m x)" using assms(2,3) by (simp add: ordered_def)
      then have "f b (hdr_next m x) m = Some y" using f e by (auto simp: between_def split: if_splits)
      then show False using IH [of b "hdr_next m x" m y] closed [OF x] by blast
    qed
  qed
  show ?thesis using step [of b h m] assms(4) by (cases "free_position b h m") auto
qed

lemma ring_link:
  assumes "ring m (h # hs)" "b \<notin> set (h # hs)" "\<And>x. x \<in> set hs \<Longrightarrow> hdr_next m' x = hdr_next m x"
    and "hdr_next m' h = b" "hdr_next m' b = hdr_next m h"
  shows "ring m' (h # b # hs)"
  unfolding ring_def
proof (intro conjI allI impI)
  note R = assms(1) [unfolded ring_def]
  show "h # b # hs \<noteq> []" "distinct (h # b # hs)" using R assms(2) by auto
  have n: "hdr_next m ((h # hs) ! i) = (h # hs) ! (Suc i mod Suc (length hs))" if "i < Suc (length hs)" for i
    using R that by simp
  fix i assume i: "i < length (h # b # hs)"
  consider "i = 0" | "i = 1" | k where "i = Suc (Suc k)" "k < length hs"
    using i by (metis One_nat_def Suc_less_SucD length_Cons not0_implies_Suc)
  then show "hdr_next m' ((h # b # hs) ! i) = (h # b # hs) ! (Suc i mod length (h # b # hs))"
  proof cases
    case 1
    then show ?thesis using assms(4) by simp
  next
    case 2
    have "hdr_next m h = (h # b # hs) ! (2 mod Suc (Suc (length hs)))"
      using n [of 0] by (cases hs) (simp_all add: numeral_2_eq_2)
    then show ?thesis using 2 assms(5) by (simp add: numeral_2_eq_2)
  next
    case 3
    have "hdr_next m' (hs ! k) = hdr_next m (hs ! k)" using 3(2) by (intro assms(3)) simp
    also have "\<dots> = (h # hs) ! (Suc (Suc k) mod Suc (length hs))" using n [of "Suc k"] 3(2) by simp
    also have "\<dots> = (h # b # hs) ! (Suc (Suc (Suc k)) mod Suc (Suc (length hs)))"
      using 3(2) by (cases "Suc k = length hs") simp_all
    finally show ?thesis using 3 by simp
  qed
qed

text \<open>A block that does not touch any free block, in headers as \<open>free\<close> counts or in bytes, is linked in.\<close>

definition separate :: "memory \<Rightarrow> u32 list \<Rightarrow> u32 \<Rightarrow> bool" where
  "separate m hs b \<longleftrightarrow> fits b \<and> extent m b \<le> 2 ^ 32 \<and> (\<forall>h \<in> set hs. disjoint_from m b (extent m b) h
     \<and> hdr_plus b (hdr_size m b) \<noteq> h \<and> hdr_plus h (hdr_size m h) \<noteq> b)"

lemma separateD:
  assumes "free_list m hs" "separate m hs b" "h \<in> set hs"
  shows "fits b" "fits h" "clear_of b h" "clear_of h b" "b \<noteq> h"
proof -
  show f: "fits b" "fits h" using assms free_listD(2) by (auto simp: separate_def)
  have "disjoint_from m b (extent m b) h" using assms(2,3) by (simp add: separate_def)
  then show c: "clear_of b h" "clear_of h b" by (auto simp: disjoint_from_def clear_of_def extent_def)
  then show "b \<noteq> h" by (auto simp: clear_of_def)
qed

lemma free_place:
  assumes "free_list (mem s) hs" "next_free s = hs ! 0" "separate (mem s) hs (block - 8)"
  shows "\<exists>h i rest. free block s = Some (s\<lparr>mem := set_next h (block - 8) (set_next (block - 8) (hdr_next (mem s) h) (mem s)), next_free := h\<rparr>)
    \<and> rotate i hs = h # rest \<and> between h (block - 8) (hdr_next (mem s) h) \<and> hdr_next (mem s) h \<in> set hs"
proof -
  let ?b = "block - 8" and ?m = "mem s"
  note F = free_listD [OF assms(1)]
  note S = separateD [OF assms(1,3)]
  have "?b \<notin> set hs" using S(5) by blast
  then obtain i where i: "i < length hs" "free_position ?b (hs ! 0) ?m = Some (hs ! i)" "between (hs ! i) ?b (hdr_next ?m (hs ! i))"
    using free_position_result [OF F(1)] by blast
  let ?h = "hs ! i" and ?n = "hdr_next ?m (hs ! i)"
  have h: "?h \<in> set hs" using i(1) by simp
  have n: "?n \<in> set hs" by (rule ring_closed [OF F(1) h])
  have adj: "hdr_plus ?b (hdr_size ?m ?b) \<noteq> ?n" "hdr_plus ?h (hdr_size ?m ?h) \<noteq> ?b" using assms(3) h n by (auto simp: separate_def)
  have "hdr_size (set_next ?b ?n ?m) ?h = hdr_size ?m ?h" by (rule header_clear(2) [OF S(1,2,3) [OF h]])
  then have l: "link_block ?b ?h ?m = set_next ?h ?b (set_next ?b ?n ?m)" using adj by (simp add: link_block_def Let_def)
  have "free block s = Some (s\<lparr>mem := set_next ?h ?b (set_next ?b ?n ?m), next_free := ?h\<rparr>)"
    using i(2) l assms(2) by (simp add: free_def HEADER_SIZE_def Let_def)
  moreover have "\<exists>rest. rotate i hs = ?h # rest" using i(1) rotate_drop_take [of i hs] by (simp add: Cons_nth_drop_Suc [symmetric])
  ultimately show ?thesis using i(3) n by blast
qed

lemma free_result:
  assumes "free_list (mem s) hs" "next_free s = hs ! 0" "separate (mem s) hs (block - 8)"
  shows "\<exists>s' hs'. free block s = Some s' \<and> free_list (mem s') hs' \<and> next_free s' = hs' ! 0
    \<and> set hs' = insert (block - 8) (set hs) \<and> hs' ! 1 = block - 8
    \<and> (\<forall>x \<in> set hs'. hdr_size (mem s') x = hdr_size (mem s) x)"
proof -
  let ?b = "block - 8" and ?m = "mem s"
  note F = free_listD [OF assms(1)]
  note S = separateD [OF assms(1,3)]
  obtain h i rest where f: "free block s = Some (s\<lparr>mem := set_next h ?b (set_next ?b (hdr_next ?m h) ?m), next_free := h\<rparr>)"
      and rot: "rotate i hs = h # rest" and bt: "between h ?b (hdr_next ?m h)" and nh: "hdr_next ?m h \<in> set hs"
    using free_place [OF assms] by blast
  define n where "n = hdr_next ?m h"
  define m' where "m' = set_next h ?b (set_next ?b n ?m)"
  have set: "set hs = set (h # rest)" using rot by (metis set_rotate)
  then have h: "h \<in> set hs" by simp
  have r: "ring ?m (h # rest)" using ring_rotate [OF F(1), of i] rot by simp
  have hr: "h \<notin> set rest" using r by (simp add: ring_def)
  have o: "hdr_next m' x = hdr_next ?m x" "hdr_size m' x = hdr_size ?m x" if "x \<in> set rest" for x
  proof -
    have x: "x \<in> set hs" "h \<noteq> x" using that set hr by auto
    show "hdr_next m' x = hdr_next ?m x" "hdr_size m' x = hdr_size ?m x"
      using header_clear [OF S(2) [OF h] S(2) [OF x(1)] F(3) [OF h x]] header_clear [OF S(1-3) [OF x(1)]] by (simp_all add: m'_def)
  qed
  have hn: "hdr_next m' h = ?b" "hdr_next m' ?b = n" "hdr_size m' h = hdr_size ?m h" "hdr_size m' ?b = hdr_size ?m ?b"
    using header_clear [OF S(2,1,4) [OF h]] header_clear [OF S(1-3) [OF h]] S(1,2) [OF h] by (simp_all add: m'_def)
  have bs: "?b \<notin> set (h # rest)" using S(5) set by blast
  have R: "ring m' (h # ?b # rest)" by (rule ring_link [OF r bs o(1) hn(1)]) (simp_all add: hn n_def)
  have "ordered m' (insert ?b (set hs))"
    by (rule ordered_link [OF F(6) h nh ring_closed [OF F(1)] _ bt]) (use bs set o(1) hn n_def in auto)
  then have O: "ordered m' (set (h # ?b # rest))" using set by (simp add: insert_commute)
  have sz: "hdr_size m' x = hdr_size ?m x" if "x \<in> set (h # ?b # rest)" for x using that o(2) hn(3,4) by auto
  then have ex: "extent m' x = extent ?m x" if "x \<in> set (h # ?b # rest)" for x using that by (simp add: extent_def)
  have "free_list m' (h # ?b # rest)"
    unfolding free_list_def
  proof (intro conjI ballI impI)
    fix x assume x: "x \<in> set (h # ?b # rest)"
    then show "extent m' x \<le> 2 ^ 32" using ex [OF x] F(4) set assms(3) by (auto simp: separate_def)
    fix y assume y: "y \<in> set (h # ?b # rest)" "x \<noteq> y"
    consider "x = ?b" "y \<in> set hs" | "y = ?b" "x \<in> set hs" | "x \<in> set hs" "y \<in> set hs" using x y set by auto
    then have "disjoint_from ?m x (extent ?m x) y"
      using assms(3) F(5) y(2) by cases (auto simp: separate_def disjoint_from_def)
    then show "disjoint_from m' x (extent m' x) y" using ex [OF x] ex [OF y(1)] by (simp add: disjoint_from_def)
  qed (fact R O)+
  then show ?thesis using f set sz unfolding m'_def [symmetric] n_def [symmetric]
    by (intro exI [of _ "s\<lparr>mem := m', next_free := h\<rparr>"] exI [of _ "h # ?b # rest"]) auto
qed

lemma malloc_after_free:
  assumes "free_list (mem s) hs" "next_free s = hs ! 0" "separate (mem s) hs (block - 8)" "0 \<notin> set hs"
    and "hdr_size (mem s) (block - 8) = nbytes + 8" "unat nbytes + 8 < 2 ^ 32" "block \<noteq> 8"
  shows "\<exists>s1 s2 hs2. free block s = Some s1 \<and> malloc nbytes s1 = Some (block, s2) \<and> free_list (mem s2) hs2
    \<and> next_free s2 = hs2 ! 0 \<and> set hs2 = set hs \<and> (\<forall>h \<in> set hs. hdr_size (mem s2) h = hdr_size (mem s) h)"
proof -
  let ?b = "block - 8"
  have bs: "?b \<notin> set hs" using separateD(5) [OF assms(1,3)] by blast
  have a: "unat (nbytes + 8) = unat nbytes + 8" using unat_add_small [of nbytes 8] assms(6) by simp
  obtain s1 hs1 where s1: "free block s = Some s1" "free_list (mem s1) hs1" "next_free s1 = hs1 ! 0"
      "set hs1 = insert ?b (set hs)" "hs1 ! 1 = ?b" "\<forall>x \<in> set hs1. hdr_size (mem s1) x = hdr_size (mem s) x"
    using free_result [OF assms(1-3)] by blast
  have d: "distinct hs1" "hs1 \<noteq> []" using free_listD(1) [OF s1(2)] by (simp_all add: ring_def)
  have "card (set hs1) = Suc (card (set hs))" using s1(4) bs by simp
  moreover have "0 < card (set hs)" using free_listD(1) [OF assms(1)] by (simp add: ring_def card_gt_0_iff)
  ultimately have l: "2 \<le> length hs1" using distinct_card [OF d(1)] by simp
  have z: "next_free s1 \<noteq> 0"
  proof -
    have "hs1 ! 0 \<in> set hs1" using d(2) by simp
    then show ?thesis using s1(3,4) assms(4,7) by auto
  qed
  have h: "?b = hs1 ! (1 mod length hs1)" using s1(5) l by simp
  have size: "hdr_size (mem s1) ?b = nbytes + 8" using s1(4,6) assms(5) by simp
  obtain p s2 hs2 where s2: "malloc nbytes s1 = Some (p + 8, s2)" "free_list (mem s2) hs2" "next_free s2 = hs2 ! 0"
      "set hs2 = set hs1 - {?b}" "unat p + (unat nbytes + 8) = unat ?b + unat (nbytes + 8)"
      "\<forall>x \<in> set hs2. hdr_size (mem s2) x = (if x = ?b then 0 else hdr_size (mem s1) x)"
    using malloc_result [OF s1(2,3) z assms(6) _ _ _ h] l size by auto
  have "p = ?b" using s2(5) a by (simp add: word_unat_eq_iff)
  then have "p + 8 = block" by simp
  moreover have "set hs2 = set hs" using s2(4) s1(4) bs by simp
  moreover have "hdr_size (mem s2) x = hdr_size (mem s) x" if "x \<in> set hs" for x
    using s2(6) s1(6) that bs \<open>set hs2 = set hs\<close> s1(4) by auto
  ultimately show ?thesis using s1(1) s2(1-3) by blast
qed

text \<open>Merging with the next block, found by counting \<open>_size\<close> headers instead of bytes.\<close>

lemma free_merge_result:
  assumes "free_position b (next_free s) (mem s) = Some h" "hdr_plus b (hdr_size (mem s) b) = hdr_next (mem s) h"
    and "fits b" "fits h" "fits (hdr_next (mem s) h)" "clear_of b h" "clear_of b (hdr_next (mem s) h)"
    and "hdr_plus h (hdr_size (mem s) h) \<noteq> b" "block = b + 8"
  shows "\<exists>s'. free block s = Some s' \<and> hdr_next (mem s') h = b \<and> hdr_next (mem s') b = hdr_next (mem s) (hdr_next (mem s) h)
    \<and> hdr_size (mem s') b = hdr_size (mem s) b + hdr_size (mem s) (hdr_next (mem s) h)"
proof -
  let ?m = "mem s" and ?n = "hdr_next (mem s) h"
  let ?m1 = "set_size b (hdr_size ?m b + hdr_size ?m ?n) ?m"
  let ?m2 = "set_next b (hdr_next ?m ?n) ?m1"
  have c: "clear_of h b" using assms(6) by (auto simp: clear_of_def)
  note C = header_clear [OF assms(3,4,6)] header_clear [OF assms(3,5,7)]
  have h: "hdr_next ?m1 h = ?n" "hdr_next ?m1 ?n = hdr_next ?m ?n" by (simp_all add: C)
  have l: "link_block b h ?m = set_next h b ?m2"
    using assms(2,8) by (simp add: link_block_def Let_def h C)
  have "free block s = Some (s\<lparr>mem := set_next h b ?m2, next_free := h\<rparr>)"
    using assms(1,9) l by (simp add: free_def HEADER_SIZE_def Let_def)
  moreover have "hdr_next (set_next h b ?m2) b = hdr_next ?m ?n" "hdr_size (set_next h b ?m2) b = hdr_size ?m b + hdr_size ?m ?n"
    using header_clear [OF assms(4,3) c] assms(3) by simp_all
  ultimately show ?thesis by simp
qed

section \<open>The interface of the allocator\<close>

text \<open>The calls of an allocator for a list of sizes, with the blocks they return as address and size; that every call has room.\<close>

fun alloc_run :: "(u32 \<Rightarrow> 's \<Rightarrow> (u32 \<times> 's) option) \<Rightarrow> u32 list \<Rightarrow> 's \<Rightarrow> ((u32 \<times> u32) list \<times> 's) option" where
  "alloc_run alloc [] s = Some ([], s)"
| "alloc_run alloc (n # ns) s = do {
     (p, s) \<leftarrow> alloc n s;
     (bs, s) \<leftarrow> alloc_run alloc ns s;
     Some ((p, n) # bs, s)
   }"

fun run_room :: "(u32 \<Rightarrow> 's \<Rightarrow> (u32 \<times> 's) option) \<Rightarrow> (u32 \<Rightarrow> 's \<Rightarrow> bool) \<Rightarrow> u32 list \<Rightarrow> 's \<Rightarrow> bool" where
  "run_room alloc room [] s = True"
| "run_room alloc room (n # ns) s \<longleftrightarrow> room n s \<and> (case alloc n s of None \<Rightarrow> False | Some (p, s') \<Rightarrow> run_room alloc room ns s')"

definition in_block :: "u32 \<times> u32 \<Rightarrow> u32 \<Rightarrow> bool" where
  "in_block b x \<longleftrightarrow> in_region (fst b) (unat (snd b)) x"

definition blocks_apart :: "(u32 \<times> u32) list \<Rightarrow> bool" where
  "blocks_apart bs \<longleftrightarrow> sorted_wrt (\<lambda>b c. \<forall>x. \<not> (in_block b x \<and> in_block c x)) bs"

lemma run_room_append:
  "run_room alloc room (ns @ ms) s \<Longrightarrow> alloc_run alloc ns s = Some (bs, t) \<Longrightarrow> run_room alloc room ms t"
  by (induction ns arbitrary: s bs) (auto split: option.splits bind_splits)

text \<open>
  What a client of \<open>malloc\<close> relies on: while there is a block, the memory returned was free and is not
  free any more, and memory that is not free stays so and keeps its contents.
\<close>

locale allocator =
  fixes alloc :: "u32 \<Rightarrow> 's \<Rightarrow> (u32 \<times> 's) option"
    and memory :: "'s \<Rightarrow> memory"
    and is_free :: "'s \<Rightarrow> u32 \<Rightarrow> bool"
    and room :: "u32 \<Rightarrow> 's \<Rightarrow> bool"
    and change :: "'s \<Rightarrow> 's \<Rightarrow> bool"
    and ok :: "'s \<Rightarrow> bool"
  assumes grant: "room n s \<Longrightarrow> \<exists>p s'. alloc n s = Some (p, s') \<and> p \<noteq> 0 \<and> change s s' \<and> ok s' \<and> unat p + unat n \<le> 2 ^ 32
      \<and> (\<forall>x. in_region p (unat n) x \<longrightarrow> is_free s x \<and> \<not> is_free s' x)
      \<and> (\<forall>x. \<not> is_free s x \<longrightarrow> \<not> is_free s' x \<and> memory s' x = memory s x)"
begin

lemma granted:
  assumes "room n s" "alloc n s = Some (p, s')"
  shows "p \<noteq> 0" "change s s'" "ok s'" "unat p + unat n \<le> 2 ^ 32" "in_region p (unat n) x \<Longrightarrow> is_free s x" "in_region p (unat n) x \<Longrightarrow> \<not> is_free s' x"
    "\<not> is_free s x \<Longrightarrow> \<not> is_free s' x" "\<not> is_free s x \<Longrightarrow> memory s' x = memory s x"
  using grant [OF assms(1)] assms(2) by auto

lemma allocs_disjoint:
  assumes "room n s" "alloc n s = Some (p, s1)" "room n' s1" "alloc n' s1 = Some (q, s2)" "in_region p (unat n) x"
  shows "\<not> in_region q (unat n') x" "memory s2 x = memory s1 x" "\<not> is_free s2 x"
  using granted(6) [OF assms(1,2,5)] granted(5,7,8) [OF assms(3,4)] by blast+

text \<open>All blocks of a run are apart, and memory that was in use before it is neither handed out nor written.\<close>

lemma run_result:
  assumes "run_room alloc room ns s"
  shows "\<exists>bs s'. alloc_run alloc ns s = Some (bs, s') \<and> map snd bs = ns \<and> blocks_apart bs
    \<and> (\<forall>b \<in> set bs. \<forall>x. in_block b x \<longrightarrow> is_free s x \<and> \<not> is_free s' x)
    \<and> (\<forall>x. \<not> is_free s x \<longrightarrow> \<not> is_free s' x \<and> memory s' x = memory s x)"
  using assms
proof (induction ns arbitrary: s)
  case Nil
  then show ?case by (simp add: blocks_apart_def)
next
  case (Cons n ns)
  obtain p t where t: "room n s" "alloc n s = Some (p, t)" "run_room alloc room ns t"
    using Cons.prems by (auto split: option.splits)
  obtain bs s' where r: "alloc_run alloc ns t = Some (bs, s')" "map snd bs = ns" "blocks_apart bs"
      "\<forall>b \<in> set bs. \<forall>x. in_block b x \<longrightarrow> is_free t x \<and> \<not> is_free s' x"
      "\<forall>x. \<not> is_free t x \<longrightarrow> \<not> is_free s' x \<and> memory s' x = memory t x"
    using Cons.IH [OF t(3)] by blast
  note G = granted [OF t(1,2)]
  have apart: "blocks_apart ((p, n) # bs)" using r(3,4) G(6) by (auto simp: blocks_apart_def in_block_def)
  have sub: "is_free t x \<Longrightarrow> is_free s x" for x using G(7) by blast
  have "\<forall>b \<in> set ((p, n) # bs). \<forall>x. in_block b x \<longrightarrow> is_free s x \<and> \<not> is_free s' x"
    using r(4,5) G(5,6) sub by (fastforce simp: in_block_def)
  moreover have "\<forall>x. \<not> is_free s x \<longrightarrow> \<not> is_free s' x \<and> memory s' x = memory s x" using r(5) G(7,8) by simp
  moreover have "alloc_run alloc (n # ns) s = Some ((p, n) # bs, s')" "map snd ((p, n) # bs) = n # ns" using t(2) r(1,2) by simp_all
  ultimately show ?case using apart by (intro exI [of _ "(p, n) # bs"] exI [of _ s'] conjI)
qed

lemma runs_apart:
  assumes "run_room alloc room (ns @ ms) s"
  shows "\<exists>bs t cs s'. alloc_run alloc ns s = Some (bs, t) \<and> alloc_run alloc ms t = Some (cs, s')
    \<and> map snd bs = ns \<and> map snd cs = ms \<and> blocks_apart (bs @ cs)
    \<and> (\<forall>x. (\<exists>b \<in> set bs. in_block b x) \<or> \<not> is_free t x \<longrightarrow> \<not> is_free s' x \<and> memory s' x = memory t x \<and> (\<forall>c \<in> set cs. \<not> in_block c x))"
proof -
  have "run_room alloc room ns s" using assms by (induction ns arbitrary: s) (auto split: option.splits)
  then obtain bs t where b: "alloc_run alloc ns s = Some (bs, t)" "map snd bs = ns" "blocks_apart bs"
      "\<forall>b \<in> set bs. \<forall>x. in_block b x \<longrightarrow> \<not> is_free t x"
    using run_result by blast
  obtain cs s' where c: "alloc_run alloc ms t = Some (cs, s')" "map snd cs = ms" "blocks_apart cs"
      "\<forall>c \<in> set cs. \<forall>x. in_block c x \<longrightarrow> is_free t x"
      "\<forall>x. \<not> is_free t x \<longrightarrow> \<not> is_free s' x \<and> memory s' x = memory t x"
    using run_result [OF run_room_append [OF assms b(1)]] by blast
  have "blocks_apart (bs @ cs)" using b(3,4) c(3,4) by (auto simp: blocks_apart_def sorted_wrt_append)
  then show ?thesis using b c by blast
qed

end

lemma ring_visits:
  assumes "ring m hs"
  shows "(hdr_next m ^^ k) (hs ! 0) = hs ! (k mod length hs)"
proof (induction k)
  case (Suc k)
  have "k mod length hs < length hs" using assms by (simp add: ring_def)
  then show ?case using assms Suc by (simp add: ring_def mod_Suc_eq)
qed simp

definition free_byte :: "'a malloc_state_scheme \<Rightarrow> u32 \<Rightarrow> bool" where
  "free_byte s x \<longleftrightarrow> (\<exists>k. in_extent (mem s) ((hdr_next (mem s) ^^ k) (next_free s)) x)"

lemma free_byte_ring:
  assumes "ring (mem s) hs" "next_free s = hs ! 0"
  shows "free_byte s x \<longleftrightarrow> (\<exists>h \<in> set hs. in_extent (mem s) h x)"
proof -
  have n: "0 < length hs" using assms(1) by (simp add: ring_def)
  have "free_byte s x \<longleftrightarrow> (\<exists>k. in_extent (mem s) (hs ! (k mod length hs)) x)"
    by (simp add: free_byte_def assms(2) ring_visits [OF assms(1)])
  also have "\<dots> \<longleftrightarrow> (\<exists>k < length hs. in_extent (mem s) (hs ! k) x)" using n by (metis mod_less mod_less_divisor)
  also have "\<dots> \<longleftrightarrow> (\<exists>h \<in> set hs. in_extent (mem s) h x)" by (metis in_set_conv_nth)
  finally show ?thesis .
qed

text \<open>
  A block of size \<open>sz\<close> that serves a request of \<open>n\<close> bytes: exactly, or with a remainder that holds a header. In a well-formed
  list some block fits, and every block that is big enough fits: a remainder of 1 to 7 bytes is left out, for which the
  code would write a header over the next block.
\<close>

definition block_fits :: "u32 \<Rightarrow> u32 list \<Rightarrow> u32 \<Rightarrow> bool" where
  "block_fits n hs sz \<longleftrightarrow> sz = n + 8 \<and> 2 \<le> length hs \<or> unat n + 16 \<le> unat sz"

definition has_block :: "u32 \<Rightarrow> 'a malloc_state_scheme \<Rightarrow> bool" where
  "has_block n s \<longleftrightarrow> n \<noteq> 0 \<and> unat n + 8 < 2 ^ 32 \<and> (\<exists>hs. free_list (mem s) hs \<and> next_free s = hs ! 0 \<and> 0 \<notin> set hs
     \<and> (\<exists>h \<in> set hs. block_fits n hs (hdr_size (mem s) h))
     \<and> (\<forall>h \<in> set hs. hdr_size (mem s) h < n + 8 \<or> block_fits n hs (hdr_size (mem s) h)))"

definition heap_list :: "'a malloc_state_scheme \<Rightarrow> bool" where
  "heap_list s \<longleftrightarrow> (\<exists>hs. free_list (mem s) hs \<and> next_free s = hs ! 0)"

lemma has_block_list: "has_block n s \<Longrightarrow> heap_list s"
  by (auto simp: has_block_def heap_list_def)

definition heap_change :: "'a malloc_state_scheme \<Rightarrow> 'a malloc_state_scheme \<Rightarrow> bool" where
  "heap_change s s' \<longleftrightarrow> (\<exists>m f. s' = s\<lparr>mem := m, next_free := f\<rparr>)"

text \<open>The first block in the order of the search.\<close>

lemma first_block:
  assumes "hs \<noteq> []" "\<exists>h \<in> set hs. P h"
  shows "\<exists>j. 0 < j \<and> j \<le> length hs \<and> P (hs ! (j mod length hs)) \<and> (\<forall>k. 0 < k \<and> k < j \<longrightarrow> \<not> P (hs ! k))"
proof -
  obtain i where "i < length hs" "P (hs ! i)" using assms(2) by (auto simp: in_set_conv_nth)
  then have "\<exists>j. 0 < j \<and> j \<le> length hs \<and> P (hs ! (j mod length hs))"
    using assms(1) by (cases "i = 0") (auto intro: exI [of _ "length hs"] exI [of _ i])
  then obtain j where j: "0 < j" "j \<le> length hs" "P (hs ! (j mod length hs))"
      and least: "\<forall>k < j. \<not> (0 < k \<and> k \<le> length hs \<and> P (hs ! (k mod length hs)))"
    using exists_least_iff [THEN iffD1, of "\<lambda>j. 0 < j \<and> j \<le> length hs \<and> P (hs ! (j mod length hs))"] by blast
  have "\<not> P (hs ! k)" if "0 < k" "k < j" for k using least that j(2) by fastforce
  then show ?thesis using j by blast
qed

text \<open>A client that writes only to memory that is not free leaves the list as it is.\<close>

lemma free_list_frame:
  assumes "free_list (mem s) hs" "next_free s = hs ! 0" "next_free s' = next_free s" "\<And>x. free_byte s x \<Longrightarrow> mem s' x = mem s x"
  shows "free_list (mem s') hs" "free_byte s' x = free_byte s x"
proof -
  note F = free_listD [OF assms(1)]
  have w: "hdr_next (mem s') h = hdr_next (mem s) h" "hdr_size (mem s') h = hdr_size (mem s) h" if h: "h \<in> set hs" for h
  proof -
    have b: "mem s' x = mem s x" if "in_region h 8 x" for x
    proof -
      have "unat h \<le> unat x \<and> unat x < unat h + 8" using that region_range [of h 8 x] F(2) [OF h] by (simp add: fits_def)
      then have "in_extent (mem s) h x" by (simp add: in_extent_def extent_def max_def)
      then show ?thesis using free_byte_ring [OF F(1) assms(2)] h assms(4) by blast
    qed
    have "in_region h 8 x" if "in_region h 4 x" for x using that by (simp add: in_region_def)
    moreover have "in_region h 8 x" if "in_region (h + 4) 4 x" for x using sub_region [of h 4 4 x 8] that by simp
    ultimately show "hdr_next (mem s') h = hdr_next (mem s) h" "hdr_size (mem s') h = hdr_size (mem s) h"
      unfolding hdr_next_def hdr_size_def using b by (auto intro!: load32_region)
  qed
  have r: "ring (mem s') hs" by (rule ring_cong [OF F(1) w(1)])
  show "free_list (mem s') hs"
    by (rule free_list_cong [OF assms(1) r ordered_cong [OF F(6) w(1)]]) (simp_all add: w)
  show "free_byte s' x = free_byte s x"
    using free_byte_ring [OF r] free_byte_ring [OF F(1) assms(2)] assms(2,3) w(2) by (simp add: in_extent_def extent_def)
qed

lemma heap_list_frame:
  assumes "heap_list s" "next_free s' = next_free s" "\<And>x. free_byte s x \<Longrightarrow> mem s' x = mem s x"
  shows "heap_list s'" "free_byte s' x = free_byte s x"
proof -
  obtain hs where hs: "free_list (mem s) hs" "next_free s = hs ! 0" using assms(1) by (auto simp: heap_list_def)
  show "heap_list s'" "free_byte s' x = free_byte s x"
    using free_list_frame [OF hs assms(2,3)] hs(2) assms(2) by (auto simp: heap_list_def)
qed

lemma has_block_grant:
  fixes s :: "'a malloc_state_scheme"
  assumes "has_block n s"
  shows "\<exists>p s'. malloc n s = Some (p, s') \<and> p \<noteq> 0 \<and> heap_change s s' \<and> heap_list s' \<and> unat p + unat n \<le> 2 ^ 32
      \<and> (\<forall>x. in_region p (unat n) x \<longrightarrow> free_byte s x \<and> \<not> free_byte s' x)
      \<and> (\<forall>x. \<not> free_byte s x \<longrightarrow> \<not> free_byte s' x \<and> mem s' x = mem s x)"
proof -
  obtain hs where n: "n \<noteq> 0" "unat n + 8 < 2 ^ 32" and hs: "free_list (mem s) hs" "next_free s = hs ! 0" "0 \<notin> set hs"
      and big: "\<exists>h \<in> set hs. block_fits n hs (hdr_size (mem s) h)"
      and gap: "\<forall>h \<in> set hs. hdr_size (mem s) h < n + 8 \<or> block_fits n hs (hdr_size (mem s) h)"
    using assms unfolding has_block_def by blast
  have r: "ring (mem s) hs" by (rule free_listD(1) [OF hs(1)])
  then have ne: "hs \<noteq> []" by (simp add: ring_def)
  obtain j where j: "0 < j" "j \<le> length hs" "block_fits n hs (hdr_size (mem s) (hs ! (j mod length hs)))"
      "\<forall>k. 0 < k \<and> k < j \<longrightarrow> \<not> block_fits n hs (hdr_size (mem s) (hs ! k))"
    using first_block [OF ne big] by blast
  define h where "h = hs ! (j mod length hs)"
  have hm: "h \<in> set hs" using ne by (simp add: h_def)
  have small: "hdr_size (mem s) (hs ! k) < n + 8" if "0 < k" "k < j" for k
  proof -
    have "hs ! k \<in> set hs" using that(2) j(2) by (intro nth_mem) linarith
    then show ?thesis using gap j(4) that by blast
  qed
  have z: "next_free s \<noteq> 0"
  proof -
    have "hs ! 0 \<in> set hs" using ne by simp
    then show ?thesis using hs(2,3) by metis
  qed
  have a: "unat (n + 8) = unat n + 8" using unat_add_small [of n 8] n(2) by simp
  have fit: "hdr_size (mem s) h = n + 8 \<and> 2 \<le> length hs \<or> unat n + 16 \<le> unat (hdr_size (mem s) h)"
    using j(3) by (simp add: h_def block_fits_def)
  obtain p s' hs' where s': "malloc n s = Some (p + 8, s')" "free_list (mem s') hs'" "next_free s' = hs' ! 0"
      "set hs' = (if hdr_size (mem s) h = n + 8 then set hs - {h} else set hs)"
      "unat h \<le> unat p" "unat p + (unat n + 8) = unat h + unat (hdr_size (mem s) h)"
      "\<forall>x \<in> set hs'. disjoint_from (mem s') p (unat p + (unat n + 8)) x
         \<and> hdr_size (mem s') x = (if x = h then hdr_size (mem s) h - (n + 8) else hdr_size (mem s) x)"
      "heap_change s s'" "\<forall>x. (\<forall>h \<in> set hs. \<not> in_extent (mem s) h x) \<longrightarrow> mem s' x = mem s x"
    using malloc_result [OF hs(1,2) z n(2) j(1,2) small h_def fit] unfolding heap_change_def [symmetric] by blast
  have sub: "set hs' \<subseteq> set hs" using s'(4) by (auto split: if_splits)
  have top: "unat p + (unat n + 8) \<le> extent (mem s) h" using s'(6) by (simp add: extent_def)
  also have "\<dots> \<le> 2 ^ 32" by (rule free_listD(4) [OF hs(1) hm])
  finally have lim: "unat p + (unat n + 8) \<le> 2 ^ 32" .
  have "unat n \<noteq> 0" using n(1) by (simp add: unat_eq_zero)
  then have p8: "unat (p + 8) = unat p + 8" using unat_add_small [of p 8] lim by simp
  have old: "free_byte s x \<longleftrightarrow> (\<exists>h \<in> set hs. in_extent (mem s) h x)" for x by (rule free_byte_ring [OF r hs(2)])
  have new: "free_byte s' x \<longleftrightarrow> (\<exists>h \<in> set hs'. in_extent (mem s') h x)" for x
    by (rule free_byte_ring [OF free_listD(1) [OF s'(2)] s'(3)])
  have shrink: "extent (mem s') x \<le> extent (mem s) x" if "x \<in> set hs'" for x
  proof (cases "x = h")
    case True
    have "n + 8 \<le> hdr_size (mem s) h" using fit a by (auto simp: word_le_nat_alt)
    then have "unat (hdr_size (mem s) h - (n + 8)) = unat (hdr_size (mem s) h) - unat (n + 8)" by (rule unat_sub)
    then show ?thesis using s'(7) that True by (auto simp: extent_def)
  next
    case False
    then show ?thesis using s'(7) that by (simp add: extent_def)
  qed
  have region: "free_byte s x \<and> \<not> free_byte s' x" if "in_region (p + 8) (unat n) x" for x
  proof
    have x: "unat p + 8 \<le> unat x" "unat x < unat p + (unat n + 8)"
      using that region_range [of "p + 8" "unat n" x] p8 lim by simp_all
    then have "in_extent (mem s) h x" using s'(5) top by (simp add: in_extent_def)
    then show "free_byte s x" using old hm by blast
    show "\<not> free_byte s' x" using s'(7) new x by (auto simp: in_extent_def disjoint_from_def)
  qed
  have keep: "\<not> free_byte s' x \<and> mem s' x = mem s x" if "\<not> free_byte s x" for x
    using that s'(9) old new shrink sub by (fastforce simp: in_extent_def)
  have "p + 8 \<noteq> 0" using p8 by auto
  moreover have "heap_list s'" using s'(2,3) by (auto simp: heap_list_def)
  ultimately show ?thesis
    using s'(1,8) region keep lim p8 by (intro exI [of _ "p + 8"] exI [of _ s']) auto
qed

interpretation heap: allocator malloc mem free_byte has_block heap_change heap_list
  by unfold_locales (rule has_block_grant)

section \<open>Properties\<close>

text \<open>A list of three headers: the empty one, 64 free bytes and 1 KB.\<close>

definition sample_list :: "malloc_state" where
  "sample_list = heap.extend ((sample_heap 7 0)\<lparr>mem :=
       set_next 0x1000 0x2000 (set_size 0x1000 0 (set_next 0x2000 0x3000 (set_size 0x2000 0x40
         (set_next 0x3000 0x1000 (set_size 0x3000 0x400 (\<lambda>_. 0))))))\<rparr>)
     (malloc_state.fields 0x1000 0x1000)"

lemma sample_list_fields:
  "mem sample_list = set_next 0x1000 0x2000 (set_size 0x1000 0 (set_next 0x2000 0x3000 (set_size 0x2000 0x40
     (set_next 0x3000 0x1000 (set_size 0x3000 0x400 (\<lambda>_. 0))))))"
  "next_free sample_list = 0x1000"
  by (simp_all add: sample_list_def heap.defs malloc_state.defs)

lemma sample_words:
  "hdr_next (mem sample_list) 0x1000 = 0x2000" "hdr_next (mem sample_list) 0x2000 = 0x3000" "hdr_next (mem sample_list) 0x3000 = 0x1000"
  "hdr_size (mem sample_list) 0x1000 = 0" "hdr_size (mem sample_list) 0x2000 = 0x40" "hdr_size (mem sample_list) 0x3000 = 0x400"
  unfolding sample_list_fields hdr_next_def hdr_size_def set_next_def set_size_def by (simp_all add: mem_simps apart_def)

lemma sample_free_list: "free_list (mem sample_list) [0x1000, 0x2000, 0x3000]"
  unfolding free_list_def
proof (intro conjI)
  show "ring (mem sample_list) [0x1000, 0x2000, 0x3000]" by (simp add: ring_def sample_words All_less_Suc)
qed (simp_all add: ordered_def between_def sample_words extent_def disjoint_from_def)

text \<open>C9: First fit: \<open>malloc\<close> returns the end of the first block that is big enough (exactly, or by
  room for a header at least), 8 bytes behind the header it writes; the list stays a ring in address
  order of blocks that are disjoint from one another and from the memory handed out.\<close>
theorem malloc_first_fit:
  assumes "free_list (mem s) hs" "next_free s = hs ! 0" "next_free s \<noteq> 0" "unat nbytes + 8 < 2 ^ 32"
    and "0 < j" "j \<le> length hs" "\<And>k. 0 < k \<Longrightarrow> k < j \<Longrightarrow> hdr_size (mem s) (hs ! k) < nbytes + 8"
    and "h = hs ! (j mod length hs)"
    and "hdr_size (mem s) h = nbytes + 8 \<and> 2 \<le> length hs \<or> unat nbytes + 16 \<le> unat (hdr_size (mem s) h)"
  shows "\<exists>p s' hs'. malloc nbytes s = Some (p + 8, s') \<and> free_list (mem s') hs' \<and> next_free s' = hs' ! 0
    \<and> set hs' = (if hdr_size (mem s) h = nbytes + 8 then set hs - {h} else set hs)
    \<and> unat h \<le> unat p \<and> unat p + (unat nbytes + 8) = unat h + unat (hdr_size (mem s) h)
    \<and> (\<forall>x \<in> set hs'. disjoint_from (mem s') p (unat p + (unat nbytes + 8)) x
         \<and> hdr_size (mem s') x = (if x = h then hdr_size (mem s) h - (nbytes + 8) else hdr_size (mem s) x))
    \<and> (\<exists>m f. s' = s\<lparr>mem := m, next_free := f\<rparr>)
    \<and> (\<forall>x. (\<forall>h \<in> set hs. \<not> in_extent (mem s) h x) \<longrightarrow> mem s' x = mem s x)"
  using malloc_result [OF assms] .

lemma malloc_first_fit_witness:
  "\<exists>s' hs'. malloc 0x100 sample_list = Some (0x3300, s') \<and> free_list (mem s') hs' \<and> set hs' = {0x1000, 0x2000, 0x3000}"
proof -
  have k: "hdr_size (mem sample_list) ([0x1000, 0x2000, 0x3000] ! k) < 0x100 + 8" if "0 < k" "k < 2" for k
  proof -
    have "k = 1" using that by linarith
    then show ?thesis by (simp add: sample_words)
  qed
  obtain p s' hs' where r: "malloc 0x100 sample_list = Some (p + 8, s')" "free_list (mem s') hs'"
      "set hs' = {0x1000, 0x2000, 0x3000}" "unat p + (unat (0x100 :: u32) + 8) = unat (0x3000 :: u32) + 0x400"
    using malloc_first_fit [OF sample_free_list, of "0x100" 2 "0x3000"] k by (auto simp: sample_list_fields(2) sample_words)
  have "p = 0x32f8" using r(4) by (simp add: word_unat_eq_iff)
  then show ?thesis using r by auto
qed

text \<open>C24: \<open>free\<close> ends for every block that is not in the list, whatever the order of the headers in the
  ring, and finds the place of the block in it.\<close>
theorem free_position_terminates:
  assumes "ring m hs" "b \<notin> set hs"
  shows "\<exists>i < length hs. free_position b (hs ! 0) m = Some (hs ! i) \<and> between (hs ! i) b (hdr_next m (hs ! i))"
  using free_position_result [OF assms] .

lemma free_position_terminates_witness: "free_position 0x2800 0x1000 (mem sample_list) \<noteq> None"
  using free_position_terminates [OF free_listD(1) [OF sample_free_list], of "0x2800"] by auto

text \<open>Freeing a block twice hangs: a block that is in the list already has no place in it, and the
  search for one goes round for ever.\<close>
theorem free_twice_hangs:
  assumes "free_list (mem s) hs" "next_free s \<in> set hs" "block - 8 \<in> set hs"
  shows "free block s = None"
  using free_position_in_ring [OF free_listD(1) [OF assms(1)] free_listD(6) [OF assms(1)] assms(3,2)] by (simp add: free_def HEADER_SIZE_def Let_def)

lemma free_twice_hangs_witness: "free 0x2008 sample_list = None"
  by (rule free_twice_hangs [OF sample_free_list]) (simp_all add: sample_list_fields(2))

text \<open>C23: A block that touches no free block comes back into the list, and allocating its size again
  returns it and leaves the list as it was.\<close>
theorem free_malloc_roundtrip:
  assumes "free_list (mem s) hs" "next_free s = hs ! 0" "separate (mem s) hs (block - 8)" "0 \<notin> set hs"
    and "hdr_size (mem s) (block - 8) = nbytes + 8" "unat nbytes + 8 < 2 ^ 32" "block \<noteq> 8"
  shows "\<exists>s1 s2 hs2. free block s = Some s1 \<and> malloc nbytes s1 = Some (block, s2) \<and> free_list (mem s2) hs2
    \<and> next_free s2 = hs2 ! 0 \<and> set hs2 = set hs \<and> (\<forall>h \<in> set hs. hdr_size (mem s2) h = hdr_size (mem s) h)"
  using malloc_after_free [OF assms] .

definition sample_block :: "malloc_state" where
  "sample_block = sample_list\<lparr>mem := set_size 0x2800 0x20 (mem sample_list)\<rparr>"

lemma sample_block_words:
  "x \<in> {0x1000, 0x2000, 0x3000} \<Longrightarrow> hdr_next (mem sample_block) x = hdr_next (mem sample_list) x"
  "x \<in> {0x1000, 0x2000, 0x3000} \<Longrightarrow> hdr_size (mem sample_block) x = hdr_size (mem sample_list) x"
  "hdr_size (mem sample_block) 0x2800 = 0x20"
  using header_clear(3,4) [of "0x2800" x] by (auto simp: sample_block_def fits_def clear_of_def)

lemma sample_block_list: "free_list (mem sample_block) [0x1000, 0x2000, 0x3000]"
  by (rule free_list_cong [OF sample_free_list])
    (use ring_cong [OF free_listD(1) [OF sample_free_list]] ordered_cong [OF free_listD(6) [OF sample_free_list]] sample_block_words in auto)

lemma free_malloc_roundtrip_witness:
  "\<exists>s1 s2. free 0x2808 sample_block = Some s1 \<and> malloc 0x18 s1 = Some (0x2808, s2)"
proof -
  have "separate (mem sample_block) [0x1000, 0x2000, 0x3000] (0x2808 - 8)"
    by (simp add: separate_def fits_def extent_def disjoint_from_def hdr_plus_def HEADER_SIZE_def sample_block_words sample_words)
  moreover have "next_free sample_block = [0x1000, 0x2000, 0x3000] ! 0" by (simp add: sample_block_def sample_list_fields)
  ultimately show ?thesis
    using free_malloc_roundtrip [OF sample_block_list, of "0x2808" "0x18"] by (auto simp: sample_block_words)
qed

text \<open>C36: The sizes are bytes, but \<open>free\<close> adds them to header pointers: a free block 8 times the size
  away is merged although it is not adjacent, and the merged block covers the memory between them
  that is in use.\<close>
theorem free_merges_blocks_apart:
  assumes "free_list (mem s) hs" "next_free s = hs ! 0" "b \<notin> set hs" "fits b" "8 \<le> unat (hdr_size (mem s) b)"
    and "free_position b (hs ! 0) (mem s) = Some h" "h \<in> set hs" "hdr_next (mem s) h = n"
    and "hdr_plus b (hdr_size (mem s) b) = n" "hdr_plus h (hdr_size (mem s) h) \<noteq> b" "clear_of b h" "clear_of b n"
    and "extent (mem s) b \<le> unat p" "unat p < e" "e \<le> unat n" "unat p < extent (mem s) b + unat (hdr_size (mem s) n)"
    and "unat (hdr_size (mem s) b) + unat (hdr_size (mem s) n) < 2 ^ 32"
  shows "disjoint_from (mem s) p e b \<and> disjoint_from (mem s) p e n
    \<and> (\<exists>s'. free (b + 8) s = Some s' \<and> hdr_next (mem s') h = b \<and> \<not> disjoint_from (mem s') p e b)"
proof -
  note F = free_listD [OF assms(1)]
  have n: "n \<in> set hs" using ring_closed [OF F(1) assms(7)] assms(8) by simp
  obtain s' where s': "free (b + 8) s = Some s'" "hdr_next (mem s') h = b"
      "hdr_size (mem s') b = hdr_size (mem s) b + hdr_size (mem s) n"
    using free_merge_result [of b s h "b + 8"] assms(2,4,6,8-12) F(2) [OF assms(7)] F(2) [OF n] by auto
  have sz: "unat (hdr_size (mem s') b) = unat (hdr_size (mem s) b) + unat (hdr_size (mem s) n)"
    using s'(3) assms(17) by (simp add: unat_add_lem [THEN iffD1])
  have "unat b + unat (hdr_size (mem s) b) = extent (mem s) b" using assms(5) by (simp add: extent_def)
  then have "\<not> disjoint_from (mem s') p e b"
    using assms(13,14,16) sz by (simp add: disjoint_from_def extent_def)
  then show ?thesis using s'(1,2) assms(13,15) by (auto simp: disjoint_from_def)
qed

text \<open>A block of 0x100 bytes at 0x2800, 0x800 bytes before the free kilobyte at 0x3000; memory is in use at 0x2900.\<close>

definition sample_apart :: "malloc_state" where
  "sample_apart = sample_list\<lparr>mem := set_size 0x2800 0x100 (mem sample_list)\<rparr>"

lemma sample_apart_words:
  "x \<in> {0x1000, 0x2000, 0x3000} \<Longrightarrow> hdr_next (mem sample_apart) x = hdr_next (mem sample_list) x"
  "x \<in> {0x1000, 0x2000, 0x3000} \<Longrightarrow> hdr_size (mem sample_apart) x = hdr_size (mem sample_list) x"
  "hdr_size (mem sample_apart) 0x2800 = 0x100" "next_free sample_apart = 0x1000"
  using header_clear(3,4) [of "0x2800" x] by (auto simp: sample_apart_def fits_def clear_of_def sample_list_fields)

lemma sample_apart_list: "free_list (mem sample_apart) [0x1000, 0x2000, 0x3000]"
  by (rule free_list_cong [OF sample_free_list])
    (use ring_cong [OF free_listD(1) [OF sample_free_list]] ordered_cong [OF free_listD(6) [OF sample_free_list]] sample_apart_words in auto)

lemma free_merges_blocks_apart_witness:
  "disjoint_from (mem sample_apart) 0x2900 0x2940 0x2800
    \<and> (\<exists>s'. free 0x2808 sample_apart = Some s' \<and> \<not> disjoint_from (mem s') 0x2900 0x2940 0x2800)"
proof -
  have p: "free_position 0x2800 ([0x1000, 0x2000, 0x3000] ! 0) (mem sample_apart) = Some 0x2000"
    by (simp add: free_position_step [of _ "0x1000"] free_position_step [of _ "0x2000"] between_def sample_apart_words sample_words)
  show ?thesis
    using free_merges_blocks_apart [OF sample_apart_list, of "0x2800" "0x2000" "0x3000" "0x2900" "0x2940"] p
    by (simp add: sample_apart_words sample_words fits_def clear_of_def extent_def hdr_plus_def HEADER_SIZE_def) blast
qed

end
