(* ===== verification/Pic.thy ===== *)
theory Pic
  imports Malloc
begin

text \<open>
  The driver of the two 8259 interrupt controllers, arch/i386/pic.c, and what the chips are documented
  to do with the bytes they are sent, as a state machine over the log of the ports: the driver is
  verified against it. A shift by 32 and more (a request line from 40 on) is undefined in C and
  leaves no bit here; the two reads of \<open>pic_8259a_get_irqreg\<close>, unordered in C, go from left to right.
\<close>

record pic_driver = malloc_state +
  spurious :: u32

definition I386_PIC1_PORT_COMMAND :: u16 where "I386_PIC1_PORT_COMMAND = 0x20"
definition I386_PIC1_PORT_DATA :: u16 where "I386_PIC1_PORT_DATA = 0x21"
definition I386_PIC2_PORT_COMMAND :: u16 where "I386_PIC2_PORT_COMMAND = 0xA0"
definition I386_PIC2_PORT_DATA :: u16 where "I386_PIC2_PORT_DATA = 0xA1"
definition I386_PIC_COMMAND_EOI :: u8 where "I386_PIC_COMMAND_EOI = 0x20"
definition I386_PIC_COMMAND_READISR :: u8 where "I386_PIC_COMMAND_READISR = 0x0B"
definition I386_PIC_ICW1_SEND4 :: u8 where "I386_PIC_ICW1_SEND4 = 0x01"
definition I386_PIC_ICW1_INITIALIZE :: u8 where "I386_PIC_ICW1_INITIALIZE = 0x10"
definition I386_PIC_ICW4_8086 :: u8 where "I386_PIC_ICW4_8086 = 0x01"

lemmas pic_consts = I386_PIC1_PORT_COMMAND_def I386_PIC1_PORT_DATA_def I386_PIC2_PORT_COMMAND_def I386_PIC2_PORT_DATA_def
  I386_PIC_COMMAND_EOI_def I386_PIC_COMMAND_READISR_def I386_PIC_ICW1_SEND4_def I386_PIC_ICW1_INITIALIZE_def I386_PIC_ICW4_8086_def

section \<open>The driver\<close>

definition pic_8259a_initialize :: "device \<Rightarrow> u8 \<Rightarrow> u8 \<Rightarrow> 'a machine_scheme \<Rightarrow> i32 \<times> 'a machine_scheme" where
  "pic_8259a_initialize dev pic1_off pic2_off s =
     (let (mask_one, s) = inportb dev I386_PIC1_PORT_DATA s;
          (mask_two, s) = inportb dev I386_PIC2_PORT_DATA s;
          s = outportb I386_PIC1_PORT_COMMAND (I386_PIC_ICW1_INITIALIZE OR I386_PIC_ICW1_SEND4) s;
          s = outportb I386_PIC2_PORT_COMMAND (I386_PIC_ICW1_INITIALIZE OR I386_PIC_ICW1_SEND4) s;
          s = outportb I386_PIC1_PORT_DATA pic1_off s;
          s = outportb I386_PIC2_PORT_DATA pic2_off s;
          s = outportb I386_PIC1_PORT_DATA 0x04 s;
          s = outportb I386_PIC2_PORT_DATA 0x02 s;
          s = outportb I386_PIC1_PORT_DATA I386_PIC_ICW4_8086 s;
          s = outportb I386_PIC2_PORT_DATA I386_PIC_ICW4_8086 s;
          s = outportb I386_PIC1_PORT_DATA mask_one s;
          s = outportb I386_PIC2_PORT_DATA mask_two s
      in (0, s))"

text \<open>The port and the line on its chip that a request line stands for.\<close>

definition irq_port :: "u8 \<Rightarrow> u16 \<times> u8" where
  "irq_port irq = (if irq < 8 then (I386_PIC1_PORT_DATA, irq) else (I386_PIC2_PORT_DATA, irq - 8))"

definition pic_8259a_mask_irq :: "device \<Rightarrow> u8 \<Rightarrow> 'a machine_scheme \<Rightarrow> 'a machine_scheme" where
  "pic_8259a_mask_irq dev irq s =
     (let (port, irq) = irq_port irq;
          (v, s) = inportb dev port s;
          irq_mask = ucast ((ucast v :: u32) OR push_bit (unat irq) 1)
      in outportb port irq_mask s)"

definition pic_8259a_unmask_irq :: "device \<Rightarrow> u8 \<Rightarrow> 'a machine_scheme \<Rightarrow> 'a machine_scheme" where
  "pic_8259a_unmask_irq dev irq s =
     (let (port, irq) = irq_port irq;
          (v, s) = inportb dev port s;
          irq_mask = ucast ((ucast v :: u32) AND NOT (push_bit (unat irq) 1))
      in outportb port irq_mask s)"

definition pic_8259a_enable :: "'a machine_scheme \<Rightarrow> 'a machine_scheme" where
  "pic_8259a_enable s = outportb I386_PIC2_PORT_DATA 0x00 (outportb I386_PIC1_PORT_DATA 0x00 s)"

definition pic_8259a_disable :: "'a machine_scheme \<Rightarrow> 'a machine_scheme" where
  "pic_8259a_disable s = outportb I386_PIC2_PORT_DATA 0xff (outportb I386_PIC1_PORT_DATA 0xff s)"

definition pic_8259a_get_irqreg :: "device \<Rightarrow> u8 \<Rightarrow> 'a machine_scheme \<Rightarrow> u16 \<times> 'a machine_scheme" where
  "pic_8259a_get_irqreg dev ocw3 s =
     (let s = outportb I386_PIC1_PORT_COMMAND ocw3 s;
          s = outportb I386_PIC2_PORT_COMMAND ocw3 s;
          (hi, s) = inportb dev I386_PIC2_PORT_DATA s;
          (lo, s) = inportb dev I386_PIC1_PORT_DATA s
      in (push_bit 8 (ucast hi) OR ucast lo, s))"

definition pic_8259a_isrset :: "u16 \<Rightarrow> u8 \<Rightarrow> bool" where
  "pic_8259a_isrset x y \<longleftrightarrow> (ucast x :: u32) AND push_bit (unat y) 1 \<noteq> 0"

definition pic_8259a_send_eoi :: "device \<Rightarrow> u8 \<Rightarrow> 'a pic_driver_scheme \<Rightarrow> 'a pic_driver_scheme" where
  "pic_8259a_send_eoi dev irq s =
     (let (irqreg, s) = pic_8259a_get_irqreg dev I386_PIC_COMMAND_READISR s in
      if (irq = 7 \<or> irq = 15) \<and> \<not> pic_8259a_isrset irqreg irq then
        (let s = (if irq = 15 then outportb I386_PIC1_PORT_COMMAND I386_PIC_COMMAND_EOI s else s)
         in s\<lparr>spurious := spurious s + 1\<rparr>)
      else if irq \<ge> 8 then outportb I386_PIC2_PORT_COMMAND I386_PIC_COMMAND_EOI s
      else outportb I386_PIC1_PORT_COMMAND I386_PIC_COMMAND_EOI s)"

definition pic_8259a_spurious_count :: "'a pic_driver_scheme \<Rightarrow> u32" where
  "pic_8259a_spurious_count s = spurious s"

section \<open>The chip\<close>

text \<open>
  One 8259: the initialization words it still waits for, what it was initialized with, and its mask
  (the register that a read of the data port returns). ICW1 on the command port starts the
  sequence ICW2, ICW3, ICW4 on the data port and clears the mask; after it the data port sets the mask.
\<close>

datatype icw = ICW2 | ICW3 | ICW4

record pic_chip =
  expects :: "icw list"
  vector :: u8
  cascade :: u8
  mode :: u8
  imr :: u8

definition chip_command :: "u8 \<Rightarrow> pic_chip \<Rightarrow> pic_chip" where
  "chip_command v c =
     (if bit v 4 then c\<lparr>expects := ICW2 # (if bit v 1 then [] else [ICW3]) @ (if bit v 0 then [ICW4] else []), imr := 0\<rparr>
      else c)"

definition chip_data :: "u8 \<Rightarrow> pic_chip \<Rightarrow> pic_chip" where
  "chip_data v c =
     (case expects c of
        [] \<Rightarrow> c\<lparr>imr := v\<rparr>
      | ICW2 # es \<Rightarrow> c\<lparr>expects := es, vector := v\<rparr>
      | ICW3 # es \<Rightarrow> c\<lparr>expects := es, cascade := v\<rparr>
      | ICW4 # es \<Rightarrow> c\<lparr>expects := es, mode := v\<rparr>)"

primrec chip_event :: "u16 \<Rightarrow> u16 \<Rightarrow> io_event \<Rightarrow> pic_chip \<Rightarrow> pic_chip" where
  "chip_event cmd dat (Out p v) c = (if p = cmd then chip_command v c else if p = dat then chip_data v c else c)"
| "chip_event cmd dat (In p v) c = c"

definition chip_after :: "u16 \<Rightarrow> u16 \<Rightarrow> pic_chip \<Rightarrow> io_event list \<Rightarrow> pic_chip" where
  "chip_after cmd dat c log = fold (chip_event cmd dat) log c"

text \<open>The two chips of the machine, which were in the states \<open>c1\<close> and \<open>c2\<close> at the start.\<close>

abbreviation master :: "pic_chip \<Rightarrow> 'a machine_scheme \<Rightarrow> pic_chip" where
  "master c1 s \<equiv> chip_after I386_PIC1_PORT_COMMAND I386_PIC1_PORT_DATA c1 (io s)"

abbreviation slave :: "pic_chip \<Rightarrow> 'a machine_scheme \<Rightarrow> pic_chip" where
  "slave c2 s \<equiv> chip_after I386_PIC2_PORT_COMMAND I386_PIC2_PORT_DATA c2 (io s)"

text \<open>What the driver relies on: the data ports read back the masks.\<close>

definition pic_device :: "pic_chip \<Rightarrow> pic_chip \<Rightarrow> device \<Rightarrow> bool" where
  "pic_device c1 c2 dev \<longleftrightarrow> (\<forall>log.
     dev log I386_PIC1_PORT_DATA = imr (chip_after I386_PIC1_PORT_COMMAND I386_PIC1_PORT_DATA c1 log)
     \<and> dev log I386_PIC2_PORT_DATA = imr (chip_after I386_PIC2_PORT_COMMAND I386_PIC2_PORT_DATA c2 log))"

lemma chip_after_append [simp]: "chip_after cmd dat c (l @ l') = chip_after cmd dat (chip_after cmd dat c l) l'"
  by (simp add: chip_after_def)

lemma chip_after_events [simp]:
  "chip_after cmd dat c [] = c" "chip_after cmd dat c (e # l) = chip_after cmd dat (chip_event cmd dat e c) l"
  by (simp_all add: chip_after_def)

lemma io_ports [simp]:
  "io (outportb p v s) = io s @ [Out p v]" "fst (inportb dev p s) = dev (io s) p" "io (snd (inportb dev p s)) = io s @ [In p (dev (io s) p)]"
  by (simp_all add: outportb_def inportb_def Let_def)

lemma case_inportb: "(case inportb dev p s of (v, s') \<Rightarrow> f v s') = f (dev (io s) p) (snd (inportb dev p s))"
  by (simp add: inportb_def Let_def)

lemma pic_initialize_result:
  assumes "pic_device c1 c2 dev" "expects (master c1 s) = []" "expects (slave c2 s) = []"
    and "pic_8259a_initialize dev off1 off2 s = (r, s')"
  shows "master c1 s' = (master c1 s)\<lparr>vector := off1, cascade := 4, mode := 1\<rparr>
    \<and> slave c2 s' = (slave c2 s)\<lparr>vector := off2, cascade := 2, mode := 1\<rparr> \<and> r = 0"
  using assms by (auto simp: pic_8259a_initialize_def case_inportb Let_def pic_consts pic_device_def chip_command_def chip_data_def
      bit_or_iff bit_numeral_rec)



definition masked :: "pic_chip \<Rightarrow> pic_chip \<Rightarrow> 'a machine_scheme \<Rightarrow> u8 \<Rightarrow> bool" where
  "masked c1 c2 s irq \<longleftrightarrow>
     (if irq < 8 then bit (imr (master c1 s)) (unat irq) else bit (imr (slave c2 s)) (unat (irq - 8)))"

lemma mask_bits:
  fixes v :: u8
  assumes "k < 8" "n < 8"
  shows "bit (ucast ((ucast v :: u32) OR 2 ^ n) :: u8) k \<longleftrightarrow> bit v k \<or> k = n"
    "bit (ucast ((ucast v :: u32) AND NOT (2 ^ n)) :: u8) k \<longleftrightarrow> bit v k \<and> k \<noteq> n"
  using assms by (auto simp: bit_ucast_iff bit_or_iff bit_and_iff bit_not_iff bit_exp_iff)

text \<open>The chip and the line on it.\<close>

lemma irq_line:
  fixes irq :: u8
  assumes "irq < 16"
  shows "irq < 8 \<Longrightarrow> unat irq < 8" "\<not> irq < 8 \<Longrightarrow> unat (irq - 8) < 8" "\<not> irq < 8 \<Longrightarrow> unat (irq - 8) + 8 = unat irq"
proof -
  have u: "unat irq < 16" using assms by (simp add: word_less_nat_alt)
  show "irq < 8 \<Longrightarrow> unat irq < 8" by (simp add: word_less_nat_alt)
  assume "\<not> irq < 8"
  then have "8 \<le> unat irq" by (simp add: word_less_nat_alt)
  then show "unat (irq - 8) < 8" "unat (irq - 8) + 8 = unat irq" using u by (simp_all add: unat_sub word_le_nat_alt)
qed

lemma pic_mask_result:
  assumes "pic_device c1 c2 dev" "expects (master c1 s) = []" "expects (slave c2 s) = []" "irq < 16" "irq' < 16"
  shows "masked c1 c2 (pic_8259a_mask_irq dev irq s) irq' \<longleftrightarrow> irq' = irq \<or> masked c1 c2 s irq'"
    "masked c1 c2 (pic_8259a_unmask_irq dev irq s) irq' \<longleftrightarrow> irq' \<noteq> irq \<and> masked c1 c2 s irq'"
proof -
  have same: "irq' = irq \<longleftrightarrow> unat irq' = unat irq" by (simp add: word_unat_eq_iff)
  have dev: "dev l 0x21 = imr (chip_after 0x20 0x21 c1 l)" "dev l 0xA1 = imr (chip_after 0xA0 0xA1 c2 l)" for l
    using assms(1) by (simp_all add: pic_device_def pic_consts)
  note e = assms(2,3) [unfolded pic_consts]
  note L = irq_line [OF assms(4)] irq_line [OF assms(5)]
  show "masked c1 c2 (pic_8259a_mask_irq dev irq s) irq' \<longleftrightarrow> irq' = irq \<or> masked c1 c2 s irq'"
    "masked c1 c2 (pic_8259a_unmask_irq dev irq s) irq' \<longleftrightarrow> irq' \<noteq> irq \<and> masked c1 c2 s irq'"
    using e L same
    by (auto simp: masked_def pic_8259a_mask_irq_def pic_8259a_unmask_irq_def irq_port_def case_inportb Let_def pic_consts
        chip_data_def dev mask_bits)
qed

text \<open>The end of an interrupt: which bytes the chips receive on their command ports.\<close>

lemma isrset_bit: "pic_8259a_isrset x y \<longleftrightarrow> bit x (unat y)"
proof -
  have "(ucast x :: u32) AND push_bit (unat y) 1 = 0 \<longleftrightarrow> \<not> bit (ucast x :: u32) (unat y)"
    by (simp add: and_exp_eq_0_iff_not_bit)
  moreover have "bit (ucast x :: u32) (unat y) \<longleftrightarrow> bit x (unat y)"
    by (auto simp: bit_ucast_iff dest: bit_imp_le_length)
  ultimately show ?thesis by (simp add: pic_8259a_isrset_def)
qed

lemma irqreg_bits:
  fixes hi lo :: u8
  shows "bit (push_bit 8 (ucast hi) OR ucast lo :: u16) 7 = bit lo 7"
    "bit (push_bit 8 (ucast hi) OR ucast lo :: u16) 15 = bit hi 7"
  by (simp_all add: bit_or_iff bit_push_bit_iff bit_ucast_iff) (auto dest: bit_imp_le_length)

text \<open>After the two command bytes, which change no mask, the mask bits decide.\<close>

lemma eoi_decision:
  assumes "pic_device c1 c2 dev" "irq = 7 \<or> irq = 15"
  shows "pic_8259a_isrset (fst (pic_8259a_get_irqreg dev I386_PIC_COMMAND_READISR s)) irq \<longleftrightarrow> masked c1 c2 s irq"
proof -
  have dev: "dev l 0x21 = imr (chip_after 0x20 0x21 c1 l)" "dev l 0xA1 = imr (chip_after 0xA0 0xA1 c2 l)" for l
    using assms(1) by (simp_all add: pic_device_def pic_consts)
  have "\<not> bit (0x0B :: u8) 4" by simp
  then show ?thesis using assms(2)
    by (auto simp: isrset_bit pic_8259a_get_irqreg_def case_inportb Let_def pic_consts irqreg_bits dev chip_command_def masked_def)
qed

lemma irqreg_io:
  "io (snd (pic_8259a_get_irqreg dev ocw3 s)) =
     io s @ [Out 0x20 ocw3, Out 0xA0 ocw3,
       In 0xA1 (dev (io s @ [Out 0x20 ocw3, Out 0xA0 ocw3]) 0xA1),
       In 0x21 (dev (io s @ [Out 0x20 ocw3, Out 0xA0 ocw3, In 0xA1 (dev (io s @ [Out 0x20 ocw3, Out 0xA0 ocw3]) 0xA1)]) 0x21)]"
  by (simp add: pic_8259a_get_irqreg_def case_inportb Let_def pic_consts)

lemma irqreg_spurious: "spurious (snd (pic_8259a_get_irqreg dev ocw3 s)) = spurious s"
  by (simp add: pic_8259a_get_irqreg_def case_inportb Let_def outportb_def inportb_def)

lemma eoi_split:
  "pic_8259a_send_eoi dev irq s =
     (let r = pic_8259a_get_irqreg dev I386_PIC_COMMAND_READISR s in
      if (irq = 7 \<or> irq = 15) \<and> \<not> pic_8259a_isrset (fst r) irq then
        (let s = (if irq = 15 then outportb I386_PIC1_PORT_COMMAND I386_PIC_COMMAND_EOI (snd r) else snd r)
         in s\<lparr>spurious := spurious s + 1\<rparr>)
      else if irq \<ge> 8 then outportb I386_PIC2_PORT_COMMAND I386_PIC_COMMAND_EOI (snd r)
      else outportb I386_PIC1_PORT_COMMAND I386_PIC_COMMAND_EOI (snd r))"
  unfolding pic_8259a_send_eoi_def Let_def case_prod_beta by simp

lemma eoi_result:
  assumes "pic_device c1 c2 dev" "irq = 7 \<or> irq = 15 \<Longrightarrow> masked c1 c2 s irq"
  defines "s' \<equiv> pic_8259a_send_eoi dev irq s"
  shows "written_to I386_PIC1_PORT_COMMAND (io s') = written_to I386_PIC1_PORT_COMMAND (io s) @ 0x0B # (if irq < 8 then [0x20] else [])"
    "written_to I386_PIC2_PORT_COMMAND (io s') = written_to I386_PIC2_PORT_COMMAND (io s) @ 0x0B # (if irq < 8 then [] else [0x20])"
    "spurious s' = spurious s"
proof -
  let ?s = "snd (pic_8259a_get_irqreg dev I386_PIC_COMMAND_READISR s)"
  have "s' = outportb (if irq < 8 then I386_PIC1_PORT_COMMAND else I386_PIC2_PORT_COMMAND) I386_PIC_COMMAND_EOI ?s"
    using eoi_decision [OF assms(1), of irq s] assms(2) by (auto simp: s'_def eoi_split Let_def not_less)
  then show "written_to I386_PIC1_PORT_COMMAND (io s') = written_to I386_PIC1_PORT_COMMAND (io s) @ 0x0B # (if irq < 8 then [0x20] else [])"
    "written_to I386_PIC2_PORT_COMMAND (io s') = written_to I386_PIC2_PORT_COMMAND (io s) @ 0x0B # (if irq < 8 then [] else [0x20])"
    "spurious s' = spurious s"
    by (simp_all add: irqreg_io pic_consts) (simp add: outportb_def irqreg_spurious)
qed

lemma eoi_lost:
  assumes "pic_device c1 c2 dev" "irq = 7 \<or> irq = 15" "\<not> masked c1 c2 s irq"
  defines "s' \<equiv> pic_8259a_send_eoi dev irq s"
  shows "written_to I386_PIC1_PORT_COMMAND (io s') = written_to I386_PIC1_PORT_COMMAND (io s) @ 0x0B # (if irq = 15 then [0x20] else [])"
    "written_to I386_PIC2_PORT_COMMAND (io s') = written_to I386_PIC2_PORT_COMMAND (io s) @ [0x0B]"
    "spurious s' = spurious s + 1"
proof -
  let ?s = "snd (pic_8259a_get_irqreg dev I386_PIC_COMMAND_READISR s)"
  have "s' = (let s = (if irq = 15 then outportb I386_PIC1_PORT_COMMAND I386_PIC_COMMAND_EOI ?s else ?s) in s\<lparr>spurious := spurious s + 1\<rparr>)"
    using eoi_decision [OF assms(1,2), of s] assms(2,3) by (auto simp: s'_def eoi_split Let_def)
  then show "written_to I386_PIC1_PORT_COMMAND (io s') = written_to I386_PIC1_PORT_COMMAND (io s) @ 0x0B # (if irq = 15 then [0x20] else [])"
    "written_to I386_PIC2_PORT_COMMAND (io s') = written_to I386_PIC2_PORT_COMMAND (io s) @ [0x0B]"
    "spurious s' = spurious s + 1"
    by (simp_all add: irqreg_io pic_consts Let_def) (simp add: outportb_def irqreg_spurious)
qed

section \<open>Properties\<close>

definition sample_pic :: device where
  "sample_pic log port = (if port = 0x21 then imr (chip_after 0x20 0x21 (pic_chip.make [] 0 0 0 0xb8) log)
     else imr (chip_after 0xA0 0xA1 (pic_chip.make [] 0 0 0 0x8e) log))"

lemma sample_pic_device: "pic_device (pic_chip.make [] 0 0 0 0xb8) (pic_chip.make [] 0 0 0 0x8e) sample_pic"
  by (simp add: pic_device_def sample_pic_def pic_consts)

definition sample_irq :: pic_driver where
  "sample_irq = (malloc_state.extend sample_list (pic_driver.fields 0))\<lparr>io := []\<rparr>"

lemma sample_irq_fields: "io sample_irq = []" "spurious sample_irq = 0"
  by (simp_all add: sample_irq_def malloc_state.defs pic_driver.defs)

lemma sample_pic_ready:
  "expects (master (pic_chip.make [] 0 0 0 0xb8) sample_irq) = []" "expects (slave (pic_chip.make [] 0 0 0 0x8e) sample_irq) = []"
  by (simp_all add: sample_irq_fields pic_chip.defs)

text \<open>Initialization programs both chips: vectors, cascade line and 8086 mode; the masks, which the
  chips lose at the start of it, are as before.\<close>
theorem pic_initialize_programs:
  assumes "pic_device c1 c2 dev" "expects (master c1 s) = []" "expects (slave c2 s) = []"
    and "pic_8259a_initialize dev off1 off2 s = (r, s')"
  shows "master c1 s' = (master c1 s)\<lparr>vector := off1, cascade := 4, mode := 1\<rparr>
    \<and> slave c2 s' = (slave c2 s)\<lparr>vector := off2, cascade := 2, mode := 1\<rparr> \<and> r = 0"
  using pic_initialize_result [OF assms] .

lemma pic_initialize_programs_witness:
  "master (pic_chip.make [] 0 0 0 0xb8) (snd (pic_8259a_initialize sample_pic 0x20 0x28 sample_irq)) = pic_chip.make [] 0x20 4 1 0xb8"
  using pic_initialize_programs [OF sample_pic_device sample_pic_ready, of "0x20" "0x28", OF surjective_pairing]
  by (simp add: sample_irq_fields pic_chip.defs)

text \<open>Masking and unmasking a request line changes the mask of this line and of no other of the 16.\<close>
theorem pic_mask_exactly:
  assumes "pic_device c1 c2 dev" "expects (master c1 s) = []" "expects (slave c2 s) = []" "irq < 16" "irq' < 16"
  shows "(masked c1 c2 (pic_8259a_mask_irq dev irq s) irq' \<longleftrightarrow> irq' = irq \<or> masked c1 c2 s irq')
    \<and> (masked c1 c2 (pic_8259a_unmask_irq dev irq s) irq' \<longleftrightarrow> irq' \<noteq> irq \<and> masked c1 c2 s irq')"
  using pic_mask_result [OF assms] by blast

lemma pic_mask_exactly_witness:
  "\<not> masked (pic_chip.make [] 0 0 0 0xb8) (pic_chip.make [] 0 0 0 0x8e) (pic_8259a_unmask_irq sample_pic 4 sample_irq) 4
    \<and> masked (pic_chip.make [] 0 0 0 0xb8) (pic_chip.make [] 0 0 0 0x8e) (pic_8259a_unmask_irq sample_pic 4 sample_irq) 5"
  using pic_mask_exactly [OF sample_pic_device sample_pic_ready, of 4 4] pic_mask_exactly [OF sample_pic_device sample_pic_ready, of 4 5]
  by (simp add: masked_def sample_irq_fields pic_chip.defs)

text \<open>C37: An interrupt of line 7 or 15 that was delivered, so that its line is not masked, is taken for a
  spurious one: the driver looks at the masks instead of the lines in service. The chip it came from
  receives the read command, but no end of interrupt.\<close>
theorem pic_eoi_lost:
  assumes "pic_device c1 c2 dev" "irq = 7 \<or> irq = 15" "\<not> masked c1 c2 s irq"
  shows "written_to (if irq = 7 then I386_PIC1_PORT_COMMAND else I386_PIC2_PORT_COMMAND) (io (pic_8259a_send_eoi dev irq s))
      = written_to (if irq = 7 then I386_PIC1_PORT_COMMAND else I386_PIC2_PORT_COMMAND) (io s) @ [I386_PIC_COMMAND_READISR]
    \<and> pic_8259a_spurious_count (pic_8259a_send_eoi dev irq s) = pic_8259a_spurious_count s + 1"
  using eoi_lost [OF assms] assms(2) by (auto simp: pic_8259a_spurious_count_def I386_PIC_COMMAND_READISR_def)

definition open_pic :: device where "open_pic log port = (if port = 0x21 then imr (chip_after 0x20 0x21 (pic_chip.make [] 0 0 0 0) log)
     else imr (chip_after 0xA0 0xA1 (pic_chip.make [] 0 0 0 0) log))"

lemma pic_eoi_lost_witness:
  "written_to 0xA0 (io (pic_8259a_send_eoi open_pic 15 sample_irq)) = [0x0B] \<and> pic_8259a_spurious_count (pic_8259a_send_eoi open_pic 15 sample_irq) = 1"
proof -
  have "pic_device (pic_chip.make [] 0 0 0 0) (pic_chip.make [] 0 0 0 0) open_pic" by (simp add: pic_device_def open_pic_def pic_consts)
  from pic_eoi_lost [OF this, of 15 sample_irq] show ?thesis
    by (simp add: masked_def pic_chip.defs pic_consts pic_8259a_spurious_count_def sample_irq_fields)
qed

text \<open>The end of any other interrupt is sent to the chip of its line, and to no other: for a line of
  the second chip the first one, which passed it on, is not told.\<close>
theorem pic_eoi_commands:
  assumes "pic_device c1 c2 dev" "irq = 7 \<or> irq = 15 \<Longrightarrow> masked c1 c2 s irq"
  shows "written_to I386_PIC1_PORT_COMMAND (io (pic_8259a_send_eoi dev irq s))
      = written_to I386_PIC1_PORT_COMMAND (io s) @ I386_PIC_COMMAND_READISR # (if irq < 8 then [I386_PIC_COMMAND_EOI] else [])
    \<and> written_to I386_PIC2_PORT_COMMAND (io (pic_8259a_send_eoi dev irq s))
      = written_to I386_PIC2_PORT_COMMAND (io s) @ I386_PIC_COMMAND_READISR # (if irq < 8 then [] else [I386_PIC_COMMAND_EOI])
    \<and> pic_8259a_spurious_count (pic_8259a_send_eoi dev irq s) = pic_8259a_spurious_count s"
  using eoi_result [OF assms] by (simp add: pic_8259a_spurious_count_def I386_PIC_COMMAND_READISR_def I386_PIC_COMMAND_EOI_def)

lemma pic_eoi_commands_witness:
  "written_to 0x20 (io (pic_8259a_send_eoi sample_pic 1 sample_irq)) = [0x0B, 0x20]"
  using pic_eoi_commands [OF sample_pic_device, of 1 sample_irq] by (simp add: pic_consts sample_irq_fields)

end
