(* ===== verification/Cpu.thy ===== *)
theory Cpu
  imports Pic KString
begin

text \<open>
  The interrupt side of the processor, arch/i386/cpu.c, and the interval timer, arch/i386/timer.c.
  The descriptor table is a static array and lies in memory at the address \<open>interrupts\<close>; what the
  processor itself holds are the interrupt flag and the register \<open>lidt\<close> loads. The addresses of
  the handlers, assembly code, are given by a function \<open>addr\<close> of their names.
\<close>

record cpu_driver = pic_driver +
  interrupts :: u32
  idt_entry_limit :: u16
  idt_entry_base :: u32
  using_apic :: bool
  interrupt_flag :: bool
  idtr :: "u16 \<times> u32"
  pit_tick_count :: u32

definition MAX_INTERRUPTS :: u32 where "MAX_INTERRUPTS = 256"
definition INTERRUPT32_TYPE :: u8 where "INTERRUPT32_TYPE = 0x80 OR 0x00 OR 0x0E"
definition DEVICE_INTERRUPT_BASE :: u32 where "DEVICE_INTERRUPT_BASE = 0x20"
definition SYSTEM_CODE_SELECTOR :: u16 where "SYSTEM_CODE_SELECTOR = 0x08"

datatype isr = i386_defaulthandler | i386_divbyzero | i386_debugtrap | i386_nmi | i386_breakpoint | i386_overflow
  | i386_bounderror | i386_badopcode | i386_deviceerror | i386_doublefault | i386_invalidtss | i386_segnotpresent
  | i386_stacksegfault | i386_genprotectfault | i386_pagefault | i386_fpuexception | i386_aligncheck
  | i386_machinecheck | i386_simdexception | i386_virtualizeexception | i386_securityexception

section \<open>The processor\<close>

definition stop_interrupts :: "'a cpu_driver_scheme \<Rightarrow> 'a cpu_driver_scheme" where
  "stop_interrupts s = s\<lparr>interrupt_flag := False\<rparr>"

definition start_interrupts :: "'a cpu_driver_scheme \<Rightarrow> 'a cpu_driver_scheme" where
  "start_interrupts s = s\<lparr>interrupt_flag := True\<rparr>"

definition load_idtr :: "'a cpu_driver_scheme \<Rightarrow> 'a cpu_driver_scheme" where
  "load_idtr s = s\<lparr>idtr := (idt_entry_limit s, idt_entry_base s)\<rparr>"

text \<open>Byte \<open>k\<close> of entry \<open>index\<close>: two bytes of offset, two of selector, a zero, the type, two of offset.\<close>

definition isr_entry :: "u32 \<Rightarrow> u32 \<Rightarrow> u32 \<Rightarrow> u32" where
  "isr_entry b index k = b + (8 * index + k)"

definition install_handler :: "u32 \<Rightarrow> u8 \<Rightarrow> u16 \<Rightarrow> u32 \<Rightarrow> 'a cpu_driver_scheme \<Rightarrow> int \<times> 'a cpu_driver_scheme" where
  "install_handler index flags selector routine s =
     (if index > MAX_INTERRUPTS then (-1, s)
      else
        (let e = isr_entry (interrupts s) index;
             m = store16 (mem s) (e 0) (ucast (routine AND 0xffff));
             m = store16 m (e 6) (ucast (drop_bit 16 routine));
             m = store16 m (e 2) selector;
             m = m(e 5 := flags)
         in (0, s\<lparr>mem := m\<rparr>)))"

definition install_system_handler :: "u32 \<Rightarrow> u32 \<Rightarrow> 'a cpu_driver_scheme \<Rightarrow> 'a cpu_driver_scheme" where
  "install_system_handler index routine s = snd (install_handler index INTERRUPT32_TYPE SYSTEM_CODE_SELECTOR routine s)"

definition exceptions :: "(u32 \<times> isr) list" where
  "exceptions =
     [(0, i386_divbyzero), (1, i386_debugtrap), (2, i386_nmi), (3, i386_breakpoint), (4, i386_overflow),
      (5, i386_bounderror), (6, i386_badopcode), (7, i386_deviceerror), (8, i386_doublefault),
      (10, i386_invalidtss), (11, i386_segnotpresent), (12, i386_stacksegfault), (13, i386_genprotectfault),
      (14, i386_pagefault), (16, i386_fpuexception), (17, i386_aligncheck), (18, i386_machinecheck),
      (19, i386_simdexception), (20, i386_virtualizeexception), (30, i386_securityexception)]"

definition install_cpu_exceptions :: "(isr \<Rightarrow> u32) \<Rightarrow> 'a cpu_driver_scheme \<Rightarrow> 'a cpu_driver_scheme" where
  "install_cpu_exceptions addr s = fold (\<lambda>(i, h). install_system_handler i (addr h)) exceptions s"

definition cpu_driver_init :: "device \<Rightarrow> (isr \<Rightarrow> u32) \<Rightarrow> 'a cpu_driver_scheme \<Rightarrow> i32 \<times> 'a cpu_driver_scheme" where
  "cpu_driver_init dev addr s =
     (let s = stop_interrupts s;
          s = s\<lparr>mem := snd (memset (interrupts s) 0 (8 * MAX_INTERRUPTS) (mem s))\<rparr>;
          s = fold (\<lambda>i. install_system_handler (of_nat i) (addr i386_defaulthandler)) [0..<unat MAX_INTERRUPTS] s;
          s = s\<lparr>idt_entry_base := interrupts s\<rparr>;
          s = s\<lparr>idt_entry_limit := ucast (8 * MAX_INTERRUPTS - 1)\<rparr>;
          s = install_cpu_exceptions addr s;
          s = load_idtr s;
          s = snd (pic_8259a_initialize dev (ucast DEVICE_INTERRUPT_BASE) (ucast (DEVICE_INTERRUPT_BASE + 8)) s);
          s = pic_8259a_disable s
      in (0, start_interrupts s))"

definition cpu_install_device :: "device \<Rightarrow> u32 \<Rightarrow> u32 \<Rightarrow> 'a cpu_driver_scheme \<Rightarrow> 'a cpu_driver_scheme" where
  "cpu_install_device dev irq address s =
     (let interrupt_idx = irq + DEVICE_INTERRUPT_BASE;
          s = stop_interrupts s;
          s = install_system_handler interrupt_idx address s;
          s = start_interrupts s
      in if \<not> using_apic s then pic_8259a_unmask_irq dev (ucast irq) s else s)"

text \<open>\<open>cpuid\<close> is the highest basic leaf and the register edx of leaf 1, from the compiler's cpuid.h.\<close>

definition has_feature :: "u32 \<times> u32 \<Rightarrow> u32 \<Rightarrow> bool" where
  "has_feature cpuid feature \<longleftrightarrow> fst cpuid > 0 \<and> snd cpuid AND feature \<noteq> 0"

section \<open>The timer\<close>

definition PIT_CHANNEL0_DATA_PORT :: u16 where "PIT_CHANNEL0_DATA_PORT = 0x40"
definition PIT_COMMAND_PORT :: u16 where "PIT_COMMAND_PORT = 0x43"
definition PIT_CLOCK_FREQ :: u32 where "PIT_CLOCK_FREQ = 1193182"
definition PIT_DEFAULT_STARTUP_COMMAND :: u8 where "PIT_DEFAULT_STARTUP_COMMAND = 0x00 OR 0x30 OR 0x06 OR 0"

text \<open>A frequency of 0 is a division by zero, \<open>None\<close>.\<close>

definition pit_8254_start :: "u32 \<Rightarrow> 'a machine_scheme \<Rightarrow> 'a machine_scheme option" where
  "pit_8254_start freq s =
     (if freq = 0 then None
      else
        (let reload_value = ucast (PIT_CLOCK_FREQ div freq) :: u16;
             s = outportb PIT_COMMAND_PORT PIT_DEFAULT_STARTUP_COMMAND s;
             s = outportb PIT_CHANNEL0_DATA_PORT (ucast (reload_value AND 0xff00)) s;
             s = outportb PIT_CHANNEL0_DATA_PORT (ucast (drop_bit 8 reload_value)) s
         in Some s))"

definition pit_8254_initialize :: "device \<Rightarrow> u32 \<Rightarrow> 'a cpu_driver_scheme \<Rightarrow> 'a cpu_driver_scheme option" where
  "pit_8254_initialize dev timer_irq s = pit_8254_start 100 (cpu_install_device dev 0 timer_irq s)"

definition pit_8254_get_ticks :: "'a cpu_driver_scheme \<Rightarrow> u32" where
  "pit_8254_get_ticks s = pit_tick_count s"

section \<open>Descriptors\<close>

text \<open>Where the processor goes on at interrupt \<open>n\<close>: a present 32-bit interrupt gate within the limit, in the code segment.\<close>

definition gate_target :: "memory \<Rightarrow> u32 \<Rightarrow> u32 \<Rightarrow> u32 option" where
  "gate_target m b n =
     (if m (isr_entry b n 5) = 0x8E \<and> load16 m (isr_entry b n 2) = SYSTEM_CODE_SELECTOR
      then Some (push_bit 16 (ucast (load16 m (isr_entry b n 6))) OR ucast (load16 m (isr_entry b n 0)))
      else None)"

definition dispatch :: "'a cpu_driver_scheme \<Rightarrow> u32 \<Rightarrow> u32 option" where
  "dispatch s n =
     (if 8 * unat n + 7 \<le> unat (fst (idtr s)) then gate_target (mem s) (snd (idtr s)) n else None)"

lemma entry_byte:
  assumes "unat i \<le> 256" "unat j \<le> 256" "k < 8" "l < 8"
  shows "isr_entry b i k = isr_entry b j l \<longleftrightarrow> i = j \<and> k = l"
proof -
  have u: "unat (8 * x + y) = 8 * unat x + unat y" if "unat x \<le> 256" "y < 8" for x y :: u32
  proof -
    have y: "unat y < 8" using that(2) by (simp add: word_less_nat_alt)
    have "unat (8 * x) = 8 * unat x" using that(1) by (subst unat_mult_lem [THEN iffD1]) auto
    then show ?thesis using that(1) y by (subst unat_add_lem [THEN iffD1]) auto
  qed
  have k: "unat k < 8" "unat l < 8" using assms(3,4) by (simp_all add: word_less_nat_alt)
  have "isr_entry b i k = isr_entry b j l \<longleftrightarrow> 8 * i + k = 8 * j + l" by (simp add: isr_entry_def)
  also have "\<dots> \<longleftrightarrow> 8 * unat i + unat k = 8 * unat j + unat l"
    unfolding word_unat_eq_iff [of "8 * i + k"] u [OF assms(1,3)] u [OF assms(2,4)] ..
  also have "\<dots> \<longleftrightarrow> unat i = unat j \<and> unat k = unat l" using k by presburger
  finally show ?thesis by (simp add: word_unat_eq_iff)
qed

lemma entry_next: "isr_entry b i k + 1 = isr_entry b i (k + 1)"
  by (simp add: isr_entry_def)

lemma halves: "push_bit 16 (ucast (ucast (drop_bit 16 v) :: u16)) OR ucast (ucast (v AND 0xffff) :: u16) = v" for v :: u32
proof -
  have m: "(0xffff :: u32) = mask 16" by (simp add: mask_eq_exp_minus_1)
  show ?thesis
    unfolding m by (intro bit_word_eqI) (auto simp: bit_or_iff bit_push_bit_iff bit_ucast_iff bit_drop_bit_eq bit_and_iff bit_mask_iff)
qed

lemma load16_other:
  "a \<noteq> b \<Longrightarrow> a \<noteq> b + 1 \<Longrightarrow> load16 (m(a := x)) b = load16 m b"
  "a \<noteq> b \<Longrightarrow> a \<noteq> b + 1 \<Longrightarrow> a + 1 \<noteq> b \<Longrightarrow> load16 (store16 m a v) b = load16 m b"
  by (auto simp: load16_def store16_def)

lemma store16_other: "a \<noteq> c \<Longrightarrow> a + 1 \<noteq> c \<Longrightarrow> store16 m a v c = m c"
  by (auto simp: store16_def)

lemma gate_install:
  assumes "unat i \<le> 256" "unat n \<le> 256"
  shows "gate_target (mem (install_system_handler i h s)) (interrupts s) n
    = (if n = i then Some h else gate_target (mem s) (interrupts s) n)"
proof -
  note E = entry_byte [OF assms(1,1)] entry_byte [OF assms(1,2)] entry_byte [OF assms(2,1)] entry_byte [OF assms(2,2)]
  have "\<not> MAX_INTERRUPTS < i" using assms(1) by (simp add: MAX_INTERRUPTS_def word_less_nat_alt)
  then show ?thesis
    by (simp add: install_system_handler_def install_handler_def gate_target_def Let_def load16_other store16_other
        load16_store16_same entry_next E halves INTERRUPT32_TYPE_def)
qed

lemma install_fields:
  "interrupts (install_system_handler i h s) = interrupts s" "io (install_system_handler i h s) = io s"
  "using_apic (install_system_handler i h s) = using_apic s" "idtr (install_system_handler i h s) = idtr s"
  "idt_entry_base (install_system_handler i h s) = idt_entry_base s" "idt_entry_limit (install_system_handler i h s) = idt_entry_limit s"
  by (simp_all add: install_system_handler_def install_handler_def Let_def)

abbreviation install_list :: "(u32 \<times> u32) list \<Rightarrow> 'a cpu_driver_scheme \<Rightarrow> 'a cpu_driver_scheme" where
  "install_list l \<equiv> fold (\<lambda>(i, h). install_system_handler i h) l"

lemma install_list_fields:
  "interrupts (install_list l s) = interrupts s" "io (install_list l s) = io s" "using_apic (install_list l s) = using_apic s"
  "idt_entry_base (install_list l s) = idt_entry_base s" "idt_entry_limit (install_list l s) = idt_entry_limit s"
  by (induction l arbitrary: s) (auto simp: install_fields)

text \<open>The last handler installed for a vector counts.\<close>

lemma gate_install_list:
  assumes "\<forall>(i, h) \<in> set l. unat i \<le> 256" "unat n \<le> 256"
  shows "gate_target (mem (install_list l s)) (interrupts s) n
    = (case map_of (rev l) n of Some h \<Rightarrow> Some h | None \<Rightarrow> gate_target (mem s) (interrupts s) n)"
  using assms(1)
proof (induction l arbitrary: s)
  case (Cons x l)
  obtain i h where x: "x = (i, h)" by (cases x)
  let ?s = "install_system_handler i h s"
  have "gate_target (mem (install_list l ?s)) (interrupts ?s) n
      = (case map_of (rev l) n of Some h \<Rightarrow> Some h | None \<Rightarrow> gate_target (mem ?s) (interrupts ?s) n)"
    using Cons.IH [of ?s] Cons.prems by simp
  moreover have "gate_target (mem ?s) (interrupts s) n = (if n = i then Some h else gate_target (mem s) (interrupts s) n)"
    using gate_install [of i n h s] Cons.prems x assms(2) by simp
  ultimately show ?case using x by (simp add: install_fields map_add_def split: option.split)
qed simp

text \<open>The routine each of the 256 vectors should lead to: the processor's assignment of the exceptions 0 to 31 by position,
  with the vectors it reserves, and all device vectors, going to the default handler.\<close>

definition vector_handler :: "u32 \<Rightarrow> isr" where
  "vector_handler n =
     (if n < 32 then
        [i386_divbyzero, i386_debugtrap, i386_nmi, i386_breakpoint, i386_overflow, i386_bounderror, i386_badopcode, i386_deviceerror,
         i386_doublefault, i386_defaulthandler, i386_invalidtss, i386_segnotpresent, i386_stacksegfault, i386_genprotectfault,
         i386_pagefault, i386_defaulthandler, i386_fpuexception, i386_aligncheck, i386_machinecheck, i386_simdexception,
         i386_virtualizeexception, i386_defaulthandler, i386_defaulthandler, i386_defaulthandler, i386_defaulthandler,
         i386_defaulthandler, i386_defaulthandler, i386_defaulthandler, i386_defaulthandler, i386_defaulthandler,
         i386_securityexception, i386_defaulthandler] ! unat n
      else i386_defaulthandler)"

lemma vector_handler_map: "vector_handler n = (case map_of exceptions n of Some h \<Rightarrow> h | None \<Rightarrow> i386_defaulthandler)"
proof (cases "n < 32")
  case True
  have "\<forall>k \<in> set [0..<32]. vector_handler (of_nat k) = (case map_of exceptions (of_nat k) of Some h \<Rightarrow> h | None \<Rightarrow> i386_defaulthandler)"
    by (simp add: upt_rec vector_handler_def exceptions_def)
  moreover have "unat n \<in> set [0..<32]" using True by (simp add: word_less_nat_alt)
  ultimately show ?thesis by fastforce
next
  case False
  then have "n \<notin> fst ` set exceptions" by (auto simp: exceptions_def)
  then have "map_of exceptions n = None" by (simp add: map_of_eq_None_iff)
  then show ?thesis using False by (simp add: vector_handler_def)
qed

lemma exceptions_list: "install_cpu_exceptions addr s = install_list (map (\<lambda>(i, h). (i, addr h)) exceptions) s"
  by (simp add: install_cpu_exceptions_def fold_map comp_def case_prod_unfold)

lemma default_list:
  "fold (\<lambda>i. install_system_handler (of_nat i) h) [0..<n] s = install_list (map (\<lambda>i. (of_nat i, h)) [0..<n]) s"
  by (simp add: fold_map comp_def)

lemma map_of_default: "unat n < k \<Longrightarrow> map_of (rev (map (\<lambda>i. (of_nat i, h)) [0..<k])) n = Some h" for n :: u32
proof (induction k)
  case (Suc k)
  then show ?case by (cases "unat n = k") auto
qed simp

lemma map_of_exceptions:
  "map_of (rev (map (\<lambda>(i, h). (i, addr h)) exceptions)) n = map_option addr (map_of exceptions n)"
proof -
  have "distinct (map fst exceptions)" by (simp add: exceptions_def)
  then have "map_of (rev exceptions) = map_of exceptions" by (subst map_of_inject_set) (simp_all add: rev_map [symmetric])
  then show ?thesis by (simp add: rev_map map_of_map case_prod_beta)
qed

lemma exceptions_range: "(i, h) \<in> set exceptions \<Longrightarrow> unat i \<le> 256"
  by (auto simp: exceptions_def)

lemma outport_fields:
  "mem (outportb p v s) = mem s" "interrupts (outportb p v s) = interrupts s" "idtr (outportb p v s) = idtr s"
  "interrupt_flag (outportb p v s) = interrupt_flag s" "using_apic (outportb p v s) = using_apic s"
  by (simp_all add: outportb_def)

lemma inport_fields:
  "mem (snd (inportb dev p s)) = mem s" "interrupts (snd (inportb dev p s)) = interrupts s" "idtr (snd (inportb dev p s)) = idtr s"
  "interrupt_flag (snd (inportb dev p s)) = interrupt_flag s" "using_apic (snd (inportb dev p s)) = using_apic s"
  by (simp_all add: inportb_def Let_def)

lemma pic_init_fields:
  "mem (snd (pic_8259a_initialize dev a b s)) = mem s" "interrupts (snd (pic_8259a_initialize dev a b s)) = interrupts s"
  "idtr (snd (pic_8259a_initialize dev a b s)) = idtr s" "using_apic (snd (pic_8259a_initialize dev a b s)) = using_apic s"
  by (simp_all add: pic_8259a_initialize_def case_inportb Let_def outport_fields inport_fields)

lemma pic_disable_fields:
  "mem (pic_8259a_disable s) = mem s" "idtr (pic_8259a_disable s) = idtr s" "using_apic (pic_8259a_disable s) = using_apic s"
  by (simp_all add: pic_8259a_disable_def outport_fields)

lemma pic_unmask_fields:
  "mem (pic_8259a_unmask_irq dev n s) = mem s" "idtr (pic_8259a_unmask_irq dev n s) = idtr s"
  "interrupt_flag (pic_8259a_unmask_irq dev n s) = interrupt_flag s"
  by (simp_all add: pic_8259a_unmask_irq_def irq_port_def case_inportb Let_def outport_fields inport_fields)

lemma cpu_init_result:
  assumes s'_def: "s' = snd (cpu_driver_init dev addr s)"
  shows "idtr s' = (2047, interrupts s)" "interrupt_flag s'" "unat n < 256 \<Longrightarrow> dispatch s' n = Some (addr (vector_handler n))"
proof -
  define s1 where "s1 = (stop_interrupts s)\<lparr>mem := snd (memset (interrupts s) 0 (8 * MAX_INTERRUPTS) (mem s))\<rparr>"
  define s2 where "s2 = install_list (map (\<lambda>i. (of_nat i, addr i386_defaulthandler)) [0..<unat MAX_INTERRUPTS]) s1"
  define s3 where "s3 = s2\<lparr>idt_entry_base := interrupts s, idt_entry_limit := ucast (8 * MAX_INTERRUPTS - 1)\<rparr>"
  define s4 where "s4 = install_list (map (\<lambda>(i, h). (i, addr h)) exceptions) s3"
  define s5 where "s5 = snd (pic_8259a_initialize dev (ucast DEVICE_INTERRUPT_BASE) (ucast (DEVICE_INTERRUPT_BASE + 8)) (load_idtr s4))"
  have i: "interrupts s1 = interrupts s" "interrupts s2 = interrupts s" "interrupts s3 = interrupts s"
    by (simp_all add: s1_def s2_def s3_def install_list_fields stop_interrupts_def)
  have s': "s' = start_interrupts (pic_8259a_disable s5)"
    unfolding s'_def cpu_driver_init_def Let_def exceptions_list default_list s5_def s4_def s3_def s2_def s1_def
    by (simp add: stop_interrupts_def install_list_fields)
  have "idt_entry_limit s4 = 2047" "idt_entry_base s4 = interrupts s"
    by (simp_all add: s4_def install_list_fields s3_def MAX_INTERRUPTS_def)
  then show tr: "idtr s' = (2047, interrupts s)"
    by (simp add: s' start_interrupts_def pic_disable_fields s5_def pic_init_fields load_idtr_def)
  show "interrupt_flag s'" by (simp add: s' start_interrupts_def)
  assume n: "unat n < 256"
  have m: "mem s' = mem s4" by (simp add: s' start_interrupts_def pic_disable_fields s5_def pic_init_fields load_idtr_def)
  have g2: "gate_target (mem s2) (interrupts s) n = Some (addr i386_defaulthandler)"
    using gate_install_list [of "map (\<lambda>i. (of_nat i, addr i386_defaulthandler)) [0..<unat MAX_INTERRUPTS]" n s1] n
      map_of_default [of n "unat MAX_INTERRUPTS" "addr i386_defaulthandler"] by (simp add: s2_def i MAX_INTERRUPTS_def unat_of_nat)
  have r: "\<forall>(i, h) \<in> set (map (\<lambda>(i, h). (i, addr h)) exceptions). unat i \<le> 256" using exceptions_range by auto
  have "gate_target (mem s4) (interrupts s) n = Some (addr (vector_handler n))"
    using gate_install_list [OF r, of n s3] n g2
    by (auto simp: s4_def i map_of_exceptions s3_def vector_handler_map split: option.split)
  then show "dispatch s' n = Some (addr (vector_handler n))" using n by (simp add: dispatch_def tr m)
qed

lemma cpu_install_device_result:
  assumes "unat irq < 224" "unat n < 256"
    and "fst (idtr s) = 2047" "snd (idtr s) = interrupts s"
  shows "dispatch (cpu_install_device dev irq address s) n = (if n = irq + 0x20 then Some address else dispatch s n)"
proof -
  have "unat (irq + 0x20) = unat irq + 32" using assms(1) by (subst unat_add_lem [THEN iffD1]) simp_all
  then have i: "unat (irq + 0x20) \<le> 256" using assms(1) by simp
  define s1 where "s1 = install_system_handler (irq + 0x20) address (stop_interrupts s)"
  have m: "mem (cpu_install_device dev irq address s) = mem s1" "idtr (cpu_install_device dev irq address s) = idtr s"
    by (simp_all add: cpu_install_device_def Let_def s1_def DEVICE_INTERRUPT_BASE_def pic_unmask_fields start_interrupts_def
        install_fields stop_interrupts_def)
  have "gate_target (mem s1) (interrupts s) n = (if n = irq + 0x20 then Some address else gate_target (mem s) (interrupts s) n)"
    using gate_install [OF i, of n address "stop_interrupts s"] assms(2) by (simp add: s1_def stop_interrupts_def)
  then show ?thesis using assms(2-4) by (simp add: dispatch_def m)
qed

lemma install_device_routes:
  assumes "idtr s = (2047, interrupts s)" "\<not> using_apic s" "pic_device c1 c2 dev" "expects (master c1 s) = []" "expects (slave c2 s) = []"
    and "irq < 16" "unat n < 256" "line < 16"
  shows "dispatch (cpu_install_device dev irq address s) n = (if n = irq + 0x20 then Some address else dispatch s n)
    \<and> (masked c1 c2 (cpu_install_device dev irq address s) line \<longleftrightarrow> line \<noteq> ucast irq \<and> masked c1 c2 s line)"
proof -
  have i: "unat irq < 16" using assms(6) by (simp add: word_less_nat_alt)
  then have l: "ucast irq < (16 :: u8)" by (simp add: word_less_nat_alt unsigned_ucast_eq take_bit_eq_mod)
  define s1 where "s1 = start_interrupts (install_system_handler (irq + DEVICE_INTERRUPT_BASE) address (stop_interrupts s))"
  have io: "io s1 = io s" by (simp add: s1_def start_interrupts_def install_fields stop_interrupts_def)
  have "cpu_install_device dev irq address s = pic_8259a_unmask_irq dev (ucast irq) s1"
    using assms(2) by (simp add: cpu_install_device_def Let_def s1_def start_interrupts_def install_fields stop_interrupts_def)
  then have "masked c1 c2 (cpu_install_device dev irq address s) line \<longleftrightarrow> line \<noteq> ucast irq \<and> masked c1 c2 s1 line"
    using pic_mask_result(2) [OF assms(3), of s1 "ucast irq" line] assms(4,5,8) l io by simp
  moreover have "masked c1 c2 s1 line = masked c1 c2 s line" by (simp add: masked_def io)
  ultimately show ?thesis using cpu_install_device_result [of irq n s dev address] i assms(1,7) by simp
qed

text \<open>The chips after the start of the processor.\<close>

lemma cpu_init_io:
  fixes s :: "'a cpu_driver_scheme"
  shows "\<exists>t :: 'a cpu_driver_scheme. io t = io s \<and> io (snd (cpu_driver_init dev addr s)) = io (pic_8259a_disable (snd (pic_8259a_initialize dev 0x20 0x28 t)))
     \<and> using_apic (snd (cpu_driver_init dev addr s)) = using_apic s \<and> interrupts (snd (cpu_driver_init dev addr s)) = interrupts s"
proof -
  define t where "t = load_idtr (install_list (map (\<lambda>(i, h). (i, addr h)) exceptions)
    ((install_list (map (\<lambda>i. (of_nat i, addr i386_defaulthandler)) [0..<unat MAX_INTERRUPTS])
       ((stop_interrupts s)\<lparr>mem := snd (memset (interrupts s) 0 (8 * MAX_INTERRUPTS) (mem s))\<rparr>))
     \<lparr>idt_entry_base := interrupts s, idt_entry_limit := ucast (8 * MAX_INTERRUPTS - 1)\<rparr>))"
  have t: "io t = io s" "using_apic t = using_apic s" "interrupts t = interrupts s"
    by (simp_all add: t_def load_idtr_def install_list_fields stop_interrupts_def)
  have r: "snd (cpu_driver_init dev addr s) = start_interrupts (pic_8259a_disable (snd (pic_8259a_initialize dev 0x20 0x28 t)))"
    unfolding cpu_driver_init_def Let_def exceptions_list default_list t_def
    by (simp add: stop_interrupts_def install_list_fields DEVICE_INTERRUPT_BASE_def)
  then show ?thesis using t
    by (intro exI [of _ t]) (simp add: start_interrupts_def pic_init_fields pic_8259a_disable_def outport_fields)
qed

lemma full_mask: "n < 8 \<Longrightarrow> bit (0xff :: u8) n"
proof -
  have "(0xff :: u8) = mask 8" by (simp add: mask_eq_exp_minus_1)
  then show "n < 8 \<Longrightarrow> bit (0xff :: u8) n" by (simp only: bit_mask_iff) simp
qed

lemma boot_result:
  fixes s :: "'a cpu_driver_scheme"
  assumes "pic_device c1 c2 dev" "expects (master c1 s) = []" "expects (slave c2 s) = []" "\<not> using_apic s"
    and "line < 16" "unat n < 256"
  shows "\<exists>s'. pit_8254_initialize dev timer_irq (snd (cpu_driver_init dev addr s)) = Some s'
    \<and> (masked c1 c2 s' line \<longleftrightarrow> line \<noteq> 0)
    \<and> vector (master c1 s') = 0x20 \<and> vector (slave c2 s') = 0x28
    \<and> dispatch s' n = Some (if n = 0x20 then timer_irq else addr (vector_handler n))"
proof -
  define s1 where "s1 = snd (cpu_driver_init dev addr s)"
  obtain t :: "'a cpu_driver_scheme" where t: "io t = io s" "io s1 = io (pic_8259a_disable (snd (pic_8259a_initialize dev 0x20 0x28 t)))"
      "using_apic s1 = using_apic s" "interrupts s1 = interrupts s"
    unfolding s1_def using cpu_init_io by blast
  obtain r t' where i: "pic_8259a_initialize dev 0x20 0x28 t = (r, t')" by (cases "pic_8259a_initialize dev 0x20 0x28 t")
  have ch: "master c1 t' = (master c1 s)\<lparr>vector := 0x20, cascade := 4, mode := 1\<rparr>"
      "slave c2 t' = (slave c2 s)\<lparr>vector := 0x28, cascade := 2, mode := 1\<rparr>"
    using pic_initialize_result [OF assms(1) _ _ i] assms(2,3) t(1) by simp_all
  have io1: "io s1 = io t' @ [Out I386_PIC1_PORT_DATA 0xff, Out I386_PIC2_PORT_DATA 0xff]"
    using t(2) i by (simp add: pic_8259a_disable_def)
  have c1: "expects (master c1 s1) = []" "imr (master c1 s1) = 0xff" "vector (master c1 s1) = 0x20"
      "expects (slave c2 s1) = []" "imr (slave c2 s1) = 0xff" "vector (slave c2 s1) = 0x28"
    using ch assms(2,3) by (simp_all add: io1 pic_consts chip_data_def)
  have tr: "idtr s1 = (2047, interrupts s1)" "dispatch s1 n = Some (addr (vector_handler n))"
    using cpu_init_result [OF s1_def] assms(6) t(4) by simp_all
  define s2 where "s2 = cpu_install_device dev 0 timer_irq s1"
  have m: "dispatch s2 n = (if n = 0x20 then Some timer_irq else dispatch s1 n)" "masked c1 c2 s2 line \<longleftrightarrow> line \<noteq> 0 \<and> masked c1 c2 s1 line"
    using install_device_routes [OF tr(1) _ assms(1) c1(1,4) _ assms(6,5), of 0 timer_irq] assms(4) t(3) by (simp_all add: s2_def)
  have io2: "\<exists>v w. io s2 = io s1 @ [In I386_PIC1_PORT_DATA v, Out I386_PIC1_PORT_DATA w]"
    using assms(4) t(3)
    by (simp add: s2_def cpu_install_device_def Let_def start_interrupts_def install_fields stop_interrupts_def
        pic_8259a_unmask_irq_def irq_port_def case_inportb)
  then have c2: "vector (master c1 s2) = 0x20" "vector (slave c2 s2) = 0x28"
    using c1 by (auto simp: pic_consts chip_data_def)
  obtain s' where s': "pit_8254_start 100 s2 = Some s'" "idtr s' = idtr s2" "mem s' = mem s2"
      "io s' = io s2 @ [Out 0x43 0x36, Out 0x40 0, Out 0x40 0x2E]"
    by (simp add: pit_8254_start_def Let_def outport_fields PIT_CLOCK_FREQ_def PIT_COMMAND_PORT_def PIT_CHANNEL0_DATA_PORT_def
        PIT_DEFAULT_STARTUP_COMMAND_def)
  have chips: "master c1 s' = master c1 s2" "slave c2 s' = slave c2 s2" by (simp_all add: s'(4) pic_consts)
  have all: "masked c1 c2 s1 line"
  proof (cases "line < 8")
    case True
    have "bit (imr (master c1 s1)) (unat line)" unfolding c1(2) by (rule full_mask [OF irq_line(1) [OF assms(5) True]])
    then show ?thesis using True by (simp add: masked_def)
  next
    case False
    have "bit (imr (slave c2 s1)) (unat (line - 8))" unfolding c1(5) by (rule full_mask [OF irq_line(2) [OF assms(5) False]])
    then show ?thesis using False by (simp add: masked_def)
  qed
  have "masked c1 c2 s' line = masked c1 c2 s2 line" by (simp add: masked_def chips)
  moreover have "dispatch s' n = dispatch s2 n" by (simp add: dispatch_def s'(2,3))
  moreover have "pit_8254_initialize dev timer_irq s1 = Some s'" using s'(1) by (simp add: pit_8254_initialize_def s2_def)
  ultimately show ?thesis using m all tr(2) c2 chips unfolding s1_def by (intro exI [of _ s']) auto
qed

section \<open>Properties\<close>

text \<open>After \<open>cpu_driver_init\<close> the processor takes every one of the 256 interrupts: the exceptions to
  their own handlers and all others to the default handler; interrupts are enabled.\<close>
theorem idt_complete:
  assumes "unat n < 256"
  shows "dispatch (snd (cpu_driver_init dev addr s)) n = Some (addr (vector_handler n))
    \<and> interrupt_flag (snd (cpu_driver_init dev addr s))"
  using cpu_init_result [OF refl] assms by blast

definition sample_cpu :: cpu_driver where
  "sample_cpu = pic_driver.extend sample_irq (cpu_driver.fields 0x8000 0 0 False False (0, 0) 0)"

lemma idt_complete_witness:
  "dispatch (snd (cpu_driver_init sample_pic (case_isr 1 2 3 4 5 6 7 8 9 10 11 12 13 14 0xC0101234 16 17 18 19 20 21) sample_cpu)) 14 = Some 0xC0101234"
  using idt_complete [of 14 sample_pic "case_isr 1 2 3 4 5 6 7 8 9 10 11 12 13 14 0xC0101234 16 17 18 19 20 21" sample_cpu]
  by (simp add: vector_handler_map exceptions_def)

text \<open>Installing a device routes its interrupt to its handler, changes no other vector and unmasks
  its request line only.\<close>
theorem cpu_install_device_routes:
  assumes "idtr s = (2047, interrupts s)" "\<not> using_apic s" "pic_device c1 c2 dev" "expects (master c1 s) = []" "expects (slave c2 s) = []"
    and "irq < 16" "unat n < 256" "line < 16"
  shows "dispatch (cpu_install_device dev irq address s) n = (if n = irq + 0x20 then Some address else dispatch s n)
    \<and> (masked c1 c2 (cpu_install_device dev irq address s) line \<longleftrightarrow> line \<noteq> ucast irq \<and> masked c1 c2 s line)"
  using install_device_routes [OF assms] .

lemma cpu_install_device_routes_witness:
  "dispatch (cpu_install_device sample_pic 4 0xC0105678 (sample_cpu\<lparr>idtr := (2047, interrupts sample_cpu)\<rparr>)) 0x24 = Some 0xC0105678"
proof -
  let ?s = "sample_cpu\<lparr>idtr := (2047, interrupts sample_cpu)\<rparr>"
  have f: "io ?s = []" "\<not> using_apic ?s" "idtr ?s = (2047, interrupts ?s)"
    by (simp_all add: sample_cpu_def sample_irq_def malloc_state.defs pic_driver.defs cpu_driver.defs)
  then have "expects (master (pic_chip.make [] 0 0 0 0xb8) ?s) = []" "expects (slave (pic_chip.make [] 0 0 0 0x8e) ?s) = []"
    by (simp_all only: chip_after_events pic_chip.defs pic_chip.simps)
  from cpu_install_device_routes [OF f(3,2) sample_pic_device this, of 4 "0x24" 0 "0xC0105678"] show ?thesis by simp
qed

text \<open>C13: After the start of the interrupt system and the timer the only request line that can interrupt is
  line 0, the chips give their lines the vectors from 0x20 and 0x28 on, vector 0x20 leads to the timer's handler, and each of the
  other 255 to the routine of its exception in the processor's numbering, or to the default handler.\<close>
theorem boot_interrupts:
  assumes "pic_device c1 c2 dev" "expects (master c1 s) = []" "expects (slave c2 s) = []" "\<not> using_apic s"
    and "line < 16" "unat n < 256"
  shows "\<exists>s'. pit_8254_initialize dev timer_irq (snd (cpu_driver_init dev addr s)) = Some s'
    \<and> (masked c1 c2 s' line \<longleftrightarrow> line \<noteq> 0)
    \<and> vector (master c1 s') = 0x20 \<and> vector (slave c2 s') = 0x28
    \<and> dispatch s' n = Some (if n = 0x20 then timer_irq else addr (vector_handler n))"
  using boot_result [OF assms] .

lemma boot_interrupts_witness:
  "\<exists>s'. pit_8254_initialize sample_pic 0xC0107777 (snd (cpu_driver_init sample_pic (\<lambda>_. 0xC0100000) sample_cpu)) = Some s'
    \<and> dispatch s' 0x20 = Some 0xC0107777 \<and> \<not> masked (pic_chip.make [] 0 0 0 0xb8) (pic_chip.make [] 0 0 0 0x8e) s' 0"
proof -
  have f: "io sample_cpu = []" "\<not> using_apic sample_cpu"
    by (simp_all add: sample_cpu_def sample_irq_def malloc_state.defs pic_driver.defs cpu_driver.defs)
  then have "expects (master (pic_chip.make [] 0 0 0 0xb8) sample_cpu) = []" "expects (slave (pic_chip.make [] 0 0 0 0x8e) sample_cpu) = []"
    by (simp_all only: chip_after_events pic_chip.defs pic_chip.simps)
  from boot_interrupts [OF sample_pic_device this f(2), of 0 "0x20" "0xC0107777" "\<lambda>_. 0xC0100000"] show ?thesis by auto
qed

text \<open>The timer runs with a divisor that has lost its low byte, whatever the frequency: the mask is the
  one of the high byte, and the high byte follows as it should.\<close>
theorem pit_divisor_truncated:
  assumes "pit_8254_start freq s = Some s'"
  shows "written_to PIT_COMMAND_PORT (io s') = written_to PIT_COMMAND_PORT (io s) @ [0x36]
    \<and> written_to PIT_CHANNEL0_DATA_PORT (io s') = written_to PIT_CHANNEL0_DATA_PORT (io s) @ [0, of_nat (1193182 div unat freq div 256 mod 256)]"
proof -
  let ?r = "ucast (PIT_CLOCK_FREQ div freq) :: u16"
  have low: "ucast (?r AND 0xff00) = (0 :: u8)"
  proof (rule bit_word_eqI)
    fix n assume n: "n < LENGTH(8)"
    have "(0xff00 :: u16) = NOT (mask 8)" by (simp add: mask_eq_exp_minus_1)
    then show "bit (ucast (?r AND 0xff00) :: u8) n = bit (0 :: u8) n"
      using n by (simp only: bit_ucast_iff bit_and_iff bit_not_iff bit_mask_iff) simp
  qed
  have "unat ?r = take_bit 16 (1193182 div unat freq)"
    by (simp add: unsigned_ucast_eq PIT_CLOCK_FREQ_def unat_div)
  then have "unat (drop_bit 8 ?r) = 1193182 div unat freq div 256 mod 256"
    by (simp add: unsigned_drop_bit_eq drop_bit_take_bit) (simp add: take_bit_eq_mod drop_bit_eq_div)
  then have "(of_nat (1193182 div unat freq div 256 mod 256) :: u8) = of_nat (unat (drop_bit 8 ?r))" by simp
  then have high: "ucast (drop_bit 8 ?r) = (of_nat (1193182 div unat freq div 256 mod 256) :: u8)" by simp
  show ?thesis using assms low high
    by (auto simp: pit_8254_start_def Let_def PIT_COMMAND_PORT_def PIT_CHANNEL0_DATA_PORT_def PIT_DEFAULT_STARTUP_COMMAND_def split: if_splits)
qed

lemma pit_divisor_truncated_witness:
  "\<exists>s'. pit_8254_start 100 sample_cpu = Some s' \<and> written_to 0x40 (io s') = [0, 0x2E]"
proof -
  obtain s' where s': "pit_8254_start 100 sample_cpu = Some s'" by (simp add: pit_8254_start_def Let_def)
  have "io sample_cpu = []" by (simp add: sample_cpu_def sample_irq_def malloc_state.defs pic_driver.defs cpu_driver.defs)
  then have "written_to 0x40 (io s') = [0, 0x2E]"
    using pit_divisor_truncated [OF s'] by (simp add: PIT_CHANNEL0_DATA_PORT_def)
  then show ?thesis using s' by blast
qed

end
