(* ===== verification/Stdio.thy ===== *)
theory Stdio
  imports Display NumText
begin

text \<open>
  The kernel's stdio: putchar.c, puts.c, vprintf.c and printf.c of libc/stdio, and what is built on
  it: panic.c and version.c of the kernel, abort.c of libc/stdlib. Everything is printed through the
  display driver. Strings are literals, which no function changes, and stand for their bytes; the
  local number buffers of \<open>vprintf\<close> are a memory of their own. A missing or mistyped variadic
  argument, undefined in C, is \<open>None\<close>.
\<close>

section \<open>libc/stdio\<close>

definition EOF :: i32 where "EOF = - 1"
definition INT_MAX :: u32 where "INT_MAX = 0x7FFFFFFF"

definition putchar :: "i32 \<Rightarrow> 'a display_scheme \<Rightarrow> i32 \<times> 'a display_scheme" where
  "putchar c s = (c, display_write c s)"

fun puts_loop_str :: "u8 list \<Rightarrow> 'a display_scheme \<Rightarrow> 'a display_scheme" where
  "puts_loop_str [] s = s"
| "puts_loop_str (c # s2) s = puts_loop_str s2 (snd (putchar (scast c) s))"

definition puts :: "u8 list \<Rightarrow> 'a display_scheme \<Rightarrow> i32 \<times> 'a display_scheme" where
  "puts str s = (let s' = snd (putchar 10 (puts_loop_str str s)) in (of_nat (length str) + 1, s'))"

fun print :: "u8 list \<Rightarrow> 'a display_scheme \<Rightarrow> bool \<times> 'a display_scheme" where
  "print [] s = (True, s)"
| "print (c # str) s =
     (let (r, s') = putchar (scast c) s in if r = EOF then (False, s') else print str s')"

text \<open>
  What every conversion does with its text: the check against \<open>INT_MAX\<close>, the output, the count.
  \<open>None\<close> stands for the early return of -1.
\<close>

definition emit :: "u8 list \<Rightarrow> u32 \<Rightarrow> 'a display_scheme \<Rightarrow> u32 option \<times> 'a display_scheme" where
  "emit str written s =
     (let maxrem = INT_MAX - written; amount = of_nat (length str) in
      if maxrem < amount then (None, s\<lparr>errno := EOVERFLOW\<rparr>)
      else case print str s of
        (False, s') \<Rightarrow> (None, s')
      | (True, s') \<Rightarrow> (Some (written + amount), s'))"

definition emit_number :: "u32 \<Rightarrow> i32 \<Rightarrow> u32 \<Rightarrow> 'a display_scheme \<Rightarrow> (u32 option \<times> 'a display_scheme) option" where
  "emit_number num base written s = do {
     (r, s') \<leftarrow> itoa 0 num base (s\<lparr>mem := (\<lambda>_. 0)\<rparr>);
     let str = map (\<lambda>i. mem s' (of_nat i)) [0..<unat (word_of_int r :: u32)];
     Some (emit str written (s'\<lparr>mem := mem s\<rparr>))
   }"

definition number_base :: "u8 \<Rightarrow> i32 option" where
  "number_base c =
     (if c \<in> set (ascii ''xX'') then Some 16
      else if c \<in> set (ascii ''o'') then Some 8
      else if c \<in> set (ascii ''u'') then Some 10
      else if c \<in> set (ascii ''di'') then Some 10
      else if c \<in> set (ascii ''b'') then Some 2
      else None)"

text \<open>
  One conversion: \<open>fmt\<close> is the text after the percent sign. The results are the format and the
  arguments that are left and what \<open>emit\<close> said.
\<close>

definition conversion :: "u8 list \<Rightarrow> va_arg list \<Rightarrow> u32 \<Rightarrow> 'a display_scheme
    \<Rightarrow> (u8 list \<times> va_arg list \<times> u32 option \<times> 'a display_scheme) option" where
  "conversion fmt args written s =
     (let unknown = Some ([], args, emit (37 # fmt) written s) in
      case fmt of
        [] \<Rightarrow> unknown
      | f # rest \<Rightarrow>
          if f = 99 then
            (case args of VaWord c # args' \<Rightarrow> Some (rest, args', emit [ucast c] written s) | _ \<Rightarrow> None)
          else if f = 115 then
            (case args of VaStr str # args' \<Rightarrow> Some (rest, args', emit str written s) | _ \<Rightarrow> None)
          else (case number_base f of
            Some base \<Rightarrow>
              (case args of
                 VaWord num # args' \<Rightarrow> map_option (\<lambda>r. (rest, args', r)) (emit_number num base written s)
               | _ \<Rightarrow> None)
          | None \<Rightarrow> unknown))"

lemma conversion_shorter:
  "conversion fmt args written s = Some (rest, args', r) \<Longrightarrow> length rest \<le> length fmt"
  by (auto simp: conversion_def Let_def split: list.splits if_splits option.splits va_arg.splits)

text \<open>The text up to the next percent sign; its first character is taken as it is.\<close>

definition literal_run :: "u8 list \<Rightarrow> u8 list" where
  "literal_run fmt = take 1 fmt @ takeWhile (\<lambda>c. c \<noteq> 37) (drop 1 fmt)"

definition after_run :: "u8 list \<Rightarrow> u8 list" where
  "after_run fmt = dropWhile (\<lambda>c. c \<noteq> 37) (drop 1 fmt)"

lemma after_run_shorter:
  "length (after_run fmt) \<le> length fmt" "length (after_run (c # rest)) \<le> length rest"
  unfolding after_run_def by (rule order_trans [OF length_dropWhile_le], simp)+

function vprintf_loop :: "u8 list \<Rightarrow> va_arg list \<Rightarrow> u32 \<Rightarrow> 'a display_scheme \<Rightarrow> (i32 \<times> 'a display_scheme) option" where
  "vprintf_loop [] args written s = Some (written, s)"
| "vprintf_loop (c # rest) args written s =
     (if c \<noteq> 37 \<or> take 1 rest = [37] then
        (let fmt = (if c = 37 then rest else c # rest) in
         case emit (literal_run fmt) written s of
           (None, s') \<Rightarrow> Some (- 1, s')
         | (Some written', s') \<Rightarrow> vprintf_loop (after_run fmt) args written' s')
      else
        (case conversion rest args written s of
           None \<Rightarrow> None
         | Some (fmt, args', None, s') \<Rightarrow> Some (- 1, s')
         | Some (fmt, args', Some written', s') \<Rightarrow> vprintf_loop fmt args' written' s'))"
  by pat_completeness auto
termination
  by (relation "measure (\<lambda>(fmt, args, w, s). length fmt)")
     (auto simp: after_run_shorter less_Suc_eq_le dest!: conversion_shorter split: if_splits)

definition vprintf :: "u8 list \<Rightarrow> va_arg list \<Rightarrow> 'a display_scheme \<Rightarrow> (i32 \<times> 'a display_scheme) option" where
  "vprintf fmt args s = vprintf_loop fmt args 0 s"

definition printf :: "string \<Rightarrow> va_arg list \<Rightarrow> 'a display_scheme \<Rightarrow> (i32 \<times> 'a display_scheme) option" where
  "printf fmt args s = vprintf (ascii fmt) args s"

section \<open>Panic, abort, banner\<close>

datatype color = BLACK | BLUE | GREEN | CYAN | RED | PURPLE | BROWN | GRAY
  | DARKGRAY | LIGHTBLUE | LIGHTGREEN | LIGHTCYAN | LIGHTRED | LIGHTPURPLE | YELLOW | WHITE

fun COLOR_FG :: "color \<Rightarrow> u32" where
  "COLOR_FG BLACK = 0x0" | "COLOR_FG BLUE = 0x1" | "COLOR_FG GREEN = 0x2" | "COLOR_FG CYAN = 0x3"
| "COLOR_FG RED = 0x4" | "COLOR_FG PURPLE = 0x5" | "COLOR_FG BROWN = 0x6" | "COLOR_FG GRAY = 0x7"
| "COLOR_FG DARKGRAY = 0x8" | "COLOR_FG LIGHTBLUE = 0x9" | "COLOR_FG LIGHTGREEN = 0xA" | "COLOR_FG LIGHTCYAN = 0xB"
| "COLOR_FG LIGHTRED = 0xC" | "COLOR_FG LIGHTPURPLE = 0xD" | "COLOR_FG YELLOW = 0xE" | "COLOR_FG WHITE = 0xF"

text \<open>The colours that have a background, plain and blinking.\<close>

definition background_colors :: "color list" where
  "background_colors = [BLACK, BLUE, GREEN, CYAN, RED, PURPLE, BROWN, GRAY]"

definition COLOR_BG :: "color \<Rightarrow> u32 option" where
  "COLOR_BG c = (if c \<in> set background_colors then Some (COLOR_FG c) else None)"

definition COLOR_BG_BLINK :: "color \<Rightarrow> u32 option" where
  "COLOR_BG_BLINK c = map_option (\<lambda>bg. bg AND 0x8) (COLOR_BG c)"

definition COLOR_FG_WHITE :: u32 where "COLOR_FG_WHITE = 0xF"
definition COLOR_BG_RED :: u32 where "COLOR_BG_RED = 0x4"
definition COLOR_BG_GREEN :: u32 where "COLOR_BG_GREEN = 0x2"

lemma colors_in_use: "COLOR_FG WHITE = COLOR_FG_WHITE" "COLOR_BG RED = Some COLOR_BG_RED" "COLOR_BG GREEN = Some COLOR_BG_GREEN"
  by (simp_all add: COLOR_BG_def background_colors_def COLOR_FG_WHITE_def COLOR_BG_RED_def COLOR_BG_GREEN_def)

text \<open>A blinking background is always black and never blinks: the macros mask bit 3 where they mean to set it.\<close>

lemma blink_is_black: "COLOR_BG_BLINK c = Some bg \<Longrightarrow> display_make_color fg bg = ucast fg"
  by (cases c) (simp_all add: COLOR_BG_BLINK_def COLOR_BG_def background_colors_def display_make_color_def)


definition KERNEL_PANIC_MESSAGE :: "u8 list" where
  "KERNEL_PANIC_MESSAGE = ascii ''*** KERNEL PANIC ***'' @ [10]
     @ ascii ''The kernel initiated a panic for the following cause:'' @ [10]"

text \<open>\<open>kernel_panic\<close> does not return: the result is the state in which it spins.\<close>

definition kernel_panic :: "u8 list \<Rightarrow> 'a display_scheme \<Rightarrow> 'a display_scheme" where
  "kernel_panic cause s =
     (let (_, s) = display_change_color (display_make_color COLOR_FG_WHITE COLOR_BG_RED) s;
          s = display_clear s;
          (_, s) = puts KERNEL_PANIC_MESSAGE s;
          (_, s) = puts cause s
      in s)"

definition abort :: "'a display_scheme \<Rightarrow> 'a display_scheme" where
  "abort s = kernel_panic (ascii ''abort() was called'') s"

definition banner :: "u8 list" where
  "banner = concat (map (\<lambda>l. ascii l @ [10])
    [''     __  __________ ______ ________  __                                       '',
     ''    /  '' @ [CHR 0x5C] @ ''/   /_   _// ____// ____/'' @ [CHR 0x5C] @ '' '' @ [CHR 0x5C] @ ''/ / ************************************'',
     ''   / /'' @ [CHR 0x5C] @ ''__/ /  / /  '' @ [CHR 0x5C] @ ''___ '' @ [CHR 0x5C] @ '' '' @ [CHR 0x5C] @ ''__  '' @ [CHR 0x5C] @ ''  /  x86 Microcomputer Operating System *'',
     ''  / /   / /__/ /_ ____/ /____/ /  / /  version 0.0.1_alpha                 *'',
     '' /_/   /_/______//_____//_____/  /_/ ***************************************'',
     ''''])"

section \<open>What is printed\<close>

text \<open>The characters of a text in order, and the part of it that is printed: byte 0xFF, as a signed
  character, is taken for the end-of-file value after it has been written.\<close>

definition put_all :: "u8 list \<Rightarrow> 'a display_scheme \<Rightarrow> 'a display_scheme" where
  "put_all xs s = fold display_write (map scast xs) s"

definition shown :: "u8 list \<Rightarrow> u8 list" where
  "shown xs = (if 255 \<in> set xs then takeWhile (\<lambda>c. c \<noteq> 255) xs @ [255] else xs)"

lemma put_all_simps [simp]:
  "put_all [] s = s" "put_all (c # xs) s = put_all xs (display_write (scast c) s)"
  "put_all (xs @ ys) s = put_all ys (put_all xs s)"
  by (simp_all add: put_all_def)

lemma shown_simps:
  "shown [] = []" "shown (c # xs) = (if c = 255 then [255] else c # shown xs)"
  by (simp_all add: shown_def)

lemma shown_append: "shown (xs @ ys) = (if 255 \<in> set xs then shown xs else xs @ shown ys)"
  by (induction xs) (auto simp: shown_simps)

lemma shown_id: "255 \<notin> set xs \<Longrightarrow> shown xs = xs"
  by (simp add: shown_def)

lemma scast_eof: "(scast (c :: u8) :: i32) = - 1 \<longleftrightarrow> c = 255"
proof
  assume "(scast c :: i32) = - 1"
  then have "(ucast (scast c :: i32) :: u8) = ucast (- 1 :: i32)" by simp
  moreover have "(ucast (scast c :: i32) :: u8) = c" by (rule bit_word_eqI) (auto simp: bit_simps)
  moreover have "(- 1 :: i32) = 0xFFFFFFFF" "(ucast (0xFFFFFFFF :: i32) :: u8) = 255" by simp_all
  ultimately show "c = 255" by metis
qed simp

lemma print_result: "print xs s = (255 \<notin> set xs, put_all (shown xs) s)"
  by (induction xs arbitrary: s) (auto simp: putchar_def EOF_def scast_eof shown_simps)

lemma puts_loop_str_result: "puts_loop_str xs s = put_all xs s"
  by (induction xs arbitrary: s) (simp_all add: putchar_def)

lemma emit_result:
  assumes "unat w + length xs \<le> 0x7FFFFFFF"
  shows "emit xs w s = (if 255 \<in> set xs then None else Some (w + of_nat (length xs)), put_all (shown xs) s)"
proof -
  have w: "w \<le> 0x7FFFFFFF" using assms by (simp add: word_le_nat_alt)
  have "unat (0x7FFFFFFF - w) = 0x7FFFFFFF - unat w" using unat_sub [OF w] by simp
  moreover have "unat (of_nat (length xs) :: u32) = length xs" using assms by (intro unat_of_nat_u32) simp
  ultimately have "\<not> 0x7FFFFFFF - w < of_nat (length xs)" using assms by (simp add: word_less_nat_alt)
  then show ?thesis by (simp add: emit_def INT_MAX_def print_result)
qed

lemma mem_at_bytes: "mem_at m a xs \<Longrightarrow> map (\<lambda>i. m (a + of_nat i)) [0..<length xs] = xs"
  by (rule nth_equalityI) (auto simp: mem_at_def)

lemma emit_number_text:
  assumes "2 \<le> sint base" "sint base \<le> 36"
  shows "emit_number num base w s = Some (emit (number_bytes lettermap (unat base) (unat num)) w s)"
proof -
  define xs where "xs = number_bytes lettermap (unat base) (unat num)"
  obtain m' where m': "itoa 0 num base (s\<lparr>mem := (\<lambda>_. 0)\<rparr>) = Some (int (length xs), s\<lparr>mem := (\<lambda>_. 0)\<rparr>\<lparr>mem := m'\<rparr>)"
    "cstr m' 0 xs"
    using itoa_text [OF assms, of num 0 "s\<lparr>mem := (\<lambda>_. 0)\<rparr>"] unfolding xs_def text_in_buffer_def Let_def by blast
  have "2 \<le> unat base" using base_range [of 36 base] assms by (simp add: word_sless_alt)
  then have "length xs \<le> 32" unfolding xs_def by (rule length_number_bytes_u32)
  then have "unat (word_of_int (int (length xs)) :: u32) = length xs" by simp
  moreover have "map (\<lambda>i. m' (of_nat i)) [0..<length xs] = xs"
    using mem_at_bytes [of m' 0 xs] m'(2) by (simp add: cstr_def mem_at_append)
  ultimately show ?thesis unfolding xs_def [symmetric] using m'(1) by (simp add: emit_number_def del: of_int_of_nat_eq)
qed

lemma number_base_range: "number_base f = Some base \<Longrightarrow> 2 \<le> sint base \<and> sint base \<le> 36"
  by (auto simp: number_base_def split: if_splits)

section \<open>What a format stands for\<close>

text \<open>The radix of each conversion and the digits are listed here on their own, not taken from the code.\<close>

definition radix_of :: "u8 \<Rightarrow> nat option" where
  "radix_of = map_of (zip (ascii ''dioubxX'') [10, 10, 8, 10, 2, 16, 16])"

definition numeral_text :: "nat \<Rightarrow> u32 \<Rightarrow> u8 list" where
  "numeral_text b n = number_bytes (ascii ''0123456789ABCDEFGHIJKLMNOPQRSTUVWXYZ'') b (unat n)"

lemma radix_of_base: "radix_of f = map_option unat (number_base f)"
  by (simp add: radix_of_def number_base_def ascii_def)

lemma numeral_text_digits: "numeral_text b n = number_bytes lettermap b (unat n)"
  by (simp add: numeral_text_def lettermap_def)

lemmas vformat_eval = ascii_def radix_of_def numeral_text_digits

fun vformat :: "u8 list \<Rightarrow> va_arg list \<Rightarrow> u8 list option" where
  "vformat [] args = Some []"
| "vformat [c] args = Some [c]"
| "vformat (c # f # rest) args =
     (if c \<noteq> 37 then map_option (Cons c) (vformat (f # rest) args)
      else if f = 37 then map_option (Cons 37) (vformat rest args)
      else if f = 99 then
        (case args of VaWord n # args' \<Rightarrow> map_option (Cons (ucast n)) (vformat rest args') | _ \<Rightarrow> None)
      else if f = 115 then
        (case args of VaStr str # args' \<Rightarrow> map_option (append str) (vformat rest args') | _ \<Rightarrow> None)
      else case radix_of f of
        Some b \<Rightarrow>
          (case args of
             VaWord n # args' \<Rightarrow> map_option (append (numeral_text b n)) (vformat rest args')
           | _ \<Rightarrow> None)
      | None \<Rightarrow> Some (c # f # rest))"

lemma vformat_literal: "c \<noteq> 37 \<Longrightarrow> vformat (c # rest) args = map_option (Cons c) (vformat rest args)"
  by (cases rest) simp_all

lemma vformat_run: "vformat (takeWhile (\<lambda>c. c \<noteq> 37) rest @ fmt) args
    = map_option (append (takeWhile (\<lambda>c. c \<noteq> 37) rest)) (vformat fmt args)"
  by (induction rest) (auto simp: vformat_literal option.map_comp o_def option.map_id0 [unfolded id_def])

lemma run_split: "takeWhile (\<lambda>c. c \<noteq> 37) rest @ after_run (c # rest) = rest"
  by (simp add: after_run_def)

lemma vformat_percent: "rest \<noteq> [] \<Longrightarrow> hd rest = 37 \<Longrightarrow> vformat (37 # rest) args = map_option (Cons 37) (vformat (tl rest) args)"
  by (cases rest) auto

lemma vformat_literal_run:
  assumes "c \<noteq> 37 \<or> take 1 rest = [37]"
  shows "vformat (c # rest) args = (let fmt = (if c = 37 then rest else c # rest) in
    map_option (append (literal_run fmt)) (vformat (after_run fmt) args))"
proof -
  obtain d ds where d: "(if c = 37 then rest else c # rest) = d # ds" "vformat (c # rest) args = map_option (Cons d) (vformat ds args)"
  proof (cases "c = 37")
    case True
    then obtain ds where "rest = 37 # ds" using assms by (cases rest) auto
    then show thesis using that True by simp
  qed (use that vformat_literal in auto)
  have "vformat ds args = map_option (append (takeWhile (\<lambda>c. c \<noteq> 37) ds)) (vformat (after_run (d # ds)) args)"
    using vformat_run [of ds "after_run (d # ds)" args] by (simp only: run_split)
  then show ?thesis unfolding d by (cases "vformat (after_run (d # ds)) args") (simp_all add: literal_run_def)
qed

lemma vprintf_loop_result:
  assumes "vformat fmt args = Some xs" "unat w + length xs \<le> 0x7FFFFFFF"
  shows "vprintf_loop fmt args w s = Some (if 255 \<in> set xs then - 1 else w + of_nat (length xs), put_all (shown xs) s)"
  using assms
proof (induction fmt args w s arbitrary: xs rule: vprintf_loop.induct)
  case (1 args w s)
  then show ?case by (simp add: shown_simps)
next
  case (2 c rest args w s)
  have step: "vprintf_loop fmt' args' (w + of_nat (length ys)) (put_all ys s)
      = Some (if 255 \<in> set zs then - 1 else w + of_nat (length xs), put_all (shown zs) (put_all ys s))"
    if "xs = ys @ zs" "vformat fmt' args' = Some zs"
      and ih: "\<And>us. vformat fmt' args' = Some us \<Longrightarrow> unat (w + of_nat (length ys)) + length us \<le> 0x7FFFFFFF \<Longrightarrow>
        vprintf_loop fmt' args' (w + of_nat (length ys)) (put_all ys s)
        = Some (if 255 \<in> set us then - 1 else w + of_nat (length ys) + of_nat (length us), put_all (shown us) (put_all ys s))"
    for ys zs fmt' args'
  proof -
    have "unat (w + of_nat (length ys)) = unat w + length ys"
      using "2.prems"(2) that(1) by (intro unat_add_small) simp
    then show ?thesis using ih [OF that(2)] "2.prems"(2) that(1) by (simp add: add.assoc)
  qed
  show ?case
  proof (cases "c \<noteq> 37 \<or> take 1 rest = [37]")
    case True
    define fmt where "fmt = (if c = 37 then rest else c # rest)"
    obtain zs where z: "xs = literal_run fmt @ zs" "vformat (after_run fmt) args = Some zs"
      using "2.prems"(1) vformat_literal_run [OF True, of args] by (auto simp: fmt_def Let_def)
    have e: "emit (literal_run fmt) w s = (if 255 \<in> set (literal_run fmt) then None else Some (w + of_nat (length (literal_run fmt))),
        put_all (shown (literal_run fmt)) s)"
      using "2.prems"(2) z(1) by (intro emit_result) simp
    show ?thesis
    proof (cases "255 \<in> set (literal_run fmt)")
      case T: True
      then show ?thesis using True z(1) e by (simp add: fmt_def [symmetric] shown_append Let_def)
    next
      case F: False
      then have e': "emit (literal_run fmt) w s = (Some (w + of_nat (length (literal_run fmt))), put_all (literal_run fmt) s)"
        using e by (simp add: shown_id)
      show ?thesis using step [OF z, OF "2.IH"(1) [OF True fmt_def e' [symmetric] refl]] True F z(1) e'
        by (simp add: fmt_def [symmetric] shown_append Let_def)
    qed
  next
    case False
    then have c: "c = 37" "take 1 rest \<noteq> [37]" by auto
    obtain fmt' args' ys zs where k: "conversion rest args w s = Some (fmt', args', emit ys w s)"
      "xs = ys @ zs" "vformat fmt' args' = Some zs"
    proof (cases rest)
      case Nil
      then show thesis using that [of "[]" args "[37]" "[]"] "2.prems"(1) c by (simp add: conversion_def)
    next
      case (Cons f rest')
      then show thesis
        using that c "2.prems"(1) number_base_range [of f]
        by (auto simp: conversion_def Let_def emit_number_text radix_of_base numeral_text_digits split: if_splits list.splits va_arg.splits option.splits)
    qed
    have e: "emit ys w s = (if 255 \<in> set ys then None else Some (w + of_nat (length ys)), put_all (shown ys) s)"
      using "2.prems"(2) k(2) by (intro emit_result) simp
    show ?thesis
    proof (cases "255 \<in> set ys")
      case T: True
      then show ?thesis using False k e by (simp add: shown_append)
    next
      case F: False
      then have k': "conversion rest args w s = Some (fmt', args', Some (w + of_nat (length ys)), put_all ys s)"
        using k(1) e by (simp add: shown_id)
      show ?thesis using step [OF k(2,3), OF "2.IH"(2) [OF False k' refl refl refl refl]] False F k(2) k'
        by (simp add: shown_append)
    qed
  qed
qed

lemma put_all_tty:
  "display_ok s \<Longrightarrow> display_ok (put_all xs s) \<and> tty_of (put_all xs s) = fold tty_write (map scast xs) (tty_of s)"
  unfolding put_all_def by (rule disp.fold_spec)

lemma put_all_draws:
  "display_ok s \<Longrightarrow> 8 \<notin> set xs \<Longrightarrow> 9 \<notin> set xs \<Longrightarrow> draws 0 2000 s (put_all xs s)"
proof -
  assume a: "display_ok s" "8 \<notin> set xs" "9 \<notin> set xs"
  have s: "(scast c :: u32) = 8 \<longleftrightarrow> c = 8" "(scast c :: u32) = 9 \<longleftrightarrow> c = 9" for c :: u8
    by (simp_all add: sint_eq_iff [symmetric] sint_up_scast is_up)
  show ?thesis using a disp.fold_put [of s "map scast xs"] by (auto simp: put_all_def list_all_iff s)
qed

lemma puts_result: "puts str s = (of_nat (length str) + 1, put_all (str @ [10]) s)"
  by (simp add: puts_def putchar_def puts_loop_str_result Let_def)

lemma kernel_panic_result:
  "kernel_panic cause s
    = put_all (KERNEL_PANIC_MESSAGE @ [10] @ cause @ [10]) (display_clear (s\<lparr>color_attrib := 0x4F\<rparr>))"
  by (simp add: kernel_panic_def display_change_color_def display_make_color_def COLOR_FG_WHITE_def COLOR_BG_RED_def
      puts_result Let_def)

text \<open>Negative numbers come out as unsigned ones.\<close>

lemma printf_d_is_unsigned:
  assumes "255 \<notin> set (number_bytes lettermap 10 (unat n))"
  shows "printf ''%d'' [VaWord n] s
    = Some (of_nat (length (number_bytes lettermap 10 (unat n))), put_all (number_bytes lettermap 10 (unat n)) s)"
proof -
  have f: "vformat (ascii ''%d'') [VaWord n] = Some (number_bytes lettermap 10 (unat n))"
    by (simp add: vformat_eval)
  have "length (number_bytes lettermap 10 (unat n)) \<le> 32" by (rule length_number_bytes_u32) simp
  then have "unat (0 :: u32) + length (number_bytes lettermap 10 (unat n)) \<le> 0x7FFFFFFF" by simp
  from vprintf_loop_result [OF f this, of s] show ?thesis using assms
    by (simp add: printf_def vprintf_def shown_id)
qed

section \<open>Properties\<close>

text \<open>C12: \<open>vprintf\<close> returns on every format whose arguments match and, up to \<open>INT_MAX\<close>
  characters, prints exactly the text the format stands for and returns its length; if the text has
  the byte 0xFF, it stops after that byte and returns -1. The terminal shows what the display
  specification says of the printed characters.\<close>
theorem vprintf_correct:
  assumes "vformat fmt args = Some xs" "length xs \<le> 0x7FFFFFFF" "display_ok s"
  shows "\<exists>s'. vprintf fmt args s = Some (if 255 \<in> set xs then - 1 else of_nat (length xs), s')
    \<and> display_ok s' \<and> tty_of s' = fold tty_write (map scast (shown xs)) (tty_of s)"
proof -
  have "vprintf fmt args s = Some (if 255 \<in> set xs then - 1 else of_nat (length xs), put_all (shown xs) s)"
    using vprintf_loop_result [OF assms(1), of 0 s] assms(2) by (simp add: vprintf_def)
  then show ?thesis using put_all_tty [OF assms(3)] by blast
qed

lemma vprintf_correct_witness:
  "\<exists>s'. vprintf (ascii ''%s%%%x'') [VaStr (ascii ''ab''), VaWord 255] (display_at 0 0) = Some (5, s')
    \<and> display_ok s' \<and> tty_of s' = fold tty_write [97, 98, 37, 70, 70] (tty_of (display_at 0 0))"
proof -
  have n: "number_bytes lettermap 16 255 = [70, 70]"
    by (simp add: number_bytes.simps lettermap_def ascii_def)
  have f: "vformat (ascii ''%s%%%x'') [VaStr (ascii ''ab''), VaWord 255] = Some [97, 98, 37, 70, 70]"
    by (simp add: vformat_eval n)
  have "display_ok (display_at 0 0)" by (simp add: display_at_def display_ok_def)
  from vprintf_correct [OF f _ this] show ?thesis by (simp add: shown_id)
qed

text \<open>A kernel panic shows its message and the cause, white on red, on a cleared screen, whatever
  the display showed before.\<close>
theorem kernel_panic_screen:
  "tty_of (kernel_panic cause s) = fold tty_write (map scast (KERNEL_PANIC_MESSAGE @ [10] @ cause @ [10]))
     (tty_show \<lparr>cells = replicate 2000 0x4F20, pos = 0, attr = 0x4F\<rparr>)"
proof -
  have "blank (s\<lparr>color_attrib := 0x4F\<rparr>) = 0x4F20" by (simp add: blank_def CLEAR_SCREEN_CHAR_def)
  then show ?thesis
    using display_clear_result(1) [of "s\<lparr>color_attrib := 0x4F\<rparr>"]
      put_all_tty [OF display_clear_result(3) [of "s\<lparr>color_attrib := 0x4F\<rparr>"],
        of "KERNEL_PANIC_MESSAGE @ [10] @ cause @ [10]"]
    unfolding kernel_panic_result by (simp del: put_all_simps)
qed

end
