(* ===== verification/Chrdev.thy ===== *)
theory Chrdev
  imports Cpu Stdio
begin

text \<open>
  The registry of character devices, kernel/kernel/chrdev.c: a list of inodes in memory, the first one a
  static variable at the address \<open>base_inode\<close>, the others from \<open>malloc\<close>. Device descriptors are
  addresses; the functions of a device are called through a function \<open>code\<close> of their addresses. \<open>None\<close> is
  a loop that does not end, a page fault below \<open>malloc\<close>, or the missing return value of \<open>read_device_char\<close>.
\<close>

record chrdev = cpu_driver +
  base_inode :: u32
  current_inode :: u32
  current_inode_number :: i32
  minor_revision_number :: i32

definition CHRDEV_INODE_BASE :: i32 where "CHRDEV_INODE_BASE = 1"

text \<open>The fields of an inode (12 bytes) and of a device descriptor (36 bytes).\<close>

definition inode_number :: "u32 \<Rightarrow> u32" where "inode_number n = n"
definition inode_descriptor :: "u32 \<Rightarrow> u32" where "inode_descriptor n = n + 4"
definition inode_next :: "u32 \<Rightarrow> u32" where "inode_next n = n + 8"
definition INODE_SIZE :: u32 where "INODE_SIZE = 12"

definition dev_descriptor :: "u32 \<Rightarrow> u32" where "dev_descriptor d = d"
definition dev_major :: "u32 \<Rightarrow> u32" where "dev_major d = d + 4"
definition dev_minor :: "u32 \<Rightarrow> u32" where "dev_minor d = d + 8"
definition dev_readchar :: "u32 \<Rightarrow> u32" where "dev_readchar d = d + 16"
definition dev_read :: "u32 \<Rightarrow> u32" where "dev_read d = d + 20"
definition dev_write :: "u32 \<Rightarrow> u32" where "dev_write d = d + 24"
definition dev_open :: "u32 \<Rightarrow> u32" where "dev_open d = d + 28"
definition dev_close :: "u32 \<Rightarrow> u32" where "dev_close d = d + 32"
definition DEVICE_SIZE :: u32 where "DEVICE_SIZE = 36"

lemmas inode_fields = inode_number_def inode_descriptor_def inode_next_def INODE_SIZE_def
lemmas dev_fields = dev_descriptor_def dev_major_def dev_minor_def dev_readchar_def dev_read_def dev_write_def
  dev_open_def dev_close_def DEVICE_SIZE_def

section \<open>Operations\<close>

definition poke :: "u32 \<Rightarrow> u32 \<Rightarrow> 'a machine_scheme \<Rightarrow> 'a machine_scheme" where
  "poke a v s = s\<lparr>mem := store32 (mem s) a v\<rparr>"

definition new_inode :: "'a chrdev_scheme \<Rightarrow> (u32 \<times> 'a chrdev_scheme) option" where
  "new_inode s =
     (if current_inode s = 0 then
        (let s = s\<lparr>current_inode := base_inode s\<rparr>;
             s = poke (inode_next (current_inode s)) 0 s
         in Some (current_inode s, s))
      else do {
        (p, s) \<leftarrow> malloc INODE_SIZE s;
        let s = poke (inode_next (current_inode s)) p s;
        if load32 (mem s) (inode_next (current_inode s)) = 0 then Some (0, s)
        else do {
          let s = s\<lparr>current_inode := load32 (mem s) (inode_next (current_inode s))\<rparr>;
          let s = poke (inode_next (current_inode s)) 0 s;
          Some (current_inode s, s)
        }
      })"

definition INODE_MESSAGE :: "u8 list" where
  "INODE_MESSAGE = ascii ''got inode address 0x%x'' @ [10]"

definition register_device :: "u32 \<Rightarrow> 'a chrdev_scheme \<Rightarrow> (i32 \<times> 'a chrdev_scheme) option" where
  "register_device device_descriptor s = do {
     (current, s) \<leftarrow> new_inode s;
     (_, s) \<leftarrow> vprintf INODE_MESSAGE [VaWord current] s;
     if current = 0 then Some (- 1, s\<lparr>errno := ENOMEM\<rparr>)
     else do {
       let s = poke (inode_descriptor current) device_descriptor s;
       let s = poke (inode_number current) (current_inode_number s) s;
       let s = s\<lparr>current_inode_number := current_inode_number s + 1\<rparr>;
       let s = poke (dev_descriptor device_descriptor) (load32 (mem s) (inode_number current)) s;
       let s = poke (dev_minor device_descriptor) (minor_revision_number s) s;
       let s = s\<lparr>minor_revision_number := minor_revision_number s + 1\<rparr>;
       Some (load32 (mem s) (inode_number current), s)
     }
   }"

partial_function (option) find_loop :: "i32 \<Rightarrow> u32 \<Rightarrow> memory \<Rightarrow> u32 option" where
  "find_loop descriptor current m =
     (if current \<noteq> 0 then
        (if load32 m (inode_number current) = descriptor then Some current
         else find_loop descriptor (load32 m (inode_next current)) m)
      else Some 0)"

definition find_device_inode :: "i32 \<Rightarrow> 'a chrdev_scheme \<Rightarrow> u32 option" where
  "find_device_inode descriptor s = find_loop descriptor (base_inode s) (mem s)"

definition read_device_char ::
  "(u32 \<Rightarrow> 'a chrdev_scheme \<Rightarrow> (i32 \<times> 'a chrdev_scheme) option) \<Rightarrow> i32 \<Rightarrow> 'a chrdev_scheme \<Rightarrow> (i32 \<times> 'a chrdev_scheme) option" where
  "read_device_char code descriptor s = do {
     inode \<leftarrow> find_device_inode descriptor s;
     let readchar = load32 (mem s) (dev_readchar (load32 (mem s) (inode_descriptor inode)));
     if inode \<noteq> 0 \<and> readchar \<noteq> 0 then code readchar s else None
   }"

definition write_device ::
  "(u32 \<Rightarrow> u32 \<Rightarrow> u32 \<Rightarrow> 'a chrdev_scheme \<Rightarrow> (i32 \<times> 'a chrdev_scheme) option)
   \<Rightarrow> i32 \<Rightarrow> u32 \<Rightarrow> u32 \<Rightarrow> 'a chrdev_scheme \<Rightarrow> (i32 \<times> 'a chrdev_scheme) option" where
  "write_device code descriptor buffer len s = do {
     inode \<leftarrow> find_device_inode descriptor s;
     let write = load32 (mem s) (dev_write (load32 (mem s) (inode_descriptor inode)));
     if inode \<noteq> 0 \<and> write \<noteq> 0 then code write buffer len s else Some (- 1, s)
   }"

section \<open>The registry\<close>

fun inode_list :: "memory \<Rightarrow> u32 \<Rightarrow> u32 list \<Rightarrow> bool" where
  "inode_list m a [] \<longleftrightarrow> a = 0"
| "inode_list m a (n # ns) \<longleftrightarrow> a = n \<and> n \<noteq> 0 \<and> inode_list m (load32 m (inode_next n)) ns"

lemma find_loop_list:
  "inode_list m a ns \<Longrightarrow> find_loop d a m = Some (case List.find (\<lambda>n. load32 m (inode_number n) = d) ns of Some n \<Rightarrow> n | None \<Rightarrow> 0)"
  by (induction ns arbitrary: a) (simp_all add: find_loop.simps)

lemma inode_list_nonnull: "inode_list m a ns \<Longrightarrow> 0 \<notin> set ns"
  by (induction ns arbitrary: a) auto

lemma inode_list_frame:
  assumes "inode_list m a ns" "\<And>n. n \<in> set ns \<Longrightarrow> load32 m' (inode_next n) = load32 m (inode_next n)"
  shows "inode_list m' a ns"
  using assms by (induction ns arbitrary: a) simp_all

text \<open>Appending: the last inode points to the new one.\<close>

lemma inode_list_append:
  assumes "inode_list m a ns" "ns \<noteq> []" "p \<noteq> 0" "distinct ns"
    and "\<And>n. n \<in> set ns \<Longrightarrow> n \<noteq> last ns \<Longrightarrow> load32 m' (inode_next n) = load32 m (inode_next n)"
    and "load32 m' (inode_next (last ns)) = p" "load32 m' (inode_next p) = 0"
  shows "inode_list m' a (ns @ [p])"
  using assms
proof (induction ns arbitrary: a)
  case (Cons n ns)
  show ?case
  proof (cases "ns = []")
    case True
    then show ?thesis using Cons.prems by simp
  next
    case False
    then have "n \<noteq> last ns" using Cons.prems(4) by auto
    then show ?thesis using Cons False by simp
  qed
qed simp

definition separated :: "u32 \<Rightarrow> nat \<Rightarrow> u32 \<Rightarrow> nat \<Rightarrow> bool" where
  "separated a n b k \<longleftrightarrow> (\<forall>x. \<not> (in_region a n x \<and> in_region b k x))"

lemma separated_sym: "separated a n b k \<Longrightarrow> separated b k a n"
  by (auto simp: separated_def)

lemma separated_words:
  assumes "separated a n b k" "i + 4 \<le> n" "j + 4 \<le> k" "n \<le> 2 ^ 32" "k \<le> 2 ^ 32"
  shows "apart (a + of_nat i) (b + of_nat j)"
proof (rule ccontr)
  let ?a = "a + of_nat i" and ?b = "b + of_nat j"
  assume "\<not> apart ?a ?b"
  then consider "in_region ?b 4 ?a" | "in_region ?a 4 ?b" by (auto simp: apart_def in_region_def)
  then show False
  proof cases
    case 1
    then have "in_region b k ?a" using sub_region assms(3,5) by blast
    moreover have "in_region a n ?a" using assms(2,4) by (intro in_regionI) auto
    ultimately show False using assms(1) by (auto simp: separated_def)
  next
    case 2
    then have "in_region a n ?b" using sub_region assms(2,4) by blast
    moreover have "in_region b k ?b" using assms(3,5) by (intro in_regionI) auto
    ultimately show False using assms(1) by (auto simp: separated_def)
  qed
qed

abbreviation on_screen :: "u32 \<Rightarrow> bool" where "on_screen x \<equiv> in_region 0xB8000 4000 x"

definition registry :: "'a chrdev_scheme \<Rightarrow> u32 list \<Rightarrow> bool" where
  "registry s ns \<longleftrightarrow>
     (if ns = [] then current_inode s = 0 else inode_list (mem s) (base_inode s) ns \<and> current_inode s = last ns)
     \<and> base_inode s \<noteq> 0 \<and> current_inode_number s = of_nat (Suc (length ns))
     \<and> map (\<lambda>n. load32 (mem s) (inode_number n)) ns = map of_nat [1..<Suc (length ns)]
     \<and> sorted_wrt (\<lambda>a b. separated a 12 b 12) ns
     \<and> (\<forall>n \<in> insert (base_inode s) (set ns). \<forall>x. in_region n 12 x \<longrightarrow> \<not> free_byte s x \<and> \<not> on_screen x)"

lemma separated_self: "0 < n \<Longrightarrow> \<not> separated a n a k \<or> k = 0"
  by (auto simp: separated_def in_region_def intro: exI [of _ a])

lemma separated_distinct: "sorted_wrt (\<lambda>a b. separated a 12 b 12) ns \<Longrightarrow> distinct ns"
  using separated_self [of 12 _ 12] by (induction ns) auto

lemma separated_members:
  assumes "sorted_wrt (\<lambda>a b. separated a 12 b 12) ns" "a \<in> set ns" "b \<in> set ns" "a \<noteq> b"
  shows "separated a 12 b 12"
  using assms separated_sym by (induction ns) auto

section \<open>The message\<close>

definition inode_text :: "u32 \<Rightarrow> u8 list" where
  "inode_text v = ascii ''got inode address 0x'' @ number_bytes lettermap 16 (unat v) @ [10]"

lemma inode_text_format: "vformat INODE_MESSAGE [VaWord v] = Some (inode_text v)"
  by (simp add: INODE_MESSAGE_def inode_text_def vformat_eval)

lemma inode_text_plain: "8 \<notin> set (inode_text v)" "9 \<notin> set (inode_text v)" "255 \<notin> set (inode_text v)" "length (inode_text v) \<le> 60"
proof -
  have "set (number_bytes lettermap 16 (unat v)) \<subseteq> set lettermap"
    by (rule set_number_bytes) (simp_all add: lettermap_def ascii_def)
  then show "8 \<notin> set (inode_text v)" "9 \<notin> set (inode_text v)" "255 \<notin> set (inode_text v)"
    by (auto simp: inode_text_def ascii_def lettermap_def)
  have "length (number_bytes lettermap 16 (unat v)) \<le> 32" by (rule length_number_bytes_u32) simp
  then show "length (inode_text v) \<le> 60" by (simp add: inode_text_def ascii_def)
qed

lemma message_result:
  assumes "display_ok s"
  shows "\<exists>r m x y. vprintf INODE_MESSAGE [VaWord v] s = Some (r, s\<lparr>mem := m, x_loc := x, y_loc := y\<rparr>)
    \<and> (\<forall>a. \<not> on_screen a \<longrightarrow> m a = mem s a)"
proof -
  have "vprintf INODE_MESSAGE [VaWord v] s = Some (of_nat (length (inode_text v)), put_all (inode_text v) s)"
    using vprintf_loop_result [OF inode_text_format, of 0 v s] inode_text_plain [of v] by (simp add: vprintf_def shown_id)
  moreover have "draws 0 2000 s (put_all (inode_text v) s)"
    by (rule put_all_draws [OF assms]) (rule inode_text_plain)+
  ultimately show ?thesis
    by (auto simp: draws_def same_outside_cells_def outside_cells_def cell_addr_def VIDEO_MEMORY_def)
qed

section \<open>Registering\<close>

definition block_ok :: "'a chrdev_scheme \<Rightarrow> u32 \<Rightarrow> nat \<Rightarrow> bool" where
  "block_ok s a n \<longleftrightarrow> (\<forall>x. in_region a n x \<longrightarrow> \<not> free_byte s x \<and> \<not> on_screen x)"

lemma new_inode_first:
  assumes "registry s []"
  shows "new_inode s = Some (base_inode s, s\<lparr>current_inode := base_inode s, mem := store32 (mem s) (base_inode s + 8) 0\<rparr>)"
  using assms by (simp add: registry_def new_inode_def poke_def inode_next_def Let_def)

lemma new_inode_next:
  assumes "registry s ns" "ns \<noteq> []" "has_block 12 s" "\<And>x. on_screen x \<Longrightarrow> \<not> free_byte s x"
  shows "\<exists>p m f. new_inode s = Some (p, s\<lparr>mem := store32 (store32 m (last ns + 8) p) (p + 8) 0, next_free := f, current_inode := p\<rparr>)
    \<and> p \<noteq> 0 \<and> heap_list (s\<lparr>mem := m, next_free := f\<rparr>)
    \<and> (\<forall>x. in_region p 12 x \<longrightarrow> free_byte s x \<and> \<not> free_byte (s\<lparr>mem := m, next_free := f\<rparr>) x)
    \<and> (\<forall>x. \<not> free_byte s x \<longrightarrow> \<not> free_byte (s\<lparr>mem := m, next_free := f\<rparr>) x \<and> m x = mem s x)"
proof -
  obtain p s1 where s1: "malloc 12 s = Some (p, s1)" using heap.grant [OF assms(3)] by blast
  note G = heap.granted [OF assms(3) s1]
  obtain m f where mf: "s1 = s\<lparr>mem := m, next_free := f\<rparr>" using G(2) by (auto simp: heap_change_def)
  have c: "current_inode s = last ns" "inode_list (mem s) (base_inode s) ns" using assms(1,2) by (simp_all add: registry_def)
  then have "current_inode s \<noteq> 0" using inode_list_nonnull last_in_set [OF assms(2)] by metis
  have "new_inode s = Some (p, s\<lparr>mem := store32 (store32 m (last ns + 8) p) (p + 8) 0, next_free := f, current_inode := p\<rparr>)"
    using c(1) \<open>current_inode s \<noteq> 0\<close> s1 G(1) by (simp add: new_inode_def inode_fields poke_def Let_def mf load32_store32_same)
  then show ?thesis using G mf by (intro exI [of _ p] exI [of _ m] exI [of _ f]) simp
qed

text \<open>What the two cases have in common: the list is one longer, its new inode \<open>p\<close> is not free, and memory in use is kept.\<close>

definition new_block :: "'a chrdev_scheme \<Rightarrow> u32 list \<Rightarrow> u32 \<Rightarrow> 'a chrdev_scheme \<Rightarrow> bool" where
  "new_block s ns p s' \<longleftrightarrow> inode_list (mem s') (base_inode s) (ns @ [p]) \<and> heap_list s'
     \<and> (\<exists>m f. s' = s\<lparr>mem := m, next_free := f, current_inode := p\<rparr>)
     \<and> (\<forall>x. in_region p 12 x \<longrightarrow> \<not> free_byte s' x \<and> \<not> on_screen x \<and> (p = base_inode s \<or> free_byte s x))
     \<and> (\<forall>n \<in> set ns. separated n 12 p 12 \<and> load32 (mem s') n = load32 (mem s) n \<and> load32 (mem s') (n + 4) = load32 (mem s) (n + 4))
     \<and> (\<forall>x. \<not> free_byte s x \<longrightarrow> \<not> free_byte s' x)"

lemma region_word: "in_region a 4 x \<Longrightarrow> 4 \<le> n \<Longrightarrow> in_region a n x"
  by (simp add: in_region_def)

lemma new_inode_result_first:
  assumes "registry s []" "heap_list s"
  shows "\<exists>p s'. new_inode s = Some (p, s') \<and> new_block s [] p s'"
proof -
  let ?b = "base_inode s"
  let ?s = "s\<lparr>current_inode := ?b, mem := store32 (mem s) (?b + 8) 0\<rparr>"
  have b: "\<not> free_byte s x \<and> \<not> on_screen x" if "in_region ?b 12 x" for x using assms(1) that by (simp add: registry_def)
  have u: "mem ?s x = mem s x" if "free_byte s x" for x
    using b [of x] sub_region [of ?b 8 4 x 12] that by (auto intro!: store32_region)
  have nf: "next_free ?s = next_free s" by simp
  note H = heap_list_frame [OF assms(2) nf u]
  have "?b \<noteq> 0" using assms(1) by (simp add: registry_def)
  then have "inode_list (mem ?s) ?b ([] @ [?b])" by (simp add: inode_fields load32_store32_same)
  moreover have "\<exists>m f. ?s = s\<lparr>mem := m, next_free := f, current_inode := ?b\<rparr>"
    by (intro exI [of _ "mem ?s"] exI [of _ "next_free s"]) simp
  ultimately have "new_block s [] ?b ?s" using H b by (simp add: new_block_def)
  then show ?thesis using new_inode_first [OF assms(1)] by blast
qed

lemma new_inode_result_next:
  assumes "registry s ns" "ns \<noteq> []" "has_block 12 s" "\<And>x. on_screen x \<Longrightarrow> \<not> free_byte s x"
  shows "\<exists>p s'. new_inode s = Some (p, s') \<and> new_block s ns p s'"
proof -
  obtain p m f where new: "new_inode s = Some (p, s\<lparr>mem := store32 (store32 m (last ns + 8) p) (p + 8) 0, next_free := f, current_inode := p\<rparr>)"
    and p: "p \<noteq> 0" and hl: "heap_list (s\<lparr>mem := m, next_free := f\<rparr>)"
    and pr: "\<And>x. in_region p 12 x \<Longrightarrow> free_byte s x \<and> \<not> free_byte (s\<lparr>mem := m, next_free := f\<rparr>) x"
    and kept: "\<And>x. \<not> free_byte s x \<Longrightarrow> \<not> free_byte (s\<lparr>mem := m, next_free := f\<rparr>) x \<and> m x = mem s x"
    using new_inode_next [OF assms] by blast
  let ?l = "last ns"
  let ?m = "store32 (store32 m (?l + 8) p) (p + 8) 0"
  let ?s1 = "s\<lparr>mem := m, next_free := f\<rparr>" and ?s' = "s\<lparr>mem := ?m, next_free := f, current_inode := p\<rparr>"
  have l: "?l \<in> set ns" using assms(2) by simp
  have R: "inode_list (mem s) (base_inode s) ns" "sorted_wrt (\<lambda>a b. separated a 12 b 12) ns"
    using assms(1,2) by (simp_all add: registry_def)
  have blk: "\<not> free_byte s x" "\<not> on_screen x" if "n \<in> set ns" "in_region n 12 x" for n x
    using assms(1) that by (auto simp: registry_def)
  have sep: "separated n 12 p 12" if "n \<in> set ns" for n using blk(1) [OF that] pr by (auto simp: separated_def)
  have inner: "in_region n 12 x" if "in_region (n + of_nat k) 4 x" "k + 4 \<le> 12" for n k x using sub_region [OF that] by simp
  have word: "load32 m (n + of_nat k) = load32 (mem s) (n + of_nat k)" if "n \<in> set ns" "k + 4 \<le> 12" for n k
    by (rule load32_region) (use kept blk(1) [OF that(1)] inner that(2) in blast)
  have far: "apart (p + 8) (n + of_nat k)" if "n \<in> set ns" "k + 4 \<le> 12" for n k
    using separated_words [OF separated_sym [OF sep [OF that(1)]], of 8 k] that(2) by simp
  have other: "load32 ?m (n + of_nat k) = load32 (mem s) (n + of_nat k)" if "n \<in> set ns" "k + 4 \<le> 12" "n \<noteq> ?l \<or> k + 4 \<le> 8" for n k
  proof -
    have "apart (?l + 8) (n + of_nat k)"
    proof (cases "n = ?l")
      case True
      then have "k = 0 \<or> k = 1 \<or> k = 2 \<or> k = 3 \<or> k = 4" using that(3) by auto
      then show ?thesis using True by (auto simp: apart_def)
    next
      case False
      then show ?thesis using separated_words [OF separated_members [OF R(2) l that(1)], of 8 k] that(2) by simp
    qed
    then show ?thesis using far [OF that(1,2)] word [OF that(1,2)] by (simp add: load32_store32_apart)
  qed
  have far8: "apart (p + 8) (?l + 8)" using far [OF l, of 8] by simp
  have "inode_list ?m (base_inode s) (ns @ [p])"
  proof (rule inode_list_append [OF R(1) assms(2) p separated_distinct [OF R(2)]])
    fix n assume "n \<in> set ns" "n \<noteq> ?l"
    then show "load32 ?m (inode_next n) = load32 (mem s) (inode_next n)" using other [of n 8] by (simp add: inode_next_def)
  qed (simp_all add: inode_next_def load32_store32_same load32_store32_apart far8)
  moreover have "heap_list ?s' \<and> (\<forall>x. free_byte ?s' x = free_byte ?s1 x)"
  proof -
    have u: "mem ?s' x = mem ?s1 x" if "free_byte ?s1 x" for x
    proof -
      have "\<not> in_region (p + 8) 4 x" using pr inner [of p 8 x] that by auto
      moreover have "\<not> in_region (?l + 8) 4 x" using kept blk(1) [OF l] inner [of ?l 8 x] that by auto
      ultimately show ?thesis by (simp add: store32_region)
    qed
    have nf: "next_free ?s' = next_free ?s1" by simp
    show ?thesis using heap_list_frame [OF hl nf u] by blast
  qed
  moreover have "load32 ?m n = load32 (mem s) n \<and> load32 ?m (n + 4) = load32 (mem s) (n + 4)" if "n \<in> set ns" for n
    using other [of n 0] other [of n 4] that by simp
  moreover have "\<not> on_screen x" if "in_region p 12 x" for x using pr [OF that] assms(4) by blast
  ultimately have "new_block s ns p ?s'"
    unfolding new_block_def using pr kept sep by auto
  then show ?thesis using new by blast
qed

lemma register_result:
  assumes "registry s ns" "new_inode s = Some (p, s1)" "new_block s ns p s1" "display_ok s" "\<And>x. on_screen x \<Longrightarrow> \<not> free_byte s x"
    and "block_ok s d 36" "\<And>n. n \<in> insert (base_inode s) (set ns) \<Longrightarrow> separated n 12 d 36"
  shows "\<exists>s'. register_device d s = Some (of_nat (Suc (length ns)), s') \<and> registry s' (ns @ [p]) \<and> base_inode s' = base_inode s
    \<and> load32 (mem s') (p + 4) = d \<and> load32 (mem s') d = of_nat (Suc (length ns))
    \<and> (\<forall>n \<in> set ns. load32 (mem s') (n + 4) = load32 (mem s) (n + 4))"
proof -
  obtain m1 f where s1: "s1 = s\<lparr>mem := m1, next_free := f, current_inode := p\<rparr>" using assms(3) by (auto simp: new_block_def)
  have N: "inode_list m1 (base_inode s) (ns @ [p])" "heap_list s1"
      "\<And>x. in_region p 12 x \<Longrightarrow> \<not> free_byte s1 x \<and> \<not> on_screen x \<and> (p = base_inode s \<or> free_byte s x)"
      "\<And>n. n \<in> set ns \<Longrightarrow> separated n 12 p 12 \<and> load32 m1 n = load32 (mem s) n \<and> load32 m1 (n + 4) = load32 (mem s) (n + 4)"
      "\<And>x. \<not> free_byte s x \<Longrightarrow> \<not> free_byte s1 x"
    using assms(3) unfolding new_block_def by (auto simp: s1)
  have R: "base_inode s \<noteq> 0" "current_inode_number s = of_nat (Suc (length ns))"
      "map (\<lambda>n. load32 (mem s) (inode_number n)) ns = map of_nat [1..<Suc (length ns)]"
      "sorted_wrt (\<lambda>a b. separated a 12 b 12) ns"
      "\<And>n x. n \<in> insert (base_inode s) (set ns) \<Longrightarrow> in_region n 12 x \<Longrightarrow> \<not> free_byte s x \<and> \<not> on_screen x"
    using assms(1) unfolding registry_def by blast+
  have p0: "p \<noteq> 0" using inode_list_nonnull [OF N(1)] by auto
  have d1: "display_ok s1" using assms(4) by (simp add: display_ok_def s1)
  obtain r m2 x y where msg: "vprintf INODE_MESSAGE [VaWord p] s1 = Some (r, s1\<lparr>mem := m2, x_loc := x, y_loc := y\<rparr>)"
      and scr: "\<And>a. \<not> on_screen a \<Longrightarrow> m2 a = m1 a"
    using message_result [OF d1, of p] by (auto simp: s1)
  define num :: u32 where "num = of_nat (Suc (length ns))"
  define m3 where "m3 = store32 (store32 m2 (p + 4) d) p num"
  define m4 where "m4 = store32 (store32 m3 d num) (d + 8) (minor_revision_number s)"
  define s' where "s' = s1\<lparr>mem := m4, x_loc := x, y_loc := y, current_inode_number := num + 1, minor_revision_number := minor_revision_number s + 1\<rparr>"
  have sepd: "separated p 12 d 36"
  proof (cases "p = base_inode s")
    case False
    then show ?thesis using N(3) assms(6) by (auto simp: separated_def block_ok_def)
  qed (use assms(7) in simp)
  have far: "apart (n + of_nat i) (d + of_nat j)" "apart (d + of_nat j) (n + of_nat i)"
    if "n \<in> insert p (set ns)" "i + 4 \<le> 12" "j + 4 \<le> 36" for n i j
    using separated_words [of n 12 d 36 i j] sepd assms(7) that by (auto simp: apart_def)
  have own: "apart (p + 4) p" "apart p (p + 4)" "apart (p + 4) (p + 8)" "apart p (p + 8)" by (simp_all add: apart_def)
  have pd: "apart d p" "apart (d + 8) p" "apart d (p + 4)" "apart (d + 8) (p + 4)" "apart d (p + 8)" "apart (d + 8) (p + 8)" "apart (d + 8) d"
    using far(2) [of p 0 0] far(2) [of p 0 8] far(2) [of p 4 0] far(2) [of p 4 8] far(2) [of p 8 0] far(2) [of p 8 8]
    by (simp_all add: apart_def)
  have reg: "register_device d s = Some (num, s')"
    unfolding register_device_def assms(2)
    by (simp add: msg [unfolded s1] p0 poke_def inode_fields dev_fields Let_def load32_store32_same load32_store32_apart pd
        s'_def m4_def m3_def s1 R(2) num_def)
  have words_m2: "load32 m2 (n + of_nat k) = load32 m1 (n + of_nat k)" if "n \<in> insert p (set ns)" "k + 4 \<le> 12" for n k
  proof (rule load32_region)
    fix x assume "in_region (n + of_nat k) 4 x"
    then have "in_region n 12 x" using sub_region that(2) by simp
    then show "m2 x = m1 x" using that(1) N(3) R(5) scr by blast
  qed
  have word_p: "load32 m4 p = num" "load32 m4 (p + 4) = d" "load32 m4 (p + 8) = load32 m1 (p + 8)" "load32 m4 d = num"
    using words_m2 [of p 8] by (simp_all add: m4_def m3_def load32_store32_same load32_store32_apart pd own)
  have word_n: "load32 m4 (n + of_nat k) = load32 m1 (n + of_nat k)" if "n \<in> set ns" "k + 4 \<le> 12" for n k
  proof -
    have "apart p (n + of_nat k)" "apart (p + 4) (n + of_nat k)"
      using separated_words [of p 12 n 12 0 k] separated_words [of p 12 n 12 4 k] separated_sym N(4) [OF that(1)] that(2) by auto
    moreover have "apart d (n + of_nat k)" "apart (d + 8) (n + of_nat k)"
      using far(2) [of n k 0] far(2) [of n k 8] that by auto
    ultimately show ?thesis using words_m2 [of n k] that by (simp add: m4_def m3_def load32_store32_apart)
  qed
  have untouched: "m4 a = m1 a" if "\<not> in_region p 12 a" "\<not> in_region d 36 a" "\<not> on_screen a" for a
  proof -
    have "\<not> in_region p 4 a" "\<not> in_region (p + 4) 4 a" "\<not> in_region d 4 a" "\<not> in_region (d + 8) 4 a"
      using that region_word [of p a 12] region_word [of d a 36] sub_region [of p 4 4 a 12] sub_region [of d 8 4 a 36] by auto
    then show ?thesis using scr [OF that(3)] by (simp add: m4_def m3_def store32_region)
  qed
  have nf: "next_free s' = next_free s1" by (simp add: s'_def)
  have fb: "free_byte s' x = free_byte s1 x" for x
  proof (rule heap_list_frame(2) [OF N(2) nf])
    fix x assume x: "free_byte s1 x"
    then have "free_byte s x" using N(5) by blast
    then have "m4 x = m1 x" using untouched [of x] x N(3) assms(5,6) unfolding block_ok_def by blast
    then show "mem s' x = mem s1 x" by (simp add: s'_def s1)
  qed
  have "registry s' (ns @ [p])"
    unfolding registry_def
  proof (intro conjI)
    have "inode_list m4 (base_inode s) (ns @ [p])"
      by (rule inode_list_frame [OF N(1)]) (use word_n [of _ 8] word_p in \<open>auto simp: inode_next_def\<close>)
    then show "if ns @ [p] = [] then current_inode s' = 0 else inode_list (mem s') (base_inode s') (ns @ [p]) \<and> current_inode s' = last (ns @ [p])"
      by (simp add: s'_def s1)
    have "load32 m4 n = load32 (mem s) n" if "n \<in> set ns" for n using word_n [OF that, of 0] N(4) [OF that] by simp
    then have "map (load32 m4) ns = map of_nat [1..<Suc (length ns)]" using R(3) by (simp add: inode_number_def del: upt_Suc cong: map_cong)
    moreover have "[1..<Suc (length (ns @ [p]))] = [1..<Suc (length ns)] @ [Suc (length ns)]" by simp
    ultimately show "map (\<lambda>n. load32 (mem s') (inode_number n)) (ns @ [p]) = map of_nat [1..<Suc (length (ns @ [p]))]"
      using word_p(1) by (simp add: s'_def inode_number_def num_def del: upt_Suc)
    show "sorted_wrt (\<lambda>a b. separated a 12 b 12) (ns @ [p])" using R(4) N(4) by (simp add: sorted_wrt_append)
    show "\<forall>n \<in> insert (base_inode s') (set (ns @ [p])). \<forall>x. in_region n 12 x \<longrightarrow> \<not> free_byte s' x \<and> \<not> on_screen x"
    proof (intro ballI allI impI)
      fix n x assume n: "n \<in> insert (base_inode s') (set (ns @ [p]))" and x: "in_region n 12 x"
      have "base_inode s' = base_inode s" by (simp add: s'_def s1)
      then have "n = p \<or> n \<in> insert (base_inode s) (set ns)" using n by auto
      then show "\<not> free_byte s' x \<and> \<not> on_screen x" unfolding fb using R(5) N(3,5) x by blast
    qed
  qed (simp_all add: s'_def s1 R(1) num_def)
  moreover have "load32 m4 (n + 4) = load32 (mem s) (n + 4)" if "n \<in> set ns" for n using word_n [OF that, of 4] N(4) [OF that] by simp
  ultimately show ?thesis using reg word_p by (intro exI [of _ s']) (simp add: num_def s'_def s1)
qed

lemma registry_list:
  assumes "registry s ns" "ns \<noteq> []"
  shows "inode_list (mem s) (base_inode s) ns" "j < length ns \<Longrightarrow> load32 (mem s) (inode_number (ns ! j)) = of_nat (Suc j)"
proof -
  show "inode_list (mem s) (base_inode s) ns" using assms by (simp add: registry_def)
  have eq: "map (\<lambda>n. load32 (mem s) (inode_number n)) ns = map of_nat [1..<Suc (length ns)]"
    using assms(1) unfolding registry_def by blast
  show "j < length ns \<Longrightarrow> load32 (mem s) (inode_number (ns ! j)) = of_nat (Suc j)"
    using arg_cong [OF eq, of "\<lambda>l. l ! j"] by (simp del: upt_Suc)
qed

lemma find_registered:
  assumes "registry s ns" "i < length ns" "length ns < 2 ^ 32"
  shows "find_device_inode (of_nat (Suc i)) s = Some (ns ! i)"
proof -
  have ne: "ns \<noteq> []" using assms(2) by auto
  note R = registry_list [OF assms(1) ne]
  have "List.find (\<lambda>n. load32 (mem s) (inode_number n) = of_nat (Suc i)) ns = Some (ns ! i)"
    unfolding find_Some_iff using R(2) assms(2,3) by (intro exI [of _ i]) (simp del: of_nat_Suc)
  then show ?thesis using find_loop_list [OF R(1)] by (simp add: find_device_inode_def)
qed

lemma find_unregistered:
  assumes "registry s ns" "ns \<noteq> []" "\<And>i. i < length ns \<Longrightarrow> d \<noteq> of_nat (Suc i)"
  shows "find_device_inode d s = Some 0"
proof -
  note R = registry_list [OF assms(1,2)]
  have "List.find (\<lambda>n. load32 (mem s) (inode_number n) = d) ns = None"
    unfolding find_None_iff using R(2) assms(3) by (metis in_set_conv_nth)
  then show ?thesis using find_loop_list [OF R(1)] by (simp add: find_device_inode_def)
qed

section \<open>Properties\<close>

text \<open>C17: Registering a device appends an inode for it: the number returned is the next one, the search
  finds the new inode under it, and the devices registered before keep their inodes, numbers and descriptors.\<close>
theorem register_device_appends:
  assumes "registry s ns" "if ns = [] then heap_list s else has_block 12 s" "length ns < 2 ^ 32 - 1"
    and "display_ok s" "\<And>x. on_screen x \<Longrightarrow> \<not> free_byte s x"
    and "block_ok s d 36" "\<And>n. n \<in> insert (base_inode s) (set ns) \<Longrightarrow> separated n 12 d 36"
  shows "\<exists>p s'. register_device d s = Some (of_nat (Suc (length ns)), s') \<and> registry s' (ns @ [p])
    \<and> find_device_inode (of_nat (Suc (length ns))) s' = Some p \<and> load32 (mem s') (inode_descriptor p) = d
    \<and> (\<forall>i < length ns. find_device_inode (of_nat (Suc i)) s' = Some (ns ! i)
         \<and> load32 (mem s') (inode_descriptor (ns ! i)) = load32 (mem s) (inode_descriptor (ns ! i)))"
proof -
  obtain p s1 where new: "new_inode s = Some (p, s1)" "new_block s ns p s1"
    using new_inode_result_first [of s] new_inode_result_next [OF assms(1) _ _ assms(5)] assms(1,2) by (cases "ns = []") auto
  obtain s' where s': "register_device d s = Some (of_nat (Suc (length ns)), s')" "registry s' (ns @ [p])"
      "load32 (mem s') (p + 4) = d" "\<forall>n \<in> set ns. load32 (mem s') (n + 4) = load32 (mem s) (n + 4)"
    using register_result [OF assms(1) new assms(4-7)] by blast
  have "find_device_inode (of_nat (Suc i)) s' = Some ((ns @ [p]) ! i)" if "i < Suc (length ns)" for i
    using find_registered [OF s'(2), of i] that assms(3) by simp
  from this [of "length ns"] this show ?thesis using s'
    by (intro exI [of _ p] exI [of _ s']) (auto simp: inode_descriptor_def nth_append simp del: of_nat_Suc)
qed

definition sample_dev :: chrdev where
  "sample_dev = (cpu_driver.extend (pic_driver.extend (malloc_state.extend sample_list (pic_driver.fields 0))
     (cpu_driver.fields 0x8000 0 0 False False (0, 0) 0)) (chrdev.fields 0x5000 0 1 0))\<lparr>x_loc := 0, y_loc := 0\<rparr>"

lemma sample_dev_fields:
  "mem sample_dev = mem sample_list" "next_free sample_dev = 0x1000" "base_inode sample_dev = 0x5000" "current_inode sample_dev = 0"
  "current_inode_number sample_dev = 1" "display_ok sample_dev"
  by (simp_all add: sample_dev_def malloc_state.defs pic_driver.defs cpu_driver.defs chrdev.defs sample_list_fields display_ok_def)

lemma sample_dev_heap: "heap_list sample_dev" "free_byte sample_dev x \<Longrightarrow> unat x < 0x3400"
proof -
  have F: "free_list (mem sample_dev) [0x1000, 0x2000, 0x3000]" "next_free sample_dev = [0x1000, 0x2000, 0x3000] ! 0"
    using sample_free_list by (simp_all add: sample_dev_fields)
  then show "heap_list sample_dev" unfolding heap_list_def by blast
  show "free_byte sample_dev x \<Longrightarrow> unat x < 0x3400"
    using free_byte_ring [OF free_listD(1) [OF F(1)] F(2), of x]
    by (auto simp: in_extent_def extent_def sample_dev_fields sample_words)
qed

lemma sample_dev_clear: "0x3400 \<le> unat a \<Longrightarrow> unat a + n \<le> 0xB8000 \<Longrightarrow> block_ok sample_dev a n"
  unfolding block_ok_def using sample_dev_heap(2) region_range [of a n] region_range [of "0xB8000" 4000] by fastforce

lemma register_device_appends_witness:
  "\<exists>p s'. register_device 0x6000 sample_dev = Some (1, s') \<and> find_device_inode 1 s' = Some p \<and> load32 (mem s') (inode_descriptor p) = 0x6000"
proof -
  have c: "block_ok sample_dev 0x5000 12" "block_ok sample_dev 0x6000 36" by (rule sample_dev_clear; simp)+
  have r: "registry sample_dev []" using c(1) by (simp add: registry_def sample_dev_fields block_ok_def)
  have s: "separated 0x5000 12 0x6000 36"
    unfolding separated_def using region_range [of "0x5000" 12] region_range [of "0x6000" 36] by auto
  have "\<not> free_byte sample_dev x" if "on_screen x" for x
    using sample_dev_heap(2) [of x] region_range [of "0xB8000" 4000 x] that by auto
  from register_device_appends [OF r _ _ sample_dev_fields(6) this c(2)] show ?thesis
    using s sample_dev_heap(1) by (auto simp: sample_dev_fields)
qed

end
