(* ===== verification/Serial.thy ===== *)
theory Serial
  imports Chrdev
begin

text \<open>
  The driver of the serial port, arch/i386/serial.c: a device that is polled. The addresses of its
  functions in the device descriptor are given by a function of their names. A wait for a
  status bit that never comes is \<open>None\<close>.
\<close>

record serial = chrdev +
  device_descriptor :: u32
  serial_port :: u16

definition COM_PORT_1 :: i32 where "COM_PORT_1 = 0x3F8"
definition IRQ_INDEX :: u32 where "IRQ_INDEX = 4"
definition DATA_REGISTER :: u16 where "DATA_REGISTER = 0"
definition INTERRUPT_ENABLE_REGISTER :: u16 where "INTERRUPT_ENABLE_REGISTER = 1"
definition DIVISOR_VALUE_LSB :: u16 where "DIVISOR_VALUE_LSB = 0"
definition DIVISOR_VALUE_MSB :: u16 where "DIVISOR_VALUE_MSB = 1"
definition II_FIFO_CONTROL_REGISTER :: u16 where "II_FIFO_CONTROL_REGISTER = 2"
definition LINE_CONTROL_REGISTER :: u16 where "LINE_CONTROL_REGISTER = 3"
definition MODEM_CONTROL_REGISTER :: u16 where "MODEM_CONTROL_REGISTER = 4"
definition LINE_STATUS_REGISTER :: u16 where "LINE_STATUS_REGISTER = 5"
definition ENABLE_DLAB :: u8 where "ENABLE_DLAB = 0x80"
definition EIGHT_N_ONE :: u8 where "EIGHT_N_ONE = 0x03"
definition SERIAL_BACKSPACE :: u8 where "SERIAL_BACKSPACE = 127"
definition SERIAL_END_OF_TEXT :: u8 where "SERIAL_END_OF_TEXT = 3"

lemmas serial_regs = DATA_REGISTER_def INTERRUPT_ENABLE_REGISTER_def DIVISOR_VALUE_LSB_def DIVISOR_VALUE_MSB_def
  II_FIFO_CONTROL_REGISTER_def LINE_CONTROL_REGISTER_def MODEM_CONTROL_REGISTER_def LINE_STATUS_REGISTER_def

datatype serial_function = Serial_irq | Serial_read_char | Serial_read_chars | Serial_write_chars | Serial_open | Serial_close

section \<open>Operations\<close>

definition initialize_serial_device :: "device \<Rightarrow> (serial_function \<Rightarrow> u32) \<Rightarrow> u16 \<Rightarrow> 'a serial_scheme \<Rightarrow> 'a serial_scheme" where
  "initialize_serial_device dev addr port s =
     (let s = cpu_install_device dev IRQ_INDEX (addr Serial_irq) s;
          s = outportb (port + INTERRUPT_ENABLE_REGISTER) 0 s;
          s = outportb (port + LINE_CONTROL_REGISTER) ENABLE_DLAB s;
          s = outportb (port + DIVISOR_VALUE_LSB) 0x03 s;
          s = outportb (port + DIVISOR_VALUE_MSB) 0x00 s;
          s = outportb (port + LINE_CONTROL_REGISTER) EIGHT_N_ONE s;
          s = outportb (port + II_FIFO_CONTROL_REGISTER) 0xC7 s;
          s = outportb (port + MODEM_CONTROL_REGISTER) 0x0B s
      in s\<lparr>serial_port := port\<rparr>)"

definition serial_init :: "device \<Rightarrow> (serial_function \<Rightarrow> u32) \<Rightarrow> i32 \<Rightarrow> 'a serial_scheme \<Rightarrow> (i32 \<times> 'a serial_scheme) option" where
  "serial_init dev addr port s = do {
     let s = initialize_serial_device dev addr (ucast port) s;
     (d, s) \<leftarrow> malloc DEVICE_SIZE s;
     let s = s\<lparr>device_descriptor := d\<rparr>;
     if d = 0 then do {
       (_, s) \<leftarrow> vprintf (ascii ''Error allocating memory for serial device'' @ [10]) [] s;
       Some (- 1, s)
     }
     else do {
       let s = poke (dev_descriptor d) 0 s;
       let s = poke (dev_readchar d) (addr Serial_read_char) s;
       let s = poke (dev_read d) (addr Serial_read_chars) s;
       let s = poke (dev_write d) (addr Serial_write_chars) s;
       let s = poke (dev_open d) (addr Serial_open) s;
       let s = poke (dev_close d) (addr Serial_close) s;
       let s = poke (dev_major d) 0 s;
       register_device d s
     }
   }"

definition serial_read_chars :: "u32 \<Rightarrow> u32 \<Rightarrow> 'a serial_scheme \<Rightarrow> i32 \<times> 'a serial_scheme" where
  "serial_read_chars buf len s = (0, s)"

definition serial_open :: "'a serial_scheme \<Rightarrow> i32 \<times> 'a serial_scheme" where
  "serial_open s = (0, s)"

definition serial_close :: "'a serial_scheme \<Rightarrow> i32 \<times> 'a serial_scheme" where
  "serial_close s = (0, s)"

text \<open>The loop that polls the line status until one of the bits of \<open>bits\<close> is set.\<close>

partial_function (option) wait_status :: "device \<Rightarrow> u8 \<Rightarrow> 'a serial_scheme \<Rightarrow> 'a serial_scheme option" where
  "wait_status dev bits s =
     (case inportb dev (serial_port s + LINE_STATUS_REGISTER) s of
        (v, s') \<Rightarrow> if v AND bits = 0 then wait_status dev bits s' else Some s')"

definition serial_read_char :: "device \<Rightarrow> 'a serial_scheme \<Rightarrow> (i32 \<times> 'a serial_scheme) option" where
  "serial_read_char dev s = do {
     s \<leftarrow> wait_status dev 1 s;
     let (c, s) = inportb dev (serial_port s) s;
     let c = (if c = SERIAL_BACKSPACE then 8 else if c = SERIAL_END_OF_TEXT then - 1 else c);
     Some (scast c, s)
   }"

definition send_character :: "device \<Rightarrow> u8 \<Rightarrow> 'a serial_scheme \<Rightarrow> 'a serial_scheme option" where
  "send_character dev c s = do {
     s \<leftarrow> wait_status dev 0x20 s;
     Some (outportb (serial_port s) c s)
   }"

fun write_loop :: "device \<Rightarrow> u8 list \<Rightarrow> 'a serial_scheme \<Rightarrow> 'a serial_scheme option" where
  "write_loop dev [] s = Some s"
| "write_loop dev (c # cs) s = Option.bind (send_character dev c s) (write_loop dev cs)"

text \<open>The buffer, which the loop does not change, is read in advance.\<close>

definition serial_write_chars :: "device \<Rightarrow> u32 \<Rightarrow> u32 \<Rightarrow> 'a serial_scheme \<Rightarrow> (i32 \<times> 'a serial_scheme) option" where
  "serial_write_chars dev buf len s =
     map_option (\<lambda>s'. (len, s')) (write_loop dev (map (\<lambda>i. mem s (buf + of_nat i)) [0..<unat len]) s)"

section \<open>Waiting\<close>

text \<open>The log after \<open>n\<close> reads of a port.\<close>

primrec poll_log :: "device \<Rightarrow> u16 \<Rightarrow> nat \<Rightarrow> io_event list \<Rightarrow> io_event list" where
  "poll_log dev p 0 log = log"
| "poll_log dev p (Suc n) log = poll_log dev p n (log @ [In p (dev log p)])"

text \<open>What a wait relies on: whatever happened, enough reads of the port find the bit set.\<close>

definition responsive :: "device \<Rightarrow> u16 \<Rightarrow> u8 \<Rightarrow> bool" where
  "responsive dev p bits \<longleftrightarrow> (\<forall>log. \<exists>n. dev (poll_log dev p n log) p AND bits \<noteq> 0)"

lemma wait_after:
  assumes "dev (poll_log dev p n (io s)) p AND bits \<noteq> 0" "serial_port s + LINE_STATUS_REGISTER = p"
  shows "\<exists>ev v. wait_status dev bits s = Some (s\<lparr>io := io s @ ev @ [In p v]\<rparr>) \<and> v AND bits \<noteq> 0 \<and> (\<forall>e \<in> set ev. \<exists>w. e = In p w)"
  using assms
proof (induction n arbitrary: s)
  case 0
  then show ?case by (subst wait_status.simps) (auto simp: inportb_def Let_def intro!: exI [of _ "[]"])
next
  case (Suc n)
  let ?v = "dev (io s) p" and ?s = "s\<lparr>io := io s @ [In p (dev (io s) p)]\<rparr>"
  have one: "wait_status dev bits s = (if ?v AND bits = 0 then wait_status dev bits ?s else Some ?s)"
    using Suc.prems(2) by (subst wait_status.simps) (simp add: inportb_def Let_def)
  show ?case
  proof (cases "?v AND bits = 0")
    case True
    obtain ev v where "wait_status dev bits ?s = Some (?s\<lparr>io := io ?s @ ev @ [In p v]\<rparr>)" "v AND bits \<noteq> 0" "\<forall>e \<in> set ev. \<exists>w. e = In p w"
      using Suc.IH [of ?s] Suc.prems by auto
    then show ?thesis using one True by (intro exI [of _ "In p ?v # ev"] exI [of _ v]) simp
  next
    case False
    then show ?thesis using one by (intro exI [of _ "[]"] exI [of _ ?v]) simp
  qed
qed

lemma wait_result:
  assumes "responsive dev p bits" "serial_port s + LINE_STATUS_REGISTER = p"
  shows "\<exists>ev v. wait_status dev bits s = Some (s\<lparr>io := io s @ ev @ [In p v]\<rparr>) \<and> v AND bits \<noteq> 0 \<and> (\<forall>e \<in> set ev. \<exists>w. e = In p w)"
  using wait_after assms by (metis responsive_def)

section \<open>Sending\<close>

text \<open>Every byte sent to the data port follows a read of the line status with the transmitter empty.\<close>

fun paced :: "u16 \<Rightarrow> io_event list \<Rightarrow> bool" where
  "paced port (In p v # Out q c # ev) \<longleftrightarrow> q = port \<and> p = port + LINE_STATUS_REGISTER \<and> v AND 0x20 \<noteq> 0 \<and> paced port ev"
| "paced port (In p v # ev) \<longleftrightarrow> paced port ev"
| "paced port (Out q c # ev) \<longleftrightarrow> False"
| "paced port [] \<longleftrightarrow> True"

lemma paced_reads: "\<forall>e \<in> set ev. \<exists>w. e = In p w \<Longrightarrow> paced port (ev @ In q v # ev') = paced port (In q v # ev')"
proof (induction ev)
  case (Cons e ev)
  then obtain w where "e = In p w" by auto
  then show ?case using Cons by (cases ev) auto
qed simp

lemma written_reads: "\<forall>e \<in> set ev. \<exists>w. e = In p w \<Longrightarrow> written_to q ev = []"
  by (induction ev) auto

lemma send_result:
  assumes "responsive dev (serial_port s + LINE_STATUS_REGISTER) 0x20"
  shows "\<exists>ev v. send_character dev c s = Some (s\<lparr>io := io s @ ev @ [In (serial_port s + LINE_STATUS_REGISTER) v, Out (serial_port s) c]\<rparr>)
    \<and> v AND 0x20 \<noteq> 0 \<and> (\<forall>e \<in> set ev. \<exists>w. e = In (serial_port s + LINE_STATUS_REGISTER) w)"
proof -
  let ?p = "serial_port s + LINE_STATUS_REGISTER"
  obtain ev v where w: "wait_status dev 0x20 s = Some (s\<lparr>io := io s @ ev @ [In ?p v]\<rparr>)" "v AND 0x20 \<noteq> 0" "\<forall>e \<in> set ev. \<exists>w. e = In ?p w"
    using wait_result [OF assms refl] by blast
  show ?thesis by (rule exI [of _ ev], rule exI [of _ v]) (use w in \<open>simp add: send_character_def outportb_def\<close>)
qed

lemma write_loop_result:
  assumes "responsive dev (port + LINE_STATUS_REGISTER) 0x20" "serial_port s = port"
  shows "\<exists>ev. write_loop dev cs s = Some (s\<lparr>io := io s @ ev\<rparr>) \<and> written_to port ev = cs \<and> paced port ev"
  using assms(2)
proof (induction cs arbitrary: s)
  case Nil
  then show ?case by (intro exI [of _ "[]"]) simp
next
  case (Cons c cs)
  let ?p = "port + LINE_STATUS_REGISTER"
  obtain ev v where s1: "send_character dev c s = Some (s\<lparr>io := io s @ ev @ [In ?p v, Out port c]\<rparr>)" "v AND 0x20 \<noteq> 0"
      "\<forall>e \<in> set ev. \<exists>w. e = In ?p w"
    using send_result [of dev s c] assms(1) Cons.prems by auto
  obtain ev' where s2: "write_loop dev cs (s\<lparr>io := io s @ ev @ [In ?p v, Out port c]\<rparr>)
      = Some (s\<lparr>io := (io s @ ev @ [In ?p v, Out port c]) @ ev'\<rparr>)" "written_to port ev' = cs" "paced port ev'"
    using Cons.IH [of "s\<lparr>io := io s @ ev @ [In ?p v, Out port c]\<rparr>"] Cons.prems by auto
  have "write_loop dev (c # cs) s = Some (s\<lparr>io := io s @ (ev @ In ?p v # Out port c # ev')\<rparr>)" using s1(1) s2(1) by simp
  moreover have "written_to port (ev @ In ?p v # Out port c # ev') = c # cs" using written_reads [OF s1(3)] s2(2) by simp
  moreover have "paced port (ev @ In ?p v # Out port c # ev')" unfolding paced_reads [OF s1(3)] using s1(2) s2(3) by simp
  ultimately show ?case by blast
qed

section \<open>Receiving\<close>

definition received :: "u8 \<Rightarrow> u32" where
  "received c = scast (if c = 127 then 8 else if c = 3 then - 1 else c)"

lemma read_result:
  assumes "responsive dev (serial_port s + LINE_STATUS_REGISTER) 1"
  shows "\<exists>ev v. let log = io s @ ev @ [In (serial_port s + LINE_STATUS_REGISTER) v]; c = dev log (serial_port s) in
      serial_read_char dev s = Some (received c, s\<lparr>io := log @ [In (serial_port s) c]\<rparr>)
    \<and> v AND 1 \<noteq> 0 \<and> (\<forall>e \<in> set ev. \<exists>w. e = In (serial_port s + LINE_STATUS_REGISTER) w)"
proof -
  let ?p = "serial_port s + LINE_STATUS_REGISTER"
  obtain ev v where w: "wait_status dev 1 s = Some (s\<lparr>io := io s @ ev @ [In ?p v]\<rparr>)" "v AND 1 \<noteq> 0" "\<forall>e \<in> set ev. \<exists>w. e = In ?p w"
    using wait_result [OF assms refl] by blast
  show ?thesis
    by (rule exI [of _ ev], rule exI [of _ v])
      (use w in \<open>simp add: serial_read_char_def inportb_def Let_def received_def SERIAL_BACKSPACE_def SERIAL_END_OF_TEXT_def\<close>)
qed

lemma received_eof: "received c = - 1 \<longleftrightarrow> c = 3 \<or> c = 255"
  unfolding received_def scast_eof by simp

section \<open>Properties\<close>

text \<open>C28: Writing to the serial port ends, and sends the bytes of the buffer in order, each after a read
  of the line status that found the transmitter empty; memory is as before.\<close>
theorem serial_write_sends:
  assumes "responsive dev (serial_port s + LINE_STATUS_REGISTER) 0x20"
  shows "\<exists>ev. serial_write_chars dev buf len s = Some (len, s\<lparr>io := io s @ ev\<rparr>)
    \<and> written_to (serial_port s) ev = map (\<lambda>i. mem s (buf + of_nat i)) [0..<unat len] \<and> paced (serial_port s) ev"
  using write_loop_result [OF assms refl, of "map (\<lambda>i. mem s (buf + of_nat i)) [0..<unat len]"]
  by (auto simp: serial_write_chars_def)

text \<open>A port that is ready at every second read of its status and receives the letter A for ever.\<close>

definition slow_port :: device where
  "slow_port log p =
     (if p = 0x3FD then (if log \<noteq> [] \<and> last log = In 0x3FD 0 then 0x21 else 0) else 0x41)"

lemma slow_port_responsive:
  assumes "bits = 1 \<or> bits = 0x20"
  shows "responsive slow_port 0x3FD bits"
  unfolding responsive_def
proof
  fix log
  show "\<exists>n. slow_port (poll_log slow_port 0x3FD n log) 0x3FD AND bits \<noteq> 0"
  proof (cases "log \<noteq> [] \<and> last log = In 0x3FD 0")
    case True
    then show ?thesis using assms by (intro exI [of _ 0]) (auto simp: slow_port_def)
  next
    case False
    then have "slow_port log 0x3FD = 0" by (auto simp: slow_port_def)
    then show ?thesis using assms by (intro exI [of _ 1]) (auto simp: slow_port_def)
  qed
qed

definition sample_serial :: serial where
  "sample_serial = (chrdev.extend sample_dev (serial.fields 0 0x3F8))"

lemma serial_write_sends_witness:
  "\<exists>ev. serial_write_chars slow_port 0x1000 2 sample_serial = Some (2, sample_serial\<lparr>io := io sample_serial @ ev\<rparr>) \<and> length (written_to 0x3F8 ev) = 2"
proof -
  have "serial_port sample_serial = 0x3F8" by (simp add: sample_serial_def chrdev.defs serial.defs)
  then show ?thesis
    using serial_write_sends [of slow_port sample_serial "0x1000" 2] slow_port_responsive [of "0x20"]
    by (auto simp: LINE_STATUS_REGISTER_def)
qed

text \<open>Reading a character ends; it is the byte received, sign extended, with delete turned into
  backspace and the end of text into the end-of-file value. A received 0xFF is that value, too.\<close>
theorem serial_read_translates:
  assumes "responsive dev (serial_port s + LINE_STATUS_REGISTER) 1"
  shows "\<exists>log c. serial_read_char dev s = Some (received c, s\<lparr>io := log @ [In (serial_port s) c]\<rparr>) \<and> c = dev log (serial_port s)
    \<and> (received c = EOF \<longleftrightarrow> c = SERIAL_END_OF_TEXT \<or> c = 0xFF)"
  using read_result [OF assms] unfolding received_eof EOF_def SERIAL_END_OF_TEXT_def Let_def by blast

lemma serial_read_translates_witness:
  "\<exists>s'. serial_read_char slow_port sample_serial = Some (0x41, s')"
proof -
  have p: "serial_port sample_serial = 0x3F8" by (simp add: sample_serial_def chrdev.defs serial.defs)
  obtain log c where "serial_read_char slow_port sample_serial = Some (received c, sample_serial\<lparr>io := log @ [In 0x3F8 c]\<rparr>)"
      "c = slow_port log 0x3F8"
    using serial_read_translates [of slow_port sample_serial] slow_port_responsive [of 1] p by (auto simp: LINE_STATUS_REGISTER_def)
  moreover have "slow_port log 0x3F8 = 0x41" by (simp add: slow_port_def)
  ultimately show ?thesis by (auto simp: received_def)
qed

end
