(* ===== verification/KernelMain.thy ===== *)
theory KernelMain
  imports Serial
begin

text \<open>
  The kernel's main function, kernel/kernel/kernel.c: it initializes the components one after the other
  and echoes the serial port to the display. The parameters are the structure in memory that the
  early code fills; code addresses are looked up among those of the serial driver.
\<close>

text \<open>The words of \<open>_kernel_params_t\<close>.\<close>

definition kernel_heap :: "u32 \<Rightarrow> memory \<Rightarrow> u32" where "kernel_heap kparams m = load32 m (elem kparams 1)"
definition kernel_memory_bitmap :: "u32 \<Rightarrow> memory \<Rightarrow> u32" where "kernel_memory_bitmap kparams m = load32 m (elem kparams 2)"
definition allocator_total_blocks :: "u32 \<Rightarrow> memory \<Rightarrow> u32" where "allocator_total_blocks kparams m = load32 m (elem kparams 3)"
definition allocator_used_blocks :: "u32 \<Rightarrow> memory \<Rightarrow> u32" where "allocator_used_blocks kparams m = load32 m (elem kparams 4)"

definition serial_code ::
  "device \<Rightarrow> (serial_function \<Rightarrow> u32) \<Rightarrow> u32 \<Rightarrow> 'a serial_scheme \<Rightarrow> (i32 \<times> 'a serial_scheme) option" where
  "serial_code dev addr a s = (if a = addr Serial_read_char then serial_read_char dev s else None)"

partial_function (option) echo_loop ::
  "(u32 \<Rightarrow> 'a chrdev_scheme \<Rightarrow> (i32 \<times> 'a chrdev_scheme) option) \<Rightarrow> i32 \<Rightarrow> 'a chrdev_scheme \<Rightarrow> 'a chrdev_scheme option" where
  "echo_loop code dd s =
     Option.bind (read_device_char code dd s)
       (\<lambda>(c, s'). if c \<noteq> - 1 then echo_loop code dd (snd (putchar c s')) else Some s')"

definition kernel_main ::
  "device \<Rightarrow> (isr \<Rightarrow> u32) \<Rightarrow> u32 \<Rightarrow> (serial_function \<Rightarrow> u32) \<Rightarrow> u32 \<Rightarrow> 'a serial_scheme \<Rightarrow> 'a serial_scheme option" where
  "kernel_main dev isr_addr timer_irq serial_addr kparams s = do {
     let s = display_init dev s;
     let s = snd (display_change_color (display_make_color COLOR_FG_WHITE COLOR_BG_GREEN) s);
     let s = display_clear s;
     (_, s) \<leftarrow> vprintf (ascii ''%s'' @ [10]) [VaStr banner] s;
     let s = snd (cpu_driver_init dev isr_addr s);
     s \<leftarrow> pit_8254_initialize dev timer_irq s;
     let s = memory_setbase (kernel_heap kparams (mem s)) s;
     let s = memory_init_mmap (kernel_memory_bitmap kparams (mem s)) (allocator_total_blocks kparams (mem s))
       (allocator_used_blocks kparams (mem s)) s;
     (_, s) \<leftarrow> brk (kernel_heap kparams (mem s)) s;
     (dd, s) \<leftarrow> serial_init dev serial_addr COM_PORT_1 s;
     (_, s) \<leftarrow> vprintf (ascii ''com port device descriptor: %d'' @ [10]) [VaWord dd] s;
     s \<leftarrow> echo_loop (serial_code dev serial_addr) dd s;
     (_, s) \<leftarrow> vprintf (ascii ''Received EOF from input stream'' @ [10]) [] s;
     Some s
   }"

section \<open>The echo\<close>

text \<open>How often a port was read.\<close>

definition reads_of :: "u16 \<Rightarrow> io_event list \<Rightarrow> nat" where
  "reads_of p log = length (filter (\<lambda>e. case e of In q v \<Rightarrow> q = p | Out q v \<Rightarrow> False) log)"

lemma reads_of_simps [simp]:
  "reads_of p [] = 0" "reads_of p (In q v # l) = (if q = p then Suc (reads_of p l) else reads_of p l)"
  "reads_of p (Out q v # l) = reads_of p l" "reads_of p (l @ l') = reads_of p l + reads_of p l'"
  by (simp_all add: reads_of_def)

lemma reads_of_other: "\<forall>e \<in> set ev. \<exists>w. e = In q w \<Longrightarrow> q \<noteq> p \<Longrightarrow> reads_of p ev = 0"
  by (induction ev) auto

text \<open>The data port gives the bytes \<open>bs\<close>, one at each read, from read number \<open>k\<close> on.\<close>

definition delivers :: "device \<Rightarrow> u16 \<Rightarrow> nat \<Rightarrow> u8 list \<Rightarrow> bool" where
  "delivers dev p k bs \<longleftrightarrow> (\<forall>log. k \<le> reads_of p log \<longrightarrow> reads_of p log < k + length bs \<longrightarrow> dev log p = bs ! (reads_of p log - k))"

lemma delivers_Cons: "delivers dev p k (b # bs) \<Longrightarrow> delivers dev p (Suc k) bs"
  unfolding delivers_def
proof (intro allI impI)
  fix log assume D: "\<forall>log. k \<le> reads_of p log \<longrightarrow> reads_of p log < k + length (b # bs) \<longrightarrow> dev log p = (b # bs) ! (reads_of p log - k)"
    and r: "Suc k \<le> reads_of p log" "reads_of p log < Suc k + length bs"
  then have "dev log p = (b # bs) ! (reads_of p log - k)" by simp
  moreover have "reads_of p log - k = Suc (reads_of p log - Suc k)" using r(1) by simp
  ultimately show "dev log p = bs ! (reads_of p log - Suc k)" by simp
qed

text \<open>The device of descriptor \<open>dd\<close> is the serial port, and what leads to it is not on the screen.\<close>

definition serial_device :: "(serial_function \<Rightarrow> u32) \<Rightarrow> i32 \<Rightarrow> 'a chrdev_scheme \<Rightarrow> u32 list \<Rightarrow> u32 \<Rightarrow> bool" where
  "serial_device addr dd s ns n \<longleftrightarrow> inode_list (mem s) (base_inode s) ns
     \<and> List.find (\<lambda>n. load32 (mem s) (inode_number n) = dd) ns = Some n
     \<and> load32 (mem s) (dev_readchar (load32 (mem s) (inode_descriptor n))) = addr Serial_read_char
     \<and> (\<forall>n \<in> set ns. \<forall>x. in_region n 12 x \<longrightarrow> \<not> on_screen x)
     \<and> (\<forall>x. in_region (load32 (mem s) (inode_descriptor n)) 36 x \<longrightarrow> \<not> on_screen x)"

lemma serial_device_frame:
  assumes "serial_device addr dd s ns n" "base_inode s' = base_inode s" "\<And>x. \<not> on_screen x \<Longrightarrow> mem s' x = mem s x"
  shows "serial_device addr dd s' ns n"
proof -
  note D = assms(1) [unfolded serial_device_def]
  have inner: "load32 (mem s') (a + of_nat k) = load32 (mem s) (a + of_nat k)"
    if "\<forall>x. in_region a l x \<longrightarrow> \<not> on_screen x" "k + 4 \<le> l" "l \<le> 36" for a k l
  proof (rule load32_region)
    fix x assume "in_region (a + of_nat k) 4 x"
    then have "in_region a l x" using sub_region [of a k 4 x l] that(2,3) by simp
    then show "mem s' x = mem s x" using that(1) assms(3) by blast
  qed
  have w: "load32 (mem s') (inode_number q) = load32 (mem s) (inode_number q)"
    "load32 (mem s') (inode_descriptor q) = load32 (mem s) (inode_descriptor q)"
    "load32 (mem s') (inode_next q) = load32 (mem s) (inode_next q)" if "q \<in> set ns" for q
    using inner [of q 12 0] inner [of q 12 4] inner [of q 12 8] D that by (simp_all add: inode_fields)
  have n: "n \<in> set ns" using D by (auto simp: find_Some_iff)
  have d: "load32 (mem s') (dev_readchar (load32 (mem s) (inode_descriptor n))) = addr Serial_read_char"
    using inner [of "load32 (mem s) (inode_descriptor n)" 36 16] D by (simp add: dev_readchar_def)
  have f: "List.find (\<lambda>n. load32 (mem s') (inode_number n) = dd) ns = List.find (\<lambda>n. load32 (mem s) (inode_number n) = dd) ns"
    by (rule find_cong) (simp_all add: w)
  show ?thesis
    using D inode_list_frame [of "mem s" "base_inode s" ns "mem s'"] d n
    unfolding serial_device_def f by (simp add: w assms(2))
qed

lemma read_serial:
  assumes "serial_device addr dd s ns n" "addr Serial_read_char \<noteq> 0"
  shows "read_device_char (serial_code dev addr) dd s = serial_read_char dev s"
proof -
  note D = assms(1) [unfolded serial_device_def]
  have "n \<in> set ns" using D by (auto simp: find_Some_iff)
  then have "n \<noteq> 0" using D inode_list_nonnull by metis
  then show ?thesis
    using D find_loop_list [of "mem s" "base_inode s" ns dd] assms(2)
    by (simp add: read_device_char_def find_device_inode_def serial_code_def Let_def)
qed

text \<open>One character: what it changes is the log, and the screen as the display driver does.\<close>

lemma echo_step:
  fixes s :: "'a serial_scheme"
  assumes "serial_device addr dd s ns n" "addr Serial_read_char \<noteq> 0" "display_ok s"
    and "responsive dev (serial_port s + LINE_STATUS_REGISTER) 1"
    and "delivers dev (serial_port s) (reads_of (serial_port s) (io s)) (c # bs)"
  shows "\<exists>s1 :: 'a serial_scheme. read_device_char (serial_code dev addr) dd s = Some (received c, s1)
    \<and> serial_device addr dd s1 ns n \<and> display_ok s1 \<and> tty_of s1 = tty_of s \<and> serial_port s1 = serial_port s
    \<and> reads_of (serial_port s) (io s1) = Suc (reads_of (serial_port s) (io s))"
proof -
  let ?p = "serial_port s"
  obtain ev v where r: "serial_read_char dev s = (let log = io s @ ev @ [In (?p + LINE_STATUS_REGISTER) v]; c = dev log ?p in
        Some (received c, s\<lparr>io := log @ [In ?p c]\<rparr>))" "\<forall>e \<in> set ev. \<exists>w. e = In (?p + LINE_STATUS_REGISTER) w"
    using read_result [OF assms(4)] by (metis (no_types, lifting))
  define log where "log = io s @ ev @ [In (?p + LINE_STATUS_REGISTER) v]"
  have q: "?p + LINE_STATUS_REGISTER \<noteq> ?p" by (simp add: LINE_STATUS_REGISTER_def)
  have n: "reads_of ?p log = reads_of ?p (io s)" using reads_of_other [OF r(2) q] q by (simp add: log_def)
  then have c: "dev log ?p = c" using assms(5) by (simp add: delivers_def)
  let ?s1 = "s\<lparr>io := log @ [In ?p c]\<rparr>"
  have "read_device_char (serial_code dev addr) dd s = Some (received c, ?s1)"
    using read_serial [OF assms(1,2), of dev] r(1) c unfolding log_def [symmetric] by simp
  moreover have "serial_device addr dd ?s1 ns n" by (rule serial_device_frame [OF assms(1)]) simp_all
  moreover have "display_ok ?s1" "tty_of ?s1 = tty_of s" using assms(3) by (simp_all add: display_ok_def tty_of_def get_write_location_def)
  ultimately show ?thesis using n by (intro exI [of _ ?s1]) simp
qed

lemma echo_put:
  assumes "serial_device addr dd s ns n" "display_ok s" "c \<noteq> 8" "c \<noteq> 9"
  shows "\<exists>m x y. display_write c s = s\<lparr>mem := m, x_loc := x, y_loc := y\<rparr> \<and> serial_device addr dd (display_write c s) ns n
    \<and> display_ok (display_write c s) \<and> tty_of (display_write c s) = tty_write c (tty_of s)"
proof -
  have "draws 0 2000 s (display_write c s)" using disp.put_rel [OF assms(2)] assms(3,4) by simp
  then obtain m x y where w: "display_write c s = s\<lparr>mem := m, x_loc := x, y_loc := y\<rparr>" "same_outside_cells 0 2000 (mem s) m"
    unfolding draws_def by blast
  have "\<not> on_screen a \<Longrightarrow> m a = mem s a" for a
    using w(2) by (simp add: same_outside_cells_def outside_cells_def cell_addr_def VIDEO_MEMORY_def)
  then have "serial_device addr dd (display_write c s) ns n"
    using serial_device_frame [OF assms(1), of "display_write c s"] w(1) by simp
  then show ?thesis using w(1) disp.keeps [OF assms(2)] disp.implements [OF assms(2)] by blast
qed

lemma received_plain: "c \<noteq> 127 \<Longrightarrow> c \<noteq> 3 \<Longrightarrow> received c = scast c"
  by (simp add: received_def)

lemma scast_control: "(scast c :: u32) = 8 \<longleftrightarrow> c = 8" "(scast c :: u32) = 9 \<longleftrightarrow> c = 9" for c :: u8
  by (simp_all add: sint_eq_iff [symmetric] sint_up_scast is_up)

text \<open>Bytes that the terminal prints or moves with: no backspace, tabulator, delete, and not the end of the input.\<close>

definition echoed :: "u8 \<Rightarrow> bool" where
  "echoed c \<longleftrightarrow> c \<notin> {3, 8, 9, 127, 255}"

lemma echo_result:
  fixes s :: "'a serial_scheme"
  assumes "serial_device addr dd s ns n" "addr Serial_read_char \<noteq> 0" "display_ok s" "serial_port s = p"
    and "responsive dev (p + LINE_STATUS_REGISTER) 1"
    and "delivers dev p (reads_of p (io s)) (cs @ [b])" "list_all echoed cs" "b = 3 \<or> b = 255"
  shows "\<exists>s' :: 'a serial_scheme. echo_loop (serial_code dev addr) dd s = Some s' \<and> display_ok s'
    \<and> tty_of s' = fold tty_write (map scast cs) (tty_of s)"
  using assms(1,3,4,6,7)
proof (induction cs arbitrary: s)
  case Nil
  obtain s1 :: "'a serial_scheme" where s1: "read_device_char (serial_code dev addr) dd s = Some (received b, s1)"
      "display_ok s1" "tty_of s1 = tty_of s"
    using echo_step [OF Nil(1) assms(2) Nil(2), of dev b "[]"] Nil assms(5) by auto
  have "received b = - 1" using assms(8) by (simp only: received_eof)
  then show ?case using s1 by (subst echo_loop.simps) simp
next
  case (Cons c cs)
  obtain s1 :: "'a serial_scheme" where s1: "read_device_char (serial_code dev addr) dd s = Some (received c, s1)"
      "serial_device addr dd s1 ns n" "display_ok s1" "tty_of s1 = tty_of s" "serial_port s1 = p"
      "reads_of p (io s1) = Suc (reads_of p (io s))"
    using echo_step [OF Cons.prems(1) assms(2) Cons.prems(2), of dev c "cs @ [b]"] Cons.prems assms(5) by auto
  have e: "echoed c" "list_all echoed cs" using Cons.prems(5) by simp_all
  then have c: "received c = scast c" "received c \<noteq> - 1" "(scast c :: u32) \<noteq> 8" "(scast c :: u32) \<noteq> 9"
    by (simp_all add: echoed_def received_plain received_eof scast_control scast_eof)
  let ?s2 = "display_write (scast c) s1"
  obtain m x y where w: "?s2 = s1\<lparr>mem := m, x_loc := x, y_loc := y\<rparr>" and s2: "serial_device addr dd ?s2 ns n"
      "display_ok ?s2" "tty_of ?s2 = tty_write (scast c) (tty_of s1)"
    using echo_put [OF s1(2,3) c(3,4)] by blast
  have f: "serial_port ?s2 = p" "io ?s2 = io s1" using w s1(5) by simp_all
  have "delivers dev p (reads_of p (io ?s2)) (cs @ [b])" using delivers_Cons [of dev p _ c] Cons.prems(4) f(2) s1(6) by simp
  then obtain s' :: "'a serial_scheme" where "echo_loop (serial_code dev addr) dd ?s2 = Some s'" "display_ok s'"
      "tty_of s' = fold tty_write (map scast cs) (tty_of ?s2)"
    using Cons.IH [OF s2(1,2) f(1) _ e(2)] by blast
  then show ?case using s1(1,4) s2(3) c(1,2) by (subst echo_loop.simps) (simp add: putchar_def)
qed

section \<open>Properties\<close>

text \<open>The kernel's main loop echoes what the serial port receives: it ends at the end of text, and
  the terminal shows the bytes received before, in order.\<close>
theorem kernel_echoes:
  fixes s :: "'a serial_scheme"
  assumes "serial_device addr dd s ns n" "addr Serial_read_char \<noteq> 0" "display_ok s" "serial_port s = p"
    and "responsive dev (p + LINE_STATUS_REGISTER) 1"
    and "delivers dev p (reads_of p (io s)) (cs @ [b])" "list_all echoed cs" "b = 3 \<or> b = 255"
  shows "\<exists>s' :: 'a serial_scheme. echo_loop (serial_code dev addr) dd s = Some s' \<and> display_ok s'
    \<and> tty_of s' = fold tty_write (map scast cs) (tty_of s)"
  using echo_result [OF assms] .

text \<open>The port receives two letters and the end of text.\<close>

definition typing_port :: device where
  "typing_port log p = (if p = 0x3FD then 1 else if reads_of 0x3F8 log < 3 then [72, 105, 3] ! reads_of 0x3F8 log else 0)"

definition sample_main :: serial where
  "sample_main = sample_serial\<lparr>io := [], mem := store32 (store32 (store32 (store32 (\<lambda>_. 0) 0x5000 1) 0x5004 0x6000) 0x5008 0) 0x6010 0xC0101000\<rparr>"

definition sample_code :: "serial_function \<Rightarrow> u32" where
  "sample_code f = (if f = Serial_read_char then 0xC0101000 else 0xC0102000)"

lemma sample_main_ok:
  "serial_device sample_code 1 sample_main [0x5000] 0x5000" "sample_code Serial_read_char \<noteq> 0" "display_ok sample_main"
  "serial_port sample_main = 0x3F8" "responsive typing_port (0x3F8 + LINE_STATUS_REGISTER) 1"
  "delivers typing_port 0x3F8 (reads_of 0x3F8 (io sample_main)) ([72, 105] @ [3])" "list_all echoed [72, 105]"
proof -
  have f: "io sample_main = []" "base_inode sample_main = 0x5000"
    using sample_dev_fields(3,6) by (simp_all add: sample_main_def sample_serial_def chrdev.defs serial.defs)
  show "serial_port sample_main = 0x3F8" "display_ok sample_main"
    using sample_dev_fields(3,6) by (simp_all add: sample_main_def sample_serial_def chrdev.defs serial.defs display_ok_def)
  have m: "load32 (mem sample_main) 0x5000 = 1" "load32 (mem sample_main) 0x5004 = 0x6000" "load32 (mem sample_main) 0x5008 = 0"
      "load32 (mem sample_main) 0x6010 = 0xC0101000"
    by (simp_all add: sample_main_def mem_simps apart_def)
  have scr: "\<not> on_screen x" if "in_region a n x" "unat a + n \<le> 0xB8000" for a n x
    using that region_range [of a n x] region_range [of "0xB8000" 4000 x] by auto
  show "serial_device sample_code 1 sample_main [0x5000] 0x5000"
    unfolding serial_device_def using scr [of "0x5000" 12] scr [of "0x6000" 36]
    by (simp add: f m inode_fields dev_readchar_def sample_code_def)
  show "responsive typing_port (0x3F8 + LINE_STATUS_REGISTER) 1"
    unfolding responsive_def by (auto simp: typing_port_def LINE_STATUS_REGISTER_def intro!: exI [of _ 0])
  show "delivers typing_port 0x3F8 (reads_of 0x3F8 (io sample_main)) ([72, 105] @ [3])"
    by (simp add: delivers_def typing_port_def f)
qed (simp_all add: sample_code_def echoed_def)

lemma kernel_echoes_witness:
  "\<exists>s'. echo_loop (serial_code typing_port sample_code) 1 sample_main = Some s'
    \<and> tty_of s' = fold tty_write [72, 105] (tty_of sample_main)"
  using kernel_echoes [OF sample_main_ok(1-7)] by fastforce

end
