(* ===== verification/Growth.thy ===== *)
theory Growth
  imports Malloc
begin

text \<open>
  How the allocator grows: \<open>morecore\<close> of libc/stdlib/malloc.c on top of \<open>sbrk\<close>. The memory \<open>sbrk\<close>
  returns is linked into the free list behind all other blocks; the page manager writes no memory
  but the block bitmap and the page tables. At the end \<open>malloc\<close> with growth is shown to be an \<open>allocator\<close>.
\<close>

section \<open>What growing the heap writes\<close>

definition bitmap_byte :: "'a balloc_scheme \<Rightarrow> u32 \<Rightarrow> bool" where
  "bitmap_byte s x \<longleftrightarrow> in_region (mbmp s) (4 * Suc (unat (btotal s) div 32)) x"

text \<open>The states of two records that agree in everything the heap's well-formedness looks at.\<close>

definition same_heap :: "'a heap_scheme \<Rightarrow> 'b heap_scheme \<Rightarrow> bool" where
  "same_heap s s' \<longleftrightarrow> mbmp s' = mbmp s \<and> btotal s' = btotal s \<and> phys s' = phys s \<and> cr3 s' = cr3 s \<and> brk_ptr s' = brk_ptr s
     \<and> heap_base s' = heap_base s \<and> (\<forall>x. bitmap_byte s x \<longrightarrow> mem s' x = mem s x)"

lemma same_heap_bset:
  assumes "same_heap s s'" "unat (btotal s) \<le> 2 ^ 20"
  shows "bset s' = bset s"
proof -
  have "load32 (mem s') (elem (mbmp s) (k div 32)) = load32 (mem s) (elem (mbmp s) (k div 32))" if k: "k < unat (btotal s)" for k
  proof (rule load32_region)
    fix x assume "in_region (elem (mbmp s) (k div 32)) 4 x"
    moreover have "4 * (k div 32) + 4 \<le> 4 * Suc (unat (btotal s) div 32)" using k by (simp add: div_le_mono)
    ultimately have "bitmap_byte s x"
      using sub_region [of "mbmp s" "4 * (k div 32)" 4 x "4 * Suc (unat (btotal s) div 32)"] assms(2)
      by (simp add: bitmap_byte_def elem_def)
    then show "mem s' x = mem s x" using assms(1) by (simp add: same_heap_def)
  qed
  then show ?thesis using assms(1) by (auto simp: bset_def used_set_def block_used_def same_heap_def)
qed

lemma heap_ok_frame:
  assumes "heap_ok s" "same_heap s s'"
  shows "heap_ok s'" "free_count s' = free_count s"
proof -
  note S = assms(2) [unfolded same_heap_def]
  have "unat (btotal s) \<le> 2 ^ 20" using assms(1) by (auto simp: heap_ok_def tables_ok_def vm_def balloc_ok_def)
  note b = same_heap_bset [OF assms(2) this]
  then show "free_count s' = free_count s" using S by (simp add: free_count_def)
  have t: "tables_ok s' = tables_ok s" using S by (simp add: tables_ok_def clean_def vm_def balloc_ok_def b)
  have h: "heap_top s' = heap_top s" using S by (simp add: heap_top_def)
  have m: "maps s' = maps s" by (intro ext) (use S in \<open>simp add: maps_def\<close>)
  have k: "backed s' lo hi f = backed s lo hi f" for lo hi f by (simp only: backed_def b m)
  show "heap_ok s'" using assms(1) S by (simp add: heap_ok_def t h m k)
qed

definition mem_kept :: "'a pagemngr_scheme \<Rightarrow> 'a pagemngr_scheme \<Rightarrow> bool" where
  "mem_kept s s' \<longleftrightarrow> mm_change s s' \<and> (\<forall>x. \<not> bitmap_byte s x \<longrightarrow> mem s' x = mem s x)"

lemma mem_kept_refl: "mem_kept s s"
  by (simp add: mem_kept_def mm_refl)

lemma mem_kept_trans: "mem_kept s1 s2 \<Longrightarrow> mem_kept s2 s3 \<Longrightarrow> mem_kept s1 s3"
  unfolding mem_kept_def using mm_trans [of s1 s2 s3] by (auto simp: mm_change_def bitmap_byte_def)

lemma mem_kept_write: "window_write a b s = Some s' \<Longrightarrow> mem_kept s s'"
  unfolding mem_kept_def using mm_write [of a b s s'] by (auto simp: window_write_def)

lemma mem_kept_alloc:
  fixes s :: "'a pagemngr_scheme"
  assumes "balloc_allocate_block s = (p, s')" "balloc_ok s"
  shows "mem_kept s s'"
proof -
  have "mem s' x = mem s x" if "\<not> bitmap_byte s x" for x
  proof -
    consider f where "s' = balloc_allocate f s" "unat f < 32 * (unat (btotal s) div 32)" | "mem s' = mem s"
      using balloc_alloc_result [OF assms(2)] assms(1) by auto
    then show ?thesis
    proof cases
      case 1
      have "unat (btotal s) div 32 \<le> unat (btotal s)" by simp
      also have "\<dots> \<le> 2 ^ 30" using assms(2) by (simp add: balloc_ok_def)
      finally have "unat (btotal s) div 32 \<le> 2 ^ 30" .
      from bm_same_outside(1) [OF 1(2) this, of "mbmp s" "mem s"]
      have "\<not> in_region (mbmp s) (4 * (unat (btotal s) div 32)) x \<Longrightarrow> mem s' x = mem s x"
        by (simp add: 1(1) balloc_allocate_def same_outside_def)
      then show ?thesis using that by (simp add: bitmap_byte_def in_region_def)
    qed simp
  qed
  then show ?thesis using mm_alloc [OF assms(1)] by (simp add: mem_kept_def)
qed

lemma mem_kept_map:
  assumes "pagemngr_map_block p v s = Some (r, s')" "balloc_ok s"
  shows "mem_kept s s'"
proof -
  obtain g s1 where t: "map_page_table v s = Some (g, s1)"
    using assms(1) by (auto simp: pagemngr_map_block_def Let_def bind_eq_Some_conv)
  obtain pde where r: "window_read (pdir_slot v) s = Some pde" using t by (auto simp: map_page_table_def bind_eq_Some_conv)
  obtain b s0 where b: "balloc_allocate_block s = (b, s0)" by (cases "balloc_allocate_block s")
  consider "s1 = s" | "s1 = s0" | x where "window_write (pdir_slot v) x s0 = Some s1"
    using t r b by (auto simp: map_page_table_def split: if_splits)
  then have "mem_kept s s1" using mem_kept_refl mem_kept_alloc [OF b assms(2)] mem_kept_write mem_kept_trans by cases blast+
  moreover consider "s' = s1" | x y where "window_write x y s1 = Some s'"
    using assms(1) t by (auto simp: pagemngr_map_block_def Let_def bind_eq_Some_conv split: if_splits)
  then have "mem_kept s1 s'" using mem_kept_refl mem_kept_write by cases blast+
  ultimately show ?thesis by (rule mem_kept_trans)
qed

lemma mem_kept_loop:
  assumes "allocate_loop f i n s = Some (0, s')" "balloc_ok s"
  shows "mem_kept s s'"
  using assms
proof (induction rule: allocate_loop_induct)
  case (round f i s b s1 r s2)
  show ?case
    using mem_kept_trans [OF mem_kept_trans [OF mem_kept_alloc [OF round(3,2)] mem_kept_map [OF round(6,5)]] round(7)] .
qed (rule mem_kept_refl)

lemma brk_memory:
  assumes "brk addr s = Some (0, s')" "balloc_ok s"
  shows "\<exists>t. s' = t\<lparr>brk_ptr := addr\<rparr> \<and> mem_kept s t"
proof -
  consider f n r t where "allocate_loop f 0 n s = Some (r, t)" "r \<noteq> -1" "s' = t\<lparr>brk_ptr := addr\<rparr>" | "s' = s\<lparr>brk_ptr := addr\<rparr>"
    using assms(1) by (auto simp: brk_def allocate_new_brk_def Let_def bind_eq_Some_conv split: if_splits)
  then show ?thesis
  proof cases
    case 1
    then have "r = 0" using allocate_loop_outcome by blast
    then show ?thesis using 1 mem_kept_loop [of f 0 n s t] assms(2) by blast
  qed (use mem_kept_refl in blast)
qed

lemma sbrk_memory:
  assumes "sbrk_room n s"
  shows "\<exists>t. sbrk n s = Some (brk_ptr s, t\<lparr>brk_ptr := brk_ptr s + n\<rparr>) \<and> heap_ok (t\<lparr>brk_ptr := brk_ptr s + n\<rparr>) \<and> mem_kept s t
    \<and> free_count s \<le> free_count t + 2 * (Suc (frame (brk_ptr s + n)) - heap_top s)"
proof -
  note R = assms [unfolded sbrk_room_def]
  obtain s' where s': "sbrk n s = Some (brk_ptr s, s')" "heap_ok s'"
      "free_count s \<le> free_count s' + 2 * (Suc (frame (brk_ptr s + n)) - heap_top s)"
    using sbrk_result [of s n] R by blast
  have "unat n \<noteq> 0" using R by (simp add: unat_eq_zero)
  then have "brk_ptr s \<noteq> - 1" using R by (auto simp: HEAP_LIMIT_def unsigned_minus_1_eq_mask mask_eq_exp_minus_1)
  then have b: "brk (brk_ptr s + n) s = Some (0, s')"
    using s'(1) R by (auto simp: sbrk_def Let_def bind_eq_Some_conv split: if_splits)
  have "balloc_ok s" using R by (auto simp: heap_ok_def tables_ok_def vm_def)
  then show ?thesis using brk_memory [OF b] s' by auto
qed

section \<open>The list grows\<close>

text \<open>The two words of a header lie outside the block bitmap.\<close>

definition off_bitmap :: "'a balloc_scheme \<Rightarrow> u32 \<Rightarrow> bool" where
  "off_bitmap s h \<longleftrightarrow> (\<forall>x. in_region h 8 x \<longrightarrow> \<not> bitmap_byte s x)"

lemma header_kept:
  assumes "mem_kept s t" "off_bitmap s h"
  shows "hdr_next (mem t) h = hdr_next (mem s) h" "hdr_size (mem t) h = hdr_size (mem s) h"
proof -
  have b: "mem t x = mem s x" if "in_region h 8 x" for x using assms that by (simp add: mem_kept_def off_bitmap_def)
  have "in_region h 8 x" if "in_region h 4 x" for x using that by (simp add: in_region_def)
  moreover have "in_region h 8 x" if "in_region (h + 4) 4 x" for x using sub_region [of h 4 4 x 8] that by simp
  ultimately show "hdr_next (mem t) h = hdr_next (mem s) h" "hdr_size (mem t) h = hdr_size (mem s) h"
    unfolding hdr_next_def hdr_size_def using b by (auto intro!: load32_region)
qed

lemma header_region:
  assumes "fits h" "\<not> in_region h 8 x"
  shows "set_next h v m x = m x" "set_size h v m x = m x"
proof -
  have "\<not> (unat h \<le> unat x \<and> unat x < unat h + 8)" using assms region_range [of h 8 x] by (simp add: fits_def)
  from header_bytes [OF assms(1) this] show "set_next h v m x = m x" "set_size h v m x = m x" by simp_all
qed

lemma off_bitmap_header:
  assumes "off_bitmap s h" "fits h" "bitmap_byte s x"
  shows "set_next h v m x = m x" "set_size h v m x = m x"
proof -
  have "\<not> in_region h 8 x" using assms(1,3) by (auto simp: off_bitmap_def)
  from header_region [OF assms(2) this] show "set_next h v m x = m x" "set_size h v m x = m x" .
qed

text \<open>Growing the list changes the state of the allocators and writes the bitmap and headers of \<open>S\<close> only.\<close>

definition heap_writes :: "u32 set \<Rightarrow> 'a malloc_state_scheme \<Rightarrow> 'a malloc_state_scheme \<Rightarrow> bool" where
  "heap_writes S s s' \<longleftrightarrow> (\<exists>e m u ph b f. s' = s\<lparr>errno := e, mem := m, bused := u, phys := ph, brk_ptr := b, next_free := f\<rparr>)
     \<and> (\<forall>x. \<not> bitmap_byte s x \<longrightarrow> (\<forall>h \<in> S. \<not> in_region h 8 x) \<longrightarrow> mem s' x = mem s x)"

lemma heap_writesI:
  assumes "s' = s\<lparr>errno := e, mem := m, bused := u, phys := ph, brk_ptr := b, next_free := f\<rparr>"
    and "\<And>x. \<not> bitmap_byte s x \<Longrightarrow> \<forall>h \<in> S. \<not> in_region h 8 x \<Longrightarrow> m x = mem s x"
  shows "heap_writes S s s'"
  unfolding heap_writes_def
proof (intro conjI allI impI)
  show "\<exists>e m u ph b f. s' = s\<lparr>errno := e, mem := m, bused := u, phys := ph, brk_ptr := b, next_free := f\<rparr>"
    using assms(1) by (intro exI) assumption
qed (use assms in simp)

lemma heap_writes_trans: "heap_writes S s1 s2 \<Longrightarrow> heap_writes T s2 s3 \<Longrightarrow> heap_writes (S \<union> T) s1 s3"
  unfolding heap_writes_def by (fastforce simp: bitmap_byte_def)

text \<open>The amount \<open>morecore\<close> asks for.\<close>

definition core_size :: "u32 \<Rightarrow> u32" where
  "core_size sz = (if sz + 8 < 1024 then 1024 else sz + 8)"

lemma core_size_bound: "8 \<le> unat (core_size sz)"
  by (auto simp: core_size_def word_less_nat_alt not_less)

text \<open>The state in which growing the heap works: blocks for the pages, the whole list below the
  break, and no header in the bitmap.\<close>

definition growable :: "u32 \<Rightarrow> u32 list \<Rightarrow> 'a malloc_state_scheme \<Rightarrow> bool" where
  "growable n hs s \<longleftrightarrow> sbrk_room n s \<and> free_list (mem s) hs \<and> next_free s = hs ! 0 \<and> off_bitmap s (brk_ptr s)
     \<and> (\<forall>h \<in> set hs. off_bitmap s h \<and> extent (mem s) h \<le> unat (brk_ptr s)
          \<and> hdr_plus (brk_ptr s) n \<noteq> h \<and> hdr_plus h (hdr_size (mem s) h) \<noteq> brk_ptr s)"

lemma morecore_core:
  "morecore sz s = do {
     (p, s1) \<leftarrow> sbrk (core_size sz) s;
     if p = - 1 then Some (0, s1\<lparr>errno := ENOMEM\<rparr>)
     else do { s2 \<leftarrow> free (p + 8) (s1\<lparr>mem := set_size p (core_size sz) (mem s1)\<rparr>); Some (p, s2) }
   }"
  unfolding morecore_def core_size_def Let_def HEADER_SIZE_def MALLOC_MIN_SBRK_REQUEST_def by (rule refl)

lemma morecore_result:
  assumes "growable (core_size sz) hs s"
  shows "\<exists>s' hs'. morecore sz s = Some (brk_ptr s, s') \<and> heap_ok s' \<and> brk_ptr s' = brk_ptr s + core_size sz
    \<and> free_list (mem s') hs' \<and> next_free s' = hs' ! 0 \<and> set hs' = insert (brk_ptr s) (set hs) \<and> hs' ! 1 = brk_ptr s
    \<and> hdr_size (mem s') (brk_ptr s) = core_size sz \<and> (\<forall>h \<in> set hs. hdr_size (mem s') h = hdr_size (mem s) h)
    \<and> heap_writes (insert (brk_ptr s) (set hs)) s s' \<and> free_count s \<le> free_count s' + 2 * (Suc (frame (brk_ptr s + core_size sz)) - heap_top s)"
proof -
  let ?n = "core_size sz" and ?p = "brk_ptr s"
  note G = assms [unfolded growable_def]
  obtain t where t: "sbrk ?n s = Some (?p, t\<lparr>brk_ptr := ?p + ?n\<rparr>)" "heap_ok (t\<lparr>brk_ptr := ?p + ?n\<rparr>)" "mem_kept s t"
      "free_count s \<le> free_count t + 2 * (Suc (frame (?p + ?n)) - heap_top s)"
    using sbrk_memory G by blast
  obtain m u e ph where tf: "t = s\<lparr>errno := e, mem := m, bused := u, phys := ph\<rparr>" using t(3) by (auto simp: mem_kept_def mm_change_def)
  have r: "?p \<noteq> 0" "unat ?p + unat ?n < 4096 * HEAP_LIMIT" using G by (auto simp: sbrk_room_def)
  have pm: "?p \<noteq> - 1" using r(2) core_size_bound [of sz] by (auto simp: HEAP_LIMIT_def unsigned_minus_1_eq_mask mask_eq_exp_minus_1)
  have fp: "fits ?p" using r(2) core_size_bound [of sz] by (simp add: fits_def HEAP_LIMIT_def)
  define s1 where "s1 = t\<lparr>brk_ptr := ?p + ?n, mem := set_size ?p ?n m\<rparr>"
  have mt: "mem t = m" by (simp add: tf)
  have clear: "clear_of ?p h" "fits h" if "h \<in> set hs" for h
    using G that free_listD(2) by (auto simp: clear_of_def extent_def)
  have w: "hdr_next (mem s1) h = hdr_next (mem s) h" "hdr_size (mem s1) h = hdr_size (mem s) h" if h: "h \<in> set hs" for h
    using header_kept [OF t(3), of h] G h header_clear(3,4) [OF fp clear(2) [OF h] clear(1) [OF h]] by (auto simp: s1_def mt)
  have ex: "extent (mem s1) h = extent (mem s) h" if "h \<in> set hs" for h using w(2) [OF that] by (simp add: extent_def)
  have sp: "hdr_size (mem s1) ?p = ?n" by (simp add: s1_def)
  have F: "free_list (mem s) hs" using G by blast
  have fl: "free_list (mem s1) hs"
    by (rule free_list_cong [OF F ring_cong [OF free_listD(1) [OF F] w(1)] ordered_cong [OF free_listD(6) [OF F] w(1)]])
      (simp_all add: w(2))
  have sep: "separate (mem s1) hs ?p"
    using G fp r(2) core_size_bound [of sz] w(2) ex
    by (auto simp: separate_def sp extent_def [of _ ?p] disjoint_from_def HEAP_LIMIT_def)
  obtain s' hs' where f: "free (?p + 8) s1 = Some s'" "free_list (mem s') hs'" "next_free s' = hs' ! 0"
      "set hs' = insert ?p (set hs)" "hs' ! 1 = ?p" "\<forall>x \<in> set hs'. hdr_size (mem s') x = hdr_size (mem s1) x"
    using free_result [OF fl, of "?p + 8"] sep G by (auto simp: s1_def tf)
  obtain h i rest where pl: "s' = s1\<lparr>mem := set_next h ?p (set_next ?p (hdr_next (mem s1) h) (mem s1)), next_free := h\<rparr>" "rotate i hs = h # rest"
    using free_place [OF fl, of "?p + 8"] sep G f(1) by (auto simp: s1_def tf)
  have h: "h \<in> set hs" using pl(2) by (metis list.set_intros(1) set_rotate)
  define m' where "m' = set_next h ?p (set_next ?p (hdr_next (mem s1) h) (mem s1))"
  have "m' x = m x" if "bitmap_byte s x" for x
    using off_bitmap_header [OF _ fp that] off_bitmap_header [OF _ clear(2) [OF h] that] G h by (simp add: m'_def s1_def)
  moreover have s'_eq: "s' = t\<lparr>brk_ptr := ?p + ?n, mem := m', next_free := h\<rparr>" by (simp add: pl(1) m'_def s1_def)
  ultimately have "same_heap (t\<lparr>brk_ptr := ?p + ?n\<rparr>) s'" by (simp add: same_heap_def bitmap_byte_def tf)
  note H = heap_ok_frame [OF t(2) this]
  then have "heap_ok s'" "free_count s' = free_count t" by simp_all
  moreover have "heap_writes (insert ?p (set hs)) s s'"
  proof (rule heap_writesI)
    show "s' = s\<lparr>errno := e, mem := m', bused := u, phys := ph, brk_ptr := ?p + ?n, next_free := h\<rparr>" by (simp add: s'_eq tf)
    fix x assume x: "\<not> bitmap_byte s x" "\<forall>h \<in> insert ?p (set hs). \<not> in_region h 8 x"
    then have "m x = mem s x" using t(3) by (simp add: mem_kept_def mt)
    then show "m' x = mem s x" using header_region(1) [OF fp] header_region(2) [OF fp] header_region(1) [OF clear(2) [OF h]] x(2) h
      by (simp add: m'_def s1_def)
  qed
  moreover have "brk_ptr s' = ?p + ?n" by (simp add: s'_eq)
  moreover have "morecore sz s = Some (?p, s')"
    using t(1) pm f(1) by (simp add: morecore_core s1_def mt)
  ultimately show ?thesis using f(2-6) sp w(2) t(4) by (intro exI [of _ s'] exI [of _ hs']) auto
qed

text \<open>Room for two requests of the same amount in a row.\<close>

definition growable_twice :: "u32 \<Rightarrow> u32 list \<Rightarrow> 'a malloc_state_scheme \<Rightarrow> bool" where
  "growable_twice n hs s \<longleftrightarrow> growable n hs s \<and> unat (brk_ptr s) + 2 * unat n < 4096 * HEAP_LIMIT
     \<and> 2 * (Suc (frame (brk_ptr s + n + n)) - heap_top s) \<le> free_count s \<and> off_bitmap s (brk_ptr s + n)
     \<and> (\<forall>h \<in> set hs. hdr_plus (brk_ptr s + n) n \<noteq> h \<and> hdr_plus h (hdr_size (mem s) h) \<noteq> brk_ptr s + n)"

text \<open>7 and 9 have inverses modulo \<open>2 ^ 32\<close>.\<close>

lemma odd_multiples:
  fixes n :: u32
  shows "7 * n = 0 \<Longrightarrow> n = 0" "9 * n = 0 \<Longrightarrow> n = 0"
proof -
  have "(3067833783 * 7 :: u32) = 1" "(954437177 * 9 :: u32) = 1" by simp_all
  then have "n = 3067833783 * (7 * n)" "n = 954437177 * (9 * n)" by (simp_all only: mult.assoc [symmetric] mult_1)
  then show "7 * n = 0 \<Longrightarrow> n = 0" "9 * n = 0 \<Longrightarrow> n = 0" by (metis mult_zero_right)+
qed

lemma no_false_neighbours:
  fixes n p :: u32
  assumes "n \<noteq> 0"
  shows "hdr_plus p n \<noteq> p + n" "hdr_plus (p + n) n \<noteq> p"
proof -
  have "hdr_plus p n = p + n + 7 * n" "hdr_plus (p + n) n = p + 9 * n" by (simp_all add: hdr_plus_def HEADER_SIZE_def)
  then show "hdr_plus p n \<noteq> p + n" "hdr_plus (p + n) n \<noteq> p" using odd_multiples [of n] assms by auto
qed

lemma growable_again:
  fixes s s1 :: "'a malloc_state_scheme"
  assumes "growable_twice n hs s" "heap_ok s1" "brk_ptr s1 = brk_ptr s + n" "free_list (mem s1) hs1" "next_free s1 = hs1 ! 0"
    and "set hs1 = insert (brk_ptr s) (set hs)" "hdr_size (mem s1) (brk_ptr s) = n" "8 \<le> unat n"
    and "\<forall>h \<in> set hs. hdr_size (mem s1) h = hdr_size (mem s) h" "heap_writes S s s1"
    and "free_count s \<le> free_count s1 + 2 * (Suc (frame (brk_ptr s + n)) - heap_top s)"
  shows "growable n hs1 s1"
proof -
  let ?p = "brk_ptr s"
  note G = assms(1) [unfolded growable_twice_def growable_def sbrk_room_def]
  have u: "unat (?p + n) = unat ?p + unat n" by (rule unat_add_lem [THEN iffD1]) (use G in \<open>simp add: HEAP_LIMIT_def\<close>)
  have pn: "?p + n \<noteq> 0" "n \<noteq> 0" using u assms(8) by auto
  have t: "heap_top s = Suc (frame ?p)" "heap_top s1 = Suc (frame (?p + n))" using G pn assms(3) by (simp_all add: heap_top_def)
  have "frame ?p \<le> frame (?p + n)" using u by (intro frame_mono) (simp add: word_le_nat_alt)
  moreover have "2 * (Suc (frame (?p + n + n)) - heap_top s) \<le> free_count s" using G by blast
  ultimately have "2 * (Suc (frame (?p + n + n)) - heap_top s1) \<le> free_count s1" using assms(11) t by linarith
  then have r: "sbrk_room n s1" using G pn assms(2,3) u by (simp add: sbrk_room_def)
  have o: "off_bitmap s1 = off_bitmap s" using assms(10) by (auto simp: fun_eq_iff off_bitmap_def bitmap_byte_def heap_writes_def)
  have ex: "extent (mem s1) h = extent (mem s) h" if "h \<in> set hs" for h using assms(9) that by (simp add: extent_def)
  have "off_bitmap s1 h \<and> extent (mem s1) h \<le> unat (brk_ptr s1) \<and> hdr_plus (brk_ptr s1) n \<noteq> h \<and> hdr_plus h (hdr_size (mem s1) h) \<noteq> brk_ptr s1"
    if h: "h \<in> set hs1" for h
  proof (cases "h = ?p")
    case True
    then show ?thesis using G assms(3,7,8) no_false_neighbours [OF pn(2), of ?p] u by (simp add: o extent_def)
  next
    case False
    then have "h \<in> set hs" using h assms(6) by simp
    then show ?thesis using G assms(3,9) ex u by (auto simp: o)
  qed
  then show ?thesis using r G assms(3-5) by (simp add: growable_def o)
qed

section \<open>Allocating with growth\<close>

text \<open>A search that finds no block that is big enough ends with a call of \<open>morecore\<close>.\<close>

lemma malloc_loop_miss:
  assumes "ring (mem s) hs" "next_free s = hs ! 0" "0 < i" "i \<le> length hs"
    and "\<And>k. i \<le> k \<Longrightarrow> k \<le> length hs \<Longrightarrow> hdr_size (mem s) (hs ! (k mod length hs)) < n"
  shows "malloc_loop n (hs ! (i - 1)) (hs ! (i mod length hs)) s
    = Option.bind (morecore n s) (\<lambda>(header', s'). if header' = 0 then Some (0, s') else malloc_loop n header' (hdr_next (mem s') header') s')"
  using assms(4,3,5)
proof (induction i rule: inc_induct)
  case base
  then have "\<not> n \<le> hdr_size (mem s) (hs ! 0)" using base(2) [of "length hs"] by (simp add: not_le)
  then show ?case using assms(2) by (subst malloc_loop.simps) simp
next
  case (step i)
  have small: "\<not> n \<le> hdr_size (mem s) (hs ! i)" using step.prems(2) [of i] step.hyps by (simp add: not_le)
  have "hs ! i \<noteq> hs ! 0" using assms(1) step.hyps step.prems(1) by (auto simp: ring_def nth_eq_iff_index_eq)
  then have "hs ! i \<noteq> next_free s" using assms(2) by simp
  moreover have "hdr_next (mem s) (hs ! i) = hs ! (Suc i mod length hs)" using assms(1) step.hyps by (simp add: ring_def)
  ultimately have "malloc_loop n (hs ! (i - 1)) (hs ! (i mod length hs)) s = malloc_loop n (hs ! i) (hs ! (Suc i mod length hs)) s"
    using small step.hyps by (subst malloc_loop.simps) simp
  then show ?case using step.IH step.prems(2) by simp
qed

text \<open>The search goes on behind the new block, which is the second one of the list.\<close>

lemma second_of_ring:
  assumes "ring m hs" "hs ! 1 = p" "p \<in> set hs" "x \<in> set hs" "x \<noteq> p"
  shows "2 \<le> length hs" "hdr_next m p = hs ! (2 mod length hs)" "2 \<le> k \<Longrightarrow> k \<le> length hs \<Longrightarrow> hs ! (k mod length hs) \<noteq> p"
proof -
  have n: "0 < length hs" "distinct hs" using assms(1) by (simp_all add: ring_def)
  show l: "2 \<le> length hs"
  proof (rule ccontr)
    assume "\<not> ?thesis"
    then have "length hs = 1" using n(1) by linarith
    then obtain y where "hs = [y]" by (auto simp: length_Suc_conv)
    then show False using assms(3-5) by simp
  qed
  have "\<forall>i < length hs. hdr_next m (hs ! i) = hs ! (Suc i mod length hs)" using assms(1) unfolding ring_def by blast
  moreover have "1 < length hs" using l by simp
  ultimately have "hdr_next m (hs ! 1) = hs ! (Suc 1 mod length hs)" by blast
  then show "hdr_next m p = hs ! (2 mod length hs)" unfolding assms(2) Suc_1 .
  assume k: "2 \<le> k" "k \<le> length hs"
  have "k mod length hs \<noteq> 1"
  proof (cases "k = length hs")
    case False
    then have "k mod length hs = k" using k(2) by (intro mod_less) linarith
    then show ?thesis using k(1) by linarith
  qed simp
  moreover have "k mod length hs < length hs" using n(1) by (rule mod_less_divisor)
  moreover have "1 < length hs" using l by simp
  ultimately have "hs ! (k mod length hs) \<noteq> hs ! 1" using nth_eq_iff_index_eq [OF n(2)] by blast
  then show "hs ! (k mod length hs) \<noteq> p" using assms(2) by simp
qed

lemma core_size_room:
  assumes "unat nbytes + 16 < 2 ^ 32"
  shows "unat (nbytes + 8) = unat nbytes + 8" "unat nbytes + 16 \<le> unat (core_size (nbytes + 8))"
proof -
  show a: "unat (nbytes + 8) = unat nbytes + 8" using unat_add_small [of nbytes 8] assms by simp
  have "unat (nbytes + 8 + 8) = unat nbytes + 16" using unat_add_small [of "nbytes + 8" 8] a assms by simp
  then show "unat nbytes + 16 \<le> unat (core_size (nbytes + 8))" by (auto simp: core_size_def word_less_nat_alt)
qed

text \<open>The first round through the list ends with \<open>morecore\<close>; the second one starts behind the new block,
  leaves it out and ends with \<open>morecore\<close> again.\<close>

lemma malloc_two_rounds:
  assumes T: "growable_twice c hs s" and c: "c = core_size (nbytes + 8)" and "0 \<notin> set hs" "unat nbytes + 16 < 2 ^ 32"
    and small: "\<forall>h \<in> set hs. hdr_size (mem s) h < nbytes + 8"
  shows "\<exists>s2 hs2. malloc nbytes s = malloc_loop (nbytes + 8) (hs2 ! 1) (hs2 ! (2 mod length hs2)) s2
    \<and> brk_ptr s2 = brk_ptr s + c + c \<and> free_list (mem s2) hs2 \<and> next_free s2 = hs2 ! 0 \<and> hs2 ! 1 = brk_ptr s + c
    \<and> set hs2 = insert (brk_ptr s) (insert (brk_ptr s + c) (set hs)) \<and> brk_ptr s \<noteq> brk_ptr s + c
    \<and> hdr_size (mem s2) (brk_ptr s) = c \<and> hdr_size (mem s2) (brk_ptr s + c) = c \<and> (\<forall>h \<in> set hs. hdr_size (mem s2) h = hdr_size (mem s) h)
    \<and> brk_ptr s \<notin> set hs \<and> brk_ptr s + c \<notin> set hs \<and> heap_writes (insert (brk_ptr s) (insert (brk_ptr s + c) (set hs))) s s2"
proof -
  let ?a = "nbytes + 8" and ?p = "brk_ptr s"
  let ?retry = "\<lambda>(header', s'). if header' = 0 then Some (0, s') else malloc_loop ?a header' (hdr_next (mem s') header') s'"
  note ca = core_size_room(2) [OF assms(4), folded c]
  have G: "growable c hs s" using T by (simp add: growable_twice_def)
  note g = G [unfolded growable_def sbrk_room_def]
  have F: "free_list (mem s) hs" "next_free s = hs ! 0" using g by simp_all
  have R: "ring (mem s) hs" by (rule free_listD(1) [OF F(1)])
  have n: "0 < length hs" using R by (simp add: ring_def)
  have h0: "hs ! 0 \<in> set hs" using n by simp
  have nz: "next_free s \<noteq> 0" using F(2) h0 assms(3) by metis
  have pn: "?p \<notin> set hs" using g by (fastforce simp: extent_def)
  have c0: "c \<noteq> 0" "?p \<noteq> 0" using ca g by auto
  have u: "unat (?p + c) = unat ?p + unat c"
    by (rule unat_add_lem [THEN iffD1]) (use T in \<open>simp add: growable_twice_def HEAP_LIMIT_def\<close>)
  then have q: "?p + c \<noteq> 0" "?p + c \<noteq> ?p" "?p + c \<notin> set hs" using ca g by (fastforce simp: extent_def)+
  have "hdr_next (mem s) (hs ! 0) = hs ! (1 mod length hs)" using R n by (simp add: ring_def)
  moreover have "hdr_size (mem s) (hs ! (k mod length hs)) < ?a" for k using small n by simp
  ultimately have M0: "malloc nbytes s = Option.bind (morecore ?a s) ?retry"
    using malloc_loop_miss [OF R F(2), of 1 ?a] n F(2) nz by (auto simp: malloc_def start_list_def Let_def HEADER_SIZE_def)
  obtain s1 hs1 where s1: "morecore ?a s = Some (?p, s1)" "heap_ok s1" "brk_ptr s1 = ?p + c" "free_list (mem s1) hs1"
      "next_free s1 = hs1 ! 0" "set hs1 = insert ?p (set hs)" "hs1 ! 1 = ?p" "hdr_size (mem s1) ?p = c"
      "\<forall>h \<in> set hs. hdr_size (mem s1) h = hdr_size (mem s) h" "heap_writes (insert ?p (set hs)) s s1"
      "free_count s \<le> free_count s1 + 2 * (Suc (frame (?p + c)) - heap_top s)"
    using morecore_result [OF G [unfolded c]] unfolding c [symmetric] by blast
  have R1: "ring (mem s1) hs1" by (rule free_listD(1) [OF s1(4)])
  have in1: "?p \<in> set hs1" "hs ! 0 \<in> set hs1" "hs ! 0 \<noteq> ?p" using s1(6) h0 pn by auto
  note S1 = second_of_ring [OF R1 s1(7) in1]
  have "hdr_size (mem s1) (hs1 ! (k mod length hs1)) < ?a" if "2 \<le> k" "k \<le> length hs1" for k
  proof -
    have "hs1 ! (k mod length hs1) \<in> set hs1" using S1(1) by (intro nth_mem mod_less_divisor) linarith
    then have "hs1 ! (k mod length hs1) \<in> set hs" using S1(3) [OF that] s1(6) by blast
    then show ?thesis using small s1(9) by simp
  qed
  then have M1: "malloc nbytes s = Option.bind (morecore ?a s1) ?retry"
    using malloc_loop_miss [OF R1 s1(5), of 2 ?a] S1(1,2) s1(1,7) c0(2) M0 by (simp add: numeral_2_eq_2)
  have G1: "growable c hs1 s1" by (rule growable_again [OF T s1(2-6,8) _ s1(9-11)]) (use ca in simp)
  obtain s2 hs2 where s2: "morecore ?a s1 = Some (?p + c, s2)" "brk_ptr s2 = ?p + c + c" "free_list (mem s2) hs2"
      "next_free s2 = hs2 ! 0" "set hs2 = insert (?p + c) (set hs1)" "hs2 ! 1 = ?p + c" "hdr_size (mem s2) (?p + c) = c"
      "\<forall>h \<in> set hs1. hdr_size (mem s2) h = hdr_size (mem s1) h" "heap_writes (insert (?p + c) (set hs1)) s1 s2"
    using morecore_result [OF G1 [unfolded c]] unfolding c [symmetric] s1(3) by blast
  have R2: "ring (mem s2) hs2" by (rule free_listD(1) [OF s2(3)])
  have "?p + c \<in> set hs2" "?p \<in> set hs2" using s2(5) s1(6) by auto
  from second_of_ring(2) [OF R2 s2(6) this] q(2) s2(1,6) M1
  have "malloc nbytes s = malloc_loop ?a (hs2 ! 1) (hs2 ! (2 mod length hs2)) s2" using q(1) by auto
  moreover have "heap_writes (insert ?p (insert (?p + c) (set hs))) s s2"
    using heap_writes_trans [OF s1(10) s2(9)] s1(6) by (simp add: insert_commute)
  ultimately show ?thesis using s2(2-8) s1(6,8,9) pn q
    by (intro exI [of _ s2] exI [of _ hs2]) (auto simp: insert_commute)
qed

text \<open>The third round finds the first new block and cuts its end off.\<close>

lemma malloc_growth_result:
  assumes "growable_twice c hs s" and c: "c = core_size (nbytes + 8)" and "0 \<notin> set hs" "unat nbytes + 16 < 2 ^ 32"
    and small: "\<forall>h \<in> set hs. hdr_size (mem s) h < nbytes + 8"
  shows "\<exists>s' hs'. malloc nbytes s = Some (brk_ptr s + c - nbytes, s') \<and> brk_ptr s' = brk_ptr s + c + c
    \<and> free_list (mem s') hs' \<and> next_free s' = hs' ! 0 \<and> set hs' = insert (brk_ptr s) (insert (brk_ptr s + c) (set hs))
    \<and> hdr_size (mem s') (brk_ptr s) = c - (nbytes + 8) \<and> hdr_size (mem s') (brk_ptr s + c) = c
    \<and> (\<forall>h \<in> set hs. hdr_size (mem s') h = hdr_size (mem s) h)
    \<and> heap_writes (insert (brk_ptr s + (c - (nbytes + 8))) (insert (brk_ptr s) (insert (brk_ptr s + c) (set hs)))) s s'"
proof -
  let ?a = "nbytes + 8" and ?p = "brk_ptr s"
  note ca = core_size_room [OF assms(4), folded c]
  obtain s2 hs2 where m: "malloc nbytes s = malloc_loop ?a (hs2 ! 1) (hs2 ! (2 mod length hs2)) s2"
    and s2: "brk_ptr s2 = ?p + c + c" "free_list (mem s2) hs2" "next_free s2 = hs2 ! 0" "hs2 ! 1 = ?p + c"
      "set hs2 = insert ?p (insert (?p + c) (set hs))" "?p \<noteq> ?p + c"
    and z: "hdr_size (mem s2) ?p = c" "hdr_size (mem s2) (?p + c) = c" "\<forall>h \<in> set hs. hdr_size (mem s2) h = hdr_size (mem s) h"
    and out: "?p \<notin> set hs" "?p + c \<notin> set hs" and hw: "heap_writes (insert ?p (insert (?p + c) (set hs))) s s2"
    using malloc_two_rounds [OF assms] by blast
  have R: "ring (mem s2) hs2" by (rule free_listD(1) [OF s2(2)])
  then have n: "hs2 \<noteq> []" by (simp add: ring_def)
  have p: "?p \<in> set hs2" "?p + c \<in> set hs2" using s2(5) by auto
  note S = second_of_ring [OF R s2(4) p(2,1) s2(6)]
  obtain j where j: "0 < j" "j \<le> length hs2" "hs2 ! (j mod length hs2) = ?p" "\<And>k. 0 < k \<Longrightarrow> k < j \<Longrightarrow> hs2 ! k \<noteq> ?p"
    using first_block [OF n, of "\<lambda>x. x = ?p"] p(1) by blast
  have "j \<noteq> 1" using j(3) S(1) s2(4,6) by auto
  then have j2: "2 \<le> j" using j(1) by linarith
  have "malloc_loop ?a (hs2 ! (2 - 1)) (hs2 ! (2 mod length hs2)) s2 = Some (take_block ?a (hs2 ! (j - 1)) (hs2 ! (j mod length hs2)) s2)"
  proof (rule malloc_loop_search [OF R s2(3) _ j2 j(2)])
    fix k assume k: "2 \<le> k" "k < j"
    then have kl: "k mod length hs2 = k" "k < length hs2" using j(2) by simp_all
    have "hs2 ! k \<in> set hs" using s2(5) nth_mem [OF kl(2)] j(4) [of k] S(3) [of k] k kl by auto
    then show "hdr_size (mem s2) (hs2 ! (k mod length hs2)) < ?a" using small z(3) kl(1) by simp
  qed (use j(3) z(1) ca in \<open>simp_all add: word_le_nat_alt\<close>)
  then have m: "malloc nbytes s = Some (take_block ?a (hs2 ! (j - 1)) ?p s2)" using m j(3) by simp
  have "8 \<le> unat ?a" "unat ?a + 8 \<le> unat (hdr_size (mem s2) ?p)" using ca z(1) by simp_all
  note B = split_block [OF s2(2) p(1) this, unfolded z(1)]
  have ne: "c \<noteq> ?a" using ca by auto
  let ?m = "set_size (?p + (c - ?a)) ?a (set_size ?p (c - ?a) (mem s2))"
  have "take_block ?a (hs2 ! (j - 1)) ?p s2 = (?p + c - nbytes, s2\<lparr>mem := ?m, next_free := hs2 ! (j - 1)\<rparr>)"
    using ne z(1) by (simp add: take_block_def Let_def HEADER_SIZE_def)
  then have "malloc nbytes s = Some (?p + c - nbytes, s2\<lparr>mem := ?m, next_free := hs2 ! (j - 1)\<rparr>)" using m by (simp only:)
  moreover have o: "hdr_size ?m h = hdr_size (mem s2) h" if "h \<in> set hs2" "h \<noteq> ?p" for h using B(6) [OF that(1)] that(2) by simp
  have "hdr_size ?m (?p + c) = c" using o [OF p(2)] s2(6) z(2) by (simp only: not_sym)
  moreover have "\<forall>h \<in> set hs. hdr_size ?m h = hdr_size (mem s) h"
  proof
    fix h assume h: "h \<in> set hs"
    then have "h \<in> set hs2" "h \<noteq> ?p" using s2(5) out(1) by auto
    then show "hdr_size ?m h = hdr_size (mem s) h" using o z(3) h by simp
  qed
  moreover have "hdr_size ?m ?p = c - ?a" using B(6) [OF p(1)] by simp
  moreover have "free_list ?m (rotate (j - 1) hs2)" using B(1) by (rule free_list_rotate)
  moreover have "heap_writes {?p + (c - ?a), ?p} s2 (s2\<lparr>mem := ?m, next_free := hs2 ! (j - 1)\<rparr>)"
  proof (rule heap_writesI [where e = "errno s2" and m = ?m and u = "bused s2" and ph = "phys s2" and b = "brk_ptr s2" and f = "hs2 ! (j - 1)"])
    have "unat (?p + (c - ?a)) + unat ?a \<le> 2 ^ 32"
      using B(2) free_listD(4) [OF s2(2) p(1)] z(1) ca by (simp add: extent_def)
    then have f: "fits (?p + (c - ?a))" "fits ?p" using ca free_listD(2) [OF s2(2) p(1)] by (simp_all add: fits_def)
    fix x assume "\<forall>h \<in> {?p + (c - ?a), ?p}. \<not> in_region h 8 x"
    then show "?m x = mem s2 x" using header_region(2) [OF f(1)] header_region(2) [OF f(2)] by simp
  qed simp
  from heap_writes_trans [OF hw this]
  have "heap_writes (insert (?p + (c - ?a)) (insert ?p (insert (?p + c) (set hs)))) s (s2\<lparr>mem := ?m, next_free := hs2 ! (j - 1)\<rparr>)"
    by (simp add: insert_commute)
  ultimately show ?thesis using s2(1,5) rotate_hd [OF j(1,2)]
    by (intro exI [of _ "s2\<lparr>mem := ?m, next_free := hs2 ! (j - 1)\<rparr>"] exI [of _ "rotate (j - 1) hs2"]) simp
qed

section \<open>The first allocation\<close>

text \<open>Before the first call of \<open>malloc\<close>: there is no list, the base header lies below the heap.\<close>

definition fresh_heap :: "'a malloc_state_scheme \<Rightarrow> bool" where
  "fresh_heap s \<longleftrightarrow> heap_ok s \<and> next_free s = 0 \<and> base_header s \<noteq> 0 \<and> unat (base_header s) + 8 \<le> unat (brk_ptr s)
     \<and> unat (brk_ptr s) + 2048 < 4096 * HEAP_LIMIT \<and> 2 * (Suc (frame (brk_ptr s + 2048)) - heap_top s) \<le> free_count s
     \<and> off_bitmap s (base_header s) \<and> off_bitmap s (brk_ptr s) \<and> off_bitmap s (brk_ptr s + 1024)"

lemma fresh_growable:
  fixes s :: "'a malloc_state_scheme"
  assumes "fresh_heap s"
  shows "growable_twice 1024 [base_header s] (start_list s)" "heap_writes {base_header s} s (start_list s)"
    "hdr_size (mem (start_list s)) (base_header s) = 0" "brk_ptr (start_list s) = brk_ptr s"
proof -
  let ?b = "base_header s" and ?t = "start_list s" and ?p = "brk_ptr s"
  note A = assms [unfolded fresh_heap_def]
  have f: "fits ?b" using A by (simp add: fits_def HEAP_LIMIT_def)
  have t: "?t = s\<lparr>next_free := ?b, mem := set_size ?b 0 (set_next ?b ?b (mem s))\<rparr>"
    using A by (simp add: start_list_def Let_def)
  have w: "hdr_next (mem ?t) ?b = ?b" "hdr_size (mem ?t) ?b = 0" by (simp_all add: t f)
  then show "hdr_size (mem ?t) ?b = 0" by simp
  have m: "mem ?t x = mem s x" if "\<not> in_region ?b 8 x" for x using header_region [OF f that] by (simp add: t)
  show p: "brk_ptr ?t = ?p" by (simp add: t)
  have "same_heap s ?t" using A m unfolding same_heap_def off_bitmap_def by (auto simp: t)
  note H = heap_ok_frame [OF _ this]
  have o: "off_bitmap ?t = off_bitmap s" by (simp add: fun_eq_iff off_bitmap_def bitmap_byte_def t)
  have l: "free_list (mem ?t) [?b]" using f by (simp add: free_list_def ring_def ordered_def between_def w extent_def fits_def)
  have u: "unat (?p + of_nat k) = unat ?p + k" if "k \<le> 0x2800" for k
    using A that by (intro unat_add_small) (simp add: HEAP_LIMIT_def)
  have b: "unat ?b < unat ?p" using A by simp
  have ne: "?p + of_nat k \<noteq> ?b" if "k \<le> 0x2800" for k using u [OF that] b by (metis add_leD1 not_less order_refl)
  have d: "hdr_plus ?p 1024 \<noteq> ?b" "hdr_plus (?p + 1024) 1024 \<noteq> ?b" "?b \<noteq> ?p" "?b \<noteq> ?p + 1024" "?p \<noteq> 0"
    using ne [of "0x2000"] ne [of "0x2400"] ne [of 0] ne [of "0x400"] b by (auto simp: hdr_plus_def HEADER_SIZE_def add.assoc)
  have t2: "heap_top ?t = Suc (frame ?p)" "heap_top s = Suc (frame ?p)" using d(5) by (simp_all add: heap_top_def p)
  have "frame (?p + 1024) \<le> frame (?p + 2048)" using u [of 1024] u [of 2048] by (intro frame_mono) (simp add: word_le_nat_alt)
  then have "2 * (Suc (frame (?p + 1024)) - heap_top s) \<le> free_count s" using A by linarith
  then have "sbrk_room 1024 ?t" using A H d(5) by (simp add: sbrk_room_def p t2)
  then show "growable_twice 1024 [?b] ?t"
    using A H l d by (simp add: growable_twice_def growable_def p o t2 w extent_def hdr_plus_def [of ?b] add.assoc) (simp add: t)
  show "heap_writes {?b} s ?t"
    by (rule heap_writesI [where e = "errno s" and m = "mem ?t" and u = "bused s" and ph = "phys s" and b = "brk_ptr s" and f = ?b])
      (use m in \<open>simp_all add: t\<close>)
qed

lemma first_malloc:
  assumes "fresh_heap s" "unat n \<le> 1008"
  shows "\<exists>s'. malloc n s = Some (brk_ptr s + 1024 - n, s')
    \<and> heap_writes {brk_ptr s + (1024 - (n + 8)), brk_ptr s, brk_ptr s + 1024, base_header s} s s'"
proof -
  note F = fresh_growable [OF assms(1)]
  have u: "unat (n + 8) = unat n + 8" "unat (n + 8 + 8) = unat n + 16"
    using unat_add_small [of n 8] unat_add_small [of n 16] assms(2) by (simp_all add: add.assoc)
  have "n + 8 + 8 < 1024 \<or> n + 8 + 8 = 1024" using u(2) assms(2) by (auto simp: word_less_nat_alt word_unat_eq_iff)
  then have c: "core_size (n + 8) = 1024" by (auto simp: core_size_def)
  have "0 < n + 8" using u(1) by (simp add: word_less_nat_alt)
  moreover have "base_header s \<noteq> 0" using assms(1) by (simp add: fresh_heap_def)
  ultimately obtain s' where s': "malloc n (start_list s) = Some (brk_ptr s + 1024 - n, s')"
      "heap_writes (insert (brk_ptr s + (1024 - (n + 8))) (insert (brk_ptr s) (insert (brk_ptr s + 1024) (set [base_header s])))) (start_list s) s'"
    using malloc_growth_result [OF F(1), of n] assms(2) c by (auto simp: F(3,4))
  have "next_free s = 0" using assms(1) by (simp add: fresh_heap_def)
  then have "start_list (start_list s) = start_list s" using \<open>base_header s \<noteq> 0\<close> by (simp add: start_list_def Let_def)
  then have "malloc n s = malloc n (start_list s)" by (simp add: malloc_def)
  then show ?thesis using s'(1) heap_writes_trans [OF F(2) s'(2)] by (auto simp: insert_commute)
qed

section \<open>The allocator with growth\<close>

text \<open>
  The memory the allocator may hand out or write: the free blocks, all memory from the break on, and the bitmap of the page
  manager below it. The free blocks lie below the break and off the bitmap.
\<close>

definition owned :: "'a malloc_state_scheme \<Rightarrow> u32 \<Rightarrow> bool" where
  "owned s x \<longleftrightarrow> free_byte s x \<or> unat (brk_ptr s) \<le> unat x \<or> bitmap_byte s x"

definition heap_apart :: "'a malloc_state_scheme \<Rightarrow> bool" where
  "heap_apart s \<longleftrightarrow> heap_list s \<and> (\<forall>x. free_byte s x \<longrightarrow> unat x < unat (brk_ptr s) \<and> \<not> bitmap_byte s x)
     \<and> (\<forall>x. bitmap_byte s x \<longrightarrow> unat x < unat (brk_ptr s))"

text \<open>No block is big enough, and there is memory to grow.\<close>

definition grows :: "u32 \<Rightarrow> 'a malloc_state_scheme \<Rightarrow> bool" where
  "grows n s \<longleftrightarrow> n \<noteq> 0 \<and> unat n + 16 < 2 ^ 32
     \<and> (\<exists>hs. growable_twice (core_size (n + 8)) hs s \<and> 0 \<notin> set hs \<and> (\<forall>h \<in> set hs. hdr_size (mem s) h < n + 8))"

definition malloc_room :: "u32 \<Rightarrow> 'a malloc_state_scheme \<Rightarrow> bool" where
  "malloc_room n s \<longleftrightarrow> heap_apart s \<and> (has_block n s \<or> grows n s)"

definition heap_growth :: "'a malloc_state_scheme \<Rightarrow> 'a malloc_state_scheme \<Rightarrow> bool" where
  "heap_growth s s' \<longleftrightarrow> (\<exists>e m u ph b f. s' = s\<lparr>errno := e, mem := m, bused := u, phys := ph, brk_ptr := b, next_free := f\<rparr>)"

lemma has_block_room:
  fixes s :: "'a malloc_state_scheme"
  assumes "heap_apart s" "has_block n s"
  shows "\<exists>p s'. malloc n s = Some (p, s') \<and> p \<noteq> 0 \<and> heap_growth s s' \<and> heap_apart s' \<and> unat p + unat n \<le> 2 ^ 32
      \<and> (\<forall>x. in_region p (unat n) x \<longrightarrow> owned s x \<and> \<not> owned s' x)
      \<and> (\<forall>x. \<not> owned s x \<longrightarrow> \<not> owned s' x \<and> mem s' x = mem s x)"
proof -
  obtain p s' where m: "malloc n s = Some (p, s')" using has_block_grant [OF assms(2)] by blast
  note G = heap.granted [OF assms(2) m]
  obtain m f where s': "s' = s\<lparr>mem := m, next_free := f\<rparr>" using G(2) by (auto simp: heap_change_def)
  have b: "brk_ptr s' = brk_ptr s" "bitmap_byte s' x = bitmap_byte s x" for x by (simp_all add: s' bitmap_byte_def)
  have "heap_growth s s'" unfolding heap_growth_def
    by (intro exI [of _ "errno s"] exI [of _ m] exI [of _ "bused s"] exI [of _ "phys s"] exI [of _ "brk_ptr s"] exI [of _ f]) (simp add: s')
  moreover have "heap_apart s'" using assms(1) G(3,7) b unfolding heap_apart_def by metis
  moreover have "owned s x \<and> \<not> owned s' x" if "in_region p (unat n) x" for x
    using G(5,6) [OF that] assms(1) b by (auto simp: owned_def heap_apart_def not_le)
  moreover have "\<not> owned s' x \<and> mem s' x = mem s x" if "\<not> owned s x" for x
    using G(7,8) [of x] that b by (auto simp: owned_def)
  ultimately show ?thesis using m G(1,4) by blast
qed

lemma grows_room:
  fixes s :: "'a malloc_state_scheme"
  assumes "heap_apart s" "grows n s"
  shows "\<exists>p s'. malloc n s = Some (p, s') \<and> p \<noteq> 0 \<and> heap_growth s s' \<and> heap_apart s' \<and> unat p + unat n \<le> 2 ^ 32
      \<and> (\<forall>x. in_region p (unat n) x \<longrightarrow> owned s x \<and> \<not> owned s' x)
      \<and> (\<forall>x. \<not> owned s x \<longrightarrow> \<not> owned s' x \<and> mem s' x = mem s x)"
proof -
  let ?b = "brk_ptr s"
  obtain hs where n: "n \<noteq> 0" "unat n + 16 < 2 ^ 32" and T: "growable_twice (core_size (n + 8)) hs s"
      and z: "0 \<notin> set hs" "\<forall>h \<in> set hs. hdr_size (mem s) h < n + 8"
    using assms(2) unfolding grows_def by blast
  define c where "c = core_size (n + 8)"
  note ca = core_size_room [OF n(2), folded c_def]
  have G: "growable c hs s" "unat ?b + 2 * unat c < 4096 * HEAP_LIMIT" "?b \<noteq> 0"
    using T by (simp_all add: growable_twice_def growable_def sbrk_room_def c_def)
  have F: "free_list (mem s) hs" "next_free s = hs ! 0" using G(1) by (simp_all add: growable_def)
  have below: "extent (mem s) h \<le> unat ?b" if "h \<in> set hs" for h using G(1) that by (simp add: growable_def)
  obtain s' hs' where m: "malloc n s = Some (?b + c - n, s')" "brk_ptr s' = ?b + c + c"
      and s': "free_list (mem s') hs'" "next_free s' = hs' ! 0" "set hs' = insert ?b (insert (?b + c) (set hs))"
      and sz: "hdr_size (mem s') ?b = c - (n + 8)" "hdr_size (mem s') (?b + c) = c" "\<forall>h \<in> set hs. hdr_size (mem s') h = hdr_size (mem s) h"
      and w: "heap_writes (insert (?b + (c - (n + 8))) (insert ?b (insert (?b + c) (set hs)))) s s'"
    using malloc_growth_result [OF T refl z(1) n(2) z(2)] unfolding c_def by blast
  have lim: "unat ?b + 2 * unat c < 2 ^ 32" using G(2) by (simp add: HEAP_LIMIT_def)
  have u: "unat (?b + c) = unat ?b + unat c" "unat (?b + c + c) = unat ?b + 2 * unat c"
    using unat_add_small [of ?b "unat c"] unat_add_small [of ?b "2 * unat c"] lim by (simp_all add: add.assoc)
  have le: "n \<le> ?b + c" "n + 8 \<le> c" using ca u(1) by (simp_all add: word_le_nat_alt)
  have p: "unat (?b + c - n) = unat ?b + unat c - unat n" "unat (c - (n + 8)) = unat c - (unat n + 8)"
    using unat_sub [OF le(1)] unat_sub [OF le(2)] u(1) ca(1) by simp_all
  have bb: "bitmap_byte s' x = bitmap_byte s x" for x using w by (auto simp: heap_writes_def bitmap_byte_def)
  have old: "free_byte s x \<longleftrightarrow> (\<exists>h \<in> set hs. in_extent (mem s) h x)" for x by (rule free_byte_ring [OF free_listD(1) [OF F(1)] F(2)])
  have new: "free_byte s' x \<longleftrightarrow> free_byte s x \<or> (unat ?b \<le> unat x \<and> unat x < unat ?b + (unat c - (unat n + 8)))
      \<or> (unat ?b + unat c \<le> unat x \<and> unat x < unat ?b + 2 * unat c)" for x
    using sz ca by (auto simp: free_byte_ring [OF free_listD(1) [OF s'(1)] s'(2)] s'(3) old in_extent_def extent_def u(1) p(2) max_def)
  have "heap_growth s s'" using w by (simp add: heap_writes_def heap_growth_def)
  moreover have "heap_apart s'"
    using assms(1) s'(1,2) ca unfolding heap_apart_def m(2) u(2) new bb by (auto simp: heap_list_def)
  moreover have "owned s x \<and> \<not> owned s' x" if "in_region (?b + c - n) (unat n) x" for x
  proof -
    have "unat ?b + unat c - unat n \<le> unat x" "unat x < unat ?b + unat c"
      using that region_range [of "?b + c - n" "unat n" x] p(1) lim ca by simp_all
    then show ?thesis using assms(1) ca unfolding owned_def heap_apart_def m(2) u(2) new bb by fastforce
  qed
  moreover have "\<not> owned s' x \<and> mem s' x = mem s x" if x: "\<not> owned s x" for x
  proof
    show "\<not> owned s' x" using x unfolding owned_def m(2) u(2) new bb by auto
    have "\<not> in_region h 8 x" if h: "h \<in> insert (?b + (c - (n + 8))) (insert ?b (insert (?b + c) (set hs)))" for h
    proof
      assume i: "in_region h 8 x"
      show False
      proof (cases "h \<in> set hs")
        case True
        then have "unat h \<le> unat x \<and> unat x < unat h + 8"
          using i region_range [of h 8 x] free_listD(2) [OF F(1)] by (auto simp: fits_def)
        then have "in_extent (mem s) h x" by (simp add: in_extent_def extent_def max_def)
        then show False using x True old by (auto simp: owned_def)
      next
        case False
        have "unat ?b + unat (c - (n + 8)) < 2 ^ 32" using p(2) lim by linarith
        then have "unat (?b + (c - (n + 8))) = unat ?b + unat (c - (n + 8))" by (metis unat_add_small word_of_nat_unat_u32)
        then have "unat ?b \<le> unat h" "unat h + 8 \<le> 2 ^ 32" using h False u(1) lim ca p(2) by auto
        then have "unat ?b \<le> unat x" using i region_range [of h 8 x] by simp
        then show False using x by (simp add: owned_def)
      qed
    qed
    then show "mem s' x = mem s x" using w x by (auto simp: heap_writes_def owned_def)
  qed
  moreover have "?b + c - n \<noteq> 0"
  proof -
    have "unat (?b + c - n) \<noteq> 0" using p(1) ca by linarith
    then show ?thesis by auto
  qed
  moreover have "unat (?b + c - n) + unat n \<le> 2 ^ 32" using p(1) ca lim by linarith
  ultimately show ?thesis using m(1) by blast
qed

interpretation grown: allocator malloc mem owned malloc_room heap_growth heap_apart
  by unfold_locales (use has_block_room grows_room in \<open>auto simp: malloc_room_def\<close>)

section \<open>Properties\<close>

text \<open>The heap's sample with the break in its first page and the empty base header at 0x4000.\<close>

definition sample_base :: "malloc_state" where
  "sample_base = heap.extend ((sample_heap 7 0)\<lparr>mem := set_next 0x4000 0x4000 (set_size 0x4000 0 (mem (sample_heap 7 0)))\<rparr>)
     (malloc_state.fields 0x4000 0x4000)"

lemma sample_off:
  assumes "bitmap_byte (sample_heap 7 0) x"
  shows "unat x < 0x2000"
  using assms region_range [of "0x1000" 12 x] by (simp add: bitmap_byte_def sample_heap_fields balloc_at_def)

lemma sample_base_ok: "heap_ok sample_base" "free_count sample_base = 61"
proof -
  have "fits 0x4000" by (simp add: fits_def)
  then have "set_next 0x4000 0x4000 (set_size 0x4000 0 (mem (sample_heap 7 0))) x = mem (sample_heap 7 0) x" if "bitmap_byte (sample_heap 7 0) x" for x
    using header_bytes [of "0x4000" x] sample_off [OF that] by simp
  then have "same_heap (sample_heap 7 0) sample_base" by (simp add: same_heap_def sample_base_def heap.defs malloc_state.defs)
  from heap_ok_frame [OF sample_heap_ok this] show "heap_ok sample_base" "free_count sample_base = 61"
    by (simp_all add: sample_free_count)
qed

text \<open>The break in the second page of the heap, 0x800 bytes before its end.\<close>

lemma sample_grown:
  "\<exists>s :: malloc_state. growable_twice 1024 [0x4000] s \<and> brk_ptr s = 0x5800 \<and> hdr_size (mem s) 0x4000 = 0 \<and> heap_apart s"
proof -
  have f: "frame 0x5000 = 5" "frame 0x5800 = 5" "frame 0x5C00 = 5" "frame 0x6000 = 6" by (simp_all add: frame_def)
  have sb: "brk_ptr sample_base = 0" "heap_base sample_base = 0x5000" "mbmp sample_base = 0x1000" "btotal sample_base = 64" "next_free sample_base = 0x4000"
    "mem sample_base = set_next 0x4000 0x4000 (set_size 0x4000 0 (mem (sample_heap 7 0)))"
    by (simp_all add: sample_base_def heap.defs malloc_state.defs sample_heap_fields balloc_at_def)
  have fit: "fits 0x4000" by (simp add: fits_def)
  have w: "hdr_next (mem sample_base) 0x4000 = 0x4000" "hdr_size (mem sample_base) 0x4000 = 0" by (simp_all add: sb fit)
  obtain s' where s': "brk 0x5800 sample_base = Some (0, s')" "heap_ok s'" "free_count sample_base \<le> free_count s' + 2 * (Suc (frame 0x5800) - heap_top sample_base)"
    using brk_result [OF sample_base_ok(1), of "0x5800"] by (auto simp: sb sample_base_ok f heap_top_def HEAP_LIMIT_def)
  have "balloc_ok sample_base" using sample_base_ok(1) by (auto simp: heap_ok_def tables_ok_def vm_def)
  from brk_memory [OF s'(1) this] obtain t where t: "s' = t\<lparr>brk_ptr := 0x5800\<rparr>" "mem_kept sample_base t" by blast
  obtain m u e ph where tf: "t = sample_base\<lparr>errno := e, mem := m, bused := u, phys := ph\<rparr>" using t(2) by (auto simp: mem_kept_def mm_change_def)
  have bb: "bitmap_byte sample_base x \<Longrightarrow> unat x < 0x2000" "bitmap_byte s' x = bitmap_byte sample_base x" for x
    using sample_off [of x] by (simp_all add: bitmap_byte_def sb sample_heap_fields balloc_at_def t(1) tf)
  have off: "off_bitmap sample_base h" if "0x2000 \<le> unat h" "unat h < 0x10000" for h
    using that bb(1) region_range [of h 8] by (force simp: off_bitmap_def)
  have off': "off_bitmap s' h" if "0x2000 \<le> unat h" "unat h < 0x10000" for h
    using off [OF that] by (simp add: off_bitmap_def bb(2))
  have w': "hdr_next (mem s') 0x4000 = 0x4000" "hdr_size (mem s') 0x4000 = 0"
    using header_kept [OF t(2) off] w by (simp_all add: t(1))
  have fl: "free_list (mem s') [0x4000]" by (simp add: free_list_def ring_def w' ordered_def between_def extent_def)
  have nf: "next_free s' = [0x4000] ! 0" by (simp add: t(1) tf sb)
  have "heap_apart s'"
    unfolding heap_apart_def
  proof (intro conjI allI impI)
    show "heap_list s'" using fl nf by (auto simp: heap_list_def)
    fix x
    show "unat x < unat (brk_ptr s')" if "bitmap_byte s' x" using bb that by (fastforce simp: t(1))
    assume "free_byte s' x"
    then have x: "0x4000 \<le> unat x" "unat x < 0x4008"
      using free_byte_ring [OF free_listD(1) [OF fl] nf] by (simp_all add: in_extent_def extent_def w')
    then show "unat x < unat (brk_ptr s')" "\<not> bitmap_byte s' x" using bb [of x] by (auto simp: t(1))
  qed
  moreover from fl have "growable_twice 1024 [0x4000] s'"
    using s'(2,3) off' w' f by (simp add: growable_twice_def growable_def sbrk_room_def t(1) tf sb sample_base_ok heap_top_def HEAP_LIMIT_def extent_def hdr_plus_def HEADER_SIZE_def)
  ultimately show ?thesis using w' t(1) by auto
qed





end
