(* ===== verification/Boot.thy ===== *)
theory Boot
  imports KernelMain Growth
begin

text \<open>
  The start of the kernel as a whole: \<open>kernel_main\<close> of kernel/kernel/kernel.c from the state the early
  code leaves, through display, interrupts, timer, heap and serial port, to the end of the echo. What
  one part writes does not disturb the next one, because the regions of memory they use are disjoint.
\<close>

section \<open>Printing\<close>

text \<open>\<open>xs\<close> appears on the screen, and nothing else changes.\<close>

definition prints :: "u8 list \<Rightarrow> 'a display_scheme \<Rightarrow> 'a display_scheme \<Rightarrow> bool" where
  "prints xs s s' \<longleftrightarrow> (\<exists>m x y. s' = s\<lparr>mem := m, x_loc := x, y_loc := y\<rparr>) \<and> (\<forall>a. \<not> on_screen a \<longrightarrow> mem s' a = mem s a)
     \<and> display_ok s' \<and> tty_of s' = fold tty_write (map scast xs) (tty_of s)"

definition printable :: "u8 list \<Rightarrow> bool" where
  "printable xs \<longleftrightarrow> 8 \<notin> set xs \<and> 9 \<notin> set xs \<and> 255 \<notin> set xs \<and> length xs \<le> 0x7FFFFFFF"

lemma draws_off_screen: "draws 0 2000 s s' \<Longrightarrow> \<not> on_screen a \<Longrightarrow> mem s' a = mem s a"
  by (auto simp: draws_def same_outside_cells_def outside_cells_def cell_addr_def VIDEO_MEMORY_def)

lemma vprintf_prints:
  assumes "vformat fmt args = Some xs" "printable xs" "display_ok s"
  shows "\<exists>r s'. vprintf fmt args s = Some (r, s') \<and> prints xs s s'"
proof -
  note P = assms(2) [unfolded printable_def]
  have "vprintf fmt args s = Some (of_nat (length xs), put_all xs s)"
    using vprintf_loop_result [OF assms(1), of 0 s] P by (simp add: vprintf_def shown_id)
  moreover have d: "draws 0 2000 s (put_all xs s)" using P by (intro put_all_draws [OF assms(3)]) simp_all
  moreover have "\<exists>m x y. put_all xs s = s\<lparr>mem := m, x_loc := x, y_loc := y\<rparr>" using d by (auto simp: draws_def)
  ultimately show ?thesis using put_all_tty [OF assms(3), of xs] draws_off_screen [OF d]
    unfolding prints_def by blast
qed

lemma tty_of_frame:
  assumes "x_loc s' = x_loc s" "y_loc s' = y_loc s" "color_attrib s' = color_attrib s" "\<And>a. on_screen a \<Longrightarrow> mem s' a = mem s a"
  shows "tty_of s' = tty_of s" "display_ok s' = display_ok s"
proof -
  have "cell (mem s') (int i) = cell (mem s) (int i)" if "i < 2000" for i
  proof -
    have "cell_addr (int i) = 0xB8000 + of_nat (2 * i)" by (simp add: cell_addr_def VIDEO_MEMORY_def)
    moreover have "on_screen (0xB8000 + of_nat (2 * i))" "on_screen (0xB8000 + of_nat (2 * i) + 1)"
      using that in_regionI [of "2 * i" 4000 "0xB8000"] in_regionI [of "2 * i + 1" 4000 "0xB8000"] by (simp_all add: ac_simps)
    ultimately show ?thesis using assms(4) by (simp add: cell_def load16_def)
  qed
  then show "tty_of s' = tty_of s" using assms(1-3) by (simp add: tty_of_def screen_def get_write_location_def)
  show "display_ok s' = display_ok s" using assms(1,2) by (simp add: display_ok_def)
qed

section \<open>Interrupts\<close>

text \<open>The descriptor table and the processor's registers change; no port read of these steps is one of \<open>p\<close>.\<close>

definition on_idt :: "'a cpu_driver_scheme \<Rightarrow> u32 \<Rightarrow> bool" where
  "on_idt s x \<longleftrightarrow> in_region (interrupts s) 2048 x"

definition hw_step :: "u16 \<Rightarrow> 'a cpu_driver_scheme \<Rightarrow> 'a cpu_driver_scheme \<Rightarrow> bool" where
  "hw_step p s s' \<longleftrightarrow> (\<exists>m l fl r b lim. s' = s\<lparr>mem := m, io := l, interrupt_flag := fl, idtr := r, idt_entry_base := b, idt_entry_limit := lim\<rparr>)
     \<and> (\<forall>x. \<not> on_idt s x \<longrightarrow> mem s' x = mem s x) \<and> reads_of p (io s') = reads_of p (io s)"

lemma hw_stepI:
  assumes "s' = s\<lparr>mem := m, io := l, interrupt_flag := fl, idtr := r, idt_entry_base := b, idt_entry_limit := lim\<rparr>"
    and "\<And>x. \<not> on_idt s x \<Longrightarrow> m x = mem s x" "reads_of p l = reads_of p (io s)"
  shows "hw_step p s s'"
  unfolding hw_step_def
proof (intro conjI)
  show "\<exists>m l fl r b lim. s' = s\<lparr>mem := m, io := l, interrupt_flag := fl, idtr := r, idt_entry_base := b, idt_entry_limit := lim\<rparr>"
    using assms(1) by (intro exI) assumption
qed (use assms in simp_all)

lemma hw_refl: "hw_step p s s"
  by (rule hw_stepI [where m = "mem s" and l = "io s" and fl = "interrupt_flag s" and r = "idtr s" and b = "idt_entry_base s"
        and lim = "idt_entry_limit s"]) simp_all

lemma hw_trans: "hw_step p s1 s2 \<Longrightarrow> hw_step p s2 s3 \<Longrightarrow> hw_step p s1 s3"
  unfolding hw_step_def by (fastforce simp: on_idt_def)

lemma hw_out: "hw_step p s (outportb q v s)"
  by (rule hw_stepI [where m = "mem s" and l = "io s @ [Out q v]" and fl = "interrupt_flag s" and r = "idtr s" and b = "idt_entry_base s"
        and lim = "idt_entry_limit s"]) (simp_all add: outportb_def)

lemma hw_in: "q \<noteq> p \<Longrightarrow> hw_step p s (snd (inportb dev q s))"
  by (rule hw_stepI [where m = "mem s" and l = "io s @ [In q (dev (io s) q)]" and fl = "interrupt_flag s" and r = "idtr s" and b = "idt_entry_base s"
        and lim = "idt_entry_limit s"]) (simp_all add: inportb_def Let_def)

lemma hw_install:
  assumes "unat i < 256"
  shows "hw_step p s (install_system_handler i h s)"
proof -
  have i: "\<not> MAX_INTERRUPTS < i" using assms by (simp add: MAX_INTERRUPTS_def word_less_nat_alt)
  have entry: "on_idt s (isr_entry (interrupts s) i (of_nat k))" if "k < 8" for k
  proof -
    have "isr_entry (interrupts s) i (of_nat k) = interrupts s + of_nat (8 * unat i + k)" by (simp add: isr_entry_def)
    then show ?thesis using in_regionI [of "8 * unat i + k" 2048 "interrupts s"] assms that by (simp add: on_idt_def)
  qed
  have e: "on_idt s (isr_entry (interrupts s) i 0)" "on_idt s (isr_entry (interrupts s) i 1)" "on_idt s (isr_entry (interrupts s) i 2)"
    "on_idt s (isr_entry (interrupts s) i 3)" "on_idt s (isr_entry (interrupts s) i 5)" "on_idt s (isr_entry (interrupts s) i 6)"
    "on_idt s (isr_entry (interrupts s) i 7)"
    using entry [of 0] entry [of 1] entry [of 2] entry [of 3] entry [of 5] entry [of 6] entry [of 7] by simp_all
  have "mem (install_system_handler i h s) x = mem s x" if "\<not> on_idt s x" for x
    using that e i by (auto simp: install_system_handler_def install_handler_def Let_def store16_def entry_next)
  then show ?thesis
    by (intro hw_stepI [where m = "mem (install_system_handler i h s)" and l = "io s" and fl = "interrupt_flag s" and r = "idtr s"
          and b = "idt_entry_base s" and lim = "idt_entry_limit s"])
      (simp_all add: install_system_handler_def install_handler_def Let_def)
qed

lemma hw_install_list: "\<forall>(i, h) \<in> set l. unat i < 256 \<Longrightarrow> hw_step p s (install_list l s)"
proof (induction l arbitrary: s)
  case (Cons x l)
  obtain i h where x: "x = (i, h)" by (cases x)
  then show ?case using hw_trans [OF hw_install [of i p s h] Cons.IH [of "install_system_handler i h s"]] Cons.prems by simp
qed (simp add: hw_refl)

lemma hw_flags:
  "hw_step p s (s\<lparr>interrupt_flag := fl\<rparr>)" "hw_step p s (s\<lparr>idt_entry_base := b, idt_entry_limit := lim\<rparr>)" "hw_step p s (load_idtr s)"
  by (rule hw_stepI [where m = "mem s" and l = "io s" and fl = fl and r = "idtr s" and b = "idt_entry_base s" and lim = "idt_entry_limit s"], simp_all)
    (rule hw_stepI [where m = "mem s" and l = "io s" and fl = "interrupt_flag s" and r = "idtr s" and b = b and lim = lim], simp_all,
     rule hw_stepI [where m = "mem s" and l = "io s" and fl = "interrupt_flag s" and r = "(idt_entry_limit s, idt_entry_base s)"
       and b = "idt_entry_base s" and lim = "idt_entry_limit s"], simp_all add: load_idtr_def)

lemma hw_memset: "hw_step p s (s\<lparr>mem := snd (memset (interrupts s) 0 (8 * MAX_INTERRUPTS) (mem s))\<rparr>)"
  by (rule hw_stepI [where m = "snd (memset (interrupts s) 0 (8 * MAX_INTERRUPTS) (mem s))" and l = "io s" and fl = "interrupt_flag s"
        and r = "idtr s" and b = "idt_entry_base s" and lim = "idt_entry_limit s"])
    (simp_all add: memset_def memset_loop_byte on_idt_def MAX_INTERRUPTS_def)

text \<open>The ports of the interrupt controllers.\<close>

definition pic_port :: "u16 \<Rightarrow> bool" where
  "pic_port p \<longleftrightarrow> p \<in> {I386_PIC1_PORT_COMMAND, I386_PIC1_PORT_DATA, I386_PIC2_PORT_COMMAND, I386_PIC2_PORT_DATA}"

lemma hw_out_after: "hw_step p s s' \<Longrightarrow> hw_step p s (outportb q v s')"
  using hw_trans hw_out by blast

lemma hw_in_after: "q \<noteq> p \<Longrightarrow> hw_step p s s' \<Longrightarrow> hw_step p s (snd (inportb dev q s'))"
  using hw_trans hw_in by blast

lemma hw_pic:
  assumes "\<not> pic_port p"
  shows "hw_step p s (snd (pic_8259a_initialize dev a b s))" "hw_step p s (pic_8259a_disable s)" "hw_step p s (pic_8259a_unmask_irq dev n s)"
  using assms unfolding pic_8259a_initialize_def pic_8259a_disable_def pic_8259a_unmask_irq_def irq_port_def case_inportb Let_def pic_port_def
  by (auto intro!: hw_out_after hw_in_after hw_refl split: if_splits)

lemma hw_cpu_init:
  assumes "\<not> pic_port p"
  shows "hw_step p s (snd (cpu_driver_init dev addr s))"
proof -
  define s1 where "s1 = (stop_interrupts s)\<lparr>mem := snd (memset (interrupts s) 0 (8 * MAX_INTERRUPTS) (mem s))\<rparr>"
  define s2 where "s2 = install_list (map (\<lambda>i. (of_nat i, addr i386_defaulthandler)) [0..<unat MAX_INTERRUPTS]) s1"
  define s3 where "s3 = s2\<lparr>idt_entry_base := interrupts s, idt_entry_limit := ucast (8 * MAX_INTERRUPTS - 1)\<rparr>"
  define s4 where "s4 = install_list (map (\<lambda>(i, h). (i, addr h)) exceptions) s3"
  define s5 where "s5 = snd (pic_8259a_initialize dev (ucast DEVICE_INTERRUPT_BASE) (ucast (DEVICE_INTERRUPT_BASE + 8)) (load_idtr s4))"
  have e: "snd (cpu_driver_init dev addr s) = start_interrupts (pic_8259a_disable s5)"
    unfolding cpu_driver_init_def Let_def exceptions_list default_list s5_def s4_def s3_def s2_def s1_def
    by (simp add: stop_interrupts_def install_list_fields)
  have "hw_step p s s1"
    using hw_trans [OF hw_flags(1) [of p s False] hw_memset] by (simp add: s1_def stop_interrupts_def)
  moreover have "hw_step p s1 s2" unfolding s2_def by (rule hw_install_list) (auto simp: MAX_INTERRUPTS_def)
  moreover have "hw_step p s2 s3" unfolding s3_def by (rule hw_flags)
  moreover have "hw_step p s3 s4" unfolding s4_def by (rule hw_install_list) (auto simp: exceptions_def)
  moreover have "hw_step p s4 (load_idtr s4)" by (rule hw_flags)
  moreover have "hw_step p (load_idtr s4) s5" "hw_step p s5 (pic_8259a_disable s5)" unfolding s5_def by (rule hw_pic [OF assms])+
  moreover have "hw_step p (pic_8259a_disable s5) (start_interrupts (pic_8259a_disable s5))" unfolding start_interrupts_def by (rule hw_flags)
  ultimately show ?thesis unfolding e using hw_trans by metis
qed

lemma hw_install_device:
  assumes "\<not> pic_port p" "unat irq < 224"
  shows "hw_step p s (cpu_install_device dev irq address s)"
proof -
  have "unat (irq + 0x20) < 256" using assms(2) unat_add_small [of irq 32] by simp
  then have "hw_step p (stop_interrupts s) (install_system_handler (irq + 0x20) address (stop_interrupts s))" by (rule hw_install)
  moreover have "hw_step p s (stop_interrupts s)" unfolding stop_interrupts_def by (rule hw_flags)
  ultimately have h: "hw_step p s (start_interrupts (install_system_handler (irq + 0x20) address (stop_interrupts s)))"
    unfolding start_interrupts_def using hw_trans hw_flags(1) by blast
  then show ?thesis using hw_trans [OF h hw_pic(3) [OF assms(1)]] by (simp add: cpu_install_device_def Let_def DEVICE_INTERRUPT_BASE_def)
qed

lemma hw_timer:
  assumes "\<not> pic_port p"
  shows "\<exists>s'. pit_8254_initialize dev timer_irq s = Some s' \<and> hw_step p s s'"
  using hw_install_device [OF assms, of 0 s dev timer_irq]
  by (auto simp: pit_8254_initialize_def pit_8254_start_def Let_def intro!: hw_out_after)

section \<open>The serial port\<close>

lemma separated_off: "separated a n b k \<Longrightarrow> in_region a n x \<Longrightarrow> \<not> in_region b k x"
  by (auto simp: separated_def)

text \<open>Stores into the words of a region.\<close>

lemma store_word_off: "\<not> in_region a n x \<Longrightarrow> k + 4 \<le> n \<Longrightarrow> n \<le> 2 ^ 32 \<Longrightarrow> store32 m (a + of_nat k) v x = m x"
  using sub_region [of a k 4 x n] store32_region by blast

text \<open>The first device: its inode is the static one.\<close>

lemma register_first:
  fixes s :: "'a serial_scheme"
  assumes "current_inode s = 0" "current_inode_number s = 1" "base_inode s \<noteq> 0" "display_ok s"
    and sep: "separated (base_inode s) 12 d 36" "separated (base_inode s) 12 0xB8000 4000" "separated d 36 0xB8000 4000"
    and r: "load32 (mem s) (dev_readchar d) = addr Serial_read_char"
  shows "\<exists>s' :: 'a serial_scheme. register_device d s = Some (1, s') \<and> serial_device addr 1 s' [base_inode s] (base_inode s)
    \<and> display_ok s' \<and> tty_of s' = fold tty_write (map scast (inode_text (base_inode s))) (tty_of s)
    \<and> io s' = io s \<and> serial_port s' = serial_port s"
proof -
  let ?b = "base_inode s"
  define s1 where "s1 = s\<lparr>current_inode := ?b, mem := store32 (mem s) (?b + 8) 0\<rparr>"
  have new: "new_inode s = Some (?b, s1)" using assms(1) by (simp add: new_inode_def poke_def inode_next_def Let_def s1_def)
  have off: "\<not> on_screen x" if "in_region ?b 12 x \<or> in_region d 36 x" for x using that sep(2,3) separated_off by blast
  have t1: "tty_of s1 = tty_of s" "display_ok s1 = display_ok s"
    by (rule tty_of_frame; use off sub_region [of ?b 8 4 _ 12] in \<open>force simp: s1_def store32_region\<close>)+
  have pr: "printable (inode_text ?b)" using inode_text_plain [of ?b] by (simp add: printable_def)
  obtain rr s2 where s2: "vprintf INODE_MESSAGE [VaWord ?b] s1 = Some (rr, s2)" "prints (inode_text ?b) s1 s2"
    using vprintf_prints [OF inode_text_format pr] t1(2) assms(4) by blast
  obtain m x y where s2_eq: "s2 = s1\<lparr>mem := m, x_loc := x, y_loc := y\<rparr>" using s2(2) by (auto simp: prints_def)
  have m: "m a = mem s1 a" if "\<not> on_screen a" for a using s2(2) that by (simp add: prints_def s2_eq)
  define m' where "m' = store32 (store32 (store32 (store32 m (?b + 4) d) ?b 1) d 1) (d + 8) (minor_revision_number s)"
  define s' where "s' = s2\<lparr>mem := m', current_inode_number := 2, minor_revision_number := minor_revision_number s + 1\<rparr>"
  have own: "apart (?b + 4) ?b" "apart ?b (?b + 4)" "apart (?b + 4) (?b + 8)" "apart ?b (?b + 8)" by (simp_all add: apart_def)
  have pd: "apart (d + of_nat j) (?b + of_nat i)" "apart (?b + of_nat i) (d + of_nat j)" if "i + 4 \<le> 12" "j + 4 \<le> 36" for i j
    using separated_words [OF sep(1), of i j] that by (auto simp: apart_def)
  have pd': "apart d ?b" "apart (d + 8) ?b" "apart d (?b + 4)" "apart (d + 8) (?b + 4)" "apart d (?b + 8)" "apart (d + 8) (?b + 8)"
    "apart (?b + 4) (d + 16)" "apart ?b (d + 16)" "apart (?b + 8) (d + 16)" "apart d (d + 16)" "apart (d + 8) (d + 16)" "apart (d + 8) d"
    using pd(1) [of 0 0] pd(1) [of 0 8] pd(1) [of 4 0] pd(1) [of 4 8] pd(1) [of 8 0] pd(1) [of 8 8]
      pd(2) [of 4 16] pd(2) [of 0 16] pd(2) [of 8 16] by (simp_all add: apart_def)
  have reg: "register_device d s = Some (1, s')"
    using s2(1) assms(2,3) unfolding register_device_def new
    by (simp add: s2_eq poke_def inode_fields dev_fields Let_def load32_store32_same load32_store32_apart pd' s'_def m'_def s1_def)
  have keep: "load32 m (a + of_nat k) = load32 (mem s1) (a + of_nat k)"
    if "\<forall>x. in_region a n x \<longrightarrow> \<not> on_screen x" "k + 4 \<le> n" "n \<le> 36" for a n k
  proof (rule load32_region)
    fix x assume "in_region (a + of_nat k) 4 x"
    then have "in_region a n x" using sub_region [of a k 4 x n] that(2,3) by simp
    then show "m x = mem s1 x" using that(1) m by blast
  qed
  have n0: "load32 m (?b + 8) = 0" using keep [of ?b 12 8] off by (simp add: s1_def load32_store32_same)
  have "load32 m (d + 16) = load32 (mem s1) (d + 16)" using keep [of d 36 16] off by simp
  then have rc: "load32 m (d + 16) = addr Serial_read_char" using r pd'(9) by (simp add: s1_def load32_store32_apart dev_readchar_def)
  have words: "load32 m' ?b = 1" "load32 m' (?b + 4) = d" "load32 m' (?b + 8) = 0" "load32 m' (d + 16) = addr Serial_read_char"
    by (simp_all add: m'_def load32_store32_same load32_store32_apart pd' own n0 rc)
  have "serial_device addr 1 s' [?b] ?b"
    unfolding serial_device_def using words off assms(3) by (simp add: s'_def s2_eq s1_def inode_fields dev_readchar_def)
  moreover have "tty_of s' = tty_of s2 \<and> display_ok s' = display_ok s2"
  proof -
    have "m' a = m a" if "on_screen a" for a
    proof -
      have "\<not> in_region ?b 12 a" "\<not> in_region d 36 a" using off that by blast+
      then show ?thesis
        using store_word_off [of ?b 12 a 4] store_word_off [of ?b 12 a 0] store_word_off [of d 36 a 0] store_word_off [of d 36 a 8]
        by (simp add: m'_def)
    qed
    then show ?thesis using tty_of_frame [of s' s2] by (simp add: s'_def s2_eq)
  qed
  ultimately show ?thesis using reg s2(2) t1 by (intro exI [of _ s']) (simp add: prints_def s'_def s2_eq s1_def)
qed

text \<open>What the parts of the kernel occupy: the screen, the descriptor table, the block bitmap, the allocator's
  base header, the first inode, the heap.\<close>

definition bitmap_bytes :: "u32 \<Rightarrow> nat" where
  "bitmap_bytes nblocks = 4 * Suc (unat nblocks div 32)"

definition serial_regions :: "u32 \<Rightarrow> u32 \<Rightarrow> 'a chrdev_scheme \<Rightarrow> bool" where
  "serial_regions bitmap nblocks s \<longleftrightarrow> separated (interrupts s) 2048 0xB8000 4000 \<and> separated bitmap (bitmap_bytes nblocks) 0xB8000 4000
     \<and> separated bitmap (bitmap_bytes nblocks) (interrupts s) 2048 \<and> separated (base_header s) 8 0xB8000 4000
     \<and> separated (base_inode s) 12 0xB8000 4000"

definition heap_regions :: "u32 \<Rightarrow> 'a chrdev_scheme \<Rightarrow> bool" where
  "heap_regions h s \<longleftrightarrow> separated h 2048 0xB8000 4000 \<and> separated (base_inode s) 12 h 2048"

lemma separated_part:
  assumes "separated a n b k" "i + l \<le> n" "n \<le> 2 ^ 32"
  shows "separated (a + of_nat i) l b k"
  using assms(1) sub_region [of a i l _ n] assms(2,3) unfolding separated_def by blast

lemma fresh_heap_step:
  fixes s t :: "'a malloc_state_scheme"
  assumes "fresh_heap s" "same_heap s t" "next_free t = next_free s" "base_header t = base_header s"
  shows "fresh_heap t"
proof -
  have o: "off_bitmap t = off_bitmap s" using assms(2) by (simp add: fun_eq_iff off_bitmap_def bitmap_byte_def same_heap_def)
  have "brk_ptr t = brk_ptr s" "heap_top t = heap_top s" using assms(2) by (simp_all add: heap_top_def same_heap_def)
  then show ?thesis using assms heap_ok_frame [OF _ assms(2)] by (simp add: fresh_heap_def o)
qed

lemma initialize_serial_result:
  fixes s :: "'a serial_scheme"
  shows "\<exists>t. initialize_serial_device dev addr 0x3F8 s = t\<lparr>serial_port := 0x3F8\<rparr> \<and> hw_step 0x3F8 s t"
proof -
  have "\<not> pic_port 0x3F8" by (simp add: pic_port_def pic_consts)
  then have h: "hw_step 0x3F8 s (cpu_install_device dev IRQ_INDEX (addr Serial_irq) s)" by (rule hw_install_device) (simp add: IRQ_INDEX_def)
  show ?thesis unfolding initialize_serial_device_def Let_def by (rule exI, rule conjI, rule refl) (intro hw_out_after h)
qed

lemma serial_init_first:
  fixes s :: "'a serial_scheme"
  assumes "fresh_heap s" "current_inode s = 0" "current_inode_number s = 1" "base_inode s \<noteq> 0" "display_ok s"
    and "serial_regions (mbmp s) (btotal s) s" "heap_regions (brk_ptr s) s"
  shows "\<exists>s' :: 'a serial_scheme. serial_init dev addr COM_PORT_1 s = Some (1, s') \<and> serial_device addr 1 s' [base_inode s] (base_inode s)
    \<and> display_ok s' \<and> tty_of s' = fold tty_write (map scast (inode_text (base_inode s))) (tty_of s)
    \<and> reads_of 0x3F8 (io s') = reads_of 0x3F8 (io s) \<and> serial_port s' = 0x3F8"
proof -
  let ?p = "brk_ptr s"
  note R = assms(6) [unfolded serial_regions_def] and H = assms(7) [unfolded heap_regions_def]
  obtain t0 :: "'a serial_scheme" where t0: "initialize_serial_device dev addr 0x3F8 s = t0\<lparr>serial_port := 0x3F8\<rparr>" "hw_step 0x3F8 s t0"
    using initialize_serial_result by blast
  define t where "t = t0\<lparr>serial_port := 0x3F8\<rparr>"
  have tm: "mem t x = mem s x" if "\<not> in_region (interrupts s) 2048 x" for x using t0(2) that by (simp add: t_def hw_step_def on_idt_def)
  obtain mm l fl r b lim where "t = s\<lparr>mem := mm, io := l, interrupt_flag := fl, idtr := r, idt_entry_base := b, idt_entry_limit := lim\<rparr>\<lparr>serial_port := 0x3F8\<rparr>"
    using t0(2) by (auto simp: t_def hw_step_def)
  then have tf: "current_inode t = 0" "current_inode_number t = 1" "base_inode t = base_inode s" "brk_ptr t = ?p" "next_free t = next_free s"
    "base_header t = base_header s" "x_loc t = x_loc s" "y_loc t = y_loc s" "color_attrib t = color_attrib s" "serial_port t = 0x3F8"
    "mbmp t = mbmp s" "btotal t = btotal s" "phys t = phys s" "cr3 t = cr3 s" "heap_base t = heap_base s"
    using assms(2,3) by simp_all
  have bm: "bitmap_byte s x \<longleftrightarrow> in_region (mbmp s) (bitmap_bytes (btotal s)) x" for x by (simp add: bitmap_byte_def bitmap_bytes_def)
  have "same_heap s t" using R tm unfolding same_heap_def bm separated_def by (auto simp: tf)
  from fresh_heap_step [OF assms(1) this tf(5,6)] have fresh: "fresh_heap t" .
  have t1: "tty_of t = tty_of s" "display_ok t = display_ok s"
    by (rule tty_of_frame; use tm R tf in \<open>auto simp: separated_def\<close>)+
  define d where "d = ?p + 988"
  obtain u :: "'a serial_scheme" where u: "malloc 36 t = Some (d, u)" "heap_writes {?p + 980, ?p, ?p + 1024, base_header s} t u"
    using first_malloc [OF fresh, of 36] by (auto simp: tf d_def)
  obtain e m u' ph b f where uf: "u = t\<lparr>errno := e, mem := m, bused := u', phys := ph, brk_ptr := b, next_free := f\<rparr>"
    using u(2) unfolding heap_writes_def by blast
  have part: "separated (?p + of_nat i) k 0xB8000 4000" if "i + k \<le> 2048" for i k using separated_part [of ?p 2048 _ _ i k] H that by simp
  have u1: "tty_of u = tty_of t" "display_ok u = display_ok t"
  proof -
    have "mem u a = mem t a" if "on_screen a" for a
    proof -
      have "\<not> bitmap_byte t a" using R that by (auto simp: bitmap_byte_def tf bitmap_bytes_def separated_def)
      moreover have "\<not> in_region h 8 a" if "h \<in> {?p + 980, ?p, ?p + 1024, base_header s}" for h
        using part [of 980 8] part [of 0 8] part [of 1024 8] R that \<open>on_screen a\<close> by (auto simp: separated_def)
      ultimately show ?thesis using u(2) by (simp add: heap_writes_def)
    qed
    then show "tty_of u = tty_of t" "display_ok u = display_ok t" using tty_of_frame [of u t] by (simp_all add: uf)
  qed
  define v where "v = poke (dev_major d) 0 (poke (dev_close d) (addr Serial_close) (poke (dev_open d) (addr Serial_open)
    (poke (dev_write d) (addr Serial_write_chars) (poke (dev_read d) (addr Serial_read_chars) (poke (dev_readchar d) (addr Serial_read_char)
    (poke (dev_descriptor d) 0 (u\<lparr>device_descriptor := d\<rparr>)))))))"
  have d0: "d \<noteq> 0"
  proof -
    have "unat d = unat ?p + 988" unfolding d_def using assms(1) unat_add_small [of ?p 988] by (simp add: fresh_heap_def HEAP_LIMIT_def)
    then show ?thesis by auto
  qed
  have i: "serial_init dev addr COM_PORT_1 s = register_device d v"
    using u(1) d0 by (simp add: serial_init_def COM_PORT_1_def t0(1) t_def [symmetric] DEVICE_SIZE_def v_def Let_def)
  have dsep: "separated d 36 0xB8000 4000" using part [of 988 36] by (simp add: d_def)
  have v1: "tty_of v = tty_of u" "display_ok v = display_ok u"
  proof -
    have "mem v a = mem u a" if "on_screen a" for a
    proof -
      have "\<not> in_region d 36 a" using dsep that by (auto simp: separated_def)
      then show ?thesis
        using store_word_off [of d 36 a 0] store_word_off [of d 36 a 4] store_word_off [of d 36 a 16] store_word_off [of d 36 a 20]
          store_word_off [of d 36 a 24] store_word_off [of d 36 a 28] store_word_off [of d 36 a 32]
        by (simp add: v_def poke_def dev_fields)
    qed
    then show "tty_of v = tty_of u" "display_ok v = display_ok u" using tty_of_frame [of v u] by (simp_all add: v_def poke_def)
  qed
  have vr: "load32 (mem v) (dev_readchar d) = addr Serial_read_char"
    by (simp add: v_def poke_def dev_fields load32_store32_same load32_store32_apart apart_def)
  have vf: "current_inode v = 0" "current_inode_number v = 1" "base_inode v = base_inode s" "serial_port v = 0x3F8" "io v = io t"
    by (simp_all add: v_def poke_def uf tf)
  have "separated (base_inode s) 12 d 36"
    using separated_sym [OF separated_part [of ?p 2048 "base_inode s" 12 988 36]] separated_sym H by (simp add: d_def)
  from register_first [of v d addr, unfolded vf, OF refl refl assms(4)] this dsep vr R assms(5) v1 u1 t1
  obtain s' :: "'a serial_scheme" where s': "register_device d v = Some (1, s')" "serial_device addr 1 s' [base_inode s] (base_inode s)"
      "display_ok s'" "tty_of s' = fold tty_write (map scast (inode_text (base_inode s))) (tty_of s)" "io s' = io t" "serial_port s' = 0x3F8"
    by auto
  have "reads_of 0x3F8 (io t) = reads_of 0x3F8 (io s)" using t0(2) by (simp add: hw_step_def t_def)
  then show ?thesis using i s' by auto
qed

section \<open>Up to the heap\<close>

text \<open>What the steps before the heap is set up leave as it is.\<close>

definition boot_kept :: "'a chrdev_scheme \<Rightarrow> 'a chrdev_scheme \<Rightarrow> bool" where
  "boot_kept s s' \<longleftrightarrow> base_header s' = base_header s \<and> next_free s' = next_free s \<and> base_inode s' = base_inode s
     \<and> current_inode s' = current_inode s \<and> current_inode_number s' = current_inode_number s \<and> interrupts s' = interrupts s
     \<and> brk_ptr s' = brk_ptr s \<and> phys s' = phys s \<and> cr3 s' = cr3 s \<and> reads_of 0x3F8 (io s') = reads_of 0x3F8 (io s)
     \<and> (\<forall>x. \<not> on_screen x \<longrightarrow> \<not> on_idt s x \<longrightarrow> mem s' x = mem s x)"

lemma boot_trans: "boot_kept s1 s2 \<Longrightarrow> boot_kept s2 s3 \<Longrightarrow> boot_kept s1 s3"
  by (auto simp: boot_kept_def on_idt_def)

lemma boot_draws: "draws 0 2000 s s' \<Longrightarrow> boot_kept s s'"
  using draws_off_screen [of s s'] by (auto simp: boot_kept_def draws_def)

lemma boot_prints: "prints xs s s' \<Longrightarrow> boot_kept s s'"
  by (auto simp: boot_kept_def prints_def)

lemma boot_hw: "hw_step 0x3F8 s s' \<Longrightarrow> boot_kept s s'"
  by (auto simp: boot_kept_def hw_step_def)

lemma boot_clear: "boot_kept s (display_clear s)"
  by (rule boot_draws) (rule display_clear_result)

lemma hw_display: "\<And>s :: 'a chrdev_scheme. hw_step 0x3F8 s (disable_hardware_cursor s)"
  "\<And>s :: 'a chrdev_scheme. hw_step 0x3F8 s (enable_blinking_text dev s)"
  unfolding disable_hardware_cursor_def enable_blinking_text_def toggle_blinking_text_def case_inportb Let_def
  by (intro hw_out_after hw_in_after hw_refl; simp)+

lemma boot_screen:
  fixes s :: "'a chrdev_scheme"
  assumes s'_def: "s' = display_clear (snd (display_change_color c (display_init dev s)))"
  shows "boot_kept s s'" "display_ok s'" "tty_of s' = tty_show \<lparr>cells = replicate 2000 (push_bit 8 (ucast c) OR 0x20), pos = 0, attr = c\<rparr>"
proof -
  let ?t = "snd (display_change_color c (display_init dev s))"
  have "boot_kept s (display_init dev s)"
    unfolding display_init_def using boot_trans [OF boot_trans [OF boot_hw [OF hw_display(1)] boot_clear] boot_hw [OF hw_display(2)]] .
  moreover have "boot_kept (display_init dev s) ?t" by (simp add: boot_kept_def display_change_color_def)
  ultimately show "boot_kept s s'" unfolding s'_def using boot_trans boot_clear by blast
  show "display_ok s'" unfolding s'_def by (rule display_clear_result)
  have "blank ?t = push_bit 8 (ucast c) OR 0x20" "color_attrib ?t = c"
    by (simp_all add: display_change_color_def blank_def CLEAR_SCREEN_CHAR_def)
  then show "tty_of s' = tty_show \<lparr>cells = replicate 2000 (push_bit 8 (ucast c) OR 0x20), pos = 0, attr = c\<rparr>"
    unfolding s'_def using display_clear_result(1) [of ?t] by simp
qed

definition banner_text :: "u8 list" where "banner_text = banner @ [10]"
definition port_text :: "u8 list" where "port_text = ascii ''com port device descriptor: 1'' @ [10]"
definition eof_text :: "u8 list" where "eof_text = ascii ''Received EOF from input stream'' @ [10]"

lemma boot_texts:
  "vformat (ascii ''%s'' @ [10]) [VaStr banner] = Some banner_text" "printable banner_text"
  "vformat (ascii ''com port device descriptor: %d'' @ [10]) [VaWord 1] = Some port_text" "printable port_text"
  "vformat (ascii ''Received EOF from input stream'' @ [10]) [] = Some eof_text" "printable eof_text"
proof -
  have "number_bytes lettermap 10 1 = [49]" by (simp add: number_bytes.simps lettermap_def ascii_def)
  then show "vformat (ascii ''com port device descriptor: %d'' @ [10]) [VaWord 1] = Some port_text"
    by (simp add: port_text_def vformat_eval)
  show "vformat (ascii ''%s'' @ [10]) [VaStr banner] = Some banner_text" by (simp add: banner_text_def ascii_def)
  show "vformat (ascii ''Received EOF from input stream'' @ [10]) [] = Some eof_text" by (simp add: eof_text_def ascii_def)
  show "printable banner_text" "printable port_text" "printable eof_text"
    by (simp_all add: printable_def banner_text_def port_text_def eof_text_def banner_def ascii_def)
qed

text \<open>The heap is set up from the words of the parameter structure.\<close>

definition heap_params :: "u32 \<Rightarrow> 'a heap_scheme \<Rightarrow> 'a heap_scheme" where
  "heap_params kparams s = memory_init_mmap (kernel_memory_bitmap kparams (mem s)) (allocator_total_blocks kparams (mem s))
     (allocator_used_blocks kparams (mem s)) (memory_setbase (kernel_heap kparams (mem s)) s)"

text \<open>
  The state in which \<open>kernel_main\<close> starts: static variables as the compiler initializes them, a heap
  without pages at the address of the parameters, two free blocks for its first page, and the regions of
  memory disjoint.
\<close>

definition bootable :: "u32 \<Rightarrow> 'a chrdev_scheme \<Rightarrow> bool" where
  "bootable kparams s \<longleftrightarrow> (let h = kernel_heap kparams (mem s); bitmap = kernel_memory_bitmap kparams (mem s);
       size = bitmap_bytes (allocator_total_blocks kparams (mem s)) in
     heap_ok (heap_params kparams s) \<and> 2 \<le> free_count (heap_params kparams s) \<and> unat h + 2048 < 4096 * HEAP_LIMIT
     \<and> brk_ptr s = 0 \<and> next_free s = 0 \<and> base_header s \<noteq> 0 \<and> unat (base_header s) + 8 \<le> unat h
     \<and> base_inode s \<noteq> 0 \<and> current_inode s = 0 \<and> current_inode_number s = 1
     \<and> serial_regions bitmap (allocator_total_blocks kparams (mem s)) s \<and> heap_regions h s
     \<and> separated kparams 20 0xB8000 4000 \<and> separated kparams 20 (interrupts s) 2048
     \<and> separated bitmap size (base_header s) 8 \<and> separated bitmap size h 2048)"

lemma params_kept:
  assumes "boot_kept s s'" "separated kparams 20 0xB8000 4000" "separated kparams 20 (interrupts s) 2048"
  shows "kernel_heap kparams (mem s') = kernel_heap kparams (mem s)" "kernel_memory_bitmap kparams (mem s') = kernel_memory_bitmap kparams (mem s)"
    "allocator_total_blocks kparams (mem s') = allocator_total_blocks kparams (mem s)"
    "allocator_used_blocks kparams (mem s') = allocator_used_blocks kparams (mem s)"
proof -
  have "load32 (mem s') (elem kparams i) = load32 (mem s) (elem kparams i)" if "i < 5" for i
  proof (rule load32_region)
    fix x assume "in_region (elem kparams i) 4 x"
    then have "in_region kparams 20 x" using sub_region [of kparams "4 * i" 4 x 20] that by (simp add: elem_def)
    then show "mem s' x = mem s x" using assms by (auto simp: boot_kept_def on_idt_def separated_def)
  qed
  then show "kernel_heap kparams (mem s') = kernel_heap kparams (mem s)" "kernel_memory_bitmap kparams (mem s') = kernel_memory_bitmap kparams (mem s)"
    "allocator_total_blocks kparams (mem s') = allocator_total_blocks kparams (mem s)"
    "allocator_used_blocks kparams (mem s') = allocator_used_blocks kparams (mem s)"
    by (simp_all add: kernel_heap_def kernel_memory_bitmap_def allocator_total_blocks_def allocator_used_blocks_def)
qed

lemma separated_off_bitmap:
  assumes "separated (mbmp s) (bitmap_bytes (btotal s)) h n" "i + 8 \<le> n" "n \<le> 2 ^ 32"
  shows "off_bitmap s (h + of_nat i)"
  using assms sub_region [of h i 8 _ n] by (auto simp: off_bitmap_def bitmap_byte_def bitmap_bytes_def separated_def)

text \<open>The break is set to the start of the heap: its first page is mapped, and \<open>malloc\<close> can start.\<close>

lemma boot_heap:
  fixes s s1 :: "'a chrdev_scheme"
  assumes "bootable kparams s" "boot_kept s s1" "display_ok s1"
  shows "\<exists>s'. brk (kernel_heap kparams (mem s)) (heap_params kparams s1) = Some (0, s') \<and> fresh_heap s' \<and> current_inode s' = 0
    \<and> current_inode_number s' = 1 \<and> base_inode s' = base_inode s \<and> base_inode s \<noteq> 0 \<and> display_ok s' \<and> tty_of s' = tty_of s1
    \<and> serial_regions (mbmp s') (btotal s') s' \<and> heap_regions (brk_ptr s') s' \<and> reads_of 0x3F8 (io s') = reads_of 0x3F8 (io s)"
proof -
  define h where "h = kernel_heap kparams (mem s)"
  define bm where "bm = kernel_memory_bitmap kparams (mem s)"
  define n where "n = allocator_total_blocks kparams (mem s)"
  define t where "t = heap_params kparams s1"
  note B = assms(1) [unfolded bootable_def Let_def, folded h_def bm_def n_def]
  note K = params_kept [OF assms(2), of kparams, folded h_def bm_def n_def]
  have tf: "t = s1\<lparr>heap_base := h, mbmp := bm, btotal := n, bused := allocator_used_blocks kparams (mem s)\<rparr>"
    using K B by (simp add: t_def heap_params_def memory_init_mmap_def balloc_initialize_def memory_setbase_def)
  have t0: "heap_params kparams s = s\<lparr>heap_base := h, mbmp := bm, btotal := n, bused := allocator_used_blocks kparams (mem s)\<rparr>"
    by (simp add: heap_params_def memory_init_mmap_def balloc_initialize_def memory_setbase_def h_def bm_def n_def)
  have "same_heap (heap_params kparams s) t"
    using assms(2) B unfolding same_heap_def boot_kept_def serial_regions_def separated_def on_idt_def
    by (auto simp: tf t0 bitmap_byte_def bitmap_bytes_def)
  note H = heap_ok_frame [OF _ this]
  have ok: "heap_ok t" "2 \<le> free_count t" "brk_ptr t = 0" "heap_base t = h" using H B assms(2) by (simp_all add: tf boot_kept_def)
  have al: "h \<noteq> 0" "aligned h" using ok(1,4) by (auto simp: heap_ok_def)
  have fh: "frame h < HEAP_LIMIT" using B by (simp add: frame_def div_less_iff_less_mult mult.commute)
  have ht: "heap_top t = frame h" by (simp add: heap_top_def ok)
  obtain s' where s': "brk h t = Some (0, s')" "heap_ok s'" "brk_ptr s' = h" "free_count t \<le> free_count s' + 2"
    using brk_result [OF ok(1), of h] ok fh ht by auto
  have "balloc_ok t" using ok(1) by (auto simp: heap_ok_def tables_ok_def vm_def)
  from brk_memory [OF s'(1) this] obtain u where u: "s' = u\<lparr>brk_ptr := h\<rparr>" "mem_kept t u" by blast
  obtain e m us ph where uf: "u = t\<lparr>errno := e, mem := m, bused := us, phys := ph\<rparr>" using u(2) by (auto simp: mem_kept_def mm_change_def)
  have m: "m x = mem s1 x" if "\<not> in_region bm (bitmap_bytes n) x" for x
    using u(2) that by (simp add: mem_kept_def uf bitmap_byte_def bitmap_bytes_def) (simp add: tf)
  have sf: "s' = s1\<lparr>heap_base := h, mbmp := bm, btotal := n, bused := us, errno := e, mem := m, phys := ph, brk_ptr := h\<rparr>"
    by (simp add: u(1) uf tf)
  have kf: "base_header s1 = base_header s" "next_free s1 = 0" "base_inode s1 = base_inode s" "current_inode s1 = 0" "current_inode_number s1 = 1"
      "interrupts s1 = interrupts s" "reads_of 0x3F8 (io s1) = reads_of 0x3F8 (io s)"
    using assms(2) B by (simp_all add: boot_kept_def)
  have g: "base_header s' = base_header s" "next_free s' = 0" "base_inode s' = base_inode s" "current_inode s' = 0" "current_inode_number s' = 1"
      "interrupts s' = interrupts s" "reads_of 0x3F8 (io s') = reads_of 0x3F8 (io s)" "mbmp s' = bm" "btotal s' = n" "brk_ptr s' = h"
    by (simp_all add: sf kf)
  have "mem s' a = mem s1 a" if "on_screen a" for a
    using m [of a] B that by (auto simp: sf serial_regions_def separated_def)
  then have scr: "tty_of s' = tty_of s1" "display_ok s'" using tty_of_frame [of s' s1] assms(3) by (simp_all add: sf)
  have o: "off_bitmap s' (base_header s)" "off_bitmap s' h" "off_bitmap s' (h + 1024)"
    using separated_off_bitmap [of s' "base_header s" 8 0] separated_off_bitmap [of s' h 2048 0] separated_off_bitmap [of s' h 2048 1024] B
    by (simp_all add: g)
  have "frame (h + 2048) = frame h"
  proof -
    have "unat (h + 2048) = unat h + 2048" using unat_add_small [of h 2048] B by (simp add: HEAP_LIMIT_def)
    also have "unat h = 4096 * frame h" by (rule aligned_unat [OF al(2)])
    finally show ?thesis by (simp add: frame_def [of "h + 2048"])
  qed
  moreover have "heap_top s' = Suc (frame h)" using al(1) by (simp add: heap_top_def g)
  ultimately have "fresh_heap s'" using s'(2) B o by (simp add: fresh_heap_def g)
  moreover have "serial_regions bm n s'" "heap_regions h s'" using B by (simp_all add: serial_regions_def heap_regions_def g)
  ultimately show ?thesis using s'(1) scr g B by (auto simp: t_def h_def)
qed

section \<open>The whole run\<close>

lemma serial_device_prints: "serial_device addr dd s ns n \<Longrightarrow> prints xs s s' \<Longrightarrow> serial_device addr dd s' ns n"
  by (rule serial_device_frame) (auto simp: prints_def)

lemma prints_fields:
  fixes s s' :: "'a serial_scheme"
  assumes "prints xs s s'"
  shows "display_ok s'" "tty_of s' = fold tty_write (map scast xs) (tty_of s)" "io s' = io s" "serial_port s' = serial_port s"
  using assms by (auto simp: prints_def)

lemma boot_before_heap:
  fixes s :: "'a chrdev_scheme"
  shows "\<exists>s1 s2 :: 'a chrdev_scheme. \<exists>r. vprintf (ascii ''%s'' @ [10]) [VaStr banner]
        (display_clear (snd (display_change_color (display_make_color COLOR_FG_WHITE COLOR_BG_GREEN) (display_init dev s)))) = Some (r, s1)
    \<and> pit_8254_initialize dev timer_irq (snd (cpu_driver_init dev isr_addr s1)) = Some s2
    \<and> (separated (interrupts s) 2048 0xB8000 4000 \<longrightarrow> boot_kept s s2 \<and> display_ok s2
      \<and> tty_of s2 = fold tty_write (map scast banner_text) (tty_show \<lparr>cells = replicate 2000 0x2F20, pos = 0, attr = 0x2F\<rparr>))"
proof -
  let ?c = "display_make_color COLOR_FG_WHITE COLOR_BG_GREEN"
  let ?s0 = "display_clear (snd (display_change_color ?c (display_init dev s)))"
  note S = boot_screen [of ?s0 ?c dev s, OF refl]
  obtain r s1 where p: "vprintf (ascii ''%s'' @ [10]) [VaStr banner] ?s0 = Some (r, s1)" "prints banner_text ?s0 s1"
    using vprintf_prints [OF boot_texts(1,2) S(2)] by blast
  have np: "\<not> pic_port 0x3F8" by (simp add: pic_port_def pic_consts)
  have h1: "hw_step 0x3F8 s1 (snd (cpu_driver_init dev isr_addr s1))" by (rule hw_cpu_init [OF np])
  obtain s2 where h2: "pit_8254_initialize dev timer_irq (snd (cpu_driver_init dev isr_addr s1)) = Some s2" "hw_step 0x3F8 (snd (cpu_driver_init dev isr_addr s1)) s2"
    using hw_timer [OF np] by blast
  note h = hw_trans [OF h1 h2(2)]
  have k1: "boot_kept s s1" by (rule boot_trans [OF S(1) boot_prints [OF p(2)]])
  have "display_ok s2 \<and> tty_of s2 = tty_of s1" if "separated (interrupts s) 2048 0xB8000 4000"
  proof -
    have "mem s2 a = mem s1 a" if a: "on_screen a" for a
    proof -
      have "interrupts s1 = interrupts s" using k1 by (simp add: boot_kept_def)
      then have "\<not> on_idt s1 a" using that a \<open>separated (interrupts s) 2048 0xB8000 4000\<close> by (auto simp: on_idt_def separated_def)
      then show ?thesis using h by (simp add: hw_step_def)
    qed
    then show ?thesis using tty_of_frame [of s2 s1] h p(2) by (auto simp: hw_step_def prints_def)
  qed
  moreover have "boot_kept s s2" by (rule boot_trans [OF k1 boot_hw [OF h]])
  moreover have "tty_of s1 = fold tty_write (map scast banner_text) (tty_show \<lparr>cells = replicate 2000 0x2F20, pos = 0, attr = 0x2F\<rparr>)"
    using p(2) S(3) by (simp add: prints_def display_make_color_def COLOR_FG_WHITE_def COLOR_BG_GREEN_def)
  ultimately show ?thesis using p(1) h2(1) by auto
qed

lemma kernel_main_result:
  fixes s :: "'a serial_scheme"
  assumes "bootable kparams s" "addr Serial_read_char \<noteq> 0" "responsive dev (0x3F8 + LINE_STATUS_REGISTER) 1"
    and "delivers dev 0x3F8 (reads_of 0x3F8 (io s)) (cs @ [b])" "list_all echoed cs" "b = 3 \<or> b = 255"
  shows "\<exists>s' :: 'a serial_scheme. kernel_main dev isr_addr timer_irq addr kparams s = Some s' \<and> display_ok s'
    \<and> tty_of s' = fold tty_write (map scast (banner_text @ inode_text (base_inode s) @ port_text @ cs @ eof_text))
        (tty_show \<lparr>cells = replicate 2000 0x2F20, pos = 0, attr = 0x2F\<rparr>)"
proof -
  let ?home = "tty_show \<lparr>cells = replicate 2000 0x2F20, pos = 0, attr = 0x2F\<rparr>"
  let ?h = "kernel_heap kparams (mem s)"
  have idt: "separated (interrupts s) 2048 0xB8000 4000" using assms(1) by (simp add: bootable_def Let_def serial_regions_def)
  obtain r s1 and s2 :: "'a serial_scheme" where s1: "vprintf (ascii ''%s'' @ [10]) [VaStr banner]
        (display_clear (snd (display_change_color (display_make_color COLOR_FG_WHITE COLOR_BG_GREEN) (display_init dev s)))) = Some (r, s1)"
      "pit_8254_initialize dev timer_irq (snd (cpu_driver_init dev isr_addr s1)) = Some s2" "boot_kept s s2" "display_ok s2"
      "tty_of s2 = fold tty_write (map scast banner_text) ?home"
    using boot_before_heap [of dev s timer_irq isr_addr] idt by blast
  obtain s3 :: "'a serial_scheme" where s3: "brk ?h (heap_params kparams s2) = Some (0, s3)" "fresh_heap s3" "current_inode s3 = 0"
      "current_inode_number s3 = 1" "base_inode s3 = base_inode s" "base_inode s \<noteq> 0" "display_ok s3" "tty_of s3 = tty_of s2"
      "serial_regions (mbmp s3) (btotal s3) s3" "heap_regions (brk_ptr s3) s3" "reads_of 0x3F8 (io s3) = reads_of 0x3F8 (io s)"
    using boot_heap [OF assms(1) s1(3,4)] by blast
  obtain s4 :: "'a serial_scheme" where s4: "serial_init dev addr COM_PORT_1 s3 = Some (1, s4)" "serial_device addr 1 s4 [base_inode s] (base_inode s)"
      "display_ok s4" "tty_of s4 = fold tty_write (map scast (inode_text (base_inode s))) (tty_of s3)"
      "reads_of 0x3F8 (io s4) = reads_of 0x3F8 (io s)" "serial_port s4 = 0x3F8"
    using serial_init_first [OF s3(2-4) _ s3(7,9,10), of dev addr] s3(5,6,11) by auto
  obtain r5 and s5 :: "'a serial_scheme" where s5: "vprintf (ascii ''com port device descriptor: %d'' @ [10]) [VaWord 1] s4 = Some (r5, s5)"
      "prints port_text s4 s5"
    using vprintf_prints [OF boot_texts(3,4) s4(3)] by blast
  note p5 = prints_fields [OF s5(2)]
  obtain s6 :: "'a serial_scheme" where s6: "echo_loop (serial_code dev addr) 1 s5 = Some s6" "display_ok s6"
      "tty_of s6 = fold tty_write (map scast cs) (tty_of s5)"
    using echo_result [OF serial_device_prints [OF s4(2) s5(2)] assms(2) p5(1) _ assms(3), of cs b] assms(4-6) p5(3,4) s4(5,6) by auto
  obtain r7 and s7 :: "'a serial_scheme" where s7: "vprintf (ascii ''Received EOF from input stream'' @ [10]) [] s6 = Some (r7, s7)" "prints eof_text s6 s7"
    using vprintf_prints [OF boot_texts(5,6) s6(2)] by blast
  note p7 = prints_fields [OF s7(2)]
  have hp: "memory_init_mmap (kernel_memory_bitmap kparams (mem x)) (allocator_total_blocks kparams (mem x)) (allocator_used_blocks kparams (mem x)) x
      = heap_params kparams s2" "mem (heap_params kparams s2) = mem s2"
    if "x = memory_setbase (kernel_heap kparams (mem s2)) s2" for x :: "'a serial_scheme"
    unfolding that heap_params_def by (simp_all add: memory_setbase_def memory_init_mmap_def balloc_initialize_def)
  have kh: "kernel_heap kparams (mem s2) = ?h"
    using params_kept(1) [OF s1(3), of kparams] assms(1) by (simp add: bootable_def Let_def)
  have "kernel_main dev isr_addr timer_irq addr kparams s = Some s7"
    unfolding kernel_main_def Let_def s1(1) by (simp add: s1(2) hp kh s3(1) s4(1) s5(1) s6(1) s7(1))
  moreover have "tty_of s7 = fold tty_write (map scast (banner_text @ inode_text (base_inode s) @ port_text @ cs @ eof_text)) ?home"
    using p7(2) s6(3) p5(2) s4(4) s3(8) s1(5) by simp
  ultimately show ?thesis using p7(1) by blast
qed

section \<open>Properties\<close>

text \<open>C4: The kernel runs from its entry to the end of the input: the display is cleared to white on green and
  shows the banner, the interrupt table, the timer and the heap are set up, the serial port is registered
  as device 1 in memory that the heap grows for, and what the port receives is echoed until its end of
  text; then \<open>kernel_main\<close> returns. The screen shows exactly these texts in this order.\<close>
theorem kernel_main_runs:
  fixes s :: "'a serial_scheme"
  assumes "bootable kparams s" "addr Serial_read_char \<noteq> 0" "responsive dev (0x3F8 + LINE_STATUS_REGISTER) 1"
    and "delivers dev 0x3F8 (reads_of 0x3F8 (io s)) (cs @ [b])" "list_all echoed cs" "b = 3 \<or> b = 255"
  shows "\<exists>s' :: 'a serial_scheme. kernel_main dev isr_addr timer_irq addr kparams s = Some s' \<and> display_ok s'
    \<and> tty_of s' = fold tty_write (map scast (banner_text @ inode_text (base_inode s) @ port_text @ cs @ eof_text))
        (tty_show \<lparr>cells = replicate 2000 0x2F20, pos = 0, attr = 0x2F\<rparr>)"
  by (rule kernel_main_result) (fact assms)+

text \<open>A machine as the early code leaves it: bitmap at 0x1000, parameters at 0x3000, heap at 0x5000.\<close>

definition sample_params :: memory where
  "sample_params = store32 (store32 (store32 (store32 (mem (sample_heap 7 0)) 0x3004 0x5000) 0x3008 0x1000) 0x300C 64) 0x3010 3"

definition sample_boot :: serial where
  "sample_boot = chrdev.extend (cpu_driver.extend (pic_driver.extend (malloc_state.extend (heap.extend
      ((sample_heap 7 0)\<lparr>mem := sample_params, x_loc := 0, y_loc := 0\<rparr>) (malloc_state.fields 0x4000 0)) (pic_driver.fields 0))
     (cpu_driver.fields 0x8000 0 0 False False (0, 0) 0)) (chrdev.fields 0x4100 0 1 0)) (serial.fields 0 0)"

lemma sample_boot_fields:
  "mem sample_boot = sample_params" "io sample_boot = []" "phys sample_boot = sample_phys" "cr3 sample_boot = 0x1000" "brk_ptr sample_boot = 0"
  "base_header sample_boot = 0x4000" "next_free sample_boot = 0" "interrupts sample_boot = 0x8000" "base_inode sample_boot = 0x4100"
  "current_inode sample_boot = 0" "current_inode_number sample_boot = 1"
  by (simp_all add: sample_boot_def heap.defs malloc_state.defs pic_driver.defs cpu_driver.defs chrdev.defs serial.defs
      sample_heap_fields sample_heap_def pagemngr.defs balloc.defs balloc_at_def)

lemma sample_boot_params:
  "kernel_heap 0x3000 sample_params = 0x5000" "kernel_memory_bitmap 0x3000 sample_params = 0x1000"
  "allocator_total_blocks 0x3000 sample_params = 64" "allocator_used_blocks 0x3000 sample_params = 3"
  by (simp_all add: sample_params_def kernel_heap_def kernel_memory_bitmap_def allocator_total_blocks_def allocator_used_blocks_def
      elem_def load32_store32_same load32_store32_apart apart_def)

lemma separated_far:
  assumes "unat a + n \<le> unat b \<or> unat b + k \<le> unat a" "unat a + n \<le> 2 ^ 32" "unat b + k \<le> 2 ^ 32"
  shows "separated a n b k"
  using assms region_range [of a n] region_range [of b k] by (auto simp: separated_def)

lemma sample_bootable: "bootable 0x3000 sample_boot"
proof -
  let ?t = "heap_params 0x3000 sample_boot"
  have t: "?t = sample_boot\<lparr>heap_base := 0x5000, mbmp := 0x1000, btotal := 64, bused := 3\<rparr>"
    by (simp add: heap_params_def memory_init_mmap_def balloc_initialize_def memory_setbase_def sample_boot_fields sample_boot_params)
  have "sample_params x = mem (sample_heap 7 0) x" if "bitmap_byte (sample_heap 7 0) x" for x
  proof -
    have u: "unat x < 0x2000" by (rule sample_off [OF that])
    then have "\<not> in_region a 4 x" if "a \<in> {0x3004, 0x3008, 0x300C, 0x3010}" for a using region_range [of a 4 x] that by auto
    then show ?thesis by (simp add: sample_params_def store32_region)
  qed
  then have "same_heap (sample_heap 7 0) ?t"
    by (simp add: same_heap_def t sample_boot_fields sample_heap_fields balloc_at_def)
  note H = heap_ok_frame [OF sample_heap_ok this]
  show ?thesis
    unfolding bootable_def Let_def sample_boot_fields sample_boot_params serial_regions_def heap_regions_def bitmap_bytes_def
    using H sample_free_count by (simp add: HEAP_LIMIT_def separated_far)
qed

lemma kernel_main_runs_witness:
  "\<exists>s'. kernel_main typing_port (\<lambda>_. 0xC0100000) 0xC0100100 sample_code 0x3000 sample_boot = Some s'
    \<and> tty_of s' = fold tty_write (map scast (banner_text @ inode_text 0x4100 @ port_text @ [72, 105] @ eof_text))
        (tty_show \<lparr>cells = replicate 2000 0x2F20, pos = 0, attr = 0x2F\<rparr>)"
proof -
  have "responsive typing_port (0x3F8 + LINE_STATUS_REGISTER) 1"
    unfolding responsive_def by (auto simp: typing_port_def LINE_STATUS_REGISTER_def intro!: exI [of _ 0])
  moreover have "delivers typing_port 0x3F8 (reads_of 0x3F8 (io sample_boot)) ([72, 105] @ [3])"
    by (simp add: delivers_def typing_port_def sample_boot_fields)
  ultimately obtain s' where "kernel_main typing_port (\<lambda>_. 0xC0100000) 0xC0100100 sample_code 0x3000 sample_boot = Some s'"
    "tty_of s' = fold tty_write (map scast (banner_text @ inode_text (base_inode sample_boot) @ port_text @ [72, 105] @ eof_text))
        (tty_show \<lparr>cells = replicate 2000 0x2F20, pos = 0, attr = 0x2F\<rparr>)"
    using kernel_main_runs [OF sample_bootable, of sample_code typing_port "[72, 105]" 3 "\<lambda>_. 0xC0100000" "0xC0100100"]
    by (auto simp: sample_code_def echoed_def simp del: map_append fold_append)
  then show ?thesis unfolding sample_boot_fields by blast
qed

end
