(* ===== verification/Kstart.thy ===== *)
theory Kstart
  imports Ports Boot
begin

text \<open>
  The whole boot, arch/bootstub.asm: the headers for the boot loader, the flat segments, and \<open>kstart\<close>, which
  runs the early phase, switches paging on with the directory that it leaves, and calls \<open>kernel_main\<close>.
  From then on an address means what the page walk makes of it: the memory of the running kernel is the
  view of physical memory through the tables.
\<close>

section \<open>Headers and segments\<close>

definition multiboot2_hdr :: "u32 list" where
  "multiboot2_hdr = [0xe85250d6, 0, 24, - (0xe85250d6 + 0 + 24), 0, 8]"

definition multiboot_hdr :: "u32 list" where
  "multiboot_hdr = (let flags = push_bit 0 1 OR push_bit 1 1 in [0x1badb002, flags, - (0x1badb002 + flags)])"

text \<open>The sums that the boot loader checks, and the length in the first header.\<close>

lemma header_checksums:
  "sum_list (take 4 multiboot2_hdr) = 0" "sum_list multiboot_hdr = 0" "unat (multiboot2_hdr ! 2) = 4 * length multiboot2_hdr"
  by (simp_all add: multiboot2_hdr_def multiboot_hdr_def Let_def)

definition gdt_start :: "u8 list" where
  "gdt_start = [0, 0, 0, 0, 0, 0, 0, 0]
     @ [0xff, 0xff, 0x00, 0x00, 0x00, 0x9A, 0xCF, 0x00]
     @ [0xff, 0xff, 0x00, 0x00, 0x00, 0x92, 0xCF, 0x00]"

text \<open>Base and last address of a segment, as the processor reads its descriptor.\<close>

definition segment_base :: "u8 list \<Rightarrow> nat" where
  "segment_base d = unat (d ! 2) + 2 ^ 8 * unat (d ! 3) + 2 ^ 16 * unat (d ! 4) + 2 ^ 24 * unat (d ! 7)"

definition segment_last :: "u8 list \<Rightarrow> nat" where
  "segment_last d = segment_base d + (let limit = unat (d ! 0) + 2 ^ 8 * unat (d ! 1) + 2 ^ 16 * unat (d ! 6 AND 0x0F)
     in if bit (d ! 6) 7 then 4096 * limit + 4095 else limit)"

text \<open>The code segment 0x08 and the data segment 0x10 are the whole address space; only the first is executable.\<close>

lemma segments_flat:
  "selector \<in> {0x08, 0x10} \<Longrightarrow> segment_base (take 8 (drop selector gdt_start)) = 0
     \<and> segment_last (take 8 (drop selector gdt_start)) = 2 ^ 32 - 1 \<and> (bit (drop selector gdt_start ! 5) 3 \<longleftrightarrow> selector = 0x08)"
proof -
  have "bit (0xCF :: u8) 7" "bit (0x9A :: u8) 3" "\<not> bit (0x92 :: u8) 3" by (simp_all add: bit_numeral_rec bit_1_iff)
  then show "selector \<in> {0x08, 0x10} \<Longrightarrow> ?thesis" by (auto simp: gdt_start_def segment_base_def segment_last_def)
qed

section \<open>The boot\<close>

definition virtual_view :: "memory \<Rightarrow> u32 \<Rightarrow> memory" where
  "virtual_view m pd va = (case translate m pd va of Some pa \<Rightarrow> m pa | None \<Rightarrow> 0)"

text \<open>\<open>k\<close> holds the kernel's static variables.\<close>

definition enter_paging :: "'a paging_scheme \<Rightarrow> 'b serial_scheme \<Rightarrow> 'b serial_scheme" where
  "enter_paging s k = k\<lparr>mem := virtual_view (mem s) (page_directory s), phys := mem s, cr3 := page_directory s, io := io s\<rparr>"

text \<open>The two ways it can go: the endless loop of \<open>early_panic\<close>, or the one after \<open>kernel_main\<close> has returned.\<close>

definition kstart :: "device \<Rightarrow> (isr \<Rightarrow> u32) \<Rightarrow> u32 \<Rightarrow> (serial_function \<Rightarrow> u32) \<Rightarrow> u32 \<Rightarrow> mmap_data \<Rightarrow> u32 \<Rightarrow> u32 \<Rightarrow> u32
    \<Rightarrow> 'b serial_scheme \<Rightarrow> 'a paging_scheme \<Rightarrow> ('a paging_scheme + 'b serial_scheme) option" where
  "kstart dev isr_addr timer_irq serial_addr mbitmap buf kernel_params ebx eax k s = do {
     let edx = eax;
     outcome \<leftarrow> kernel_early_init mbitmap buf ebx edx kernel_params s;
     case outcome of
       Panicked s \<Rightarrow> Some (Inl s)
     | Booted s \<Rightarrow> map_option Inr (kernel_main dev isr_addr timer_irq serial_addr kernel_params (enter_paging s k))
   }"

section \<open>The address space that the kernel finds\<close>

text \<open>What the early phase leaves, from the state \<open>g\<close> after the initialisation of its allocator on.\<close>

definition handed_over :: "'a paging_scheme \<Rightarrow> nat \<Rightarrow> u32 \<Rightarrow> u32 \<Rightarrow> u32 \<Rightarrow> u32 \<Rightarrow> u32 \<Rightarrow> 'a paging_scheme \<Rightarrow> bool" where
  "handed_over g n kend t1 tk ts sb s \<longleftrightarrow> stage g s n (kernel_tables (page_directory s) t1 tk ts sb (frame kend))
     \<and> distinct [page_directory s, t1, tk, ts, sb] \<and> kernel_end_physical s = kend \<and> frame kend \<le> 1024"

lemma handed_over_facts:
  assumes "handed_over g n kend t1 tk ts sb s"
  shows "translate (mem s) (page_directory s) va = kernel_map (page_directory s) t1 tk ts sb kend va"
    "unat kend = 4096 * frame kend" "unat kend \<le> 0x400000" "0x100000 \<le> unat kend" "low_memory_ok s"
    "unat (kend + 0xc0000000) = unat kend + 0xc0000000"
proof -
  have H: "stage g s n (kernel_tables (page_directory s) t1 tk ts sb (frame kend))" "distinct [page_directory s, t1, tk, ts, sb]"
    "kernel_end_physical s = kend" "frame kend \<le> 1024" using assms by (simp_all add: handed_over_def)
  show "translate (mem s) (page_directory s) va = kernel_map (page_directory s) t1 tk ts sb kend va"
    using translate_stage [of g s n "page_directory s" t1 tk ts sb va] H by simp
  show L: "low_memory_ok s" using H(1) by (simp add: stage_def)
  then have "aligned kend" using H(3) by (simp add: low_memory_ok_def)
  then show k: "unat kend = 4096 * frame kend" by (simp add: aligned_frame)
  then show l: "unat kend \<le> 0x400000" using H(4) by simp
  show "0x100000 \<le> unat kend" using L H(3) by (auto simp: low_memory_ok_def)
  show "unat (kend + 0xc0000000) = unat kend + 0xc0000000" using l by (subst unat_add_lem [THEN iffD1]) simp_all
qed

lemma view_low:
  assumes "handed_over g n kend t1 tk ts sb s" "unat va < 0x100000"
  shows "virtual_view (mem s) (page_directory s) va = mem s va"
  using assms(2) by (simp add: virtual_view_def handed_over_facts(1) [OF assms(1)] kernel_map_def Let_def word_less_nat_alt)

lemma view_kernel:
  assumes "handed_over g n kend t1 tk ts sb s" "0x100000 \<le> unat pa" "unat pa < unat kend"
  shows "virtual_view (mem s) (page_directory s) (pa + 0xc0000000) = mem s pa"
proof -
  note F = handed_over_facts [OF assms(1)]
  have u: "unat (pa + 0xc0000000) = unat pa + 0xc0000000" using assms(3) F(3) by (subst unat_add_lem [THEN iffD1]) simp_all
  have e: "unat (0xc0000000 + kend) = unat kend + 0xc0000000" using F(6) by (simp add: add.commute)
  have "kernel_map (page_directory s) t1 tk ts sb kend (pa + 0xc0000000) = Some pa"
    using u e assms(2,3) by (simp add: kernel_map_def Let_def word_less_nat_alt word_le_nat_alt)
  then show ?thesis by (simp add: virtual_view_def F(1))
qed

text \<open>The directory and the tables as the page manager sees them.\<close>

definition kernel_tabs :: "u32 \<Rightarrow> u32 \<Rightarrow> nat \<Rightarrow> nat \<Rightarrow> u32" where
  "kernel_tabs kend sb d = (if d = 0 then linear_map 0 256 (\<lambda>_. 0) else if d = 768 then linear_map 256 (frame kend) (\<lambda>_. 0)
     else (\<lambda>_. 0)(1023 := entry_of sb))"

lemma base_entry_of: "aligned p \<Longrightarrow> base (entry_of p) = p" "bit (entry_of p) 0" "entry_of p \<noteq> 0"
proof -
  show "aligned p \<Longrightarrow> base (entry_of p) = p" unfolding base_def by (rule entry_of_bits(2))
  show "bit (entry_of p) 0" by (rule entry_of_bits(1))
  then show "entry_of p \<noteq> 0" by (metis bit_0_eq bot_apply bot_bool_def)
qed

lemma handed_over_space:
  assumes "handed_over g n kend t1 tk ts sb s"
  defines "dir \<equiv> directory (page_directory s) t1 tk ts"
  shows "space (mem s) (page_directory s) dir (kernel_tabs kend sb)" "tidy dir (kernel_tabs kend sb)"
    "frame (page_directory s) \<in> kused s" "d < 1023 \<Longrightarrow> dir d \<noteq> 0 \<Longrightarrow> frame (base (dir d)) \<in> kused s \<and> base (dir d) \<noteq> 0"
proof -
  let ?pd = "page_directory s"
  have D: "distinct [?pd, t1, tk, ts, sb]" using assms(1) by (simp add: handed_over_def)
  have P: "kernel_tables ?pd t1 tk ts sb (frame kend) t = Some f \<Longrightarrow> aligned t \<and> unat kend \<le> unat t \<and> frame t \<in> kused s \<and> table (mem s) t f" for t f
    using assms(1) by (auto simp: handed_over_def stage_def pages_def)
  have T: "aligned ?pd" "frame ?pd \<in> kused s" "table (mem s) ?pd dir" "aligned t1" "frame t1 \<in> kused s" "table (mem s) t1 (linear_map 0 256 (\<lambda>_. 0))"
    "aligned tk" "frame tk \<in> kused s" "table (mem s) tk (linear_map 256 (frame kend) (\<lambda>_. 0))"
    "aligned ts" "frame ts \<in> kused s" "table (mem s) ts ((\<lambda>_. 0)(1023 := entry_of sb))"
    "unat kend \<le> unat t1" "unat kend \<le> unat tk" "unat kend \<le> unat ts"
    using P [of ?pd] P [of t1] P [of tk] P [of ts] D by (auto simp: kernel_tables_def dir_def)
  have nz: "t1 \<noteq> 0" "tk \<noteq> 0" "ts \<noteq> 0" using T(13-15) handed_over_facts(4) [OF assms(1)] by auto
  have dir: "dir d = (if d = 1022 then entry_of ts else if d = 768 then entry_of tk else if d = 0 then entry_of t1 else 0)" if "d < 1023" for d
    using that by (simp add: dir_def directory_def)
  have dir': "dir 1023 = entry_of ?pd" by (simp add: dir_def directory_def)
  note b = base_entry_of(1) [OF T(1)] base_entry_of(1) [OF T(4)] base_entry_of(1) [OF T(7)] base_entry_of(1) [OF T(10)]
  show "frame ?pd \<in> kused s" by (rule T(2))
  show "frame (base (dir d)) \<in> kused s \<and> base (dir d) \<noteq> 0" if "d < 1023" "dir d \<noteq> 0"
    using that T(5,8,11) nz by (auto simp: dir b split: if_splits)
  show "tidy dir (kernel_tabs kend sb)"
    by (auto simp: tidy_def kernel_tabs_def linear_map_def base_entry_of(2) split: if_splits)
  show "space (mem s) ?pd dir (kernel_tabs kend sb)"
    unfolding space_def
  proof (intro conjI allI impI)
    show "aligned ?pd" "table (mem s) ?pd dir" by (rule T)+
    show "bit (dir 1023) 0" "base (dir 1023) = ?pd" by (simp_all add: dir' b base_entry_of(2))
    fix d assume d: "d < 1023" "dir d \<noteq> 0"
    then show "bit (dir d) 0" "base (dir d) \<noteq> ?pd" "table (mem s) (base (dir d)) (kernel_tabs kend sb d)"
      using D T(6,9,12) by (auto simp: dir b base_entry_of(2) kernel_tabs_def split: if_splits)
  next
    fix d d' assume "d < 1023" "d' < 1023" "d \<noteq> d'" "dir d \<noteq> 0" "dir d' \<noteq> 0"
    then show "base (dir d) \<noteq> base (dir d')" using D by (auto simp: dir b split: if_splits)
  qed
qed

section \<open>The state in which the kernel starts\<close>

text \<open>The kernel's static variables: they lie in its image before the bitmap, which is the last thing in it, and have their initial values.\<close>

definition statics_ok :: "u32 \<Rightarrow> 'a serial_scheme \<Rightarrow> bool" where
  "statics_ok mbitmap k \<longleftrightarrow> 0xc0100000 \<le> unat (interrupts k) \<and> unat (interrupts k) + 2048 \<le> unat mbitmap
     \<and> 0xc0100000 \<le> unat (base_header k) \<and> unat (base_header k) + 8 \<le> unat mbitmap
     \<and> 0xc0100000 \<le> unat (base_inode k) \<and> unat (base_inode k) + 12 \<le> unat mbitmap
     \<and> brk_ptr k = 0 \<and> next_free k = 0 \<and> current_inode k = 0 \<and> current_inode_number k = 1"

text \<open>No free block holds anything but zeros.\<close>

definition zeroed :: "'a kmemlow_scheme \<Rightarrow> bool" where
  "zeroed s \<longleftrightarrow> (\<forall>t. aligned t \<longrightarrow> frame t \<notin> kused s \<longrightarrow> table (mem s) t (\<lambda>_. 0))"

lemma view_bitmap:
  assumes "handed_over g n kend t1 tk ts sb s" "mbitmap_physical s = mbitmap - 0xc0000000" "k < unat (total_blocks s)"
  shows "block_used (virtual_view (mem s) (page_directory s)) mbitmap k = block_used (mem s) (mbitmap_physical s) k"
proof -
  note F = handed_over_facts [OF assms(1)]
  let ?b = "mbitmap_physical s" and ?l = "4 * unat (kmemlow.bitmap_size s)"
  have L: "0x100000 \<le> unat ?b" "kernel_end_physical s = kend" "unat (total_blocks s) \<le> 32 * unat (kmemlow.bitmap_size s)"
    using F(5) assms(1) by (simp_all add: low_memory_ok_def handed_over_def)
  have mb: "mbitmap + of_nat i = (?b + of_nat i) + 0xc0000000" for i by (simp add: assms(2))
  have "virtual_view (mem s) (page_directory s) (mbitmap + of_nat i) = mem s (?b + of_nat i)" if "i < ?l" for i
    unfolding mb using bitmap_address [OF F(5) that] L(1,2) by (intro view_kernel [OF assms(1)]) simp_all
  then have v: "\<forall>i < ?l. virtual_view (mem s) (page_directory s) (mbitmap + of_nat i) = mem s (?b + of_nat i)" by blast
  have "k div 32 < unat (kmemlow.bitmap_size s)" using assms(3) L(3) by (simp add: div_less_iff_less_mult)
  then show ?thesis unfolding block_used_def elem_offset using load32_moved [OF v, of "4 * (k div 32)"] by simp
qed

lemma heap_params_fields:
  "heap_params kparams k = k\<lparr>heap_base := kernel_heap kparams (mem k), mbmp := kernel_memory_bitmap kparams (mem k),
     btotal := allocator_total_blocks kparams (mem k), bused := allocator_used_blocks kparams (mem k)\<rparr>"
  by (simp add: heap_params_def memory_init_mmap_def balloc_initialize_def memory_setbase_def)

lemma view_params:
  assumes "handed_over g n kend t1 tk ts sb s" "unat kparams + 20 \<le> 0x100000" "kparams_are kparams [stack, h, b, t, u] s"
  shows "kernel_heap kparams (virtual_view (mem s) (page_directory s)) = h"
    "kernel_memory_bitmap kparams (virtual_view (mem s) (page_directory s)) = b"
    "allocator_total_blocks kparams (virtual_view (mem s) (page_directory s)) = t"
    "allocator_used_blocks kparams (virtual_view (mem s) (page_directory s)) = u"
proof -
  have "virtual_view (mem s) (page_directory s) (kparams + of_nat i) = mem s (kparams + of_nat i)" if "i < 20" for i
    using that assms(2) unat_add_small [of kparams i] by (intro view_low [OF assms(1)]) simp
  then have v: "\<forall>i < 20. virtual_view (mem s) (page_directory s) (kparams + of_nat i) = mem s (kparams + of_nat i)" by blast
  have e: "load32 (virtual_view (mem s) (page_directory s)) (elem kparams i) = load32 (mem s) (elem kparams i)" if "i < 5" for i
    using load32_moved [OF v, of "4 * i"] that by (simp add: elem_offset)
  show "kernel_heap kparams (virtual_view (mem s) (page_directory s)) = h"
    "kernel_memory_bitmap kparams (virtual_view (mem s) (page_directory s)) = b"
    "allocator_total_blocks kparams (virtual_view (mem s) (page_directory s)) = t"
    "allocator_used_blocks kparams (virtual_view (mem s) (page_directory s)) = u"
    using e [of 1] e [of 2] e [of 3] e [of 4] assms(3)
    by (simp_all add: kernel_heap_def kernel_memory_bitmap_def allocator_total_blocks_def allocator_used_blocks_def kparams_are_def upt_5 get_kparam_def)
qed

lemma handed_over_heap:
  fixes k :: "'b serial_scheme"
  assumes H: "handed_over g n kend t1 tk ts sb s" and z: "zeroed s" and mb: "mbitmap_physical s = mbitmap - 0xc0000000"
    and t_def: "t = (enter_paging s k)\<lparr>heap_base := kend + 0xc0000000, mbmp := mbitmap, btotal := total_blocks s, bused := u\<rparr>"
    and b: "brk_ptr k = 0"
  shows "heap_ok t" "free_count t = n"
proof -
  note F = handed_over_facts [OF H] and S = handed_over_space [OF H]
  have t: "mem t = virtual_view (mem s) (page_directory s)" "phys t = mem s" "cr3 t = page_directory s" "mbmp t = mbitmap"
    "btotal t = total_blocks s" "heap_base t = kend + 0xc0000000" "brk_ptr t = 0"
    using b by (simp_all add: t_def enter_paging_def)
  have bs: "bset t = kused s" using view_bitmap [OF H mb] by (auto simp: bset_def kused_def used_set_def t)
  have L: "unat (total_blocks s) \<le> 2 ^ 20" "0 \<in> kused s" "card (free_blocks s) = n"
    using F(5) H by (simp_all add: low_memory_ok_def kmemlow_ok_def handed_over_def stage_def)
  have "{..<32 * (unat (total_blocks s) div 32)} - kused s = free_blocks s" by (auto simp: free_blocks_def)
  then show "free_count t = n" using L(3) by (simp add: free_count_def t bs)
  have "vm t (directory (page_directory s) t1 tk ts) (kernel_tabs kend sb)"
    using S L by (simp add: vm_def t bs balloc_ok_def)
  moreover have "clean t" using z by (simp add: clean_def zeroed_def t bs)
  ultimately have ok: "tables_ok t" using S(2) by (auto simp: tables_ok_def)
  have fh: "frame (kend + 0xc0000000) = frame kend + 0xc0000" using F(2,6) by (simp add: frame_def)
  have fk: "frame kend \<le> 1024" using H by (simp add: handed_over_def)
  have none: "maps t va = None" if "frame kend + 0xc0000 \<le> frame va" "frame va < HEAP_LIMIT" for va
  proof -
    have d: "4096 * frame va \<le> unat va" "unat va < 4096 * frame va + 4096" by (simp_all add: frame_def)
    then have r: "unat kend + 0xc0000000 \<le> unat va" "unat va < 0xffbff000" using that F(2) by (simp_all add: HEAP_LIMIT_def)
    have e: "unat (0xc0000000 + kend) = unat kend + 0xc0000000" using F(6) by (simp add: add.commute)
    have "kernel_map (page_directory s) t1 tk ts sb kend va = None"
      using r e F(4) by (simp add: kernel_map_def Let_def word_less_nat_alt word_le_nat_alt)
    then show ?thesis by (simp add: maps_def t F(1))
  qed
  have "aligned (kend + 0xc0000000)" using F(2,6) by (simp add: aligned_def)
  moreover have "kend + 0xc0000000 \<noteq> 0" using F(6) by auto
  ultimately show "heap_ok t"
    using ok fh fk none by (auto simp: heap_ok_def t heap_top_def HEAP_LIMIT_def backed_def)
qed

lemma handed_over_bootable:
  fixes k :: "'b serial_scheme"
  assumes H: "handed_over g n kend t1 tk ts sb s" and z: "zeroed s" and mb: "mbitmap_physical s = mbitmap - 0xc0000000"
    and kp: "kparams_are kparams [stack, kend + 0xc0000000, mbitmap, total_blocks s, u] s" "unat kparams + 20 \<le> 0xB8000"
    and n: "2 \<le> n" and k: "statics_ok mbitmap k"
    and fits: "unat (mbitmap - 0xc0000000) + bitmap_bytes (total_blocks s) \<le> unat kend"
  shows "bootable kparams (enter_paging s k)"
proof -
  note F = handed_over_facts [OF H]
  have lo: "unat kparams + 20 \<le> 0x100000" using kp(2) by simp
  note V = view_params [OF H lo kp(1)]
  have e: "mem (enter_paging s k) = virtual_view (mem s) (page_directory s)" "brk_ptr (enter_paging s k) = 0" "next_free (enter_paging s k) = 0"
    "current_inode (enter_paging s k) = 0" "current_inode_number (enter_paging s k) = 1" "interrupts (enter_paging s k) = interrupts k"
    "base_header (enter_paging s k) = base_header k" "base_inode (enter_paging s k) = base_inode k"
    using k by (simp_all add: enter_paging_def statics_ok_def)
  have hp: "heap_params kparams (enter_paging s k) = (enter_paging s k)
      \<lparr>heap_base := kend + 0xc0000000, mbmp := mbitmap, btotal := total_blocks s, bused := u\<rparr>"
    unfolding heap_params_fields e V ..
  have "brk_ptr k = 0" using k by (simp add: statics_ok_def)
  note hh = handed_over_heap [OF H z mb refl this, of u, folded hp]
  have "mbitmap = (mbitmap - 0xc0000000) + 0xc0000000" by simp
  moreover have "unat ((mbitmap - 0xc0000000) + 0xc0000000) = unat (mbitmap - 0xc0000000) + 0xc0000000"
    using fits F(3) by (subst unat_add_lem [THEN iffD1]) simp_all
  ultimately have ub: "unat mbitmap = unat (mbitmap - 0xc0000000) + 0xc0000000" by metis
  note u = ub F(3,4,6) fits kp(2) k [unfolded statics_ok_def]
  have sep: "separated a i b j" if "unat a + i \<le> unat b \<or> unat b + j \<le> unat a" "unat a + i \<le> 0xffffffff" "unat b + j \<le> 0xffffffff" for a b i j
    by (rule separated_far) (use that in simp_all)
  have "serial_regions mbitmap (total_blocks s) (enter_paging s k)"
    unfolding serial_regions_def e by (intro conjI sep) (use u in simp_all)
  moreover have "heap_regions (kend + 0xc0000000) (enter_paging s k)"
    unfolding heap_regions_def e by (intro conjI sep) (use u in simp_all)
  moreover have "separated kparams 20 0xB8000 4000" "separated kparams 20 (interrupts k) 2048"
    "separated mbitmap (bitmap_bytes (total_blocks s)) (base_header k) 8"
    "separated mbitmap (bitmap_bytes (total_blocks s)) (kend + 0xc0000000) 2048"
    by (intro sep; use u in simp)+
  moreover have "unat (kend + 0xc0000000) + 2048 < 4096 * HEAP_LIMIT" using u by (simp add: HEAP_LIMIT_def)
  moreover have "base_header k \<noteq> 0" "base_inode k \<noteq> 0" using k by (auto simp: statics_ok_def)
  moreover have "unat (base_header k) + 8 \<le> unat (kend + 0xc0000000)" using u by simp
  ultimately show ?thesis unfolding bootable_def Let_def e V using hh n by simp
qed

text \<open>The blocks left free hold zeros, when memory behind the kernel did at the start: the early phase takes the lowest
  blocks, and with them those into which it had moved the boot structure.\<close>

lemma early_zeroed:
  fixes s :: "'a paging_scheme" and g :: "'b kmemlow_scheme"
  assumes st: "stage g s (card (free_blocks g) - 5) T" and c: "5 \<le> card (free_blocks g)" and kend: "kernel_end_physical s = kend"
    and lo: "\<forall>k \<in> free_blocks g. frame kend \<le> k" and al: "unat kend = 4096 * frame kend"
    and zero: "\<And>x. unat kend \<le> unat x \<Longrightarrow> x \<notin> M \<Longrightarrow> mem g x = 0" and q: "\<And>x. x \<in> M \<Longrightarrow> unat x < unat kend + 20480"
  shows "zeroed s"
  unfolding zeroed_def
proof (intro allI impI)
  fix t assume t: "aligned t" "frame t \<notin> kused s"
  have L: "low_memory_ok s" and sp: "spares g s" and cs: "card (free_blocks s) = card (free_blocks g) - 5" using st by (simp_all add: stage_def)
  have "\<not> frame t < frame kend" using L t(2) kend by (auto simp: low_memory_ok_def)
  then have ft: "frame kend \<le> frame t" by simp
  have sub: "free_blocks s \<subseteq> free_blocks g" using sp by (auto simp: free_blocks_def spares_def)
  let ?taken = "free_blocks g - free_blocks s"
  have c5: "card ?taken = 5" using card_Diff_subset [OF finite_subset [OF sub finite_free_blocks] sub] cs c card_mono [OF _ sub] by simp
  have far: "frame kend + 5 \<le> frame t"
  proof -
    have "?taken \<subseteq> {frame kend..<frame t}"
    proof
      fix j assume j: "j \<in> ?taken"
      then have "j \<in> kused s - kused g" "frame kend \<le> j" "j < unat (total_blocks s)"
        using lo sp by (auto simp: free_blocks_def spares_def intro: less_le_trans)
      then show "j \<in> {frame kend..<frame t}" using sp t(2) by (cases "frame t < unat (total_blocks s)") (auto simp: spares_def)
    qed
    then have "5 \<le> card {frame kend..<frame t}" using c5 card_mono [of "{frame kend..<frame t}" ?taken] by simp
    then show ?thesis by simp
  qed
  show "table (mem s) t (\<lambda>_. 0)"
  proof (intro table_zero allI impI)
    fix i :: nat assume i: "i < 4096"
    let ?x = "t + of_nat i"
    have x: "unat ?x = 4096 * frame t + i" using page_address [OF t(1) i] t(1) by (simp add: aligned_frame)
    then have "frame ?x = frame t" using i by (simp add: frame_def)
    moreover have "unat kend + 20480 \<le> unat ?x" using x far al by simp
    ultimately show "mem s ?x = 0" using sp t(2) zero [of ?x] q [of ?x] kend by (auto simp: spares_def)
  qed
qed

section \<open>From the boot loader to the echo\<close>

lemma moves_reads: "moves_cursor s s' \<Longrightarrow> reads_of p (io s') = reads_of p (io s)"
proof -
  have "list_all cursor_access l \<Longrightarrow> reads_of p l = 0" for l by (induction l) (auto simp: cursor_access_def)
  then show "moves_cursor s s' \<Longrightarrow> ?thesis" by (auto simp: moves_cursor_def)
qed

lemma low_off_screen: "unat p + 20 \<le> 0xB8000 \<Longrightarrow> \<forall>k < 20. outside_cells 0 2000 (p + of_nat k)"
proof (intro allI impI)
  fix k :: nat assume p: "unat p + 20 \<le> 0xB8000" and k: "k < 20"
  then have "unat (p + of_nat k) = unat p + k" using unat_add_small [of p k] by simp
  then show "outside_cells 0 2000 (p + of_nat k)" using p k by (intro off_screen) simp
qed

text \<open>The bitmap ends before the kernel does.\<close>

lemma bitmap_fits:
  assumes "unat start + 4 * unat (units_of_blocks n) + 4096 < 2 ^ 32" "aligned start"
  shows "unat start + bitmap_bytes n \<le> unat (kend_phys start (units_of_blocks n))"
proof -
  note kb = kend_phys_bounds [OF assms(1)]
  have "(4 :: nat) dvd unat start" using assms(2) by (auto simp: aligned_frame)
  moreover have "(4 :: nat) dvd unat (kend_phys start (units_of_blocks n))" using kb(3) by auto
  ultimately have "unat start + 4 * unat (units_of_blocks n) + 4 \<le> unat (kend_phys start (units_of_blocks n))" using kb(1) by presburger
  moreover have "unat n div 32 \<le> unat (units_of_blocks n)" unfolding unat_units_of_blocks by (rule div_le_mono) simp
  ultimately show ?thesis by (simp add: bitmap_bytes_def)
qed

text \<open>The machine as a multiboot 2 loader leaves it: the boot structure \<open>hdr\<close> is aligned, describes \<open>kb\<close> kilobytes and the
  map \<open>es\<close>, and takes at most 10 kilobytes; the kernel is loaded with the bitmap on a page of its own and ends below 4 MB; memory behind it
  holds zeros and has seven free blocks, for the tables and the first device; the parameter structure lies in low memory.\<close>

definition startable :: "u32 \<Rightarrow> u32 \<Rightarrow> mmap_data list \<Rightarrow> u32 \<Rightarrow> u32 \<Rightarrow> 'b serial_scheme \<Rightarrow> 'a paging_scheme \<Rightarrow> bool" where
  "startable mbitmap kb es hdr kparams k s \<longleftrightarrow> (let start = mbitmap - 0xc0000000; total = blocks_of_memsz kb;
       kend = kend_phys start (units_of_blocks total) in
     init_layout start kb es (s\<lparr>mboot_ptr := hdr, api_struct := full_api\<rparr>) \<and> hdr AND 7 = 0 \<and> 2 * unat (load32 (mem s) hdr) \<le> 20480
     \<and> aligned start \<and> frame kend \<le> 1024 \<and> (\<forall>x. unat kend \<le> unat x \<longrightarrow> mem s x = 0)
     \<and> 7 \<le> card {i. i < 32 * (unat total div 32) \<and> frame kend \<le> i \<and> available es i}
     \<and> unat kparams + 20 \<le> 0xB8000 \<and> statics_ok mbitmap k)"

text \<open>The same without the boot loader's part: \<open>M\<close> are the addresses behind the kernel its relocation writes.\<close>

definition loadable :: "u32 \<Rightarrow> u32 \<Rightarrow> mmap_data list \<Rightarrow> u32 set \<Rightarrow> u32 \<Rightarrow> 'b serial_scheme \<Rightarrow> 'a paging_scheme \<Rightarrow> bool" where
  "loadable mbitmap kb es M kparams k s \<longleftrightarrow> (let start = mbitmap - 0xc0000000; total = blocks_of_memsz kb;
       kend = kend_phys start (units_of_blocks total) in
     (\<forall>x \<in> M. unat x < unat kend + 20480)
     \<and> aligned start \<and> frame kend \<le> 1024 \<and> (\<forall>x. unat kend \<le> unat x \<longrightarrow> mem s x = 0)
     \<and> 7 \<le> card {i. i < 32 * (unat total div 32) \<and> frame kend \<le> i \<and> available es i}
     \<and> unat kparams + 20 \<le> 0xB8000 \<and> statics_ok mbitmap k)"

context boot_loader
begin

lemma loadable_boots:
  fixes k :: "'b serial_scheme"
  assumes R: "loader_ready view footprint room (mbitmap - 0xc0000000) kb es (s\<lparr>mboot_ptr := hdr, api_struct := api\<rparr>)" and "hdr AND 7 = 0"
    and M: "M = moved (kend_phys (mbitmap - 0xc0000000) (units_of_blocks (blocks_of_memsz kb))) (s\<lparr>mboot_ptr := hdr, api_struct := api\<rparr>)"
    and "loadable mbitmap kb es M kparams k s"
  obtains s' where "kernel_early_init mbitmap buf hdr magic kparams s = Some (Booted s')" "bootable kparams (enter_paging s' k)"
    "moves_cursor s s'"
proof -
  define start where "start = mbitmap - 0xc0000000"
  define blocks where "blocks = blocks_of_memsz kb"
  define kend where "kend = kend_phys start (units_of_blocks blocks)"
  define avail where "avail = {i. i < 32 * (unat blocks div 32) \<and> frame kend \<le> i \<and> available es i}"
  have A: "\<And>x. x \<in> M \<Longrightarrow> unat x < unat kend + 20480" "aligned start" "frame kend \<le> 1024" "\<And>x. unat kend \<le> unat x \<Longrightarrow> mem s x = 0"
    "7 \<le> card avail" "unat kparams + 20 \<le> 0xB8000" "statics_ok mbitmap k"
    using assms(4) by (simp_all add: loadable_def Let_def start_def blocks_def kend_def avail_def)
  have L: "0x100000 \<le> unat start" "unat start + 4 * unat (units_of_blocks blocks) + 4096 < 2 ^ 32"
    using R by (auto simp: loader_ready_def kernel_fits_def Let_def blocks_def start_def)
  have "5 \<le> card avail" "unat kparams + 20 \<le> unat start" using A(5,6) L(1) by simp_all
  note R' = kernel_early_init_result [OF R kend_def [unfolded start_def blocks_def] avail_def [unfolded blocks_def] assms(2) A(3) this(1)
      low_off_screen [OF A(6)] this(2) [unfolded start_def], of buf]
  obtain s' g :: "'a paging_scheme" and t1 tk ts sb
    where s': "kernel_early_init mbitmap buf hdr magic kparams s = Some (Booted s')"
      "distinct [page_directory s', t1, tk, ts, sb]"
      "stage g s' (card avail - 5) (kernel_tables (page_directory s') t1 tk ts sb (frame kend))"
      "kparams_are kparams [0xffbffffc, kend + 0xc0000000, mbitmap, blocks, used_blocks s'] s'"
      "kernel_end_physical s' = kend" "mbitmap_physical s' = mbitmap - 0xc0000000" "total_blocks s' = blocks" "free_blocks g = avail"
      "\<forall>x. unat kend \<le> unat x \<longrightarrow> x \<notin> M \<longrightarrow> mem g x = mem s x"
    by (rule R' [folded blocks_def]) (rule that, simp_all add: M kend_def start_def blocks_def)
  have H: "handed_over g (card avail - 5) kend t1 tk ts sb s'" using s'(2,3,5) A(3) by (simp add: handed_over_def)
  note F = handed_over_facts [OF H]
  have "zeroed s'"
  proof (rule early_zeroed)
    show "stage g s' (card (free_blocks g) - 5) (kernel_tables (page_directory s') t1 tk ts sb (frame kend))" using s'(3,8) by simp
    show "5 \<le> card (free_blocks g)" "kernel_end_physical s' = kend" "\<forall>i \<in> free_blocks g. frame kend \<le> i" "unat kend = 4096 * frame kend"
      using s'(5,8) A(5) F(2) by (auto simp: avail_def)
    show "mem g x = 0" if "unat kend \<le> unat x" "x \<notin> M" for x
      using s'(9) A(4) that by simp
    show "unat x < unat kend + 20480" if "x \<in> M" for x using A(1) that .
  qed
  moreover have "unat (mbitmap - 0xc0000000) + bitmap_bytes (total_blocks s') \<le> unat kend"
    using bitmap_fits [OF L(2) A(2)] by (simp add: s'(7) kend_def start_def)
  ultimately have "bootable kparams (enter_paging s' k)"
    using handed_over_bootable [OF H _ s'(6) _ A(6) _ A(7), of "0xffbffffc" "used_blocks s'"] s'(4,7) A(5) by simp
  then show thesis using that s'(1) kernel_early_init_moves [OF s'(1)] by simp
qed

lemma kstart_result:
  fixes k :: "'b serial_scheme"
  assumes "loader_ready view footprint room (mbitmap - 0xc0000000) kb es (s\<lparr>mboot_ptr := hdr, api_struct := api\<rparr>)" "hdr AND 7 = 0"
    and "loadable mbitmap kb es (moved (kend_phys (mbitmap - 0xc0000000) (units_of_blocks (blocks_of_memsz kb)))
          (s\<lparr>mboot_ptr := hdr, api_struct := api\<rparr>)) kparams k s"
    and "addr Serial_read_char \<noteq> 0" "responsive dev (0x3F8 + LINE_STATUS_REGISTER) 1"
    and "delivers dev 0x3F8 (reads_of 0x3F8 (io s)) (cs @ [b])" "list_all echoed cs" "b = 3 \<or> b = 255"
  shows "\<exists>k' :: 'b serial_scheme. kstart dev isr_addr timer_irq addr mbitmap buf kparams hdr magic k s = Some (Inr k')
    \<and> tty_of k' = fold tty_write (map scast (banner_text @ inode_text (base_inode k) @ port_text @ cs @ eof_text))
        (tty_show \<lparr>cells = replicate 2000 0x2F20, pos = 0, attr = 0x2F\<rparr>)"
proof -
  obtain s' where s': "kernel_early_init mbitmap buf hdr magic kparams s = Some (Booted s')"
    "bootable kparams (enter_paging s' k)" "moves_cursor s s'"
    using loadable_boots [OF assms(1,2) refl assms(3)] by blast
  have "delivers dev 0x3F8 (reads_of 0x3F8 (io (enter_paging s' k))) (cs @ [b])"
    using assms(6) moves_reads [OF s'(3)] by (simp add: enter_paging_def)
  then obtain k' :: "'b serial_scheme" where "kernel_main dev isr_addr timer_irq addr kparams (enter_paging s' k) = Some k'"
      "tty_of k' = fold tty_write (map scast (banner_text @ inode_text (base_inode (enter_paging s' k)) @ port_text @ cs @ eof_text))
        (tty_show \<lparr>cells = replicate 2000 0x2F20, pos = 0, attr = 0x2F\<rparr>)"
    using kernel_main_result [where s = "enter_paging s' k" and cs = cs and b = b] s'(2) assms(4,5,7,8) by blast
  moreover have "base_inode (enter_paging s' k) = base_inode k" by (simp add: enter_paging_def)
  ultimately show ?thesis using s'(1) by (simp add: kstart_def)
qed

end

lemma startable_loadable:
  assumes "startable mbitmap kb es hdr kparams k s"
  shows "loadable mbitmap kb es (moved2 (kend_phys (mbitmap - 0xc0000000) (units_of_blocks (blocks_of_memsz kb)))
    (s\<lparr>mboot_ptr := hdr, api_struct := full_api\<rparr>)) kparams k s"
proof -
  define kend where "kend = kend_phys (mbitmap - 0xc0000000) (units_of_blocks (blocks_of_memsz kb))"
  define n where "n = load32 (mem s) hdr"
  have A: "frame kend \<le> 1024" "2 * unat n \<le> 20480"
    using assms by (simp_all add: startable_def Let_def kend_def n_def)
  have k: "unat kend < 4096 * 1025" using A(1) div_bounds [of 4096 "unat kend"] by (simp add: frame_def)
  have u: "unat (kend + n) = unat kend + unat n" using k A(2) by (subst unat_add_lem [THEN iffD1]) simp_all
  have "unat x < unat kend + 20480" if "in_region (kend + n) (unat n) x" for x
    using that region_range [of "kend + n" "unat n" x] k u A(2) by simp
  then show ?thesis using assms by (simp add: startable_def loadable_def Let_def moved2_def kend_def n_def)
qed

text \<open>The machine as a multiboot 1 loader leaves it; what the driver reads lies outside of the screen and of the kernel.\<close>

definition startable1 :: "u32 \<Rightarrow> u32 \<Rightarrow> mmap_data list \<Rightarrow> u32 \<Rightarrow> u32 \<Rightarrow> 'b serial_scheme \<Rightarrow> 'a paging_scheme \<Rightarrow> bool" where
  "startable1 mbitmap kb es hdr kparams k s \<longleftrightarrow>
     init_layout1 (mbitmap - 0xc0000000) kb es (s\<lparr>mboot_ptr := hdr, api_struct := api1\<rparr>) \<and> hdr AND 7 = 0
     \<and> loadable mbitmap kb es {} kparams k s"

section \<open>Properties\<close>



text \<open>A machine of 32 MB whose kernel ends at 2 MB; the operator types \<open>Hi\<close> and ends the input.\<close>

definition sample_statics :: serial where
  "sample_statics = Boot.sample_boot\<lparr>interrupts := 0xc0180000, base_header := 0xc0190000, base_inode := 0xc01a0000\<rparr>"

lemma sample_startable: "startable 0xc0200000 0x8000 [low_entry 1] 0x1000 0x7e100 sample_statics (paging_boot 1)"
proof -
  have b: "blocks_of_memsz 0x8000 = 8192" "0xc0200000 - 0xc0000000 = (0x200000 :: u32)" "kend_phys 0x200000 (units_of_blocks 8192) = 0x201000"
    by (simp_all add: blocks_of_memsz_def KILOBYTES_def PAGE_SIZE_def units_of_blocks_def BLOCKS_PER_UNIT_def kend_phys_def)
  have m: "mem (paging_boot 1) = low_boot 1" by (simp add: paging_boot_def low_state_with_def)
  have "(paging_boot 1)\<lparr>mboot_ptr := 0x1000, api_struct := full_api\<rparr> = paging_boot 1"
    by (simp add: paging_boot_def low_state_with_def full_api_def)
  then have "init_layout 0x200000 0x8000 [low_entry 1] ((paging_boot 1)\<lparr>mboot_ptr := 0x1000, api_struct := full_api\<rparr>)"
    using low_layout [of 1, unfolded b(2)] unfolding paging_boot_def by metis
  moreover have "{k. k < 32 * (unat (8192 :: u32) div 32) \<and> frame 0x201000 \<le> k \<and> available [low_entry 1] k} = {513..<8192}"
    by (rule set_eqI) (auto simp: available_def low_entry_def first_block_def block_count_def frame_def)
  then have "7 \<le> card {k. k < 32 * (unat (8192 :: u32) div 32) \<and> frame 0x201000 \<le> k \<and> available [low_entry 1] k}"
    by (simp only: card_atLeastLessThan)
  moreover have "low_boot 1 x = 0" if "unat (0x201000 :: u32) \<le> unat x" for x
  proof -
    have "\<not> in_region a 4 x" if "unat a \<le> 0x1038" for a
      using that \<open>unat (0x201000 :: u32) \<le> unat x\<close> region_range [of a 4 x] by auto
    then show ?thesis by (simp add: low_boot_def store32_region)
  qed
  moreover have "load32 (low_boot 1) 0x1000 = 0x48" by (simp add: low_loads)
  ultimately show ?thesis
    unfolding startable_def Let_def b m
    by (simp add: aligned_def frame_def statics_ok_def sample_statics_def sample_boot_fields)
qed


text \<open>The same machine under a multiboot 1 loader.\<close>

definition paging_boot1 :: paging where
  "paging_boot1 = low_state1_with 1
     \<lparr>page_directory = 0, first_pagetable = 0, kernel_pagetable = 0, kernel_stack_map = 0, kernel_end_virtual = 0\<rparr>"

lemma sample_startable1: "startable1 0xc0200000 0x8000 (low_entries1 1) 0x1000 0x7e100 sample_statics paging_boot1"
proof -
  have b: "blocks_of_memsz 0x8000 = 8192" "0xc0200000 - 0xc0000000 = (0x200000 :: u32)" "kend_phys 0x200000 (units_of_blocks 8192) = 0x201000"
    by (simp_all add: blocks_of_memsz_def KILOBYTES_def PAGE_SIZE_def units_of_blocks_def BLOCKS_PER_UNIT_def kend_phys_def)
  have m: "mem paging_boot1 = low_boot1 1" by (simp add: paging_boot1_def low_state1_with_def)
  have "paging_boot1\<lparr>mboot_ptr := 0x1000, api_struct := api1\<rparr> = paging_boot1"
    by (simp add: paging_boot1_def low_state1_with_def low_state_with_def)
  then have "init_layout1 0x200000 0x8000 (low_entries1 1) (paging_boot1\<lparr>mboot_ptr := 0x1000, api_struct := api1\<rparr>)"
    using low_layout1 [of 1, unfolded b(2)] unfolding paging_boot1_def by metis
  moreover have "{k. k < 32 * (unat (8192 :: u32) div 32) \<and> frame 0x201000 \<le> k \<and> available (low_entries1 1) k} = {513..<8192}"
    by (rule set_eqI) (auto simp: available_def low_entries1_def low_entry_def first_block_def block_count_def frame_def)
  then have "7 \<le> card {k. k < 32 * (unat (8192 :: u32) div 32) \<and> frame 0x201000 \<le> k \<and> available (low_entries1 1) k}"
    by (simp only: card_atLeastLessThan)
  moreover have "low_boot1 1 x = 0" if "unat (0x201000 :: u32) \<le> unat x" for x
  proof -
    have "\<not> in_region a 4 x" if "unat a \<le> 0x202C" for a
      using that \<open>unat (0x201000 :: u32) \<le> unat x\<close> region_range [of a 4 x] by auto
    then show ?thesis by (simp add: low_boot1_def store32_region)
  qed
  ultimately show ?thesis
    unfolding startable1_def loadable_def Let_def b m
    by (simp add: aligned_def frame_def statics_ok_def sample_statics_def sample_boot_fields)
qed


end
