(* ===== verification/Isr.thy ===== *)
theory Isr
  imports Cpu Stdio
begin

text \<open>
  The interrupt service routines, the assembly code of arch/i386/asm. A routine starts on a stack on which the
  processor has pushed the interrupted program's EIP, CS and EFLAGS, below an error code for some exceptions;
  it returns through the three words that \<open>iretd\<close> pops, or it stops the system. The registers that
  \<open>pushad\<close> saves are a list of eight words, EDI first, EAX last.
\<close>

datatype 's isr_end = Iretd (popped: "u32 list") (after: 's) | Stopped (after: 's)

abbreviation (input) resume :: "u32 list \<Rightarrow> 's \<Rightarrow> 's isr_end option" where
  "resume stack s \<equiv> Some (Iretd (take 3 stack) s)"

section \<open>Functions common to most exceptions\<close>

definition I386_EXCEPTION_COLOR :: u8 where "I386_EXCEPTION_COLOR = 0x4F"

definition str_SystemException :: "u8 list" where
  "str_SystemException = ascii ''[System Exception 0x%x]: %s'' @ [10, 10]"

definition str_SystemMustHalt1 :: "u8 list" where
  "str_SystemMustHalt1 = 10 # ascii ''An irrecoverable system exception has occured. Your system has been''"

definition str_SystemMustHalt2 :: "u8 list" where
  "str_SystemMustHalt2 = ascii ''shut down to prevent damage. Please power off and restart your machine.''"

definition i386_exception_set_disp :: "'a cpu_driver_scheme \<Rightarrow> 'a cpu_driver_scheme" where
  "i386_exception_set_disp s = display_clear (snd (display_change_color I386_EXCEPTION_COLOR s))"

text \<open>The routine does not return: the result is the state in which it spins, with interrupts off.\<close>

definition i386_system_stop :: "'a cpu_driver_scheme \<Rightarrow> 'a cpu_driver_scheme isr_end" where
  "i386_system_stop s =
     (let s = snd (puts str_SystemMustHalt1 s);
          s = snd (puts str_SystemMustHalt2 s)
      in Stopped (s\<lparr>interrupt_flag := False\<rparr>))"

text \<open>The call of \<open>printf\<close> with the three arguments each routine pushes.\<close>

definition print_exception :: "u32 \<Rightarrow> string \<Rightarrow> 'a display_scheme \<Rightarrow> (i32 \<times> 'a display_scheme) option" where
  "print_exception n msg s = vprintf str_SystemException [VaWord n, VaStr (ascii msg)] s"

section \<open>The exceptions\<close>

text \<open>Routines that report and return.\<close>

definition report_and_return ::
  "u32 \<Rightarrow> string \<Rightarrow> u32 list \<Rightarrow> u32 list \<Rightarrow> 'a cpu_driver_scheme \<Rightarrow> 'a cpu_driver_scheme isr_end option" where
  "report_and_return n msg regs stack s = do {
     let stack = regs @ stack;
     (_, s) \<leftarrow> print_exception n msg s;
     resume (drop 8 stack) s
   }"

definition divbyzero_isr where "divbyzero_isr = report_and_return 0x0 ''Division by zero''"
definition debugtrap_isr where "debugtrap_isr = report_and_return 0x01 ''Debug Trap''"
definition breakpoint_isr where "breakpoint_isr = report_and_return 0x03 ''Breakpoint detected''"
definition bounderror_isr where "bounderror_isr = report_and_return 0x05 ''Array index out of bounds''"
definition fpuexception_isr where "fpuexception_isr = report_and_return 0x10 ''Floating point unit exception''"
definition aligncheck_isr where "aligncheck_isr = report_and_return 0x11 ''Alignment check: Unaligned address was accessed in user mode''"
definition virtualizeexception_isr where "virtualizeexception_isr = report_and_return 0x14 ''Virtualization Exception''"

definition defaulthandler_isr :: "u32 list \<Rightarrow> u32 list \<Rightarrow> 'a cpu_driver_scheme \<Rightarrow> 'a cpu_driver_scheme isr_end option" where
  "defaulthandler_isr regs stack s =
     (let stack = regs @ stack;
          s = snd (puts (ascii ''i386_defaulthandler called...'') s)
      in resume (drop 8 stack) s)"

text \<open>Routines that clear the screen, report and stop.\<close>

definition report_and_stop ::
  "u32 \<Rightarrow> string \<Rightarrow> 'a cpu_driver_scheme \<Rightarrow> 'a cpu_driver_scheme isr_end option" where
  "report_and_stop n msg s = do {
     let s = i386_exception_set_disp s;
     (_, s) \<leftarrow> print_exception n msg s;
     Some (i386_system_stop s)
   }"

definition overflow_isr where "overflow_isr = report_and_stop 0x04 ''Overflow exception''"
definition badopcode_isr where "badopcode_isr = report_and_stop 0x06 ''Bad opcode detected''"
definition doublefault_isr where "doublefault_isr = report_and_stop 0x08 ''CPU Double fault''"
definition invalidtss_isr where "invalidtss_isr = report_and_stop 0x0a ''Invalid Task State Segment''"
definition segnotpresent_isr where "segnotpresent_isr = report_and_stop 0x0b ''Invalid segment / Segment not present''"
definition stacksegfault_isr where "stacksegfault_isr = report_and_stop 0x0c ''Stack Segment Error''"
definition machinecheck_isr where "machinecheck_isr = report_and_stop 0x12 ''Machine Check''"
definition simdexception_isr where "simdexception_isr = report_and_stop 0x13 ''SIMD Floating Point Exception''"

text \<open>The number is pushed without the brackets of a memory operand: it is the address of the variable.\<close>

definition deviceerror_isr :: "u32 \<Rightarrow> 'a cpu_driver_scheme \<Rightarrow> 'a cpu_driver_scheme isr_end option" where
  "deviceerror_isr int_ExceptionNumber = report_and_stop int_ExceptionNumber ''Floating-point instruction with no FPU present''"

text \<open>The message takes the place of the format.\<close>

definition securityexception_isr :: "'a cpu_driver_scheme \<Rightarrow> 'a cpu_driver_scheme isr_end option" where
  "securityexception_isr s = do {
     let s = i386_exception_set_disp s;
     (_, s) \<leftarrow> vprintf (ascii ''Security Exception'') [VaWord 0x1e, VaStr (ascii ''Security Exception'')] s;
     Some (i386_system_stop s)
   }"

definition nmi_isr :: "device \<Rightarrow> 'a cpu_driver_scheme \<Rightarrow> 'a cpu_driver_scheme isr_end option" where
  "nmi_isr dev s = do {
     let s = i386_exception_set_disp s;
     (_, s) \<leftarrow> print_exception 0x02 ''Non-maskable interrupt'' s;
     let (al, s) = inportb dev 0x92 s;
     let al = al AND 0x10;
     if al \<noteq> 0 then Some (i386_system_stop (snd (puts (ascii ''Kernel watchdog timer elapsed!'') s)))
     else do {
       let (al, s) = inportb dev 0x61 s;
       let al = al AND 0x40;
       if al = 0 then Some (i386_system_stop (snd (puts (ascii ''Memory channel error (errant device?)'') s)))
       else do {
         let al = al AND 0x80;
         if al = 0 then Some (i386_system_stop (snd (puts (ascii ''Parity error (memory failure?)'') s)))
         else Some (i386_system_stop (snd (puts (ascii ''Unknown NMI error...'') s)))
       }
     }
   }"

text \<open>The word \<open>i386_stop_system\<close> on a line of its own is a label, not a call: the routine goes on to its
  return, with the two arguments of the last \<open>printf\<close> still on the stack.\<close>

definition genprotectfault_isr :: "u32 \<Rightarrow> u32 list \<Rightarrow> u32 list \<Rightarrow> 'a cpu_driver_scheme \<Rightarrow> 'a cpu_driver_scheme isr_end option" where
  "genprotectfault_isr str_GPFErrorCodeStr regs stack s = do {
     let gpfCode = hd stack;
     let stack = regs @ tl stack;
     let s = i386_exception_set_disp s;
     (eax, s) \<leftarrow> print_exception 0x0d ''General Protection Fault'' s;
     let s = (if eax = 0 then snd (puts (ascii ''A non-segment error caused this fault'') s)
       else (let eax = gpfCode AND 0x02 in
             if eax \<noteq> 0 then snd (puts (ascii ''A segment fault in the IDT caused this fault'') s)
             else (let eax = eax AND 0x04 in
                   if eax \<noteq> 0 then snd (puts (ascii ''A segment fault in the LDT caused this fault'') s)
                   else snd (puts (ascii ''A segment fault in the GDT caused this fault'') s))));
     (_, s) \<leftarrow> vprintf (ascii ''Error code: %d'' @ [10]) [VaWord gpfCode] s;
     let stack = str_GPFErrorCodeStr # gpfCode # stack;
     resume (drop 8 stack) s
   }"

definition pagefault_isr :: "u32 \<Rightarrow> u32 list \<Rightarrow> 'a cpu_driver_scheme \<Rightarrow> 'a cpu_driver_scheme isr_end option" where
  "pagefault_isr cr2 stack s = do {
     let int_pfErrorCode = hd stack;
     let s = i386_exception_set_disp s;
     (_, s) \<leftarrow> print_exception 0x0e ''Page Fault'' s;
     (_, s) \<leftarrow> vprintf (ascii ''Fault Linear Address: 0x%x'' @ [10]) [VaWord cr2] s;
     (_, s) \<leftarrow> vprintf (ascii ''Fault in Page: 0x%x'' @ [10]) [VaWord (cr2 AND 0xfffff000)] s;
     let s = snd (puts (ascii (if int_pfErrorCode AND 0x01 = 0 then ''The requested page was not present in system memory''
       else ''Access violation occurred on page'')) s);
     let s = snd (puts (ascii (if int_pfErrorCode AND 0x02 = 0 then ''The fault occurred during an attempt to read from the page''
       else ''The fault occurred during an attempt to write to the page'')) s);
     let s = snd (puts (ascii (if int_pfErrorCode AND 0x04 = 0 then ''The process was running in kernel mode''
       else ''The process was running in user mode'')) s);
     let s = (if int_pfErrorCode AND 0x08 = 0 then s
       else snd (puts (ascii ''The page fault occured due to reserved field read'') s));
     let s = (if int_pfErrorCode AND 0x10 = 0 then s
       else snd (puts (ascii ''The fault was caused on an instruction fetch'') s));
     Some (i386_system_stop s)
   }"

section \<open>Device interrupts\<close>

definition timer_irq_isr :: "u32 list \<Rightarrow> u32 list \<Rightarrow> 'a cpu_driver_scheme \<Rightarrow> 'a cpu_driver_scheme isr_end option" where
  "timer_irq_isr regs stack s =
     (let stack = regs @ stack;
          s = s\<lparr>pit_tick_count := pit_tick_count s + 1\<rparr>;
          s = outportb 0x20 0x20 s
      in resume (drop 8 stack) s)"

definition read_serial_input :: "'a cpu_driver_scheme \<Rightarrow> 'a cpu_driver_scheme" where
  "read_serial_input s = s"

definition serial_irq_isr :: "u32 list \<Rightarrow> u32 list \<Rightarrow> 'a cpu_driver_scheme \<Rightarrow> 'a cpu_driver_scheme isr_end option" where
  "serial_irq_isr regs stack s =
     (let stack = regs @ stack;
          s = read_serial_input s;
          s = outportb 0x20 0x20 s
      in resume (drop 8 stack) s)"

section \<open>Taking an interrupt\<close>

text \<open>What an exception routine needs beside the stack: the faulting address, two addresses of its data.\<close>

record isr_env =
  fault_address :: u32
  device_number_addr :: u32
  gpf_format_addr :: u32

fun run_isr :: "device \<Rightarrow> isr_env \<Rightarrow> isr \<Rightarrow> u32 list \<Rightarrow> u32 list \<Rightarrow> 'a cpu_driver_scheme \<Rightarrow> 'a cpu_driver_scheme isr_end option" where
  "run_isr dev env i386_defaulthandler regs stack s = defaulthandler_isr regs stack s"
| "run_isr dev env i386_divbyzero regs stack s = divbyzero_isr regs stack s"
| "run_isr dev env i386_debugtrap regs stack s = debugtrap_isr regs stack s"
| "run_isr dev env i386_nmi regs stack s = nmi_isr dev s"
| "run_isr dev env i386_breakpoint regs stack s = breakpoint_isr regs stack s"
| "run_isr dev env i386_overflow regs stack s = overflow_isr s"
| "run_isr dev env i386_bounderror regs stack s = bounderror_isr regs stack s"
| "run_isr dev env i386_badopcode regs stack s = badopcode_isr s"
| "run_isr dev env i386_deviceerror regs stack s = deviceerror_isr (device_number_addr env) s"
| "run_isr dev env i386_doublefault regs stack s = doublefault_isr s"
| "run_isr dev env i386_invalidtss regs stack s = invalidtss_isr s"
| "run_isr dev env i386_segnotpresent regs stack s = segnotpresent_isr s"
| "run_isr dev env i386_stacksegfault regs stack s = stacksegfault_isr s"
| "run_isr dev env i386_genprotectfault regs stack s = genprotectfault_isr (gpf_format_addr env) regs stack s"
| "run_isr dev env i386_pagefault regs stack s = pagefault_isr (fault_address env) stack s"
| "run_isr dev env i386_fpuexception regs stack s = fpuexception_isr regs stack s"
| "run_isr dev env i386_aligncheck regs stack s = aligncheck_isr regs stack s"
| "run_isr dev env i386_machinecheck regs stack s = machinecheck_isr s"
| "run_isr dev env i386_simdexception regs stack s = simdexception_isr s"
| "run_isr dev env i386_virtualizeexception regs stack s = virtualizeexception_isr regs stack s"
| "run_isr dev env i386_securityexception regs stack s = securityexception_isr s"

text \<open>The vectors for which the processor pushes an error code, on top of the frame.\<close>

definition error_code_vectors :: "u32 list" where
  "error_code_vectors = [8, 10, 11, 12, 13, 14, 17, 30]"

definition entry_stack :: "u32 \<Rightarrow> u32 \<Rightarrow> u32 list \<Rightarrow> u32 list" where
  "entry_stack n code pushed = (if n \<in> set error_code_vectors then code # pushed else pushed)"

text \<open>An exception: the gate of its vector is looked up in the descriptor table; the routine there runs with interrupts off.\<close>

definition raise_exception :: "device \<Rightarrow> isr_env \<Rightarrow> (isr \<Rightarrow> u32) \<Rightarrow> u32 \<Rightarrow> u32 \<Rightarrow> u32 list \<Rightarrow> u32 list
    \<Rightarrow> 'a cpu_driver_scheme \<Rightarrow> 'a cpu_driver_scheme isr_end option" where
  "raise_exception dev env addr n code regs pushed s =
     (case dispatch s n of
        None \<Rightarrow> None
      | Some a \<Rightarrow>
          (case filter (\<lambda>h. addr h = a) (i386_defaulthandler # map snd exceptions) of
             [] \<Rightarrow> None
           | h # _ \<Rightarrow> run_isr dev env h regs (entry_stack n code pushed) (s\<lparr>interrupt_flag := False\<rparr>)))"

section \<open>What the routines print\<close>

definition exception_text :: "u32 \<Rightarrow> string \<Rightarrow> u8 list" where
  "exception_text n msg = ascii ''[System Exception 0x'' @ number_bytes lettermap 16 (unat n) @ ascii '']: '' @ ascii msg @ [10, 10]"

definition halt_text :: "u8 list" where
  "halt_text = str_SystemMustHalt1 @ [10] @ str_SystemMustHalt2 @ [10]"

text \<open>The cleared screen in the colour of the exceptions, white on red.\<close>

definition red_screen :: tty where
  "red_screen = tty_show \<lparr>cells = replicate 2000 0x4F20, pos = 0, attr = 0x4F\<rparr>"

definition short_text :: "string \<Rightarrow> bool" where
  "short_text msg \<longleftrightarrow> 255 \<notin> set (ascii msg) \<and> length msg < 1000"

lemma lettermap_plain: "2 \<le> b \<Longrightarrow> b \<le> 36 \<Longrightarrow> 255 \<notin> set (number_bytes lettermap b n)"
  using set_number_bytes [of b lettermap n] by (auto simp: lettermap_def ascii_def)

lemma print_exception_result:
  assumes "short_text msg"
  shows "\<exists>r. print_exception n msg s = Some (r, put_all (exception_text n msg) s) \<and> r \<noteq> 0"
proof -
  let ?t = "exception_text n msg"
  have f: "vformat str_SystemException [VaWord n, VaStr (ascii msg)] = Some ?t"
    by (simp add: str_SystemException_def exception_text_def vformat_eval)
  have "length (number_bytes lettermap 16 (unat n)) \<le> 32" by (rule length_number_bytes_u32) simp
  then have l: "0 < length ?t" "length ?t \<le> 0x7FFFFFFF" using assms by (simp_all add: exception_text_def ascii_def short_text_def)
  have p: "255 \<notin> set ?t" using assms lettermap_plain [of 16] by (auto simp: exception_text_def short_text_def) (auto simp: ascii_def)
  have "print_exception n msg s = Some (of_nat (length ?t), put_all ?t s)"
    using vprintf_loop_result [OF f, of 0 s] l p by (simp add: print_exception_def vprintf_def shown_id)
  moreover have "(of_nat (length ?t) :: u32) \<noteq> 0" using l by (simp add: word_of_nat_eq_0_iff nat_dvd_not_less)
  ultimately show ?thesis by blast
qed

text \<open>A short message that \<open>vprintf\<close> formats is printed.\<close>

lemma print_short:
  assumes "vformat f args = Some t" "255 \<notin> set t" "length t < 1000"
  shows "\<exists>w. vprintf f args s = Some (w, put_all t s)"
  using vprintf_loop_result [OF assms(1), of 0 s] assms(2,3) by (simp add: vprintf_def shown_id)

lemma print_number:
  fixes n :: u32
  assumes "vformat f [VaWord n] = Some (ascii msg @ number_bytes lettermap b (unat n) @ [10])" "2 \<le> b" "b \<le> 36" "short_text msg" "length msg < 900"
  shows "\<exists>w. vprintf f [VaWord n] s = Some (w, put_all (ascii msg @ number_bytes lettermap b (unat n) @ [10]) s)"
proof (rule print_short [OF assms(1)])
  show "255 \<notin> set (ascii msg @ number_bytes lettermap b (unat n) @ [10])"
    using assms(4) lettermap_plain [OF assms(2,3)] by (simp add: short_text_def)
  have "length (number_bytes lettermap b (unat n)) \<le> 32" by (rule length_number_bytes_u32) (rule assms(2))
  then show "length (ascii msg @ number_bytes lettermap b (unat n) @ [10]) < 1000" using assms(5) by (simp add: ascii_def)
qed

lemma set_disp_result:
  "display_ok (i386_exception_set_disp s)" "tty_of (i386_exception_set_disp s) = red_screen"
proof -
  let ?t = "snd (display_change_color I386_EXCEPTION_COLOR s)"
  show "display_ok (i386_exception_set_disp s)" unfolding i386_exception_set_disp_def by (rule display_clear_result)
  have "blank ?t = 0x4F20" "color_attrib ?t = 0x4F"
    by (simp_all add: display_change_color_def I386_EXCEPTION_COLOR_def blank_def CLEAR_SCREEN_CHAR_def)
  then show "tty_of (i386_exception_set_disp s) = red_screen"
    unfolding i386_exception_set_disp_def red_screen_def using display_clear_result(1) [of ?t] by simp
qed

lemma tty_interrupt_flag [simp]: "tty_of (s\<lparr>interrupt_flag := b\<rparr>) = tty_of s" "display_ok (s\<lparr>interrupt_flag := b\<rparr>) = display_ok s"
  by (simp_all add: tty_of_def get_write_location_def display_ok_def)

text \<open>What a routine that stops leaves: the text on the red screen, interrupts off.\<close>

definition stops_with :: "u8 list \<Rightarrow> 'a cpu_driver_scheme isr_end option \<Rightarrow> bool" where
  "stops_with xs r \<longleftrightarrow> (\<exists>s'. r = Some (Stopped s') \<and> \<not> interrupt_flag s' \<and> tty_of s' = fold tty_write (map scast (xs @ halt_text)) red_screen)"

text \<open>The text that the red screen shows so far.\<close>

definition red_shows :: "u8 list \<Rightarrow> 'a display_scheme \<Rightarrow> bool" where
  "red_shows xs s \<longleftrightarrow> display_ok s \<and> tty_of s = fold tty_write (map scast xs) red_screen"

lemma red_shows_start: "red_shows [] (i386_exception_set_disp s)"
  by (simp add: red_shows_def set_disp_result)

lemma red_shows_put: "red_shows xs s \<Longrightarrow> red_shows (xs @ ys) (put_all ys s)"
  using put_all_tty [of s ys] by (simp add: red_shows_def)

lemma red_shows_io: "red_shows xs s \<Longrightarrow> red_shows xs (s\<lparr>io := l\<rparr>)"
  by (simp add: red_shows_def tty_of_def get_write_location_def display_ok_def)

lemma red_shows_first: "red_shows ys (put_all ys (i386_exception_set_disp s))"
  using red_shows_put [OF red_shows_start] by simp

lemma stop_result: "red_shows xs s \<Longrightarrow> stops_with xs (Some (i386_system_stop s))"
  using put_all_tty [of s halt_text]
  by (simp add: red_shows_def stops_with_def i386_system_stop_def puts_result Let_def halt_text_def)

lemma report_and_stop_result:
  assumes "short_text msg"
  shows "stops_with (exception_text n msg) (report_and_stop n msg s)"
proof -
  obtain r where "print_exception n msg (i386_exception_set_disp s) = Some (r, put_all (exception_text n msg) (i386_exception_set_disp s))"
    using print_exception_result [OF assms] by blast
  then show ?thesis by (simp add: report_and_stop_def stop_result red_shows_first)
qed

lemma report_and_return_result:
  assumes "short_text msg" "display_ok s" "length regs = 8"
  shows "\<exists>s'. report_and_return n msg regs stack s = Some (Iretd (take 3 stack) s') \<and> tty_of s' = fold tty_write (map scast (exception_text n msg)) (tty_of s)
    \<and> display_ok s'"
  using print_exception_result [OF assms(1), of n s] put_all_tty [OF assms(2), of "exception_text n msg"] assms(3)
  by (auto simp: report_and_return_def Let_def)

section \<open>The routes of the exceptions\<close>

lemma raise_result:
  assumes "inj addr" "dispatch s n = Some (addr (vector_handler n))"
  shows "raise_exception dev env addr n code regs pushed s
    = run_isr dev env (vector_handler n) regs (entry_stack n code pushed) (s\<lparr>interrupt_flag := False\<rparr>)"
proof -
  let ?l = "i386_defaulthandler # map snd exceptions"
  have "vector_handler n \<in> set ?l"
    by (cases "map_of exceptions n") (auto simp: vector_handler_map dest!: map_of_SomeD intro: rev_image_eqI)
  moreover have "distinct ?l" by (simp add: exceptions_def)
  ultimately have "filter (\<lambda>h. h = vector_handler n) ?l = [vector_handler n]"
    by (induction ?l) (auto simp: exceptions_def vector_handler_map)
  then have "filter (\<lambda>h. addr h = addr (vector_handler n)) ?l = [vector_handler n]"
    using assms(1) by (simp only: inj_eq)
  then show ?thesis unfolding raise_exception_def assms(2) by (simp only: option.case list.case)
qed

text \<open>The vectors whose routines stop the system after one message, and the vectors that have no error
  code and whose routines return, with their messages.\<close>

definition fatal_exceptions :: "(u32 \<times> string) list" where
  "fatal_exceptions = [(4, ''Overflow exception''), (6, ''Bad opcode detected''), (8, ''CPU Double fault''),
     (10, ''Invalid Task State Segment''), (11, ''Invalid segment / Segment not present''), (12, ''Stack Segment Error''),
     (18, ''Machine Check''), (19, ''SIMD Floating Point Exception'')]"

definition resumed_exceptions :: "(u32 \<times> string) list" where
  "resumed_exceptions = [(0, ''Division by zero''), (1, ''Debug Trap''), (3, ''Breakpoint detected''), (5, ''Array index out of bounds''),
     (16, ''Floating point unit exception''), (20, ''Virtualization Exception'')]"

lemmas stopping_isrs = overflow_isr_def badopcode_isr_def doublefault_isr_def invalidtss_isr_def segnotpresent_isr_def
  stacksegfault_isr_def machinecheck_isr_def simdexception_isr_def

lemmas returning_isrs = divbyzero_isr_def debugtrap_isr_def breakpoint_isr_def bounderror_isr_def fpuexception_isr_def
  aligncheck_isr_def virtualizeexception_isr_def

lemma fatal_route:
  assumes "(n, msg) \<in> set fatal_exceptions"
  shows "run_isr dev env (vector_handler n) regs stack s = report_and_stop n msg s" "short_text msg"
  using assms by (auto simp: fatal_exceptions_def vector_handler_map exceptions_def stopping_isrs short_text_def ascii_def)

lemma resumed_route:
  assumes "(n, msg) \<in> set resumed_exceptions"
  shows "run_isr dev env (vector_handler n) regs stack s = report_and_return n msg regs stack s" "short_text msg" "n \<notin> set error_code_vectors"
  using assms by (auto simp: resumed_exceptions_def vector_handler_map exceptions_def returning_isrs short_text_def ascii_def error_code_vectors_def)

text \<open>A kernel in which the descriptor table has just been built.\<close>

definition sample_isr :: "isr \<Rightarrow> u32" where
  "sample_isr = case_isr 1 2 3 4 5 6 7 8 9 10 11 12 13 14 15 16 17 18 19 20 21"

definition sample_running :: cpu_driver where
  "sample_running = (snd (cpu_driver_init sample_pic sample_isr sample_cpu))\<lparr>x_loc := 0, y_loc := 0\<rparr>"

lemma sample_running_ok: "inj sample_isr" "display_ok sample_running"
  "unat n < 256 \<Longrightarrow> dispatch sample_running n = Some (sample_isr (vector_handler n))"
proof -
  have "x = y" if "sample_isr x = sample_isr y" for x y using that by (cases x; cases y) (simp_all add: sample_isr_def)
  then show "inj sample_isr" by (rule injI)
  show "display_ok sample_running" by (simp add: sample_running_def display_ok_def)
  show "dispatch sample_running n = Some (sample_isr (vector_handler n))" if "unat n < 256"
    using cpu_init_result(3) [OF refl that, of sample_pic sample_isr sample_cpu] by (simp add: sample_running_def dispatch_def split: if_splits)
qed

definition sample_env :: isr_env where
  "sample_env = \<lparr>fault_address = 0xDEADBEEF, device_number_addr = 0xC0108000, gpf_format_addr = 0xC0109000\<rparr>"

section \<open>Properties\<close>

text \<open>C15: A fatal exception stops the system: whatever was on the screen, it is cleared to red and shows the
  number and the name of the exception and the final message; interrupts are off.\<close>
theorem fatal_exception_stops:
  assumes "inj addr" "dispatch s n = Some (addr (vector_handler n))" "(n, msg) \<in> set fatal_exceptions"
  shows "stops_with (exception_text n msg) (raise_exception dev env addr n code regs pushed s)"
  unfolding raise_result [OF assms(1,2)] fatal_route(1) [OF assms(3)] by (rule report_and_stop_result [OF fatal_route(2) [OF assms(3)]])

lemma fatal_exception_stops_witness:
  "stops_with (exception_text 8 ''CPU Double fault'') (raise_exception sample_pic sample_env sample_isr 8 0 [] [0xC0101000, 8, 0x202] sample_running)"
  using fatal_exception_stops [OF sample_running_ok(1) sample_running_ok(3)] by (simp add: fatal_exceptions_def)

text \<open>The exceptions without an error code whose routines return print their message and resume the
  interrupted program where the processor says, that is, for a fault, at the instruction that caused it.\<close>
theorem resumed_exception_returns:
  assumes "inj addr" "dispatch s n = Some (addr (vector_handler n))" "(n, msg) \<in> set resumed_exceptions" "display_ok s" "length regs = 8"
  shows "\<exists>s'. raise_exception dev env addr n code regs [eip, cs, eflags] s = Some (Iretd [eip, cs, eflags] s')
    \<and> tty_of s' = fold tty_write (map scast (exception_text n msg)) (tty_of s)"
  unfolding raise_result [OF assms(1,2)] resumed_route(1) [OF assms(3)]
  using report_and_return_result [OF resumed_route(2) [OF assms(3)], of "s\<lparr>interrupt_flag := False\<rparr>" regs n "[eip, cs, eflags]"]
    resumed_route(3) [OF assms(3)] assms(4,5) by (auto simp: entry_stack_def)

lemma resumed_exception_returns_witness:
  "\<exists>s'. raise_exception sample_pic sample_env sample_isr 0 0 [1, 2, 3, 4, 5, 6, 7, 8] [0xC0101000, 8, 0x202] sample_running
    = Some (Iretd [0xC0101000, 8, 0x202] s')"
  using resumed_exception_returns [OF sample_running_ok(1) sample_running_ok(3) _ sample_running_ok(2), of 0 "''Division by zero''" "[1, 2, 3, 4, 5, 6, 7, 8]"]
  by (fastforce simp: resumed_exceptions_def)

text \<open>The alignment check returns without removing the error code: the processor goes on at the address
  that the error code is, in the segment that the interrupted address is.\<close>
theorem alignment_check_jumps_astray:
  assumes "inj addr" "dispatch s 17 = Some (addr (vector_handler 17))" "length regs = 8"
  shows "\<exists>s'. raise_exception dev env addr 17 code regs [eip, cs, eflags] s = Some (Iretd [code, eip, cs] s')"
proof -
  have "short_text ''Alignment check: Unaligned address was accessed in user mode''" by (simp add: short_text_def ascii_def)
  from print_exception_result [OF this, of 17 "s\<lparr>interrupt_flag := False\<rparr>"] show ?thesis
    unfolding raise_result [OF assms(1,2)] using assms(3)
    by (auto simp: vector_handler_map exceptions_def aligncheck_isr_def report_and_return_def entry_stack_def error_code_vectors_def Let_def)
qed

lemma alignment_check_jumps_astray_witness:
  "\<exists>s'. raise_exception sample_pic sample_env sample_isr 17 0 [1, 2, 3, 4, 5, 6, 7, 8] [0xC0101000, 8, 0x202] sample_running
    = Some (Iretd [0, 0xC0101000, 8] s')"
  by (rule alignment_check_jumps_astray [OF sample_running_ok(1) sample_running_ok(3)]) simp_all

text \<open>C35: A general protection fault does not stop the system: the routine returns to the address that ECX
  held, with the value of EAX as the code segment. It never reports the local descriptor table or an
  error without a selector.\<close>
theorem protection_fault_returns_astray:
  assumes "inj addr" "dispatch s 13 = Some (addr (vector_handler 13))"
  shows "\<exists>s'. raise_exception dev env addr 13 code [edi, esi, ebp, esp, ebx, edx, ecx, eax] [eip, cs, eflags] s = Some (Iretd [ecx, eax, eip] s')
    \<and> tty_of s' = fold tty_write (map scast (exception_text 13 ''General Protection Fault''
        @ ascii (if code AND 0x02 = 0 then ''A segment fault in the GDT caused this fault'' else ''A segment fault in the IDT caused this fault'') @ [10]
        @ ascii ''Error code: '' @ number_bytes lettermap 10 (unat code) @ [10])) red_screen"
proof -
  let ?t = "i386_exception_set_disp (s\<lparr>interrupt_flag := False\<rparr>)"
  let ?x = "exception_text 13 ''General Protection Fault''"
  let ?m = "ascii (if code AND 0x02 = 0 then ''A segment fault in the GDT caused this fault'' else ''A segment fault in the IDT caused this fault'') @ [10]"
  let ?e = "ascii ''Error code: '' @ number_bytes lettermap 10 (unat code) @ [10]"
  have "short_text ''General Protection Fault''" by (simp add: short_text_def ascii_def)
  then obtain r where r: "print_exception 13 ''General Protection Fault'' ?t = Some (r, put_all ?x ?t)" "r \<noteq> 0" using print_exception_result by blast
  have f: "vformat (ascii ''Error code: %d'' @ [10]) [VaWord code] = Some ?e" by (simp add: vformat_eval)
  have "short_text ''Error code: ''" by (simp add: short_text_def ascii_def)
  then have v: "\<exists>w. vprintf (ascii ''Error code: %d'' @ [10]) [VaWord code] u = Some (w, put_all ?e u)" for u :: "'a cpu_driver_scheme"
    by (intro print_number [OF f]) simp_all
  obtain w where w: "vprintf (ascii ''Error code: %d'' @ [10]) [VaWord code] (put_all ?m (put_all ?x ?t)) = Some (w, put_all ?e (put_all ?m (put_all ?x ?t)))"
    using v by blast
  have z: "(code AND 2) AND 4 = 0"
  proof -
    have "(2 :: u32) AND 4 = 0" by simp
    then show ?thesis by (simp add: and.assoc)
  qed
  have "raise_exception dev env addr 13 code [edi, esi, ebp, esp, ebx, edx, ecx, eax] [eip, cs, eflags] s
      = Some (Iretd [ecx, eax, eip] (put_all ?e (put_all ?m (put_all ?x ?t))))"
    unfolding raise_result [OF assms] using r w
    by (simp add: vector_handler_map exceptions_def genprotectfault_isr_def entry_stack_def error_code_vectors_def Let_def puts_result
        del: put_all_simps split: if_splits)
  moreover have "tty_of (put_all ?e (put_all ?m (put_all ?x ?t))) = fold tty_write (map scast (?x @ ?m @ ?e)) red_screen"
    using red_shows_first [of "?x @ ?m @ ?e" "s\<lparr>interrupt_flag := False\<rparr>"] by (simp add: red_shows_def)
  ultimately show ?thesis by (intro exI conjI) (assumption, simp only: append_assoc)
qed

lemma protection_fault_returns_astray_witness:
  "\<exists>s'. raise_exception sample_pic sample_env sample_isr 13 0x10 [1, 2, 3, 4, 5, 6, 7, 8] [0xC0101000, 8, 0x202] sample_running
    = Some (Iretd [7, 8, 0xC0101000] s')"
  using protection_fault_returns_astray [OF sample_running_ok(1) sample_running_ok(3)] by fastforce

text \<open>A non-maskable interrupt stops the system, with a message that depends on two ports. The test of bit
  6 of port 0x61 is inverted: a channel error is reported when the bit is clear; when it is set the next
  test looks at bit 7 of the one bit that is left, so that it is always a parity error.\<close>
theorem nmi_misreads_port:
  assumes "inj addr" "dispatch s 2 = Some (addr (vector_handler 2))" "\<And>log. dev log 0x92 = a" "\<And>log. dev log 0x61 = b"
  shows "stops_with (exception_text 2 ''Non-maskable interrupt'' @ ascii (if bit a 4 then ''Kernel watchdog timer elapsed!''
      else if bit b 6 then ''Parity error (memory failure?)'' else ''Memory channel error (errant device?)'') @ [10])
    (raise_exception dev env addr 2 code regs pushed s)"
proof -
  let ?t = "i386_exception_set_disp (s\<lparr>interrupt_flag := False\<rparr>)"
  let ?x = "exception_text 2 ''Non-maskable interrupt''"
  have "short_text ''Non-maskable interrupt''" by (simp add: short_text_def ascii_def)
  then obtain r where r: "print_exception 2 ''Non-maskable interrupt'' ?t = Some (r, put_all ?x ?t)" using print_exception_result by blast
  have bits: "a AND 0x10 = 0 \<longleftrightarrow> \<not> bit a 4" "b AND 0x40 = 0 \<longleftrightarrow> \<not> bit b 6" "(b AND 0x40) AND 0x80 = 0"
    using and_exp_eq_0_iff_not_bit [of a 4] and_exp_eq_0_iff_not_bit [of b 6] by (simp_all add: and.assoc)
  have stop: "stops_with (?x @ ascii m @ [10]) (Some (i386_system_stop (put_all (ascii m @ [10]) ((put_all ?x ?t)\<lparr>io := l\<rparr>))))" for m l
    by (rule stop_result [OF red_shows_put [OF red_shows_io [OF red_shows_first]]])
  show ?thesis
    unfolding raise_result [OF assms(1,2)] using r
    by (simp add: vector_handler_map exceptions_def nmi_isr_def inportb_def Let_def assms(3,4) bits puts_result stop del: put_all_simps)
qed

lemma nmi_misreads_port_witness:
  "stops_with (exception_text 2 ''Non-maskable interrupt'' @ ascii ''Parity error (memory failure?)'' @ [10])
    (raise_exception (\<lambda>log p. if p = 0x61 then 0x40 else 0) sample_env sample_isr 2 0 [] [0xC0101000, 8, 0x202] sample_running)"
  using nmi_misreads_port [OF sample_running_ok(1) sample_running_ok(3), of "\<lambda>log p. if p = 0x61 then 0x40 else 0" 0 "0x40"] by simp

text \<open>What the handler of the page fault says of the error code.\<close>

definition pagefault_text :: "u32 \<Rightarrow> u32 \<Rightarrow> u8 list" where
  "pagefault_text cr2 code = exception_text 14 ''Page Fault''
     @ ascii ''Fault Linear Address: 0x'' @ number_bytes lettermap 16 (unat cr2) @ [10]
     @ ascii ''Fault in Page: 0x'' @ number_bytes lettermap 16 (unat (cr2 AND 0xfffff000)) @ [10]
     @ concat (map (\<lambda>m. ascii m @ [10])
       ([if bit code 0 then ''Access violation occurred on page'' else ''The requested page was not present in system memory'',
         if bit code 1 then ''The fault occurred during an attempt to write to the page'' else ''The fault occurred during an attempt to read from the page'',
         if bit code 2 then ''The process was running in user mode'' else ''The process was running in kernel mode'']
        @ (if bit code 3 then [''The page fault occured due to reserved field read''] else [])
        @ (if bit code 4 then [''The fault was caused on an instruction fetch''] else [])))"

text \<open>C25: A page fault stops the system and the screen shows the faulting address, its page and what the bits
  of the error code that the processor pushed mean.\<close>
theorem page_fault_reports:
  assumes "inj addr" "dispatch s 14 = Some (addr (vector_handler 14))"
  shows "stops_with (pagefault_text (fault_address env) code) (raise_exception dev env addr 14 code regs pushed s)"
proof -
  let ?t = "i386_exception_set_disp (s\<lparr>interrupt_flag := False\<rparr>)"
  let ?x = "exception_text 14 ''Page Fault''" and ?page = "fault_address env AND 0xfffff000"
  let ?a = "ascii ''Fault Linear Address: 0x'' @ number_bytes lettermap 16 (unat (fault_address env)) @ [10]"
  let ?p = "ascii ''Fault in Page: 0x'' @ number_bytes lettermap 16 (unat ?page) @ [10]"
  have sh: "short_text ''Page Fault''" "short_text ''Fault Linear Address: 0x''" "short_text ''Fault in Page: 0x''"
    by (simp_all add: short_text_def ascii_def)
  obtain r where r: "print_exception 14 ''Page Fault'' ?t = Some (r, put_all ?x ?t)" using print_exception_result [OF sh(1)] by blast
  have f: "vformat (ascii ''Fault Linear Address: 0x%x'' @ [10]) [VaWord (fault_address env)] = Some ?a"
    "vformat (ascii ''Fault in Page: 0x%x'' @ [10]) [VaWord ?page] = Some ?p" by (simp_all add: vformat_eval)
  obtain v where v: "vprintf (ascii ''Fault Linear Address: 0x%x'' @ [10]) [VaWord (fault_address env)] (put_all ?x ?t) = Some (v, put_all ?a (put_all ?x ?t))"
    using print_number [OF f(1) _ _ sh(2)] by auto
  obtain w where w: "vprintf (ascii ''Fault in Page: 0x%x'' @ [10]) [VaWord ?page] (put_all ?a (put_all ?x ?t))
      = Some (w, put_all ?p (put_all ?a (put_all ?x ?t)))"
    using print_number [OF f(2) _ _ sh(3)] by auto
  have bits: "code AND 1 = 0 \<longleftrightarrow> \<not> bit code 0" "code AND 2 = 0 \<longleftrightarrow> \<not> bit code 1" "code AND 4 = 0 \<longleftrightarrow> \<not> bit code 2"
      "code AND 8 = 0 \<longleftrightarrow> \<not> bit code 3" "code AND 0x10 = 0 \<longleftrightarrow> \<not> bit code 4"
    using and_exp_eq_0_iff_not_bit [of code 0] and_exp_eq_0_iff_not_bit [of code 1] and_exp_eq_0_iff_not_bit [of code 2]
      and_exp_eq_0_iff_not_bit [of code 3] and_exp_eq_0_iff_not_bit [of code 4] by simp_all
  have "raise_exception dev env addr 14 code regs pushed s = Some (i386_system_stop (put_all (pagefault_text (fault_address env) code) ?t))"
    unfolding raise_result [OF assms(1,2)] using r v w
    by (simp add: vector_handler_map exceptions_def pagefault_isr_def entry_stack_def error_code_vectors_def puts_result bits pagefault_text_def)
  then show ?thesis by (simp only: stop_result [OF red_shows_first])
qed

lemma page_fault_reports_witness:
  "stops_with (pagefault_text 0xDEADBEEF 2) (raise_exception sample_pic sample_env sample_isr 14 2 [] [0xC0101000, 8, 0x202] sample_running)"
  using page_fault_reports [OF sample_running_ok(1) sample_running_ok(3), of sample_env 2 sample_pic] by (simp add: sample_env_def)

end
