(* ===== verification/Interleave.thy ===== *)
theory Interleave
  imports KernelMain Isr "HOL-Library.Sublist"
begin

text \<open>
  The loop of \<open>kernel_main\<close> with the timer's interrupts between its steps. The steps of the loop are
  its accesses to ports and the calls of the display driver; a timer interrupt runs the whole service routine,
  with interrupts off, and resumes the loop where it was. The theories before give what a step does; here
  are the runs.
\<close>

text \<open>Where the loop is: about to call the device, polling its status, about to read the byte, about to put
  the character, after the end of the input.\<close>

datatype echo_pc = Call | Poll | Data | Put i32 | Finished

text \<open>The steps of the loop itself.\<close>

inductive loop_step :: "device \<Rightarrow> (serial_function \<Rightarrow> u32) \<Rightarrow> i32
    \<Rightarrow> echo_pc \<times> 'a serial_scheme \<Rightarrow> echo_pc \<times> 'a serial_scheme \<Rightarrow> bool"
  for dev addr dd where
  call: "find_device_inode dd s = Some n \<Longrightarrow> n \<noteq> 0 \<Longrightarrow> addr Serial_read_char \<noteq> 0
    \<Longrightarrow> load32 (mem s) (dev_readchar (load32 (mem s) (inode_descriptor n))) = addr Serial_read_char
    \<Longrightarrow> loop_step dev addr dd (Call, s) (Poll, s)"
| wait: "inportb dev (serial_port s + LINE_STATUS_REGISTER) s = (v, s') \<Longrightarrow> v AND 1 = 0
    \<Longrightarrow> loop_step dev addr dd (Poll, s) (Poll, s')"
| ready: "inportb dev (serial_port s + LINE_STATUS_REGISTER) s = (v, s') \<Longrightarrow> v AND 1 \<noteq> 0
    \<Longrightarrow> loop_step dev addr dd (Poll, s) (Data, s')"
| data: "inportb dev (serial_port s) s = (b, s') \<Longrightarrow> loop_step dev addr dd (Data, s) (Put (received b), s')"
| echo: "c \<noteq> - 1 \<Longrightarrow> putchar c s = (r, s') \<Longrightarrow> loop_step dev addr dd (Put c, s) (Call, s')"
| eof: "loop_step dev addr dd (Put (- 1), s) (Finished, s)"

text \<open>An interrupt of the timer: the processor finds the stub in the descriptor table, runs it with interrupts off and
  resumes the loop where it was.\<close>

inductive timer_step :: "u32 \<Rightarrow> echo_pc \<times> 'a serial_scheme \<Rightarrow> echo_pc \<times> 'a serial_scheme \<Rightarrow> bool" for timer_irq where
  timer: "interrupt_flag s \<Longrightarrow> dispatch s 0x20 = Some timer_irq \<Longrightarrow> length regs = 8
    \<Longrightarrow> timer_irq_isr regs [eip, cs, eflags] (s\<lparr>interrupt_flag := False\<rparr>) = Some (Iretd [eip, cs, eflags] s')
    \<Longrightarrow> timer_step timer_irq (pc, s) (pc, s'\<lparr>interrupt_flag := True\<rparr>)"

inductive echo_step :: "device \<Rightarrow> (serial_function \<Rightarrow> u32) \<Rightarrow> u32 \<Rightarrow> i32
    \<Rightarrow> echo_pc \<times> 'a serial_scheme \<Rightarrow> echo_pc \<times> 'a serial_scheme \<Rightarrow> bool"
  for dev addr timer_irq dd where
  loop: "loop_step dev addr dd a b \<Longrightarrow> echo_step dev addr timer_irq dd a b"
| interrupt: "timer_step timer_irq a b \<Longrightarrow> echo_step dev addr timer_irq dd a b"

text \<open>A run with the number of interrupts that were taken.\<close>

inductive echo_run :: "device \<Rightarrow> (serial_function \<Rightarrow> u32) \<Rightarrow> u32 \<Rightarrow> i32 \<Rightarrow> nat
    \<Rightarrow> echo_pc \<times> 'a serial_scheme \<Rightarrow> echo_pc \<times> 'a serial_scheme \<Rightarrow> bool"
  for dev addr timer_irq dd where
  start: "echo_run dev addr timer_irq dd 0 a a"
| loop: "echo_run dev addr timer_irq dd n a b \<Longrightarrow> loop_step dev addr dd b c \<Longrightarrow> echo_run dev addr timer_irq dd n a c"
| interrupt: "echo_run dev addr timer_irq dd n a b \<Longrightarrow> timer_step timer_irq b c \<Longrightarrow> echo_run dev addr timer_irq dd (Suc n) a c"

inductive_cases loop_stepE: "loop_step dev addr dd (pc, s) (pc', s')"
inductive_cases timer_stepE: "timer_step timer_irq (pc, s) (pc', s')"

lemmas echo_step_call = loop_step.call [THEN echo_step.loop]
lemmas echo_step_wait = loop_step.wait [THEN echo_step.loop]
lemmas echo_step_ready = loop_step.ready [THEN echo_step.loop]
lemmas echo_step_data = loop_step.data [THEN echo_step.loop]
lemmas echo_step_echo = loop_step.echo [THEN echo_step.loop]
lemmas echo_step_eof = loop_step.eof [THEN echo_step.loop]
lemmas echo_step_timer = timer_step.timer [THEN echo_step.interrupt]

lemma echo_step_cases:
  assumes "echo_step dev addr timer_irq dd (pc, s) (pc', s')"
  obtains (call) n where "pc = Call" "pc' = Poll" "s' = s" "find_device_inode dd s = Some n" "n \<noteq> 0"
    | (wait) v where "pc = Poll" "pc' = Poll" "inportb dev (serial_port s + LINE_STATUS_REGISTER) s = (v, s')" "v AND 1 = 0"
    | (ready) v where "pc = Poll" "pc' = Data" "inportb dev (serial_port s + LINE_STATUS_REGISTER) s = (v, s')" "v AND 1 \<noteq> 0"
    | (data) b where "pc = Data" "pc' = Put (received b)" "inportb dev (serial_port s) s = (b, s')"
    | (echo) c r where "pc = Put c" "pc' = Call" "c \<noteq> - 1" "putchar c s = (r, s')"
    | (eof) "pc = Put (- 1)" "pc' = Finished" "s' = s"
    | (timer) "timer_step timer_irq (pc, s) (pc', s')"
  using assms by (auto elim!: echo_step.cases loop_stepE)

lemma echo_run_steps: "echo_run dev addr timer_irq dd n a b \<Longrightarrow> (echo_step dev addr timer_irq dd)\<^sup>*\<^sup>* a b"
  by (induction rule: echo_run.induct) (auto intro: rtranclp.rtrancl_into_rtrancl echo_step.intros)

section \<open>What a run leaves\<close>

text \<open>The bytes read from a port, and how often the interrupt controller was told that an interrupt is handled.\<close>

definition read_from :: "u16 \<Rightarrow> io_event list \<Rightarrow> u8 list" where
  "read_from p ev = concat (map (\<lambda>e. case e of In q v \<Rightarrow> if q = p then [v] else [] | Out q v \<Rightarrow> []) ev)"

definition acknowledged :: "io_event list \<Rightarrow> nat" where
  "acknowledged ev = length (filter (\<lambda>e. e = Out 0x20 0x20) ev)"

lemma log_simps [simp]:
  "read_from p [] = []" "read_from p (ev @ [In q v]) = (if q = p then read_from p ev @ [v] else read_from p ev)"
  "read_from p (ev @ [Out q v]) = read_from p ev"
  "acknowledged [] = 0" "acknowledged (ev @ [In q v]) = acknowledged ev" "acknowledged (ev @ [Out 0x20 0x20]) = Suc (acknowledged ev)"
  by (simp_all add: read_from_def acknowledged_def)

text \<open>The characters on the screen: those of the bytes read, but the last one while it waits, or when it is the end of the input.\<close>

fun characters :: "echo_pc \<Rightarrow> u8 list \<Rightarrow> u32 list \<Rightarrow> bool" where
  "characters (Put c) bs cs \<longleftrightarrow> map received bs = cs @ [c]"
| "characters Finished bs cs \<longleftrightarrow> map received bs = cs @ [- 1]"
| "characters pc bs cs \<longleftrightarrow> map received bs = cs"

definition echo_inv :: "'a serial_scheme \<Rightarrow> echo_pc \<Rightarrow> 'a serial_scheme \<Rightarrow> io_event list \<Rightarrow> u32 list \<Rightarrow> bool" where
  "echo_inv s0 pc s ev cs \<longleftrightarrow> display_ok s \<and> serial_port s = serial_port s0 \<and> interrupt_flag s = interrupt_flag s0
     \<and> io s = io s0 @ ev \<and> characters pc (read_from (serial_port s0) ev) cs \<and> - 1 \<notin> set cs
     \<and> tty_of s = fold tty_write cs (tty_of s0) \<and> pit_tick_count s = pit_tick_count s0 + of_nat (acknowledged ev)"

text \<open>The service routine and the driver's write, as changes of fields.\<close>

lemma timer_result:
  assumes "timer_step timer_irq (pc, s) (pc', s')"
  shows "s' = s\<lparr>io := io s @ [Out 0x20 0x20], pit_tick_count := pit_tick_count s + 1\<rparr>" "pc' = pc" "interrupt_flag s"
  using assms by (auto simp: timer_irq_isr_def outportb_def Let_def elim!: timer_stepE)

lemma display_write_fields:
  fixes s :: "'a serial_scheme"
  assumes "display_ok s" "s' = display_write c s"
  shows "serial_port s' = serial_port s" "interrupt_flag s' = interrupt_flag s" "io s' = io s"
    "pit_tick_count s' = pit_tick_count s" "display_ok s'" "tty_of s' = tty_write c (tty_of s)"
  using display_write_bounded [OF assms(1), of c] disp.implements [OF assms(1), of c] by (auto simp: assms(2) draws_def)

lemma tty_kept [simp]:
  "tty_of (s\<lparr>io := l\<rparr>) = tty_of s" "display_ok (s\<lparr>io := l\<rparr>) = display_ok s"
  "tty_of (t\<lparr>pit_tick_count := n\<rparr>) = tty_of t" "display_ok (t\<lparr>pit_tick_count := n\<rparr>) = display_ok t"
  by (simp_all add: tty_of_def get_write_location_def display_ok_def)

lemma echo_inv_step:
  assumes "echo_inv s0 pc s ev cs" "echo_step dev addr timer_irq dd (pc, s) (pc', s')"
  shows "\<exists>ev' cs'. echo_inv s0 pc' s' ev' cs'"
  using assms(2)
proof (cases rule: echo_step_cases)
  case (call n)
  then show ?thesis using assms(1) by (intro exI [of _ ev] exI [of _ cs]) (simp add: echo_inv_def)
next
  case (wait v)
  then show ?thesis using assms(1) by (intro exI [of _ "ev @ [In (serial_port s + LINE_STATUS_REGISTER) v]"] exI [of _ cs])
    (auto simp: echo_inv_def inportb_def LINE_STATUS_REGISTER_def Let_def)
next
  case (ready v)
  then show ?thesis using assms(1) by (intro exI [of _ "ev @ [In (serial_port s + LINE_STATUS_REGISTER) v]"] exI [of _ cs])
    (auto simp: echo_inv_def inportb_def LINE_STATUS_REGISTER_def Let_def)
next
  case (data b)
  then show ?thesis using assms(1) by (intro exI [of _ "ev @ [In (serial_port s) b]"] exI [of _ cs])
    (auto simp: echo_inv_def inportb_def Let_def)
next
  case (echo c r)
  have "s' = display_write c s" using echo by (auto simp: putchar_def)
  then show ?thesis using assms(1) echo display_write_fields [of s s' c] by (intro exI [of _ ev] exI [of _ "cs @ [c]"])
    (auto simp: echo_inv_def)
next
  case eof
  then show ?thesis using assms(1) by (intro exI [of _ ev] exI [of _ cs]) (simp add: echo_inv_def)
next
  case timer
  note s' = timer_result [OF timer]
  then show ?thesis using assms(1) by (intro exI [of _ "ev @ [Out 0x20 0x20]"] exI [of _ cs])
    (cases pc; simp add: echo_inv_def s')
qed

text \<open>The loop never acknowledges an interrupt, the service routine does so once.\<close>

lemma loop_step_acknowledged:
  assumes "loop_step dev addr dd (pc, s) (pc', s')" "display_ok s"
  shows "acknowledged (io s') = acknowledged (io s)"
  using assms(1) display_write_fields(3) [OF assms(2) refl]
  by (auto simp: inportb_def putchar_def Let_def elim!: loop_stepE)

lemma timer_step_taken:
  assumes "interrupt_flag s" "dispatch s 0x20 = Some timer_irq"
  shows "timer_step timer_irq (pc, s) (pc, s\<lparr>io := io s @ [Out 0x20 0x20], pit_tick_count := pit_tick_count s + 1\<rparr>)"
proof -
  let ?t = "s\<lparr>interrupt_flag := False, io := io s @ [Out 0x20 0x20], pit_tick_count := pit_tick_count s + 1\<rparr>"
  have "timer_irq_isr (replicate 8 0) [0, 0, 0] (s\<lparr>interrupt_flag := False\<rparr>) = Some (Iretd [0, 0, 0] ?t)"
    by (simp add: timer_irq_isr_def outportb_def Let_def)
  from timer_step.timer [OF assms _ this, of pc] have "timer_step timer_irq (pc, s) (pc, ?t\<lparr>interrupt_flag := True\<rparr>)" by simp
  moreover have "?t\<lparr>interrupt_flag := True\<rparr>
      = s\<lparr>io := io s @ [Out 0x20 0x20], pit_tick_count := pit_tick_count s + 1\<rparr>" using assms(1) by simp
  ultimately show ?thesis by metis
qed

lemma timer_step_acknowledged: "timer_step timer_irq (pc, s) (pc', s') \<Longrightarrow> acknowledged (io s') = Suc (acknowledged (io s))"
  using timer_result by fastforce

lemma acknowledged_append: "acknowledged (ev @ ev') = acknowledged ev + acknowledged ev'"
  by (simp add: acknowledged_def)

lemma echo_inv_run:
  assumes "(echo_step dev addr timer_irq dd)\<^sup>*\<^sup>* (Call, s0) (pc, s)" "display_ok s0"
  shows "\<exists>ev cs. echo_inv s0 pc s ev cs"
  using assms(1)
proof (induction rule: rtranclp_induct2)
  case refl
  show ?case using assms(2) by (intro exI [of _ "[]"]) (simp add: echo_inv_def)
next
  case (step pc s pc' s')
  then show ?case using echo_inv_step by blast
qed

lemma echo_run_acknowledged:
  assumes "echo_run dev addr timer_irq dd n (Call, s0) x" "display_ok s0"
  shows "acknowledged (io (snd x)) = acknowledged (io s0) + n"
  using assms(1)
proof (induction n "(Call, s0)" x rule: echo_run.induct)
  case (loop n b c)
  obtain ev cs where "echo_inv s0 (fst b) (snd b) ev cs"
    using echo_inv_run [of dev addr timer_irq dd s0 "fst b" "snd b"] echo_run_steps [OF loop(1)] assms(2) by auto
  then show ?case using loop_step_acknowledged [of dev addr dd "fst b" "snd b" "fst c" "snd c"] loop by (simp add: echo_inv_def)
next
  case (interrupt n b c)
  then show ?case using timer_step_acknowledged [of timer_irq "fst b" "snd b" "fst c" "snd c"] by simp
qed simp

section \<open>The loop is the run without interrupts\<close>

lemma wait_status_runs:
  "wait_status dev bits s = Some s' \<Longrightarrow> bits = 1 \<Longrightarrow> (echo_step dev addr timer_irq dd)\<^sup>*\<^sup>* (Poll, s) (Data, s')"
proof (induction dev bits s s' rule: wait_status.raw_induct [rotated 1, consumes 1, case_names step])
  case (step f dev bits s s')
  obtain v t where i: "inportb dev (serial_port s + LINE_STATUS_REGISTER) s = (v, t)" by fastforce
  show ?case
  proof (cases "v AND 1 = 0")
    case True
    then have "(echo_step dev addr timer_irq dd)\<^sup>*\<^sup>* (Poll, t) (Data, s')" using step i by simp
    then show ?thesis using echo_step_wait [OF i True] by (meson converse_rtranclp_into_rtranclp)
  next
    case False
    then show ?thesis using step(2,3) i echo_step_ready [OF i False] by auto
  qed
qed

lemma read_runs:
  assumes "read_device_char (serial_code dev addr) dd s = Some (c, s')"
  shows "(echo_step dev addr timer_irq dd)\<^sup>*\<^sup>* (Call, s) (Put c, s')"
proof -
  obtain n where n: "find_device_inode dd s = Some n" "n \<noteq> 0" "addr Serial_read_char \<noteq> 0"
      "load32 (mem s) (dev_readchar (load32 (mem s) (inode_descriptor n))) = addr Serial_read_char"
      "serial_read_char dev s = Some (c, s')"
    using assms by (auto simp: read_device_char_def serial_code_def Let_def split: bind_splits if_splits)
  obtain t where t: "wait_status dev 1 s = Some t"
    using n(5) by (auto simp: serial_read_char_def split: bind_splits)
  obtain b u where b: "inportb dev (serial_port t) t = (b, u)" by fastforce
  then have c: "c = received b" "u = s'"
    using n(5) t by (auto simp: serial_read_char_def received_def SERIAL_BACKSPACE_def SERIAL_END_OF_TEXT_def)
  have "echo_step dev addr timer_irq dd (Call, s) (Poll, s)" using echo_step_call n by fastforce
  moreover have "echo_step dev addr timer_irq dd (Data, t) (Put c, s')" using echo_step_data [OF b] by (simp add: c)
  ultimately show ?thesis using wait_status_runs [OF t refl, of addr timer_irq dd]
    by (meson converse_rtranclp_into_rtranclp rtranclp.rtrancl_into_rtrancl)
qed

lemma echo_loop_runs:
  "echo_loop code dd s = Some s' \<Longrightarrow> code = serial_code dev addr \<Longrightarrow> (echo_step dev addr timer_irq dd)\<^sup>*\<^sup>* (Call, s) (Finished, s')"
proof (induction code dd s s' rule: echo_loop.raw_induct [rotated 1, consumes 1, case_names step])
  case (step f code dd s s')
  obtain c t where r: "read_device_char (serial_code dev addr) dd s = Some (c, t)"
    using step(2,3) by (cases "read_device_char code dd s") auto
  show ?case
  proof (cases "c = - 1")
    case True
    then have "t = s'" using step(2,3) r by simp
    then show ?thesis using read_runs [OF r, of timer_irq] echo_step_eof [of dev addr timer_irq dd t] True by (meson rtranclp.rtrancl_into_rtrancl)
  next
    case False
    obtain k u where p: "putchar c t = (k, u)" by fastforce
    then have "(echo_step dev addr timer_irq dd)\<^sup>*\<^sup>* (Call, u) (Finished, s')" using step r False by simp
    then show ?thesis using read_runs [OF r, of timer_irq] echo_step_echo [OF False p, of dev addr timer_irq dd]
      by (meson converse_rtranclp_into_rtranclp rtranclp_trans)
  qed
qed

section \<open>A port that delivers a text\<close>

lemma reads_read_from: "reads_of p ev = length (read_from p ev)"
  by (induction ev rule: rev_induct) (auto simp: reads_of_def read_from_def split: io_event.splits)

lemma delivers_drop:
  "delivers dev p k (bs @ bs') \<Longrightarrow> delivers dev p (k + length bs) bs'"
proof (induction bs arbitrary: k)
  case (Cons b bs)
  then show ?case using Cons.IH [of "Suc k"] delivers_Cons [of dev p k b "bs @ bs'"] by simp
qed simp

text \<open>What has been read is the beginning of the text, and the device is still the serial port.\<close>

definition undisturbed :: "(serial_function \<Rightarrow> u32) \<Rightarrow> i32 \<Rightarrow> u32 list \<Rightarrow> u32 \<Rightarrow> u8 list \<Rightarrow> u16 \<Rightarrow> echo_pc
    \<Rightarrow> 'a serial_scheme \<Rightarrow> io_event list \<Rightarrow> bool" where
  "undisturbed addr dd ns n bs p pc s ev \<longleftrightarrow> serial_device addr dd s ns n \<and> prefix (read_from p ev) bs
     \<and> pc \<noteq> Put 8 \<and> pc \<noteq> Put 9"

lemma echoed_bytes:
  assumes "list_all echoed cs" "b = 3 \<or> b = 255" "x \<in> set (cs @ [b])"
  shows "received x \<noteq> 8" "received x \<noteq> 9" "received x = - 1 \<Longrightarrow> x \<notin> set cs"
proof -
  consider "echoed x" | "x = 3 \<or> x = 255" "x \<notin> set cs" using assms by (auto simp: list_all_iff echoed_def)
  then have "received x \<noteq> 8 \<and> received x \<noteq> 9 \<and> (received x = - 1 \<longrightarrow> x \<notin> set cs)"
  proof cases
    case 1
    then show ?thesis by (auto simp: echoed_def received_plain scast_control scast_eof)
  next
    case 2
    then have "received x = - 1" by (simp only: received_eof)
    then show ?thesis using 2 by simp
  qed
  then show "received x \<noteq> 8" "received x \<noteq> 9" "received x = - 1 \<Longrightarrow> x \<notin> set cs" by blast+
qed

text \<open>Before the end of the input is read, what is read lies before it.\<close>

lemma prefix_before_end:
  assumes "prefix r (cs @ [b])" "b = 3 \<or> b = 255" "- 1 \<notin> set (map received r)"
  shows "prefix r cs"
  using assms received_eof [of b] by auto

lemma undisturbed_read:
  assumes "echo_inv s0 Data s ev cs'" "undisturbed addr dd ns n (cs @ [b]) (serial_port s0) Data s ev"
    and "delivers dev (serial_port s0) (reads_of (serial_port s0) (io s0)) (cs @ [b])" "b = 3 \<or> b = 255"
  shows "prefix (read_from (serial_port s0) ev @ [dev (io s) (serial_port s0)]) (cs @ [b])"
proof -
  let ?p = "serial_port s0" and ?r = "read_from (serial_port s0) ev"
  have i: "io s = io s0 @ ev" "map received ?r = cs'" "- 1 \<notin> set cs'" using assms(1) by (simp_all add: echo_inv_def)
  have "prefix ?r (cs @ [b])" using assms(2) by (simp add: undisturbed_def)
  then have "prefix ?r cs" using prefix_before_end assms(4) i by metis
  then obtain x xs where x: "cs @ [b] = ?r @ x # xs" by (cases "drop (length ?r) cs") (auto simp: prefix_def)
  have "reads_of ?p (io s) = reads_of ?p (io s0) + length ?r" by (simp only: i reads_of_simps) (simp add: reads_read_from)
  then have "dev (io s) ?p = (cs @ [b]) ! length ?r" using assms(3) x by (simp add: delivers_def)
  then have "dev (io s) ?p = x" by (simp add: x)
  then show ?thesis by (simp add: x)
qed

lemma undisturbed_step:
  fixes s :: "'a serial_scheme"
  assumes "echo_inv s0 pc s ev cs'" "undisturbed addr dd ns n (cs @ [b]) (serial_port s0) pc s ev"
    and "echo_step dev addr timer_irq dd (pc, s) (pc', s')" "io s' = io s0 @ ev'"
    and "delivers dev (serial_port s0) (reads_of (serial_port s0) (io s0)) (cs @ [b])" "b = 3 \<or> b = 255" "list_all echoed cs"
  shows "undisturbed addr dd ns n (cs @ [b]) (serial_port s0) pc' s' ev'"
proof -
  let ?p = "serial_port s0"
  have i: "io s = io s0 @ ev" "serial_port s = ?p" "display_ok s" using assms(1) by (simp_all add: echo_inv_def)
  have D: "serial_device addr dd s ns n" using assms(2) by (simp add: undisturbed_def)
  have same: "serial_device addr dd s' ns n" if "mem s' = mem s" "base_inode s' = base_inode s"
    using serial_device_frame [OF D that(2)] that(1) by simp
  show ?thesis
    using assms(3)
  proof (cases rule: echo_step_cases)
    case (call k)
    then show ?thesis using assms(2,4) i by (simp add: undisturbed_def)
  next
    case (wait v)
    then have "s' = s\<lparr>io := io s @ [In (?p + LINE_STATUS_REGISTER) v]\<rparr>" using i by (auto simp: inportb_def Let_def)
    then show ?thesis using same assms(2,4) i wait by (auto simp: undisturbed_def LINE_STATUS_REGISTER_def)
  next
    case (ready v)
    then have "s' = s\<lparr>io := io s @ [In (?p + LINE_STATUS_REGISTER) v]\<rparr>" using i by (auto simp: inportb_def Let_def)
    then show ?thesis using same assms(2,4) i ready by (auto simp: undisturbed_def LINE_STATUS_REGISTER_def)
  next
    case (data x)
    then have x: "x = dev (io s) ?p" "s' = s\<lparr>io := io s @ [In ?p x]\<rparr>" using i by (auto simp: inportb_def Let_def)
    have e: "ev' = ev @ [In ?p x]" using assms(4) i by (simp add: x(2))
    have pr: "prefix (read_from ?p ev @ [x]) (cs @ [b])" using undisturbed_read assms(1,2,5,6) data x(1) by blast
    then have "x \<in> set (cs @ [b])" by (meson in_set_conv_decomp set_mono_prefix subsetD)
    then show ?thesis using echoed_bytes(1,2) [OF assms(7,6)] pr same x(2) e data by (simp add: undisturbed_def)
  next
    case (echo c r)
    then have c: "s' = display_write c s" "c \<noteq> 8" "c \<noteq> 9" using assms(2) by (auto simp: putchar_def undisturbed_def)
    then have "serial_device addr dd s' ns n" using echo_put [OF D i(3)] by blast
    moreover have "ev' = ev" using display_write_fields(3) [OF i(3) c(1)] assms(4) i(1) by simp
    ultimately show ?thesis using assms(2) echo by (simp add: undisturbed_def)
  next
    case eof
    then show ?thesis using assms(2,4) i by (simp add: undisturbed_def)
  next
    case timer
    note t = timer_result [OF timer]
    have "ev' = ev @ [Out 0x20 0x20]" using assms(4) i by (simp add: t)
    then show ?thesis using same assms(2) by (simp add: undisturbed_def t)
  qed
qed

lemma undisturbed_run:
  fixes s :: "'a serial_scheme"
  assumes "(echo_step dev addr timer_irq dd)\<^sup>*\<^sup>* (Call, s0) (pc, s)" "display_ok s0" "serial_device addr dd s0 ns n"
    and "delivers dev (serial_port s0) (reads_of (serial_port s0) (io s0)) (cs @ [b])" "b = 3 \<or> b = 255" "list_all echoed cs"
  shows "\<exists>ev cs'. echo_inv s0 pc s ev cs' \<and> undisturbed addr dd ns n (cs @ [b]) (serial_port s0) pc s ev"
  using assms(1)
proof (induction rule: rtranclp_induct2)
  case refl
  show ?case using assms(2,3) by (intro exI [of _ "[]"]) (simp add: echo_inv_def undisturbed_def)
next
  case (step pc s pc' s')
  then obtain ev cs' where I: "echo_inv s0 pc s ev cs'" "undisturbed addr dd ns n (cs @ [b]) (serial_port s0) pc s ev" by blast
  obtain ev' cs'' where I': "echo_inv s0 pc' s' ev' cs''" using echo_inv_step [OF I(1) step(2)] by blast
  then have "io s' = io s0 @ ev'" by (simp add: echo_inv_def)
  then show ?case using undisturbed_step [OF I step(2) _ assms(4-6)] I' by blast
qed

text \<open>At the end the screen shows the whole text.\<close>

lemma finished_result:
  assumes "echo_inv s0 Finished s ev cs'" "undisturbed addr dd ns n (cs @ [b]) (serial_port s0) Finished s ev"
    and "b = 3 \<or> b = 255" "list_all echoed cs"
  shows "tty_of s = fold tty_write (map scast cs) (tty_of s0)"
proof -
  let ?r = "read_from (serial_port s0) ev"
  have i: "map received ?r = cs' @ [- 1]" "- 1 \<notin> set cs'" "tty_of s = fold tty_write cs' (tty_of s0)" using assms(1) by (simp_all add: echo_inv_def)
  have pr: "prefix ?r (cs @ [b])" using assms(2) by (simp add: undisturbed_def)
  have "?r = cs @ [b]"
  proof (rule ccontr)
    assume "?r \<noteq> cs @ [b]"
    then have "prefix ?r cs" using pr by auto
    moreover have "?r \<noteq> []" using i(1) by auto
    moreover from this have "received (last ?r) = - 1" using i(1) last_map [of ?r received] by simp
    ultimately have "last ?r \<in> set cs" by (meson last_in_set set_mono_prefix subsetD)
    then show False using \<open>received (last ?r) = - 1\<close> echoed_bytes(3) [OF assms(4,3), of "last ?r"] by simp
  qed
  then have "cs' = map received cs" using i(1) by simp
  moreover have "map received cs = map scast cs"
    using assms(4) by (intro map_cong refl received_plain) (auto simp: list_all_iff echoed_def)
  ultimately show ?thesis using i(3) by simp
qed

text \<open>From every point of an interrupted run the loop can come to its next call, or to the end.\<close>

lemma next_call:
  fixes s :: "'a serial_scheme"
  assumes "responsive dev (serial_port s0 + LINE_STATUS_REGISTER) 1" "addr Serial_read_char \<noteq> 0"
    and "echo_inv s0 pc s ev cs'" "undisturbed addr dd ns n bs (serial_port s0) pc s ev"
  shows "\<exists>pc' s'. (echo_step dev addr timer_irq dd)\<^sup>*\<^sup>* (pc, s) (pc', s') \<and> (pc' = Call \<or> pc' = Finished)"
proof -
  have put: "\<exists>pc' s'. (echo_step dev addr timer_irq dd)\<^sup>*\<^sup>* (Put c, t) (pc', s') \<and> (pc' = Call \<or> pc' = Finished)"
    for c and t :: "'a serial_scheme"
  proof (cases "c = - 1")
    case True
    then show ?thesis using echo_step_eof by blast
  next
    case False
    obtain r u where "putchar c t = (r, u)" by fastforce
    then show ?thesis using echo_step_echo [OF False] by blast
  qed
  have data: "\<exists>pc' s'. (echo_step dev addr timer_irq dd)\<^sup>*\<^sup>* (Data, t) (pc', s') \<and> (pc' = Call \<or> pc' = Finished)"
    for t :: "'a serial_scheme"
  proof -
    obtain b u where "inportb dev (serial_port t) t = (b, u)" by fastforce
    then have "echo_step dev addr timer_irq dd (Data, t) (Put (received b), u)" by (rule echo_step_data)
    then show ?thesis using put [of "received b" u] converse_rtranclp_into_rtranclp [of "echo_step dev addr timer_irq dd"] by metis
  qed
  have "serial_port s = serial_port s0" using assms(3) by (simp add: echo_inv_def)
  then obtain t :: "'a serial_scheme" where "wait_status dev 1 s = Some t" using wait_result [OF assms(1)] by metis
  then have "(echo_step dev addr timer_irq dd)\<^sup>*\<^sup>* (Poll, s) (Data, t)" by (rule wait_status_runs) simp
  then have poll: "\<exists>pc' s'. (echo_step dev addr timer_irq dd)\<^sup>*\<^sup>* (Poll, s) (pc', s') \<and> (pc' = Call \<or> pc' = Finished)"
    using data [of t] rtranclp_trans [of "echo_step dev addr timer_irq dd"] by metis
  show ?thesis using put data poll by (cases pc) blast+
qed

lemma call_finishes:
  fixes s :: "'a serial_scheme"
  assumes "responsive dev (serial_port s0 + LINE_STATUS_REGISTER) 1" "addr Serial_read_char \<noteq> 0"
    and "echo_inv s0 Call s ev cs'" "undisturbed addr dd ns n (cs @ [b]) (serial_port s0) Call s ev"
    and "delivers dev (serial_port s0) (reads_of (serial_port s0) (io s0)) (cs @ [b])" "b = 3 \<or> b = 255" "list_all echoed cs"
  shows "\<exists>s'. (echo_step dev addr timer_irq dd)\<^sup>*\<^sup>* (Call, s) (Finished, s')"
proof -
  let ?p = "serial_port s0" and ?r = "read_from (serial_port s0) ev"
  have i: "io s = io s0 @ ev" "serial_port s = ?p" "display_ok s" "map received ?r = cs'" "- 1 \<notin> set cs'" using assms(3) by (simp_all add: echo_inv_def)
  have u: "serial_device addr dd s ns n" "prefix ?r (cs @ [b])" using assms(4) by (simp_all add: undisturbed_def)
  obtain xs where xs: "cs = ?r @ xs" using prefix_before_end [OF u(2) assms(6)] i(4,5) by (auto elim: prefixE)
  have "reads_of ?p (io s) = reads_of ?p (io s0) + length ?r" by (simp only: i reads_of_simps) (simp add: reads_read_from)
  moreover have "delivers dev ?p (reads_of ?p (io s0)) (?r @ (xs @ [b]))" using assms(5) xs by (metis append.assoc)
  ultimately have "delivers dev ?p (reads_of ?p (io s)) (xs @ [b])" using delivers_drop by metis
  moreover have "list_all echoed xs" using assms(7) by (subst (asm) xs) simp
  ultimately obtain s' :: "'a serial_scheme" where "echo_loop (serial_code dev addr) dd s = Some s'"
    using echo_result [OF u(1) assms(2) i(3) i(2) assms(1) _ _ assms(6)] by blast
  then show ?thesis using echo_loop_runs by blast
qed

section \<open>Properties\<close>

text \<open>C5: Whatever the moments at which the timer interrupts the kernel's loop: at every point of a run with \<open>n\<close>
  interrupts the screen shows the characters of the bytes that were read from the port so far, in order, but for one that
  waits; the tick counter has grown by \<open>n\<close>, the interrupt controller was told \<open>n\<close> times that an interrupt is handled,
  and while interrupts are on the next one can be taken and returns to the loop.\<close>
theorem interrupted_echo_invariant:
  assumes "echo_run dev addr timer_irq dd n (Call, s0) (pc, s)" "display_ok s0"
  shows "\<exists>ev cs. io s = io s0 @ ev \<and> characters pc (read_from (serial_port s0) ev) cs \<and> tty_of s = fold tty_write cs (tty_of s0)
    \<and> pit_tick_count s = pit_tick_count s0 + of_nat n \<and> acknowledged ev = n
    \<and> (interrupt_flag s0 \<and> dispatch s 0x20 = Some timer_irq \<longrightarrow> (\<exists>s'. echo_run dev addr timer_irq dd (Suc n) (Call, s0) (pc, s')))"
proof -
  obtain ev cs where I: "echo_inv s0 pc s ev cs" using echo_inv_run [OF echo_run_steps [OF assms(1)] assms(2)] by blast
  then have "acknowledged ev = n"
    using echo_run_acknowledged [OF assms] by (simp add: echo_inv_def acknowledged_append)
  moreover have "\<exists>s'. echo_run dev addr timer_irq dd (Suc n) (Call, s0) (pc, s')" if "interrupt_flag s0" "dispatch s 0x20 = Some timer_irq"
    using echo_run.interrupt [OF assms(1) timer_step_taken] I that by (auto simp: echo_inv_def)
  ultimately show ?thesis using I unfolding echo_inv_def by blast
qed

definition timed_main :: serial where
  "timed_main = (cpu_install_device sample_pic 0 0xC0107777 (sample_main\<lparr>idtr := (2047, interrupts sample_main)\<rparr>))
     \<lparr>x_loc := 0, y_loc := 0, interrupt_flag := True\<rparr>"

lemma interrupted_echo_invariant_witness:
  "\<exists>s. echo_run typing_port sample_code 0xC0107777 1 1 (Call, timed_main) (Call, s) \<and> pit_tick_count s = pit_tick_count timed_main + 1
    \<and> (\<exists>ev. io s = io timed_main @ ev \<and> acknowledged ev = 1) \<and> tty_of s = tty_of timed_main
    \<and> (\<exists>s'. echo_run typing_port sample_code 0xC0107777 1 2 (Call, timed_main) (Call, s'))"
proof -
  have d: "display_ok timed_main" "interrupt_flag timed_main" by (simp_all add: timed_main_def display_ok_def)
  have t: "dispatch timed_main 0x20 = Some 0xC0107777"
    using cpu_install_device_result [of 0 "0x20" "sample_main\<lparr>idtr := (2047, interrupts sample_main)\<rparr>" sample_pic "0xC0107777"]
    by (simp add: timed_main_def dispatch_def split: if_splits)
  define s where "s = timed_main\<lparr>io := io timed_main @ [Out 0x20 0x20], pit_tick_count := pit_tick_count timed_main + 1\<rparr>"
  have r: "echo_run typing_port sample_code 0xC0107777 1 (Suc 0) (Call, timed_main) (Call, s)"
    unfolding s_def by (rule echo_run.interrupt [OF echo_run.start timer_step_taken [OF d(2) t]])
  have "io s = io timed_main @ [Out 0x20 0x20]" "dispatch s 0x20 = Some 0xC0107777" "read_from p [Out 0x20 0x20] = []" for p
    using t by (simp_all add: s_def dispatch_def read_from_def split: if_splits)
  with interrupted_echo_invariant [OF r d(1)] r d(2) show ?thesis
    by (intro exI [of _ s]) (auto simp: numeral_2_eq_2)
qed

text \<open>C14: The timer's interrupts do not disturb the echo: when the port delivers a text and the end of the
  input, then after any interrupted run the end can still be reached, and at the end the screen shows the text.\<close>
theorem interrupted_echo_finishes:
  fixes s :: "'a serial_scheme"
  assumes "(echo_step dev addr timer_irq dd)\<^sup>*\<^sup>* (Call, s0) (pc, s)" "display_ok s0" "serial_device addr dd s0 ns n"
    and "addr Serial_read_char \<noteq> 0" "responsive dev (serial_port s0 + LINE_STATUS_REGISTER) 1"
    and "delivers dev (serial_port s0) (reads_of (serial_port s0) (io s0)) (cs @ [b])" "b = 3 \<or> b = 255" "list_all echoed cs"
  shows "(\<exists>s'. (echo_step dev addr timer_irq dd)\<^sup>*\<^sup>* (pc, s) (Finished, s'))
    \<and> (pc = Finished \<longrightarrow> tty_of s = fold tty_write (map scast cs) (tty_of s0))"
proof
  note I = undisturbed_run [OF _ assms(2,3,6-8)]
  obtain ev cs' where i: "echo_inv s0 pc s ev cs'" "undisturbed addr dd ns n (cs @ [b]) (serial_port s0) pc s ev" using I [OF assms(1)] by blast
  obtain pc' and t :: "'a serial_scheme" where t: "(echo_step dev addr timer_irq dd)\<^sup>*\<^sup>* (pc, s) (pc', t)" "pc' = Call \<or> pc' = Finished"
    using next_call [OF assms(5,4) i] by blast
  show "\<exists>s'. (echo_step dev addr timer_irq dd)\<^sup>*\<^sup>* (pc, s) (Finished, s')"
  proof (cases "pc' = Finished")
    case False
    then have "(echo_step dev addr timer_irq dd)\<^sup>*\<^sup>* (Call, s0) (Call, t)" using t assms(1) by (meson rtranclp_trans)
    from I [OF this] obtain s' where "(echo_step dev addr timer_irq dd)\<^sup>*\<^sup>* (Call, t) (Finished, s')"
      using call_finishes assms(4-8) by blast
    then show ?thesis using t False by (meson rtranclp_trans)
  qed (use t in blast)
  show "pc = Finished \<longrightarrow> tty_of s = fold tty_write (map scast cs) (tty_of s0)"
    using finished_result [OF _ _ assms(7,8)] i by blast
qed

lemma interrupted_echo_finishes_witness:
  "\<exists>s'. (echo_step typing_port sample_code 0xC0107777 1)\<^sup>*\<^sup>* (Call, sample_main) (Finished, s')"
  using interrupted_echo_finishes [OF rtranclp.rtrancl_refl sample_main_ok(3,1,2), of typing_port "[72, 105]" 3 "0xC0107777"] sample_main_ok(4-7)
  by simp

end
