(* ===== verification/Layout.thy ===== *)
theory Layout
  imports Multiboot KernelMain
begin

text \<open>
  The structures of the C code, as lists of fields, and where the compiler puts their fields: one after the other in a
  packed structure, else each at the next multiple of its alignment. The other theories read and
  write structures in memory at fixed offsets; the lemmas say that these are the offsets of the declarations.
\<close>

text \<open>Types of fields, pointers and \<open>int\<close> being \<open>U32\<close>; a structure inside another has its size.\<close>

datatype ctype = U8 | U16 | U32 | U64 | Inner nat

primrec csize :: "ctype \<Rightarrow> nat" where
  "csize U8 = 1" | "csize U16 = 2" | "csize U32 = 4" | "csize U64 = 8" | "csize (Inner n) = n"

definition calign :: "ctype \<Rightarrow> nat" where
  "calign t = min 4 (csize t)"

definition align_up :: "nat \<Rightarrow> nat \<Rightarrow> nat" where
  "align_up a n = (n + a - 1) div a * a"

datatype cstruct = Packed (fields: "(string \<times> ctype) list") | Padded (fields: "(string \<times> ctype) list")

fun offset_from :: "(ctype \<Rightarrow> nat \<Rightarrow> nat) \<Rightarrow> nat \<Rightarrow> (string \<times> ctype) list \<Rightarrow> string \<Rightarrow> nat option" where
  "offset_from start n [] f = None"
| "offset_from start n ((g, t) # fs) f = (if f = g then Some (start t n) else offset_from start (start t n + csize t) fs f)"

fun offset_of :: "cstruct \<Rightarrow> string \<Rightarrow> nat option" where
  "offset_of (Packed fs) f = offset_from (\<lambda>t n. n) 0 fs f"
| "offset_of (Padded fs) f = offset_from (\<lambda>t. align_up (calign t)) 0 fs f"

fun size_of :: "cstruct \<Rightarrow> nat" where
  "size_of (Packed fs) = sum_list (map (csize \<circ> snd) fs)"
| "size_of (Padded fs) = align_up (Max (insert 1 (calign ` snd ` set fs))) (fold (\<lambda>(f, t) n. align_up (calign t) n + csize t) fs 0)"

text \<open>The address of a field.\<close>

definition member :: "cstruct \<Rightarrow> string \<Rightarrow> u32 \<Rightarrow> u32" where
  "member st f p = p + of_nat (the (offset_of st f))"

section \<open>The structures\<close>

definition MULTIBOOT_INFO :: cstruct where
  "MULTIBOOT_INFO = Packed [(''flags'', U32), (''memorySzLo'', U32), (''memorySzHi'', U32), (''bootDevice'', U32), (''commandLine'', U32),
     (''mods_count'', U32), (''mods_addr'', U32), (''elf_symbol_count'', U32), (''elf_entry_sz'', U32), (''elf_table_addr'', U32),
     (''elf_string_table'', U32), (''mmap_length'', U32), (''mmap_addr'', U32), (''drives_length'', U32), (''drives_addr'', U32),
     (''config_table'', U32), (''bootldr_name'', U32), (''apm_table'', U32), (''vbe_ctrl_info'', U32), (''vbe_mode_info'', U32),
     (''vbe_mode'', U16), (''vbe_interface_seg'', U16), (''vbe_interface_off'', U16), (''vbe_interface_len'', U16)]"

definition MEMORY_MAP_INF :: cstruct where
  "MEMORY_MAP_INF = Packed [(''sz'', U32), (''baseAddr'', U64), (''length'', U64), (''type'', U32)]"

definition MBOOT_MODULE_INF :: cstruct where
  "MBOOT_MODULE_INF = Packed [(''mod_addr_start'', U32), (''mod_addr_end'', U32), (''mod_string'', U32)]"

definition MULTIBOOT2_TAG :: cstruct where
  "MULTIBOOT2_TAG = Packed [(''type'', U32), (''size'', U32)]"

definition MULTIBOOT2_TAG_MEMSZ :: cstruct where
  "MULTIBOOT2_TAG_MEMSZ = Packed [(''tag'', Inner (size_of MULTIBOOT2_TAG)), (''mem_lower'', U32), (''mem_upper'', U32)]"

definition MULTIBOOT2_ENTRY_MMAP :: cstruct where
  "MULTIBOOT2_ENTRY_MMAP = Packed [(''base_addr'', U64), (''length'', U64), (''type'', U32), (''reserved'', U32)]"

definition MULTIBOOT2_TAG_MMAP :: cstruct where
  "MULTIBOOT2_TAG_MMAP = Packed [(''tag'', Inner (size_of MULTIBOOT2_TAG)), (''entry_sz'', U32), (''entry_ver'', U32), (''entries'', Inner 0)]"

definition MEMORY_HEADER :: cstruct where
  "MEMORY_HEADER = Padded [(''next'', U32), (''size'', U32)]"

definition INTERRUPT_DESCRIPTOR_TABLE :: cstruct where
  "INTERRUPT_DESCRIPTOR_TABLE = Packed [(''limit'', U16), (''base'', U32)]"

definition ISR_ENTRY :: cstruct where
  "ISR_ENTRY = Packed [(''offset_low'', U16), (''selector'', U16), (''zero'', U8), (''type_attribute'', U8), (''offset_high'', U16)]"

definition CHARACTER_DEVICE :: cstruct where
  "CHARACTER_DEVICE = Padded [(''_descriptor'', U32), (''major_revision'', U32), (''minor_revision'', U32), (''is_open'', U8),
     (''readchar'', U32), (''read'', U32), (''write'', U32), (''open'', U32), (''close'', U32)]"

definition CHARACTER_DEVICE_INODE :: cstruct where
  "CHARACTER_DEVICE_INODE = Padded [(''inode'', U32), (''device_descriptor'', U32), (''next'', U32)]"

definition KERNEL_PARAMETERS :: cstruct where
  "KERNEL_PARAMETERS = Padded [(''kernel_stack'', U32), (''kernel_heap'', U32), (''kernel_memory_bitmap'', U32),
     (''allocator_total_blocks'', U32), (''allocator_used_blocks'', U32)]"

lemmas structs = KERNEL_PARAMETERS_def MULTIBOOT_INFO_def MEMORY_MAP_INF_def MBOOT_MODULE_INF_def MULTIBOOT2_TAG_def MULTIBOOT2_TAG_MEMSZ_def
  MULTIBOOT2_ENTRY_MMAP_def MULTIBOOT2_TAG_MMAP_def MEMORY_HEADER_def INTERRUPT_DESCRIPTOR_TABLE_def ISR_ENTRY_def
  CHARACTER_DEVICE_def CHARACTER_DEVICE_INODE_def

lemmas layout = structs member_def calign_def align_up_def

section \<open>The offsets in use\<close>

lemma multiboot_layout:
  "mi_flags m p = load32 m (member MULTIBOOT_INFO ''flags'' p)"
  "mi_memorySzLo m p = load32 m (member MULTIBOOT_INFO ''memorySzLo'' p)"
  "mi_memorySzHi m p = load32 m (member MULTIBOOT_INFO ''memorySzHi'' p)"
  "mi_mmap_length m p = load32 m (member MULTIBOOT_INFO ''mmap_length'' p)"
  "mi_mmap_addr m p = load32 m (member MULTIBOOT_INFO ''mmap_addr'' p)"
  "mm_sz m p = load32 m (member MEMORY_MAP_INF ''sz'' p)"
  "mm_data m p = \<lparr>mbase = load64 m (member MEMORY_MAP_INF ''baseAddr'' p), mlength = load64 m (member MEMORY_MAP_INF ''length'' p),
     mtype = load32 m (member MEMORY_MAP_INF ''type'' p)\<rparr>"
  "size_of MEMORY_MAP_INF = 24"
  by (simp_all add: layout mi_flags_def mi_memorySzLo_def mi_memorySzHi_def mi_mmap_length_def mi_mmap_addr_def mm_sz_def mm_data_def)

lemma multiboot2_layout:
  "tag_type m p = load32 m (member MULTIBOOT2_TAG ''type'' p)"
  "tag_size m p = load32 m (member MULTIBOOT2_TAG ''size'' p)"
  "mt_mem_lower m p = load32 m (member MULTIBOOT2_TAG_MEMSZ ''mem_lower'' p)"
  "mt_mem_upper m p = load32 m (member MULTIBOOT2_TAG_MEMSZ ''mem_upper'' p)"
  "mmap_entry_sz m p = load32 m (member MULTIBOOT2_TAG_MMAP ''entry_sz'' p)"
  "mboot2_entry m p = \<lparr>mbase = load64 m (member MULTIBOOT2_ENTRY_MMAP ''base_addr'' p),
     mlength = load64 m (member MULTIBOOT2_ENTRY_MMAP ''length'' p), mtype = load32 m (member MULTIBOOT2_ENTRY_MMAP ''type'' p)\<rparr>"
  by (simp_all add: layout tag_type_def tag_size_def mt_mem_lower_def mt_mem_upper_def mmap_entry_sz_def mboot2_entry_def)

lemma device_layout:
  "dev_descriptor = member CHARACTER_DEVICE ''_descriptor''" "dev_major = member CHARACTER_DEVICE ''major_revision''"
  "dev_minor = member CHARACTER_DEVICE ''minor_revision''" "dev_readchar = member CHARACTER_DEVICE ''readchar''"
  "dev_read = member CHARACTER_DEVICE ''read''" "dev_write = member CHARACTER_DEVICE ''write''"
  "dev_open = member CHARACTER_DEVICE ''open''" "dev_close = member CHARACTER_DEVICE ''close''"
  "DEVICE_SIZE = of_nat (size_of CHARACTER_DEVICE)"
  "inode_number = member CHARACTER_DEVICE_INODE ''inode''" "inode_descriptor = member CHARACTER_DEVICE_INODE ''device_descriptor''"
  "inode_next = member CHARACTER_DEVICE_INODE ''next''" "INODE_SIZE = of_nat (size_of CHARACTER_DEVICE_INODE)"
  by (simp_all add: fun_eq_iff layout dev_fields inode_fields)

text \<open>The early code fills the parameters by index, and the kernel reads them by name.\<close>

lemma kparams_layout:
  "kernel_heap k m = load32 m (member KERNEL_PARAMETERS ''kernel_heap'' k)"
  "kernel_memory_bitmap k m = load32 m (member KERNEL_PARAMETERS ''kernel_memory_bitmap'' k)"
  "allocator_total_blocks k m = load32 m (member KERNEL_PARAMETERS ''allocator_total_blocks'' k)"
  "allocator_used_blocks k m = load32 m (member KERNEL_PARAMETERS ''allocator_used_blocks'' k)"
  by (simp_all add: layout elem_def kernel_heap_def kernel_memory_bitmap_def allocator_total_blocks_def allocator_used_blocks_def)

lemma header_layout:
  "hdr_next m h = load32 m (member MEMORY_HEADER ''next'' h)" "hdr_size m h = load32 m (member MEMORY_HEADER ''size'' h)"
  "size_of MEMORY_HEADER = 8"
  by (simp_all add: layout hdr_next_def hdr_size_def)

lemma entry_layout:
  "isr_entry b i 0 = b + of_nat (size_of ISR_ENTRY) * i" "isr_entry b i 2 = member ISR_ENTRY ''selector'' (isr_entry b i 0)"
  "isr_entry b i 5 = member ISR_ENTRY ''type_attribute'' (isr_entry b i 0)" "isr_entry b i 6 = member ISR_ENTRY ''offset_high'' (isr_entry b i 0)"
  "size_of INTERRUPT_DESCRIPTOR_TABLE = 6"
  by (simp_all add: layout isr_entry_def)

end
