(* ===== verification/Tlb.thy ===== *)
theory Tlb
  imports Heap
begin

text \<open>
  The translation buffer of the processor under the page manager and the heap. The buffer holds translations of pages;
  the processor may add a translation that the page walk gives, and drop one, at any time, and only \<open>invlpg\<close>
  drops one for certain. \<open>invalidate_page\<close> of arch/i386/pagemngr.c gives \<open>invlpg\<close> its own parameter as the memory
  operand: the page that is dropped is the one of that variable, on the stack, whatever page the caller names.
\<close>

type_synonym tlb = "nat \<rightharpoonup> u32"

section \<open>The buffer\<close>

text \<open>The physical address of an access: the buffer first, then the walk.\<close>

definition tlb_lookup :: "tlb \<Rightarrow> 'a pagemngr_scheme \<Rightarrow> u32 \<Rightarrow> u32 option" where
  "tlb_lookup T s va = (case T (frame va) of Some f \<Rightarrow> Some (f + (va AND 0xfff)) | None \<Rightarrow> maps s va)"

definition coherent :: "tlb \<Rightarrow> 'a pagemngr_scheme \<Rightarrow> bool" where
  "coherent T s \<longleftrightarrow> (\<forall>va f. T (frame va) = Some f \<longrightarrow> maps s va = Some (f + (va AND 0xfff)))"

lemma coherent_lookup: "coherent T s \<Longrightarrow> tlb_lookup T s va = maps s va"
  by (auto simp: coherent_def tlb_lookup_def split: option.split)

definition invlpg :: "u32 \<Rightarrow> tlb \<Rightarrow> tlb" where
  "invlpg a T = T(frame a := None)"

text \<open>\<open>slot\<close> is the address of the parameter.\<close>

definition invalidate_page :: "u32 \<Rightarrow> u32 \<Rightarrow> tlb \<Rightarrow> tlb" where
  "invalidate_page slot page_entry T = invlpg slot T"

lemma coherent_drop: "coherent T s \<Longrightarrow> coherent (T(q := None)) s"
  by (auto simp: coherent_def)

text \<open>A page translates as a whole.\<close>

lemma translate_page:
  assumes "translate m pd va = Some pa" "frame vb = frame va"
  shows "translate m pd vb = Some (pa - (va AND 0xfff) + (vb AND 0xfff))"
proof -
  have "unat x div 2 ^ 22 = frame x div 1024" "unat x div 2 ^ 12 mod 1024 = frame x mod 1024" for x :: u32
    by (simp_all add: frame_def div_mult2_eq [symmetric])
  then show ?thesis using assms by (auto simp: translate_def bind_eq_Some_conv simp del: power_numeral)
qed

section \<open>Translations that stay\<close>

definition extends :: "'a pagemngr_scheme \<Rightarrow> 'b pagemngr_scheme \<Rightarrow> bool" where
  "extends s s' \<longleftrightarrow> (\<forall>va pa. maps s va = Some pa \<longrightarrow> maps s' va = Some pa)"

lemma extends_same: "(\<And>va. maps s' va = maps s va) \<Longrightarrow> extends s s'"
  by (simp add: extends_def)

lemma extends_trans: "extends s1 s2 \<Longrightarrow> extends s2 s3 \<Longrightarrow> extends s1 s3"
  by (simp add: extends_def)

lemma extends_coherent: "extends s s' \<Longrightarrow> coherent T s \<Longrightarrow> coherent T s'"
  by (simp add: extends_def coherent_def)

lemma maps_window:
  assumes "vm s dir tabs" "unat va div 2 ^ 22 = 1023"
  shows "maps s va = (let e = dir (unat va div 2 ^ 12 mod 1024) in if bit e 0 then Some (base e + (va AND 0xfff)) else None)"
proof -
  note S = vmD(1) [OF assms(1)]
  define i where "i = unat va div 2 ^ 12 mod 1024"
  then have "i < 1024" by simp
  then have "walk_step (phys s) (cr3 s) i = (if bit (dir i) 0 then Some (base (dir i)) else None)" "walk_step (phys s) (cr3 s) 1023 = Some (cr3 s)"
    using space_walk [OF S, of 1023] space_walk [OF S] spaceD(3,4) [OF S] by simp_all
  then show ?thesis unfolding maps_def translate_def assms(2) i_def [symmetric] by (simp add: Let_def)
qed

text \<open>Mapping a page changes no translation there was, in the window either: a page table appears only where there was none.\<close>

lemma map_extends:
  assumes "tables_ok s" "unat v div 2 ^ 22 < 1023" "pagemngr_map_block p v s = Some (r, s')"
  shows "extends s s'" "tables_ok s'"
proof -
  obtain dir tabs where v: "vm s dir tabs" "tidy dir tabs" "clean s" using assms(1) by (auto simp: tables_ok_def)
  obtain dir' tabs' where m: "vm s' dir' tabs'" "clean s'" "tidy dir' tabs'" "\<And>d. dir d \<noteq> 0 \<Longrightarrow> dir' d = dir d"
    "\<And>va. unat va div 2 ^ 22 < 1023 \<Longrightarrow> maps s' va =
        (if r = 0 \<and> unat va div 4096 = unat v div 4096 then Some (base p + (va AND 0xfff)) else maps s va)"
    "r = 0 \<Longrightarrow> maps s v = None"
    using map_block_result [OF v(1,3) assms(2), of p] assms(3) v(2) by auto
  show "tables_ok s'" using m(1-3) by (auto simp: tables_ok_def)
  show "extends s s'"
    unfolding extends_def
  proof (intro allI impI)
    fix va pa assume a: "maps s va = Some pa"
    show "maps s' va = Some pa"
    proof (cases "unat va div 2 ^ 22 < 1023")
      case True
      have "\<not> (r = 0 \<and> frame va = frame v)"
        using m(6) translate_page [of "phys s" "cr3 s" va pa v] a by (auto simp: maps_def)
      then show ?thesis using m(5) [OF True] a by (auto simp: frame_def)
    next
      case False
      then have w: "unat va div 2 ^ 22 = 1023" using pdir_bound [of va] by simp
      let ?e = "dir (unat va div 2 ^ 12 mod 1024)"
      have e: "bit ?e 0" "pa = base ?e + (va AND 0xfff)" using a maps_window [OF v(1) w] by (simp_all add: Let_def split: if_splits)
      then have "?e \<noteq> 0" by (metis bit_0_eq bot_apply bot_bool_def)
      then show ?thesis using m(4) e maps_window [OF m(1) w] by (simp add: Let_def)
    qed
  qed
qed

lemma allocate_extends:
  assumes "allocate_loop f i n s = Some (0, s')" "tables_ok s" "aligned f" "frame f + (unat n - unat i) \<le> 1047552"
  shows "extends s s'"
  using assms
proof (induction f i n s rule: allocate_loop.induct)
  case (1 f i n s)
  show ?case
  proof (cases "i < n")
    case False
    then show ?thesis using "1.prems"(1) by (simp add: allocate_loop.simps [of f i n s] extends_def)
  next
    case True
    obtain b s1 where a: "balloc_allocate_block s = (b, s1)" by (cases "balloc_allocate_block s")
    have nf: "\<not> (b = 0 \<and> i > 0)"
      using "1.prems"(1) True a by (auto simp: allocate_loop.simps [of f i n s] Let_def bind_eq_Some_conv)
    then obtain r s2 where m: "pagemngr_map_block b f s1 = Some (r, s2)"
      and l: "allocate_loop (f + PAGEMNGR_PAGE_SIZE) (i + 1) n s2 = Some (0, s')"
      using "1.prems"(1) True a by (auto simp: allocate_loop.simps [of f i n s] bind_eq_Some_conv)
    have u: "unat i < unat n" using True by (simp add: word_less_nat_alt)
    then have fw: "frame f < 1047552" using "1.prems"(4) by simp
    note A = tables_alloc [OF "1.prems"(2) a]
    have e1: "extends s s1" using A(2) by (rule extends_same)
    have w: "unat f div 2 ^ 22 < 1023" using fw unfolding below_window .
    note M = map_extends [OF A(1) w m]
    have np: "aligned (f + 4096)" "frame (f + 4096) = Suc (frame f)" using next_page [OF "1.prems"(3)] fw by simp_all
    have "extends s2 s'"
      by (rule "1.IH" [OF True a [symmetric] nf m refl l M(2)])
        (use np "1.prems"(4) u below_u32_next [OF True] in \<open>simp_all add: PAGEMNGR_PAGE_SIZE_def\<close>)
    then show ?thesis using e1 M(1) extends_trans by blast
  qed
qed

text \<open>A break that goes up keeps every translation. What \<open>brk\<close> maps lies below the kernel's stack.\<close>

lemma brk_extends:
  assumes "heap_ok s" "heap_base s \<le> addr" "brk_ptr s \<le> addr" "frame addr < HEAP_LIMIT" "brk addr s = Some (0, s')"
  shows "extends s s'"
proof -
  note H = assms(1) [unfolded heap_ok_def]
  have up: "frame addr < 1048575" using assms(4) by (simp add: HEAP_LIMIT_def)
  have g: "heap_base s \<noteq> 0" "\<not> addr < heap_base s" "tables_ok s" using H assms(2) by auto
  have grows: "extends s s'" if "allocate_new_brk f n s = Some (0, s1)" "aligned f" "frame f + unat n = Suc (frame addr)" "s' = s1\<lparr>brk_ptr := addr\<rparr>" for f n s1
  proof -
    have "extends s s1"
      using allocate_extends [OF that(1) [unfolded allocate_new_brk_def] g(3) that(2)] that(3) assms(4) by (simp add: HEAP_LIMIT_def)
    then show ?thesis by (simp add: that(4) extends_def maps_def)
  qed
  show ?thesis
  proof (cases "brk_ptr s = 0")
    case True
    define n where "n = (PAGEMNGR_PAGE_ALIGN_UP addr - heap_base s) div PAGEMNGR_PAGE_SIZE"
    have al: "aligned (heap_base s)" and fm: "frame (heap_base s) \<le> frame addr" using H frame_mono [OF assms(2)] by simp_all
    have n: "unat n = Suc (frame addr) - frame (heap_base s)"
      unfolding n_def by (rule pages_between [OF page_up(1) [OF up] aligned_unat [OF al]]) (use fm in simp)
    obtain s1 where "allocate_new_brk (heap_base s) n s = Some (0, s1)" "s' = s1\<lparr>brk_ptr := addr\<rparr>"
      using assms(5) g True allocate_loop_outcome
      by (fastforce simp: brk_def n_def Let_def bind_eq_Some_conv allocate_new_brk_def split: if_splits)
    moreover have "frame (heap_base s) + unat n = Suc (frame addr)" using n fm by linarith
    ultimately show ?thesis using grows al by blast
  next
    case False
    have fm: "frame (brk_ptr s) \<le> frame addr" by (rule frame_mono [OF assms(3)])
    show ?thesis
    proof (cases "frame addr = frame (brk_ptr s)")
      case True
      then have "s' = s\<lparr>brk_ptr := addr\<rparr>" using assms(5) g False by (simp add: brk_def page_down_eq Let_def)
      then show ?thesis by (simp add: extends_def maps_def)
    next
      case more: False
      define n where "n = (PAGEMNGR_PAGE_ALIGN_UP addr - PAGEMNGR_PAGE_ALIGN_DOWN (brk_ptr s)) div PAGEMNGR_PAGE_SIZE - 1"
      have d: "unat (PAGEMNGR_PAGE_ALIGN_DOWN (brk_ptr s)) = 4096 * frame (brk_ptr s)"
        unfolding PAGEMNGR_PAGE_ALIGN_DOWN_def by (rule page_mult)
      have "unat ((PAGEMNGR_PAGE_ALIGN_UP addr - PAGEMNGR_PAGE_ALIGN_DOWN (brk_ptr s)) div PAGEMNGR_PAGE_SIZE) = Suc (frame addr) - frame (brk_ptr s)"
        using pages_between [OF page_up(1) [OF up] d] fm by simp
      moreover from this have "(PAGEMNGR_PAGE_ALIGN_UP addr - PAGEMNGR_PAGE_ALIGN_DOWN (brk_ptr s)) div PAGEMNGR_PAGE_SIZE \<noteq> 0"
        using fm by (metis Suc_diff_le nat.simps(3) unat_0)
      ultimately have n: "unat n = frame addr - frame (brk_ptr s)" unfolding n_def by (simp add: unat_minus_one_u32)
      have bl: "frame (brk_ptr s) < 1048575" using fm up by simp
      note u = page_up [OF bl]
      obtain s1 where "allocate_new_brk (PAGEMNGR_PAGE_ALIGN_UP (brk_ptr s)) n s = Some (0, s1)" "s' = s1\<lparr>brk_ptr := addr\<rparr>"
        using assms(5) g False more allocate_loop_outcome
        by (fastforce simp: brk_def n_def Let_def bind_eq_Some_conv allocate_new_brk_def page_down_eq split: if_splits)
      moreover have "frame (PAGEMNGR_PAGE_ALIGN_UP (brk_ptr s)) + unat n = Suc (frame addr)" using n fm u(3) by linarith
      ultimately show ?thesis using grows u(2) by blast
    qed
  qed
qed

section \<open>Runs\<close>

text \<open>The processor caches a translation or drops one; the kernel raises the break, after which the entries that
  \<open>invalidate_page\<close> drops are gone.\<close>

inductive tlb_step :: "u32 \<Rightarrow> tlb \<times> 'a heap_scheme \<Rightarrow> tlb \<times> 'a heap_scheme \<Rightarrow> bool"
  for slot where
  cache: "maps s va = Some pa \<Longrightarrow> tlb_step slot (T, s) (T(frame va \<mapsto> pa - (va AND 0xfff)), s)"
| evict: "tlb_step slot (T, s) (T(q := None), s)"
| grow: "brk addr s = Some (0, s') \<Longrightarrow> heap_base s \<le> addr \<Longrightarrow> brk_ptr s \<le> addr \<Longrightarrow> frame addr < HEAP_LIMIT
    \<Longrightarrow> 2 * (Suc (frame addr) - heap_top s) \<le> free_count s \<Longrightarrow> tlb_step slot (T, s) (invalidate_page slot v T, s')"

lemma coherent_cache:
  assumes "coherent T s" "maps s va = Some pa"
  shows "coherent (T(frame va \<mapsto> pa - (va AND 0xfff))) s"
  unfolding coherent_def
proof (intro allI impI)
  fix vb f assume a: "(T(frame va \<mapsto> pa - (va AND 0xfff))) (frame vb) = Some f"
  show "maps s vb = Some (f + (vb AND 0xfff))"
  proof (cases "frame vb = frame va")
    case True
    then show ?thesis using translate_page [of "phys s" "cr3 s" va pa vb] assms(2) a by (simp add: maps_def)
  next
    case False
    then show ?thesis using assms(1) a by (auto simp: coherent_def)
  qed
qed

lemma tlb_step_ok:
  assumes "tlb_step slot (T, s) (T', s')" "heap_ok s" "coherent T s"
  shows "heap_ok s' \<and> coherent T' s'"
  using assms(1)
proof cases
  case (cache va pa)
  then show ?thesis using assms(2,3) coherent_cache by blast
next
  case (evict q)
  then show ?thesis using assms(2,3) coherent_drop by blast
next
  case (grow addr v)
  have "heap_ok s'" using brk_result [OF assms(2) grow(3-6)] grow(2) by auto
  moreover have "coherent T s'" using extends_coherent [OF brk_extends [OF assms(2) grow(3-5,2)] assms(3)] .
  ultimately show ?thesis using grow(1) coherent_drop by (simp add: invalidate_page_def invlpg_def)
qed

lemma tlb_run_ok:
  assumes "(tlb_step slot)\<^sup>*\<^sup>* (T0, s0) (T, s)" "heap_ok s0" "coherent T0 s0"
  shows "heap_ok s \<and> coherent T s"
  using assms by (induction rule: rtranclp_induct2) (use tlb_step_ok in blast)+

section \<open>Properties\<close>

text \<open>C34: However the processor uses its translation buffer while the heap grows: an access always goes where the page walk
  leads, although the invalidation drops the wrong entry. Mapping changes no translation that there was, and what was not
  mapped cannot be in the buffer.\<close>
theorem heap_growth_coherent:
  assumes "(tlb_step slot)\<^sup>*\<^sup>* (T0, s0) (T, s)" "heap_ok s0" "coherent T0 s0"
  shows "heap_ok s \<and> tlb_lookup T s va = maps s va"
  using tlb_run_ok [OF assms] coherent_lookup by blast

lemma heap_growth_coherent_witness:
  "\<exists>T s pa. (tlb_step 0xffbfff00)\<^sup>*\<^sup>* (Map.empty, sample_heap 7 0) (T, s) \<and> brk_ptr s = 0x6fff \<and> T 5 \<noteq> None
    \<and> tlb_lookup T s 0x5123 = Some pa"
proof -
  have f: "frame 0x6fff = 6" "frame 0x5000 = 5" "frame 0x5123 = 5" by (simp_all add: frame_def)
  note r = sample_heap_fields sample_free_count heap_top_def f HEAP_LIMIT_def
  obtain s :: heap where s: "brk 0x6fff (sample_heap 7 0) = Some (0, s)" "heap_ok s" "brk_ptr s = 0x6fff" "heap_base s = 0x5000"
    using brk_result [OF sample_heap_ok, of "0x6fff"] by (auto simp: r)
  obtain pa where pa: "maps s 0x5123 = Some pa" using s(2) unfolding heap_ok_def by (auto simp: backed_def s(3,4) r)
  let ?T = "(invalidate_page 0xffbfff00 0x6000 Map.empty)(5 \<mapsto> pa - (0x5123 AND 0xfff))"
  have "tlb_step 0xffbfff00 (Map.empty, sample_heap 7 0) (invalidate_page 0xffbfff00 0x6000 Map.empty, s)"
    by (rule tlb_step.grow [OF s(1)]) (simp_all add: r)
  moreover have "tlb_step 0xffbfff00 (invalidate_page 0xffbfff00 0x6000 Map.empty, s) (?T, s)"
    using tlb_step.cache [OF pa] unfolding f .
  ultimately have run: "(tlb_step 0xffbfff00)\<^sup>*\<^sup>* (Map.empty, sample_heap 7 0) (?T, s)" by (rule converse_rtranclp_into_rtranclp [OF _ r_into_rtranclp])
  from heap_growth_coherent [OF run sample_heap_ok, of "0x5123"] have "tlb_lookup ?T s 0x5123 = Some pa" by (simp add: coherent_def pa)
  then show ?thesis using run s(3) by (intro exI [of _ ?T] exI [of _ s] exI [of _ pa]) simp
qed

text \<open>C40: After a page was unmapped its translation stays in the buffer, unless the parameter of \<open>invalidate_page\<close> happens to
  lie on this page: accesses still reach the block, which the page walk does not. An \<open>invlpg\<close> of the page that was
  unmapped would have made them fault.\<close>
theorem unmap_leaves_stale:
  assumes "vm s dir tabs" "unat v div 2 ^ 22 < 1023" "coherent T s" "T (frame v) = Some f" "frame slot \<noteq> frame v"
  shows "\<exists>r s'. pagemngr_unmap_block v s = Some (r, s') \<and> maps s' v = None
    \<and> tlb_lookup (invalidate_page slot v T) s' v = Some (f + (v AND 0xfff)) \<and> tlb_lookup (invlpg v T) s' v = None"
proof -
  have "maps s v \<noteq> None" using assms(3,4) by (simp add: coherent_def)
  from unmap_block_result [OF assms(1,2) this] obtain r s' where "pagemngr_unmap_block v s = Some (r, s')" "maps s' v = None"
    using assms(2) by (metis (full_types))
  then show ?thesis using assms(4,5) by (simp add: tlb_lookup_def invalidate_page_def invlpg_def)
qed

lemma unmap_leaves_stale_witness:
  "\<exists>(s :: pagemngr) r s'. pagemngr_unmap_block 0x5000 s = Some (r, s') \<and> maps s 0x5000 = Some 0x9000 \<and> maps s' 0x5000 = None
    \<and> tlb_lookup (invalidate_page 0xffbfff00 0x5000 [5 \<mapsto> 0x9000]) s' 0x5000 = Some 0x9000"
proof -
  obtain s :: pagemngr and dir tabs where s: "vm s dir tabs" "unat (0x5000 :: u32) div 2 ^ 22 < 1023" "maps s 0x5000 = Some 0x9000"
    using sample_mapped by blast
  have f: "frame 0x5000 = 5" "frame 0xffbfff00 = 0xffbff" by (simp_all add: frame_def)
  have "coherent [5 \<mapsto> 0x9000] s" using coherent_cache [OF _ s(3), of Map.empty] by (simp add: coherent_def f)
  from unmap_leaves_stale [OF s(1,2) this, of "0x9000" "0xffbfff00"] show ?thesis using s(3) by (auto simp: f)
qed

end
